(* ===== verification/Prelude.thy ===== *)
theory Prelude
  imports Main "HOL-Library.Word" "HOL-Library.Char_ord" "HOL-Library.List_Lexorder"
begin

text \<open>
  Shared vocabulary of the development: the machine integers of the LP64 target the code is
  built for, the exceptions the code throws (one constructor per exception class), results
  that may be an exception, the byte view of characters, and the lemmas on lists, words and
  results that several components use.
\<close>

unbundle bit_operations_syntax

section \<open>Machine integers\<close>

type_synonym u8 = "8 word"
type_synonym u16 = "16 word"
type_synonym u32 = "32 word"
type_synonym u64 = "64 word"

named_theorems byte_simps \<open>conversions between characters, bytes and their codes\<close>
named_theorems result_simps \<open>sequencing of computations that may throw\<close>

section \<open>Exceptions and results\<close>

text \<open>
  One constructor per exception class of the code base, with what the exception carries.
  \<open>Undefined_behaviour\<close> stands for an access the C++ standard leaves undefined (a read
  outside an object, a null dereference): the code has no check there, and the model makes
  the missing check visible as a value.
\<close>

datatype exn =
    Runtime_error string
  | Logic_error string
  | Out_of_range string
  | Bad_string_index nat nat            \<comment> \<open>size, index\<close>
  | Bad_alloc
  | Base16_decode_exception string nat  \<comment> \<open>message, offset\<close>
  | Pg_exception string
  | Java_class_exception string
  | Eof_exception
  | Os_exception string
  | Elf_exception string
  | Rpm_parser_exception string
  | Curl_exception string
  | Zlib_inflate_exception string
  | Usage_error string
  | Checksum_mismatch string
  | Unsupported_hash string
  | Queue_without_producers
  | Xml_malformed string "string \<times> u32 \<times> string \<times> string"            \<comment> \<open>what; message, line, before, after\<close>
  | Xml_entity_declaration string "string \<times> u32 \<times> string \<times> string"
  | Xml_illegal_state string
  | Xml_source_error string
  | Assertion_failure
  | Undefined_behaviour string

type_synonym 'a result = "exn + 'a"

abbreviation throw :: "exn \<Rightarrow> 'a result" where
  "throw e \<equiv> Inl e"

abbreviation return :: "'a \<Rightarrow> 'a result" where
  "return x \<equiv> Inr x"

definition bind :: "'a result \<Rightarrow> ('a \<Rightarrow> 'b result) \<Rightarrow> 'b result" where
  "bind m f = (case m of Inl e \<Rightarrow> Inl e | Inr x \<Rightarrow> f x)"

lemma bind_simps [simp, result_simps]:
  "bind (Inl e) f = Inl e"
  "bind (Inr x) f = f x"
  by (simp_all add: bind_def)

lemma bind_cong [fundef_cong]:
  assumes "m = m'" and "\<And>x. m' = Inr x \<Longrightarrow> f x = f' x"
  shows "bind m f = bind m' f'"
  using assms by (cases m') simp_all

lemma bind_eq_Inr [simp]: "bind m f = Inr y \<longleftrightarrow> (\<exists>x. m = Inr x \<and> f x = Inr y)"
  by (cases m) simp_all

lemma bind_eq_Inl: "bind m f = Inl e \<longleftrightarrow> m = Inl e \<or> (\<exists>x. m = Inr x \<and> f x = Inl e)"
  by (cases m) simp_all

lemma bind_assoc: "bind (bind m f) g = bind m (\<lambda>x. bind (f x) g)"
  by (cases m) simp_all

lemma bind_return [simp]: "bind m Inr = m"
  by (cases m) simp_all

text \<open>
  Loops that read from a source until something turns up need not end: their result is an
  option, with \<open>None\<close> for a loop that never returns.
\<close>

type_synonym 'a run = "'a result option"

definition andthen :: "'a run \<Rightarrow> ('a \<Rightarrow> 'b run) \<Rightarrow> 'b run" where
  "andthen m f = (case m of None \<Rightarrow> None | Some r \<Rightarrow> (case r of Inl e \<Rightarrow> Some (Inl e) | Inr x \<Rightarrow> f x))"

lemma andthen_simps [simp, result_simps]:
  "andthen None f = None"
  "andthen (Some (Inl e)) f = Some (Inl e)"
  "andthen (Some (Inr x)) f = f x"
  by (simp_all add: andthen_def)

lemma andthen_cong [fundef_cong]:
  assumes "m = m'" and "\<And>x. m' = Some (Inr x) \<Longrightarrow> f x = f' x"
  shows "andthen m f = andthen m' f'"
  using assms by (auto simp: andthen_def split: option.split sum.split)

lemma andthen_assoc: "andthen (andthen m f) g = andthen m (\<lambda>x. andthen (f x) g)"
  by (auto simp: andthen_def split: option.split sum.split)

lemma andthen_bind: "andthen (Some (bind r f)) g = andthen (Some r) (\<lambda>x. andthen (Some (f x)) g)"
  by (cases r) simp_all

lemma andthen_bind_option:
  "andthen m f = Option.bind m (\<lambda>r. case r of Inl e \<Rightarrow> Some (Inl e) | Inr x \<Rightarrow> f x)"
  by (cases m) (simp_all add: andthen_def)

lemma andthen_mono [partial_function_mono]:
  assumes "mono_option F" and "\<And>y. mono_option (\<lambda>f. G y f)"
  shows "mono_option (\<lambda>f. andthen (F f) (\<lambda>y. G y f))"
proof -
  have "mono_option (\<lambda>f. case r of Inl e \<Rightarrow> Some (Inl e) | Inr y \<Rightarrow> G y f)" for r
    using assms(2) by (cases r) (simp_all add: option.const_mono)
  then have "mono_option (\<lambda>f. Option.bind (F f) (\<lambda>r. case r of Inl e \<Rightarrow> Some (Inl e) | Inr y \<Rightarrow> G y f))"
    by (intro Partial_Function.bind_mono assms(1))
  then show ?thesis unfolding andthen_bind_option .
qed

text \<open>A computation on a state that may throw; the state stays what it is when it throws.\<close>

definition sbind :: "'a result \<times> 's \<Rightarrow> ('a \<Rightarrow> 's \<Rightarrow> 'b result \<times> 's) \<Rightarrow> 'b result \<times> 's" where
  "sbind m f = (case m of (Inl e, s) \<Rightarrow> (Inl e, s) | (Inr x, s) \<Rightarrow> f x s)"

lemma sbind_simps [simp, result_simps]:
  "sbind (Inl e, s) f = (Inl e, s)"
  "sbind (Inr x, s) f = f x s"
  by (simp_all add: sbind_def)

lemma sbind_cong [fundef_cong]:
  assumes "m = m'" and "\<And>x s. m' = (Inr x, s) \<Longrightarrow> f x s = f' x s"
  shows "sbind m f = sbind m' f'"
  using assms by (auto simp: sbind_def split: prod.split sum.split)

lemma sbind_Inr: "sbind m f = (Inr y, s') \<longleftrightarrow> (\<exists>x s. m = (Inr x, s) \<and> f x s = (Inr y, s'))"
  by (auto simp: sbind_def split: prod.split sum.split)

lemma sbind_assoc: "sbind (sbind m f) g = sbind m (\<lambda>x s. sbind (f x s) g)"
  by (auto simp: sbind_def split: prod.split sum.split)

text \<open>The same for a computation that need not end.\<close>

definition rbind :: "('a result \<times> 's) option \<Rightarrow> ('a \<Rightarrow> 's \<Rightarrow> ('b result \<times> 's) option) \<Rightarrow> ('b result \<times> 's) option" where
  "rbind m f = Option.bind m (\<lambda>(r, s). case r of Inl e \<Rightarrow> Some (Inl e, s) | Inr x \<Rightarrow> f x s)"

lemma rbind_simps [simp, result_simps]:
  "rbind None f = None"
  "rbind (Some (Inl e, s)) f = Some (Inl e, s)"
  "rbind (Some (Inr x, s)) f = f x s"
  by (simp_all add: rbind_def)

lemma rbind_cong [fundef_cong]:
  assumes "m = m'" and "\<And>x s. m' = Some (Inr x, s) \<Longrightarrow> f x s = f' x s"
  shows "rbind m f = rbind m' f'"
  using assms by (cases m') (auto simp: rbind_def split: prod.split sum.split)

lemma rbind_Some:
  "rbind m f = Some (r, s') \<longleftrightarrow>
     (\<exists>e. m = Some (Inl e, s') \<and> r = Inl e) \<or> (\<exists>x s. m = Some (Inr x, s) \<and> f x s = Some (r, s'))"
  by (cases m) (auto simp: rbind_def split: prod.split sum.split)

lemma rbind_assoc: "rbind (rbind m f) g = rbind m (\<lambda>y st. rbind (f y st) g)"
  by (cases m) (auto simp: rbind_def split: prod.split sum.split)

lemma rbind_returns:
  "rbind m f = Some (Inr y, s') \<longleftrightarrow> (\<exists>z s. m = Some (Inr z, s) \<and> f z s = Some (Inr y, s'))"
  by (auto simp: rbind_Some)

lemma rbind_mono [partial_function_mono]:
  assumes "mono_option F" and "\<And>y s. mono_option (\<lambda>f. G y s f)"
  shows "mono_option (\<lambda>f. rbind (F f) (\<lambda>y s. G y s f))"
proof -
  have "mono_option (\<lambda>f. case x of (r, s) \<Rightarrow> (case r of Inl e \<Rightarrow> Some (Inl e, s) | Inr y \<Rightarrow> G y s f))" for x
    using assms(2) by (cases x; cases "fst x") (simp_all add: option.const_mono)
  then show ?thesis unfolding rbind_def by (intro Partial_Function.bind_mono assms(1))
qed

text \<open>The lists that a computation gives for the elements of a list, one after the other.\<close>

fun run_concat :: "('a \<Rightarrow> 'b list run) \<Rightarrow> 'a list \<Rightarrow> 'b list run" where
  "run_concat f [] = Some (return [])"
| "run_concat f (x # xs) =
     andthen (f x) (\<lambda>ys. andthen (run_concat f xs) (\<lambda>zs. Some (return (ys @ zs))))"

lemma andthen_return [simp]: "andthen m (\<lambda>x. Some (Inr x)) = m"
  by (auto simp: andthen_def split: option.split sum.split)

lemma andthen_returns:
  assumes "\<exists>r. m = Some r" and "\<And>x. m = Some (Inr x) \<Longrightarrow> \<exists>r. f x = Some r"
  shows "\<exists>r. andthen m f = Some r"
  using assms by (auto simp: andthen_def split: sum.split)

lemma run_concat_returns: "(\<And>x. x \<in> set xs \<Longrightarrow> \<exists>r. f x = Some r) \<Longrightarrow> \<exists>r. run_concat f xs = Some r"
  by (induction xs) (auto intro!: andthen_returns)

text \<open>\<open>std::bad_string_index\<close> derives from \<open>std::out_of_range\<close>.\<close>

fun is_out_of_range :: "exn \<Rightarrow> bool" where
  "is_out_of_range (Out_of_range _) = True"
| "is_out_of_range (Bad_string_index _ _) = True"
| "is_out_of_range _ = False"

fun is_undefined :: "exn \<Rightarrow> bool" where
  "is_undefined (Undefined_behaviour _) = True"
| "is_undefined _ = False"

section \<open>Characters and bytes\<close>

text \<open>
  A \<open>char\<close> is a byte. \<open>ucode\<close> is its value as \<open>unsigned char\<close>, \<open>scode\<close> its value
  as the (signed) \<open>char\<close> of the target.
\<close>

abbreviation ucode :: "char \<Rightarrow> nat" where
  "ucode c \<equiv> of_char c"

definition scode :: "char \<Rightarrow> int" where
  "scode c = (let n = (of_char c :: int) in if n < 128 then n else n - 256)"

definition byte_of_char :: "char \<Rightarrow> u8" where
  "byte_of_char c = of_nat (ucode c)"

definition char_of_byte :: "u8 \<Rightarrow> char" where
  "char_of_byte b = char_of (unat b)"

abbreviation NUL :: char where
  "NUL \<equiv> CHR 0x00"

lemma unat_byte_of_char [simp, byte_simps]: "unat (byte_of_char c) = ucode c"
  by (simp add: byte_of_char_def unsigned_of_nat take_bit_eq_mod)

lemma char_of_byte_of_char [simp, byte_simps]: "char_of_byte (byte_of_char c) = c"
  by (simp add: char_of_byte_def)

lemma unat_u8_less [simp]: "unat b < 256" for b :: u8
  using unsigned_less [of b, where ?'a = nat] by simp

lemma ucode_char_of_byte [simp, byte_simps]: "ucode (char_of_byte b) = unat b"
  by (simp add: char_of_byte_def)

lemma byte_of_char_of_byte [simp, byte_simps]: "byte_of_char (char_of_byte b) = b"
  by (simp add: word_unat_eq_iff)

lemma ucode_eq_0 [simp]: "ucode c = 0 \<longleftrightarrow> c = NUL"
proof -
  have "ucode c = ucode NUL \<longleftrightarrow> c = NUL" by (rule of_char_eq_iff)
  then show ?thesis by simp
qed

text \<open>The C string that \<open>std::string::c_str()\<close> gives: it ends at the first NUL.\<close>

definition cstr :: "string \<Rightarrow> string" where
  "cstr s = takeWhile (\<lambda>c. c \<noteq> NUL) s"

text \<open>A fact about every byte is checked on the 256 values.\<close>

lemma u8_all: "list_all (\<lambda>n. P (word_of_nat n :: u8)) [0..<256] \<Longrightarrow> P b"
proof -
  assume "list_all (\<lambda>n. P (word_of_nat n :: u8)) [0..<256]"
  then have "\<forall>n \<in> {0..<256}. P (word_of_nat n)" by (simp add: list_all_iff)
  then have "P (word_of_nat (unat b))" by (rule bspec) simp
  then show ?thesis by simp
qed

text \<open>Reading one element of a C++ object: out of bounds is undefined.\<close>

definition byte_at :: "'a list \<Rightarrow> nat \<Rightarrow> 'a result" where
  "byte_at source i =
     (if i < length source then return (source ! i)
      else throw (Undefined_behaviour ''read past the end''))"

lemma byte_at_ok [simp]: "i < length source \<Longrightarrow> byte_at source i = Inr (source ! i)"
  by (simp add: byte_at_def)

section \<open>Lists\<close>

lemma takeWhile_append_stop:
  "\<forall>x \<in> set xs. P x \<Longrightarrow> \<not> P y \<Longrightarrow> takeWhile P (xs @ y # ys) = xs"
  by (induction xs) auto

lemma dropWhile_append_stop:
  "\<forall>x \<in> set xs. P x \<Longrightarrow> \<not> P y \<Longrightarrow> dropWhile P (xs @ y # ys) = y # ys"
  by (induction xs) auto

lemma length_takeWhile_less_iff:
  "length (takeWhile P xs) < length xs \<longleftrightarrow> (\<exists>x \<in> set xs. \<not> P x)"
  by (induction xs) auto

lemma filter_eq_append:
  assumes "filter P xs = as @ bs"
  obtains us vs where "xs = us @ vs" and "filter P us = as" and "filter P vs = bs"
  using assms
proof (induction as arbitrary: xs thesis)
  case Nil
  then show ?case by (metis append_Nil filter.simps(1))
next
  case (Cons a as)
  then obtain ps qs where xs: "xs = ps @ a # qs" "\<forall>x \<in> set ps. \<not> P x" "P a" "filter P qs = as @ bs"
    by (auto simp: filter_eq_Cons_iff)
  obtain us vs where "qs = us @ vs" "filter P us = as" "filter P vs = bs"
    using Cons.IH [OF _ xs(4)] by blast
  with xs show ?case by (intro Cons.prems(1) [of "ps @ a # us" vs]) (auto simp: filter_empty_conv)
qed

lemma sum_list_map_update:
  fixes f :: "'a \<Rightarrow> 'b::comm_monoid_add"
  assumes "i < length xs"
  shows "sum_list (map f (xs[i := x])) + f (xs ! i) = sum_list (map f xs) + f x"
  using assms
proof (induction xs arbitrary: i)
  case (Cons y xs)
  show ?case
  proof (cases i)
    case 0
    then show ?thesis by (simp add: add_ac)
  next
    case (Suc j)
    then have "sum_list (map f (xs[j := x])) + f (xs ! j) = sum_list (map f xs) + f x" using Cons by simp
    then show ?thesis using Suc by (simp add: add.assoc)
  qed
qed simp

text \<open>Induction two elements at a time, for code that reads its input in pairs.\<close>

lemma list_induct_pairs [case_names Nil Single Pair]:
  assumes "P []" and "\<And>x. P [x]" and "\<And>x y zs. P zs \<Longrightarrow> P (x # y # zs)"
  shows "P xs"
  using assms by (induction xs rule: induct_list012) blast+

section \<open>Decimal numbers\<close>

text \<open>The digits of a number, most significant first, as \<open>printf\<close> writes them.\<close>

fun dec :: "nat \<Rightarrow> string" where
  "dec n = (if n < 10 then [char_of (48 + n)] else dec (n div 10) @ [char_of (48 + n mod 10)])"

declare dec.simps [simp del]

lemma dec_not_Nil [simp]: "dec n \<noteq> []"
  by (subst dec.simps) simp

lemma ucode_digit [simp]: "d < 10 \<Longrightarrow> ucode (char_of (48 + d)) = 48 + d"
  by simp

lemma dec_digits: "c \<in> set (dec n) \<Longrightarrow> 48 \<le> ucode c \<and> ucode c \<le> 57"
proof (induction n rule: dec.induct)
  case (1 n)
  show ?case
  proof (cases "n < 10")
    case True
    with "1.prems" show ?thesis by (auto simp: dec.simps [of n])
  next
    case False
    with "1.prems" consider "c \<in> set (dec (n div 10))" | "c = char_of (48 + n mod 10)"
      by (auto simp: dec.simps [of n])
    then show ?thesis
      using "1.IH" [OF False] by cases auto
  qed
qed

end
