(* ===== verification/Base16.thy ===== *)
theory Base16
  imports Prelude
begin

text \<open>
  Hexadecimal encoding (\<open>include/cxxll/base16.hpp\<close>): the encoder, the decoder over an
  iterator range and the decoder over a NUL-terminated string. Both decoders write through
  an output iterator, so what was written before an exception stays written; a decoder run
  is therefore modelled by the pair of the bytes written and the exception, if any.
\<close>

section \<open>Definitions\<close>

definition digits :: "string" where
  "digits = ''0123456789abcdef''"

fun base16_encode :: "u8 list \<Rightarrow> string" where
  "base16_encode [] = []"
| "base16_encode (b # bs) =
     (let ch = b AND 0xff
      in digits ! unat (drop_bit 4 ch) # digits ! unat (ch AND 0x0f) # base16_encode bs)"

text \<open>The digit test of the decoders: three ranges, in the order of the code.\<close>

definition hex_value :: "char \<Rightarrow> nat option" where
  "hex_value c = (let ch = ucode c in
     if ucode (CHR ''0'') \<le> ch \<and> ch \<le> ucode (CHR ''9'') then Some (ch - ucode (CHR ''0''))
     else if ucode (CHR ''A'') \<le> ch \<and> ch \<le> ucode (CHR ''F'') then Some (10 + ch - ucode (CHR ''A''))
     else if ucode (CHR ''a'') \<le> ch \<and> ch \<le> ucode (CHR ''f'') then Some (10 + ch - ucode (CHR ''a''))
     else None)"

definition pack :: "nat \<Rightarrow> nat \<Rightarrow> u8" where
  "pack val1 val2 = push_bit 4 (of_nat val1) OR of_nat val2"

abbreviation invalid_digit :: "nat \<Rightarrow> exn" where
  "invalid_digit off \<equiv> Base16_decode_exception ''invalid hexadecimal digit'' off"

abbreviation odd_digits :: "nat \<Rightarrow> exn" where
  "odd_digits off \<equiv> Base16_decode_exception ''odd number of digits'' off"

fun base16_decode_from :: "nat \<Rightarrow> string \<Rightarrow> u8 list \<times> exn option" where
  "base16_decode_from offset [] = ([], None)"
| "base16_decode_from offset (ch1 # rest) =
     (case hex_value ch1 of
        None \<Rightarrow> ([], Some (invalid_digit offset))
      | Some val1 \<Rightarrow>
          (case rest of
             [] \<Rightarrow> ([], Some (odd_digits offset))
           | ch2 # rest' \<Rightarrow>
               (case hex_value ch2 of
                  None \<Rightarrow> ([], Some (invalid_digit (offset + 1)))
                | Some val2 \<Rightarrow>
                    (let (out, e) = base16_decode_from (offset + 2) rest'
                     in (pack val1 val2 # out, e)))))"

definition base16_decode :: "string \<Rightarrow> u8 list \<times> exn option" where
  "base16_decode s = base16_decode_from 0 s"

text \<open>
  The second overload walks a \<open>const char *\<close> up to its NUL. Its argument is the memory
  from the pointer on; running off that memory is undefined.
\<close>

fun base16_decode_cstr_from :: "nat \<Rightarrow> string \<Rightarrow> u8 list \<times> exn option" where
  "base16_decode_cstr_from offset [] =
     ([], Some (Undefined_behaviour ''base16_decode: no NUL''))"
| "base16_decode_cstr_from offset (ch1 # rest) =
     (if ch1 = NUL then ([], None)
      else case hex_value ch1 of
        None \<Rightarrow> ([], Some (invalid_digit offset))
      | Some val1 \<Rightarrow>
          (case rest of
             [] \<Rightarrow> ([], Some (Undefined_behaviour ''base16_decode: no NUL''))
           | ch2 # rest' \<Rightarrow>
               if ch2 = NUL then ([], Some (odd_digits offset))
               else
               (case hex_value ch2 of
                  None \<Rightarrow> ([], Some (invalid_digit (offset + 1)))
                | Some val2 \<Rightarrow>
                    (let (out, e) = base16_decode_cstr_from (offset + 2) rest'
                     in (pack val1 val2 # out, e)))))"

definition base16_decode_cstr :: "string \<Rightarrow> u8 list \<times> exn option" where
  "base16_decode_cstr buf = base16_decode_cstr_from 0 buf"

section \<open>Digits\<close>

lemma nibble_range:
  "n < (16::nat) \<Longrightarrow> n \<in> {0, 1, 2, 3, 4, 5, 6, 7, 8, 9, 10, 11, 12, 13, 14, 15}"
  by (simp add: numeral_eq_Suc less_Suc_eq)

lemma hex_value_digits: "n < 16 \<Longrightarrow> hex_value (digits ! n) = Some n"
  by (drule nibble_range, elim insertE) (simp_all add: hex_value_def digits_def)

lemma hex_value_less_16: "hex_value c = Some v \<Longrightarrow> v < 16"
  by (auto simp: hex_value_def Let_def split: if_splits)

lemma hex_value_NUL [simp]: "hex_value NUL = None"
  by (simp add: hex_value_def)

lemma unat_high_nibble: "unat (drop_bit 4 b) = unat b div 16" for b :: u8
  by (simp add: drop_bit_eq_div unat_div)

lemma unat_low_nibble: "unat (b AND 0x0f) = unat b mod 16" for b :: u8
proof -
  have "b AND 0x0f = b AND mask 4"
    by (simp add: mask_eq_exp_minus_1)
  also have "\<dots> = take_bit 4 b"
    by (rule take_bit_eq_mask [symmetric])
  finally show ?thesis
    by (simp add: take_bit_eq_mod unat_mod)
qed

lemma unat_pack:
  assumes "v1 < 16" and "v2 < 16"
  shows "unat (pack v1 v2) = 16 * v1 + v2"
  using assms [THEN nibble_range] by (elim insertE; simp add: pack_def)

lemma byte_and_ff [simp]: "b AND 0xff = b" for b :: u8
proof -
  have "(0xff :: u8) = - 1" by simp
  then show ?thesis by (simp only: and.right_neutral)
qed

lemma hex_values_encode: "list_all (\<lambda>c. hex_value c \<noteq> None) (base16_encode bs)"
  by (induction bs)
    (simp_all add: Let_def hex_value_digits unat_high_nibble unat_low_nibble
      less_mult_imp_div_less)

section \<open>Round trip\<close>

lemma pack_nibbles: "pack (unat b div 16) (unat b mod 16) = b"
  by (simp add: word_unat_eq_iff unat_pack less_mult_imp_div_less)

lemma decode_from_encode: "base16_decode_from off (base16_encode bs) = (bs, None)"
  by (induction bs arbitrary: off)
    (simp_all add: Let_def hex_value_digits unat_high_nibble unat_low_nibble
      less_mult_imp_div_less pack_nibbles)

text \<open>
  Decoding the hexadecimal encoding of any byte string gives the bytes back, with no
  exception.
\<close>

theorem base16_roundtrip: "base16_decode (base16_encode bs) = (bs, None)"
  by (simp add: base16_decode_def decode_from_encode)

section \<open>What the decoder accepts and how it fails\<close>

definition good_digits :: "string \<Rightarrow> nat" where
  "good_digits s = length (takeWhile (\<lambda>c. hex_value c \<noteq> None) s)"

lemma good_digits_simps [simp]:
  "good_digits [] = 0"
  "good_digits (c # s) = (if hex_value c = None then 0 else Suc (good_digits s))"
  by (simp_all add: good_digits_def)

definition decode_error :: "nat \<Rightarrow> string \<Rightarrow> exn option" where
  "decode_error off s =
     (if good_digits s < length s then Some (invalid_digit (off + good_digits s))
      else if odd (length s) then Some (odd_digits (off + length s - 1))
      else None)"

lemma decode_from_spec:
  "snd (base16_decode_from off s) = decode_error off s \<and>
   length (fst (base16_decode_from off s)) = good_digits s div 2"
proof (induction s arbitrary: off rule: list_induct_pairs)
  case Nil
  then show ?case by (simp add: decode_error_def)
next
  case (Single x)
  then show ?case by (simp add: decode_error_def split: option.split)
next
  case (Pair x y zs)
  from Pair [of "off + 2"] show ?case
    by (auto simp: decode_error_def split: option.split prod.split)
qed

text \<open>
  The decoder accepts exactly the strings of even length made of hexadecimal digits. On
  any other string it throws: at the first character that is no digit, with the offset of
  that character; and, when all characters are digits, at the last one, for an odd number of
  digits. One byte has been written for every complete pair of digits before that point.
\<close>

theorem base16_decode_outcome:
  "snd (base16_decode s) = decode_error 0 s \<and>
   length (fst (base16_decode s)) = good_digits s div 2"
  by (simp add: base16_decode_def decode_from_spec)

lemma decode_from_cstr:
  "NUL \<notin> set s \<Longrightarrow> base16_decode_cstr_from off (s @ NUL # t) = base16_decode_from off s"
  by (induction s arbitrary: off rule: list_induct_pairs)
    (auto split: option.split prod.split)

text \<open>
  The overload for NUL-terminated strings agrees with the iterator overload on the
  characters before the terminator, whatever follows it, error reports included.
\<close>

theorem base16_decode_cstr_eq:
  assumes "NUL \<notin> set s"
  shows "base16_decode_cstr (s @ NUL # t) = base16_decode s"
  by (simp add: base16_decode_cstr_def base16_decode_def decode_from_cstr [OF assms])

theorem base16_decode_cstr_eq_witness:
  "NUL \<notin> set ''4aG'' \<and>
   base16_decode_cstr (''4aG'' @ NUL # ''zz'') = ([74], Some (invalid_digit 2))"
proof -
  have h: "NUL \<notin> set ''4aG''" by simp
  have "base16_decode ''4aG'' = ([74], Some (invalid_digit 2))"
    by (simp add: base16_decode_def hex_value_def pack_def)
  then show ?thesis
    using h base16_decode_cstr_eq [OF h, of "''zz''"] by simp
qed

end
