(* ===== verification/Strings.thy ===== *)
theory Strings
  imports Base16
begin

text \<open>
  String utilities: quoting, trimming, number parsing, prefix and suffix tests and the lock
  hash of \<open>lib/cxxll/string_support.cpp\<close>, the URL combination of \<open>lib/cxxll/url.cpp\<close>
  and the XML sniffer of \<open>include/cxxll/looks_like_xml.hpp\<close>. A \<open>std::string\<close> is a
  \<open>string\<close>; a pair of pointers into it is the suffix that starts at the pointer.
\<close>

section \<open>Quoting\<close>

definition needs_quoting :: "char \<Rightarrow> bool" where
  "needs_quoting c = (let ch = ucode c in
     ch \<le> 0x20 \<or> c = CHR 0x5C \<or> c = CHR 0x22 \<or> c = CHR 0x27 \<or> ch \<ge> 0x7f)"

text \<open>One character of the inner loop; \<open>std::hex\<close> with width 2 and fill 0 prints two digits.\<close>

definition quote_char :: "char \<Rightarrow> string" where
  "quote_char c = (let ch = ucode c in
     if c = CHR 0x0D then [CHR 0x5C, CHR ''r'']
     else if c = CHR 0x0A then [CHR 0x5C, CHR ''n'']
     else if c = CHR 0x09 then [CHR 0x5C, CHR ''t'']
     else if c = CHR 0x22 \<or> c = CHR 0x27 \<or> c = CHR 0x5C then [CHR 0x5C, c]
     else if ch < 0x20 \<or> ch \<ge> 0x7f
       then [CHR 0x5C, CHR ''x'', digits ! (ch div 16), digits ! (ch mod 16)]
     else [c])"

fun quote_from :: "string \<Rightarrow> string \<Rightarrow> string" where
  "quote_from str [] = str"
| "quote_from str (c # rest) =
     (if needs_quoting c then concat (map quote_char str) else quote_from str rest)"

definition quote :: "string \<Rightarrow> string" where
  "quote str = quote_from str str"

section \<open>White space\<close>

definition whitespace :: "char \<Rightarrow> bool" where
  "whitespace ch \<longleftrightarrow> 0 \<le> scode ch \<and> scode ch \<le> scode (CHR '' '')"

fun non_whitespace :: "string \<Rightarrow> string" where
  "non_whitespace [] = []"
| "non_whitespace (c # s) = (if whitespace c then non_whitespace s else c # s)"

text \<open>
  The second loop of \<open>strip_inplace\<close> walks back from the end and erases behind the last
  character that is not white space; if there is none, it erases nothing.
\<close>

definition erase_trailing :: "string \<Rightarrow> string" where
  "erase_trailing s =
     (case dropWhile whitespace (rev s) of [] \<Rightarrow> s | c # r \<Rightarrow> rev (c # r))"

definition strip_inplace :: "string \<Rightarrow> string" where
  "strip_inplace s = erase_trailing (dropWhile whitespace s)"

definition strip :: "string \<Rightarrow> string" where
  "strip s = strip_inplace s"

section \<open>Numbers\<close>

text \<open>
  \<open>strtoull\<close> with base 10, as the C library defines it: leading \<open>isspace\<close> characters, an
  optional sign, digits; the value, where parsing stopped, and whether \<open>errno\<close> was set
  (out of range). Without a digit nothing is consumed and the value is 0.
\<close>

definition isspace :: "char \<Rightarrow> bool" where
  "isspace c \<longleftrightarrow> ucode c = 0x20 \<or> (9 \<le> ucode c \<and> ucode c \<le> 13)"

definition isdigit :: "char \<Rightarrow> bool" where
  "isdigit c \<longleftrightarrow> 48 \<le> ucode c \<and> ucode c \<le> 57"

definition digits_value :: "nat \<Rightarrow> string \<Rightarrow> nat" where
  "digits_value acc ds = foldl (\<lambda>a c. 10 * a + (ucode c - 48)) acc ds"

definition strtoull :: "string \<Rightarrow> u64 \<times> string \<times> bool" where
  "strtoull s =
     (let s1 = dropWhile isspace s;
          (neg, s2) = (case s1 of c # t \<Rightarrow>
                         if c = CHR ''-'' then (True, t)
                         else if c = CHR ''+'' then (False, t) else (False, s1)
                       | [] \<Rightarrow> (False, s1));
          ds = takeWhile isdigit s2
      in if ds = [] then (0, s, False)
         else let n = digits_value 0 ds; rest = dropWhile isdigit s2
              in if n \<ge> 2 ^ 64 then (- 1, rest, True)
                 else ((if neg then - of_nat n else of_nat n), rest, False))"

text \<open>\<open>None\<close> is the return value false, which leaves the output argument unchanged.\<close>

definition parse_unsigned_long_long :: "string \<Rightarrow> u64 option" where
  "parse_unsigned_long_long text =
     (let first = non_whitespace text;
          (v, endptr, err) = strtoull first
      in if err then None
         else if non_whitespace endptr \<noteq> [] then None
         else Some v)"

section \<open>Prefixes, suffixes, the lock hash\<close>

definition starts_with :: "string \<Rightarrow> string \<Rightarrow> bool" where
  "starts_with s pattern =
     (if length s < length pattern then False else take (length pattern) s = pattern)"

definition ends_with :: "string \<Rightarrow> string \<Rightarrow> bool" where
  "ends_with s pattern =
     (if length s < length pattern then False
      else drop (length s - length pattern) s = pattern)"

fun fnv_from :: "u32 \<Rightarrow> u8 list \<Rightarrow> u32" where
  "fnv_from hash [] = hash"
| "fnv_from hash (b # p) = fnv_from ((hash XOR ucast b) * 0x9e3779b9) p"

definition fnv :: "u8 list \<Rightarrow> u32" where
  "fnv p = fnv_from 0x243f6a88 p"

definition fnv_string :: "string \<Rightarrow> u32" where
  "fnv_string str = fnv (map byte_of_char str)"

text \<open>The overload for C strings stops at the terminator (\<open>strlen\<close>).\<close>

definition fnv_cstr :: "string \<Rightarrow> u32" where
  "fnv_cstr buf = fnv (map byte_of_char (takeWhile (\<lambda>c. c \<noteq> NUL) buf))"

section \<open>URL combination and XML sniffing\<close>

definition url_combine_yum :: "string \<Rightarrow> string \<Rightarrow> string" where
  "url_combine_yum base relative =
     (if base = [] then relative
      else if relative = [] then base
      else if last base = CHR ''/'' \<or> hd base = CHR ''/'' then base @ relative
      else base @ ''/'' @ relative)"

fun looks_like_xml :: "u8 list \<Rightarrow> bool" where
  "looks_like_xml [] = False"
| "looks_like_xml (ch # first) =
     (if ch = 0x3C then True
      else if ch = 0x20 \<or> ch = 0x09 \<or> ch = 0x0D \<or> ch = 0x0A then looks_like_xml first
      else if ch = 0xEF then
        (case first of
           ch2 # ch3 # first' \<Rightarrow>
             (if ch2 = 0xBB \<and> ch3 = 0xBF then looks_like_xml first' else False)
         | _ \<Rightarrow> False)
      else False)"

section \<open>Quoting: the fast path and the inverse\<close>

lemma quote_char_plain: "\<not> needs_quoting c \<Longrightarrow> quote_char c = [c]"
  by (auto simp: needs_quoting_def quote_char_def Let_def)

lemma concat_quote_plain:
  "list_all (\<lambda>c. \<not> needs_quoting c) s \<Longrightarrow> concat (map quote_char s) = s"
  by (induction s) (simp_all add: quote_char_plain)

lemma quote_from_eq:
  assumes "list_all (\<lambda>c. \<not> needs_quoting c) pre"
  shows "quote_from (pre @ rest) rest = concat (map quote_char (pre @ rest))"
  using assms
proof (induction rest arbitrary: pre)
  case Nil
  then show ?case by (simp add: concat_quote_plain)
next
  case (Cons c rest)
  from Cons.IH [of "pre @ [c]"] Cons.prems show ?case by simp
qed

text \<open>The scan for a special character is an optimisation only.\<close>

lemma quote_eq: "quote s = concat (map quote_char s)"
  using quote_from_eq [of "[]" s] by (simp add: quote_def)

definition hex_or_0 :: "char \<Rightarrow> nat" where
  "hex_or_0 c = (case hex_value c of None \<Rightarrow> 0 | Some v \<Rightarrow> v)"

text \<open>The reading of the quoted form: what each escape sequence stands for.\<close>

fun unquote :: "string \<Rightarrow> string" where
  "unquote [] = []"
| "unquote [c] = [c]"
| "unquote (c # d # s) =
     (if c \<noteq> CHR 0x5C then c # unquote (d # s)
      else if d = CHR ''r'' then CHR 0x0D # unquote s
      else if d = CHR ''n'' then CHR 0x0A # unquote s
      else if d = CHR ''t'' then CHR 0x09 # unquote s
      else if d = CHR ''x'' then
        (case s of h # l # t \<Rightarrow> char_of (16 * hex_or_0 h + hex_or_0 l) # unquote t
                 | _ \<Rightarrow> s)
      else d # unquote s)"

lemma unquote_plain: "c \<noteq> CHR 0x5C \<Longrightarrow> unquote (c # s) = c # unquote s"
  by (cases s) simp_all

lemma hex_or_0_digits: "n < 16 \<Longrightarrow> hex_or_0 (digits ! n) = n"
  by (simp add: hex_or_0_def hex_value_digits)

lemma ucode_div_16 [simp]: "ucode c div 16 < 16"
  using nat_of_char_less_256 [of c] by (simp add: less_mult_imp_div_less)

lemma unquote_hex_escape:
  "unquote (CHR 0x5C # CHR ''x'' # digits ! (ucode c div 16) # digits ! (ucode c mod 16) # s)
   = c # unquote s"
  by (simp add: hex_or_0_digits)

text \<open>The branches of \<open>quote_char\<close>, one per kind of character.\<close>

lemma quote_char_cases:
  obtains (control) "c = CHR 0x0D \<or> c = CHR 0x0A \<or> c = CHR 0x09"
  | (escaped) "c = CHR 0x22 \<or> c = CHR 0x27 \<or> c = CHR 0x5C" "quote_char c = [CHR 0x5C, c]"
  | (hex) "quote_char c =
      [CHR 0x5C, CHR ''x'', digits ! (ucode c div 16), digits ! (ucode c mod 16)]"
  | (plain) "c \<noteq> CHR 0x5C" "0x20 \<le> ucode c" "ucode c < 0x7f" "quote_char c = [c]"
  by (cases "c = CHR 0x0D \<or> c = CHR 0x0A \<or> c = CHR 0x09";
      cases "c = CHR 0x22 \<or> c = CHR 0x27 \<or> c = CHR 0x5C";
      cases "ucode c < 0x20 \<or> ucode c \<ge> 0x7f")
    (simp_all add: quote_char_def Let_def not_less not_le)

lemma unquote_quote_char: "unquote (quote_char c @ s) = c # unquote s"
proof (cases c rule: quote_char_cases)
  case control
  then show ?thesis by (elim disjE) (simp_all add: quote_char_def)
next
  case escaped
  from escaped(1) show ?thesis
    unfolding escaped(2) by (elim disjE) simp_all
next
  case hex
  then show ?thesis by (simp add: hex_or_0_digits)
next
  case plain
  then show ?thesis by (simp add: unquote_plain)
qed

text \<open>
  Quoting loses nothing: reading the escape sequences of a quoted string back gives the
  original string, for every byte string. In particular two different strings never have the
  same quoted form.
\<close>

theorem quote_roundtrip: "unquote (quote s) = s"
proof -
  have "unquote (concat (map quote_char s)) = s"
    by (induction s) (simp_all add: unquote_quote_char)
  then show ?thesis by (simp add: quote_eq)
qed

definition printable :: "char \<Rightarrow> bool" where
  "printable c \<longleftrightarrow> 0x20 \<le> ucode c \<and> ucode c < 0x7f"

lemma printable_digits: "n < 16 \<Longrightarrow> printable (digits ! n)"
  by (drule nibble_range, elim insertE) (simp_all add: printable_def digits_def)

lemma printable_quote_char: "list_all printable (quote_char c)"
proof (cases c rule: quote_char_cases)
  case control
  then show ?thesis by (elim disjE) (simp_all add: quote_char_def printable_def)
next
  case escaped
  from escaped(1) show ?thesis
    unfolding escaped(2) by (elim disjE) (simp_all add: printable_def)
next
  case hex
  then show ?thesis by (simp add: printable_digits) (simp add: printable_def)
next
  case plain
  then show ?thesis by (simp add: printable_def)
qed

text \<open>
  The quoted form consists of printable ASCII characters only.\<close>

theorem quote_printable: "list_all printable (quote s)"
  unfolding quote_eq using printable_quote_char by (induction s) simp_all

section \<open>Trimming\<close>

lemma whitespace_iff: "whitespace c \<longleftrightarrow> ucode c \<le> 32"
proof -
  have "(of_char c :: int) = int (ucode c)"
    by (rule of_nat_of_char [symmetric])
  then show ?thesis
    using nat_of_char_less_256 [of c]
    by (auto simp: whitespace_def scode_def Let_def simp del: nat_of_char_less_256)
qed

lemma non_whitespace_eq: "non_whitespace s = dropWhile whitespace s"
  by (induction s) simp_all

definition trimmed :: "string \<Rightarrow> bool" where
  "trimmed t = (case t of [] \<Rightarrow> True | c # _ \<Rightarrow> \<not> whitespace c \<and> \<not> whitespace (last t))"

lemma erase_trailing_eq:
  assumes "s = [] \<or> \<not> whitespace (hd s)"
  shows "erase_trailing s = rev (dropWhile whitespace (rev s))"
proof -
  have "dropWhile whitespace (rev s) \<noteq> []" if "s \<noteq> []"
    using assms that by (auto simp: dropWhile_eq_Nil_conv)
  then show ?thesis
    using assms by (cases "s = []") (auto simp: erase_trailing_def split: list.split)
qed

lemma strip_eq: "strip s = rev (dropWhile whitespace (rev (dropWhile whitespace s)))"
proof -
  have "dropWhile whitespace s = [] \<or> \<not> whitespace (hd (dropWhile whitespace s))"
    using hd_dropWhile [of whitespace s] by blast
  then show ?thesis
    by (simp add: strip_def strip_inplace_def erase_trailing_eq)
qed

lemma trimmed_strip: "trimmed (strip s)"
proof (cases "strip s")
  case Nil
  then show ?thesis by (simp add: trimmed_def)
next
  case (Cons c t)
  define u where "u = dropWhile whitespace s"
  define r where "r = dropWhile whitespace (rev u)"
  have st: "strip s = rev r" by (simp add: strip_eq u_def r_def)
  with Cons have "r \<noteq> []" by auto
  then have l: "\<not> whitespace (hd r)" unfolding r_def by (rule hd_dropWhile)
  have "rev u = takeWhile whitespace (rev u) @ r" by (simp add: r_def)
  then have "u = rev r @ rev (takeWhile whitespace (rev u))"
    by (metis rev_append rev_rev_ident)
  then have u: "u = (c # t) @ rev (takeWhile whitespace (rev u))"
    using st Cons by argo
  then have "hd u = c" and "u \<noteq> []" by (metis append_Cons list.sel(1), fastforce)
  then have "\<not> whitespace c" unfolding u_def using hd_dropWhile by metis
  moreover have "last (c # t) = hd r"
    using st Cons \<open>r \<noteq> []\<close> by (metis last_rev)
  ultimately show ?thesis
    unfolding Cons using l by (simp only: trimmed_def list.case) simp
qed

text \<open>
  Stripping removes white space at both ends and nothing else: the input is the result
  between two runs of white space, and the result neither starts nor ends with white space.
\<close>

theorem strip_spec:
  "\<exists>pre post. s = pre @ strip s @ post \<and> list_all whitespace pre
     \<and> list_all whitespace post \<and> trimmed (strip s)"
proof -
  define u where "u = dropWhile whitespace s"
  have s: "s = takeWhile whitespace s @ u" by (simp add: u_def)
  have "rev u = takeWhile whitespace (rev u) @ dropWhile whitespace (rev u)" by simp
  then have u: "u = strip s @ rev (takeWhile whitespace (rev u))"
    unfolding strip_eq u_def by (metis rev_append rev_rev_ident)
  have "list_all whitespace (takeWhile whitespace s)"
    and "list_all whitespace (rev (takeWhile whitespace (rev u)))"
    by (auto simp: list_all_iff dest: set_takeWhileD)
  moreover have "s = takeWhile whitespace s @ strip s @ rev (takeWhile whitespace (rev u))"
    by (rule trans [OF s arg_cong [OF u, of "append (takeWhile whitespace s)"]])
  ultimately show ?thesis
    using trimmed_strip by blast
qed

section \<open>Number parsing\<close>

lemma digits_value_append: "digits_value a (xs @ ys) = digits_value (digits_value a xs) ys"
  by (simp add: digits_value_def)

lemma digits_value_dec: "digits_value 0 (dec n) = n"
proof (induction n rule: dec.induct)
  case (1 n)
  show ?case
  proof (cases "n < 10")
    case True
    then show ?thesis by (simp add: dec.simps [of n] digits_value_def)
  next
    case False
    with "1.IH" have "digits_value 0 (dec (n div 10)) = n div 10" by simp
    with False show ?thesis
      by (simp add: dec.simps [of n] digits_value_append) (simp add: digits_value_def)
  qed
qed

lemma isdigit_dec: "c \<in> set (dec n) \<Longrightarrow> isdigit c"
  using dec_digits by (simp add: isdigit_def)

lemma isdigit_not_space:
  assumes "isdigit c"
  shows "\<not> whitespace c" and "\<not> isspace c" and "c \<noteq> CHR ''-''" and "c \<noteq> CHR ''+''"
  using assms by (auto simp: isdigit_def whitespace_iff isspace_def)

lemma scan_digits:
  assumes "list_all isdigit ds" and "list_all whitespace post"
  shows "takeWhile isdigit (ds @ post) = ds \<and> dropWhile isdigit (ds @ post) = post"
proof -
  have "takeWhile isdigit post = [] \<and> dropWhile isdigit post = post"
    using assms(2) isdigit_not_space(1) by (cases post) auto
  with assms(1) show ?thesis
    by (induction ds) auto
qed

lemma strtoull_digits:
  assumes "ds \<noteq> []" and "list_all isdigit ds" and "list_all whitespace post"
    and "digits_value 0 ds < 2 ^ 64"
  shows "strtoull (ds @ post) = (of_nat (digits_value 0 ds), post, False)"
proof -
  obtain d t where ds: "ds = d # t" using assms(1) by (cases ds) auto
  with assms(2) have "isdigit d" by simp
  then have d: "dropWhile isspace (ds @ post) = ds @ post"
    "d \<noteq> CHR ''-''" "d \<noteq> CHR ''+''"
    using isdigit_not_space ds by auto
  from scan_digits [OF assms(2,3)] assms(1,4) d show ?thesis
    by (simp add: strtoull_def ds del: takeWhile.simps dropWhile.simps append_Cons)
      (simp add: ds)
qed

lemma parse_dec:
  assumes "list_all whitespace pre" and "list_all whitespace post" and "n < 2 ^ 64"
  shows "parse_unsigned_long_long (pre @ dec n @ post) = Some (of_nat n)"
proof -
  have dd: "list_all isdigit (dec n)" using isdigit_dec by (simp add: list_all_iff)
  obtain d t where ds: "dec n = d # t" by (cases "dec n") auto
  with dd have "\<not> whitespace d" using isdigit_not_space by auto
  then have "non_whitespace (pre @ dec n @ post) = dec n @ post"
    using assms(1) ds by (simp add: non_whitespace_eq list_all_iff dropWhile_append_stop)
  moreover have "strtoull (dec n @ post) = (of_nat n, post, False)"
    using strtoull_digits [OF dec_not_Nil dd assms(2)] assms(3)
    by (simp add: digits_value_dec)
  moreover have "non_whitespace post = []"
    using assms(2) by (simp add: non_whitespace_eq list_all_iff)
  ultimately show ?thesis
    by (simp add: parse_unsigned_long_long_def)
qed

text \<open>
  Every 64-bit number written in decimal, between any amounts of white space, parses to
  that number.
\<close>

theorem parse_unsigned_long_long_roundtrip:
  assumes "list_all whitespace pre" and "list_all whitespace post" and "n < 2 ^ 64"
  shows "parse_unsigned_long_long (pre @ dec n @ post) = Some (of_nat n)"
  using assms by (rule parse_dec)

theorem parse_unsigned_long_long_roundtrip_witness:
  "list_all whitespace '' '' \<and> list_all whitespace [CHR 0x0A] \<and> (42::nat) < 2 ^ 64 \<and>
   parse_unsigned_long_long ('' '' @ dec 42 @ [CHR 0x0A]) = Some 42"
proof -
  have h: "list_all whitespace '' ''" "list_all whitespace [CHR 0x0A]" "(42::nat) < 2 ^ 64"
    by (simp_all add: whitespace_iff)
  show ?thesis
    using h parse_unsigned_long_long_roundtrip [OF h] by simp
qed

text \<open>
  A text without any digit is not rejected: white space only, and the empty text, parse
  as 0. (\<open>strtoull\<close> consumes nothing and leaves \<open>errno\<close> unset, and the code does not
  compare \<open>endptr\<close> with the start.)
\<close>

theorem parse_unsigned_long_long_blank:
  assumes "list_all whitespace text"
  shows "parse_unsigned_long_long text = Some 0"
proof -
  have "non_whitespace text = []"
    using assms by (simp add: non_whitespace_eq list_all_iff)
  then show ?thesis by (simp add: parse_unsigned_long_long_def strtoull_def)
qed

theorem parse_unsigned_long_long_blank_witness:
  "list_all whitespace '' '' \<and> parse_unsigned_long_long '' '' = Some 0"
proof -
  have h: "list_all whitespace '' ''" by (simp add: whitespace_iff)
  show ?thesis using h parse_unsigned_long_long_blank [OF h] by blast
qed

section \<open>Prefixes and suffixes\<close>

lemma starts_with_iff: "starts_with s p \<longleftrightarrow> (\<exists>t. s = p @ t)"
proof
  assume "starts_with s p"
  then have "take (length p) s = p" by (simp add: starts_with_def split: if_splits)
  then show "\<exists>t. s = p @ t" by (metis append_take_drop_id)
qed (auto simp: starts_with_def)

lemma ends_with_iff: "ends_with s p \<longleftrightarrow> (\<exists>t. s = t @ p)"
proof
  assume "ends_with s p"
  then have "drop (length s - length p) s = p" by (simp add: ends_with_def split: if_splits)
  then show "\<exists>t. s = t @ p" by (metis append_take_drop_id)
qed (auto simp: ends_with_def)

section \<open>URL combination\<close>

text \<open>
  For a base that is neither empty nor an absolute path, and a non-empty relative part,
  the combination has exactly one slash inserted between the two unless the base already ends
  in one.
\<close>

theorem url_combine_yum_joins:
  assumes "base \<noteq> []" and "hd base \<noteq> CHR ''/''" and "relative \<noteq> []"
  shows "url_combine_yum base relative =
    (if ends_with base ''/'' then base else base @ ''/'') @ relative"
proof -
  have "ends_with base ''/'' \<longleftrightarrow> last base = CHR ''/''"
    using assms(1) by (auto simp: ends_with_iff) (metis append_butlast_last_id)
  with assms show ?thesis by (simp add: url_combine_yum_def)
qed

theorem url_combine_yum_joins_witness:
  "url_combine_yum ''http://h/f'' ''a.rpm'' = ''http://h/f/a.rpm''"
proof -
  have h: "''http://h/f'' \<noteq> []" "hd ''http://h/f'' \<noteq> CHR ''/''" "''a.rpm'' \<noteq> []"
    by simp_all
  show ?thesis
    using url_combine_yum_joins [OF h] by (simp add: ends_with_def)
qed

text \<open>
  A base that starts with a slash is joined without a separator: the code tests the first
  character of the base where the separator question needs that of the relative part.
\<close>

theorem url_combine_yum_absolute_base:
  "url_combine_yum ''/srv/repo'' ''a.rpm'' = ''/srv/repoa.rpm''"
  by (simp add: url_combine_yum_def)

section \<open>XML sniffing\<close>

text \<open>What may precede the first tag: white space characters and byte order marks.\<close>

definition xml_lead :: "u8 list set" where
  "xml_lead = {[0x20], [0x09], [0x0D], [0x0A], [0xEF, 0xBB, 0xBF]}"

lemma looks_like_xml_lead: "p \<in> xml_lead \<Longrightarrow> looks_like_xml (p @ bs) = looks_like_xml bs"
  by (auto simp: xml_lead_def)

lemma looks_like_xml_sound:
  "looks_like_xml bs \<Longrightarrow> \<exists>ps rest. set ps \<subseteq> xml_lead \<and> bs = concat ps @ 0x3C # rest"
proof (induction bs rule: looks_like_xml.induct)
  case 1
  then show ?case by simp
next
  case (2 ch first)
  show ?case
  proof (cases "ch = 0x3C")
    case True
    then show ?thesis by (intro exI [of _ "[]"] exI [of _ first]) simp
  next
    case False
    then consider (ws) "[ch] \<in> xml_lead" "looks_like_xml first"
      | (bom) f where "ch = 0xEF" "first = 0xBB # 0xBF # f" "looks_like_xml f"
      using "2.prems" by (auto simp: xml_lead_def split: if_splits list.splits)
    then show ?thesis
    proof cases
      case ws
      then have "ch = 0x20 \<or> ch = 0x09 \<or> ch = 0x0D \<or> ch = 0x0A"
        by (auto simp: xml_lead_def)
      then obtain ps rest where "set ps \<subseteq> xml_lead" "first = concat ps @ 0x3C # rest"
        using "2.IH"(1) False ws(2) by blast
      with ws(1) show ?thesis
        by (intro exI [of _ "[ch] # ps"] exI [of _ rest]) simp
    next
      case bom
      have "\<exists>ps rest. set ps \<subseteq> xml_lead \<and> f = concat ps @ 0x3C # rest"
        using "2.IH"(2) False bom by simp
      then obtain ps rest where "set ps \<subseteq> xml_lead" "f = concat ps @ 0x3C # rest"
        by blast
      with bom show ?thesis
        by (intro exI [of _ "[0xEF, 0xBB, 0xBF] # ps"] exI [of _ rest])
          (simp add: xml_lead_def)
    qed
  qed
qed

text \<open>
  The sniffer accepts a byte string if and only if it is a sequence of XML white space
  characters and byte order marks followed by a less-than sign.
\<close>

theorem looks_like_xml_iff:
  "looks_like_xml bs \<longleftrightarrow> (\<exists>ps rest. set ps \<subseteq> xml_lead \<and> bs = concat ps @ 0x3C # rest)"
proof
  assume "\<exists>ps rest. set ps \<subseteq> xml_lead \<and> bs = concat ps @ 0x3C # rest"
  then obtain ps rest where "set ps \<subseteq> xml_lead" and bs: "bs = concat ps @ 0x3C # rest"
    by blast
  then have "looks_like_xml (concat ps @ 0x3C # rest)"
    by (induction ps arbitrary: bs) (simp_all add: looks_like_xml_lead)
  with bs show "looks_like_xml bs" by simp
qed (rule looks_like_xml_sound)

end
