(* ===== verification/Endian.thy ===== *)
theory Endian
  imports Prelude
begin

text \<open>
  Byte order conversion (\<open>include/cxxll/endian.hpp\<close>). The header is compiled for one byte
  order; the model keeps it as the argument \<open>little\<close>, so that each fact holds for both.
\<close>

definition is_little_endian :: "bool \<Rightarrow> bool" where
  "is_little_endian little = little"

definition is_big_endian :: "bool \<Rightarrow> bool" where
  "is_big_endian little = (\<not> little)"

text \<open>The compiler's byte swaps.\<close>

definition bswap32 :: "u32 \<Rightarrow> u32" where
  "bswap32 v = push_bit 24 (take_bit 8 v) OR push_bit 16 (take_bit 8 (drop_bit 8 v))
     OR push_bit 8 (take_bit 8 (drop_bit 16 v)) OR take_bit 8 (drop_bit 24 v)"

definition bswap64 :: "u64 \<Rightarrow> u64" where
  "bswap64 v = push_bit 56 (take_bit 8 v) OR push_bit 48 (take_bit 8 (drop_bit 8 v))
     OR push_bit 40 (take_bit 8 (drop_bit 16 v)) OR push_bit 32 (take_bit 8 (drop_bit 24 v))
     OR push_bit 24 (take_bit 8 (drop_bit 32 v)) OR push_bit 16 (take_bit 8 (drop_bit 40 v))
     OR push_bit 8 (take_bit 8 (drop_bit 48 v)) OR take_bit 8 (drop_bit 56 v)"

definition cpu_to_le_32 :: "bool \<Rightarrow> u32 \<Rightarrow> u32" where
  "cpu_to_le_32 little val = (if is_little_endian little then val else bswap32 val)"

definition cpu_to_le_64 :: "bool \<Rightarrow> u64 \<Rightarrow> u64" where
  "cpu_to_le_64 little val = (if is_little_endian little then val else bswap64 val)"

definition cpu_to_be_32 :: "bool \<Rightarrow> u32 \<Rightarrow> u32" where
  "cpu_to_be_32 little val = (if is_big_endian little then val else bswap32 val)"

definition cpu_to_be_64 :: "bool \<Rightarrow> u64 \<Rightarrow> u64" where
  "cpu_to_be_64 little val = (if is_big_endian little then val else bswap64 val)"

definition le_to_cpu_32 :: "bool \<Rightarrow> u32 \<Rightarrow> u32" where
  "le_to_cpu_32 little val = cpu_to_le_32 little val"

definition le_to_cpu_64 :: "bool \<Rightarrow> u64 \<Rightarrow> u64" where
  "le_to_cpu_64 little val = cpu_to_le_64 little val"

definition be_to_cpu_32 :: "bool \<Rightarrow> u32 \<Rightarrow> u32" where
  "be_to_cpu_32 little val = cpu_to_be_32 little val"

definition be_to_cpu_64 :: "bool \<Rightarrow> u64 \<Rightarrow> u64" where
  "be_to_cpu_64 little val = cpu_to_be_64 little val"

text \<open>The object representation of an \<open>unsigned\<close>, as the code reads it through a union.\<close>

definition le_bytes :: "u32 \<Rightarrow> u8 list" where
  "le_bytes v = [ucast v, ucast (drop_bit 8 v), ucast (drop_bit 16 v), ucast (drop_bit 24 v)]"

definition store32 :: "bool \<Rightarrow> u32 \<Rightarrow> u8 list" where
  "store32 little v = (if little then le_bytes v else rev (le_bytes v))"

definition load_le :: "u8 list \<Rightarrow> u32" where
  "load_le bs = ucast (bs ! 0) OR push_bit 8 (ucast (bs ! 1))
     OR push_bit 16 (ucast (bs ! 2)) OR push_bit 24 (ucast (bs ! 3))"

definition load32 :: "bool \<Rightarrow> u8 list \<Rightarrow> u32" where
  "load32 little bs = load_le (if little then bs else rev bs)"

section \<open>Byte swaps undo themselves\<close>

lemma byte_position:
  fixes n k :: nat
  assumes "n < 8 * k"
  obtains q r where "n = 8 * q + r" and "q < k" and "r < 8"
  using assms
  by (metis less_mult_imp_div_less mod_less_divisor mult.commute mult_div_mod_eq
      zero_less_numeral)

lemma bit_bswap32:
  assumes "r < 8" and "q < 4"
  shows "bit (bswap32 v) (8 * q + r) = bit v (8 * (3 - q) + r)"
proof -
  from assms(2) have "q = 0 \<or> q = 1 \<or> q = 2 \<or> q = 3" by arith
  with assms(1) show ?thesis
    by (elim disjE) (simp_all add: bswap32_def bit_simps)
qed

lemma bit_bswap64:
  assumes "r < 8" and "q < 8"
  shows "bit (bswap64 v) (8 * q + r) = bit v (8 * (7 - q) + r)"
proof -
  from assms(2)
  have "q = 0 \<or> q = 1 \<or> q = 2 \<or> q = 3 \<or> q = 4 \<or> q = 5 \<or> q = 6 \<or> q = 7" by arith
  with assms(1) show ?thesis
    by (elim disjE) (simp_all add: bswap64_def bit_simps)
qed

lemma bswap32_bswap32 [simp]: "bswap32 (bswap32 v) = v"
proof (rule bit_word_eqI)
  fix n assume "n < LENGTH(32)"
  then have "n < 8 * 4" by simp
  then obtain q r where "n = 8 * q + r" "q < 4" "r < 8" by (rule byte_position)
  then show "bit (bswap32 (bswap32 v)) n = bit v n"
    by (simp add: bit_bswap32)
qed

lemma bswap64_bswap64 [simp]: "bswap64 (bswap64 v) = v"
proof (rule bit_word_eqI)
  fix n assume "n < LENGTH(64)"
  then have "n < 8 * 8" by simp
  then obtain q r where "n = 8 * q + r" "q < 8" "r < 8" by (rule byte_position)
  then show "bit (bswap64 (bswap64 v)) n = bit v n"
    by (simp add: bit_bswap64)
qed

lemmas endian_defs = cpu_to_le_32_def cpu_to_le_64_def cpu_to_be_32_def cpu_to_be_64_def
  le_to_cpu_32_def le_to_cpu_64_def be_to_cpu_32_def be_to_cpu_64_def
  is_little_endian_def is_big_endian_def

text \<open>
  On either kind of machine each conversion to a fixed byte order is undone by the
  conversion back, in 32 and in 64 bits.
\<close>

theorem endian_roundtrip:
  "le_to_cpu_32 little (cpu_to_le_32 little v) = v \<and>
   be_to_cpu_32 little (cpu_to_be_32 little v) = v \<and>
   le_to_cpu_64 little (cpu_to_le_64 little w) = w \<and>
   be_to_cpu_64 little (cpu_to_be_64 little w) = w"
  by (simp_all add: endian_defs)

section \<open>Object representations\<close>

lemma le_bytes_bswap32: "le_bytes (bswap32 v) = rev (le_bytes v)"
proof -
  have "(ucast (drop_bit (8 * q) (bswap32 v)) :: u8) = ucast (drop_bit (8 * (3 - q)) v)"
    if "q < 4" for q
  proof (rule bit_word_eqI)
    fix r assume "r < LENGTH(8)"
    then have "r < 8" by simp
    then show "bit (ucast (drop_bit (8 * q) (bswap32 v)) :: u8) r
        = bit (ucast (drop_bit (8 * (3 - q)) v) :: u8) r"
      using bit_bswap32 [OF _ that, of r v] by (simp add: bit_ucast_iff bit_drop_bit_eq)
  qed
  from this [of 0] this [of 1] this [of 2] this [of 3] show ?thesis
    by (simp add: le_bytes_def)
qed

lemma load_le_le_bytes: "load_le (le_bytes v) = v"
proof (rule bit_word_eqI)
  fix n assume "n < LENGTH(32)"
  then have "n < 8 * 4" by simp
  then obtain q r where n: "n = 8 * q + r" and q: "q < 4" and r: "r < 8" by (rule byte_position)
  from q have "q = 0 \<or> q = 1 \<or> q = 2 \<or> q = 3" by arith
  with r show "bit (load_le (le_bytes v)) n = bit v n"
    unfolding n by (elim disjE) (simp_all add: load_le_def le_bytes_def bit_simps)
qed

lemma store_cpu_to_be_32: "store32 little (cpu_to_be_32 little v) = rev (le_bytes v)"
  by (simp add: store32_def endian_defs le_bytes_bswap32)

lemma load_be_to_cpu_32: "be_to_cpu_32 little (load32 little (rev (le_bytes v))) = v"
  by (simp add: load32_def endian_defs load_le_le_bytes flip: le_bytes_bswap32)

text \<open>
  What a program stores through \<open>cpu_to_be_32\<close> is, byte for byte, the number with its
  most significant byte first, and reading such bytes through \<open>be_to_cpu_32\<close> gives the
  number back: neither depends on the byte order of the machine.
\<close>

theorem be_32_representation:
  "store32 little (cpu_to_be_32 little v) =
     [ucast (drop_bit 24 v), ucast (drop_bit 16 v), ucast (drop_bit 8 v), ucast v] \<and>
   be_to_cpu_32 little
     (load32 little [ucast (drop_bit 24 v), ucast (drop_bit 16 v), ucast (drop_bit 8 v), ucast v])
   = v"
  using store_cpu_to_be_32 [of little v] load_be_to_cpu_32 [of little v]
  by (simp_all add: le_bytes_def)


text \<open>The same for a \<open>long long\<close>.\<close>

definition le_bytes64 :: "u64 \<Rightarrow> u8 list" where
  "le_bytes64 v = map (\<lambda>i. ucast (drop_bit (8 * i) v)) [0..<8]"

definition store64 :: "bool \<Rightarrow> u64 \<Rightarrow> u8 list" where
  "store64 little v = (if little then le_bytes64 v else rev (le_bytes64 v))"

definition load_le64 :: "u8 list \<Rightarrow> u64" where
  "load_le64 bs = foldr (\<lambda>b w. ucast b OR push_bit 8 w) bs 0"

definition load64 :: "bool \<Rightarrow> u8 list \<Rightarrow> u64" where
  "load64 little bs = load_le64 (if little then bs else rev bs)"

lemma upt_0_8: "[0..<8] = [0, 1, 2, 3, 4, 5, 6, 7]"
  by (simp add: upt_conv_Cons)

lemma le_bytes64_bswap64: "le_bytes64 (bswap64 v) = rev (le_bytes64 v)"
proof -
  have byte: "(ucast (drop_bit (8 * q) (bswap64 v)) :: u8) = ucast (drop_bit (8 * (7 - q)) v)"
    if "q < 8" for q
  proof (rule bit_word_eqI)
    fix r assume "r < LENGTH(8)"
    then have "r < 8" by simp
    then show "bit (ucast (drop_bit (8 * q) (bswap64 v)) :: u8) r
        = bit (ucast (drop_bit (8 * (7 - q)) v) :: u8) r"
      using bit_bswap64 [OF _ that, of r v] by (simp add: bit_ucast_iff bit_drop_bit_eq)
  qed
  show ?thesis
    using byte [of 0] byte [of 1] byte [of 2] byte [of 3] byte [of 4] byte [of 5] byte [of 6] byte [of 7]
    by (simp add: le_bytes64_def upt_0_8)
qed

lemma load_le64_le_bytes64: "load_le64 (le_bytes64 v) = v"
proof (rule bit_word_eqI)
  fix n assume "n < LENGTH(64)"
  then have "n < 8 * 8" by simp
  then obtain q r where n: "n = 8 * q + r" and q: "q < 8" and r: "r < 8" by (rule byte_position)
  from q have "q = 0 \<or> q = 1 \<or> q = 2 \<or> q = 3 \<or> q = 4 \<or> q = 5 \<or> q = 6 \<or> q = 7" by arith
  with r show "bit (load_le64 (le_bytes64 v)) n = bit v n"
    unfolding n by (elim disjE) (simp_all add: load_le64_def le_bytes64_def upt_0_8 bit_simps)
qed

lemma store_cpu_to_be_64: "store64 little (cpu_to_be_64 little v) = rev (le_bytes64 v)"
  by (simp add: store64_def endian_defs le_bytes64_bswap64)

lemma load_be_to_cpu_64: "be_to_cpu_64 little (load64 little (rev (le_bytes64 v))) = v"
  by (simp add: load64_def endian_defs load_le64_le_bytes64 flip: le_bytes64_bswap64)

end
