(* ===== verification/Utf8.thy ===== *)
theory Utf8
  imports Prelude
begin

text \<open>
  UTF-8 validation and the Latin-1 conversion (\<open>lib/cxxll/utf8.cpp\<close>). The validator reads
  through a pointer without bounds checks of its own, so every read of the model is a
  \<open>byte_at\<close>, which is undefined past the end of the string.
\<close>

section \<open>Definitions\<close>

text \<open>The fall-through cases of the switch in \<open>pg_utf8_islegal\<close>, innermost first.\<close>

definition islegal_1 :: "u8 list \<Rightarrow> bool result" where
  "islegal_1 source = bind (byte_at source 0) (\<lambda>a.
     if a \<ge> 0x80 \<and> a < 0xC2 then return False
     else if a > 0xF4 then return False
     else return True)"

definition islegal_2 :: "u8 list \<Rightarrow> bool result" where
  "islegal_2 source = bind (byte_at source 1) (\<lambda>a. bind (byte_at source 0) (\<lambda>s.
     if s = 0xE0 then (if a < 0xA0 \<or> a > 0xBF then return False else islegal_1 source)
     else if s = 0xED then (if a < 0x80 \<or> a > 0x9F then return False else islegal_1 source)
     else if s = 0xF0 then (if a < 0x90 \<or> a > 0xBF then return False else islegal_1 source)
     else if s = 0xF4 then (if a < 0x80 \<or> a > 0x8F then return False else islegal_1 source)
     else (if a < 0x80 \<or> a > 0xBF then return False else islegal_1 source)))"

definition islegal_3 :: "u8 list \<Rightarrow> bool result" where
  "islegal_3 source = bind (byte_at source 2) (\<lambda>a.
     if a < 0x80 \<or> a > 0xBF then return False else islegal_2 source)"

definition islegal_4 :: "u8 list \<Rightarrow> bool result" where
  "islegal_4 source = bind (byte_at source 3) (\<lambda>a.
     if a < 0x80 \<or> a > 0xBF then return False else islegal_3 source)"

definition pg_utf8_islegal :: "u8 list \<Rightarrow> nat \<Rightarrow> bool result" where
  "pg_utf8_islegal source len =
     (if len = 4 then islegal_4 source
      else if len = 3 then islegal_3 source
      else if len = 2 then islegal_2 source
      else if len = 1 then islegal_1 source
      else return False)"

definition pg_utf_mblen :: "u8 \<Rightarrow> nat" where
  "pg_utf_mblen s =
     (if s AND 0x80 = 0 then 1
      else if s AND 0xe0 = 0xc0 then 2
      else if s AND 0xf0 = 0xe0 then 3
      else if s AND 0xf8 = 0xf0 then 4
      else 1)"

definition pg_utf8_verifier :: "u8 list \<Rightarrow> nat \<Rightarrow> int result" where
  "pg_utf8_verifier s len = bind (byte_at s 0) (\<lambda>b.
     let l = pg_utf_mblen b in
     if len < l then return (- 1)
     else bind (pg_utf8_islegal s l) (\<lambda>ok.
       if \<not> ok then return (- 1) else return (int l)))"

lemma mblen_pos: "0 < pg_utf_mblen b"
  by (simp add: pg_utf_mblen_def)

lemma verifier_advances:
  "pg_utf8_verifier s len = Inr ret \<Longrightarrow> \<not> ret < 0 \<Longrightarrow> 0 < nat ret"
  by (auto simp: pg_utf8_verifier_def Let_def mblen_pos split: if_splits)

function is_valid_utf8_from :: "u8 list \<Rightarrow> bool result" where
  "is_valid_utf8_from p =
     (if p = [] then return True
      else let remaining = (if length p > 16 then 16 else length p)
           in bind (pg_utf8_verifier p remaining) (\<lambda>ret.
                if ret < 0 then return False
                else is_valid_utf8_from (drop (nat ret) p)))"
  by pat_completeness auto
termination
  by (relation "measure length") (auto dest: verifier_advances)

declare is_valid_utf8_from.simps [simp del]

definition is_valid_utf8 :: "string \<Rightarrow> bool result" where
  "is_valid_utf8 str = is_valid_utf8_from (map byte_of_char str)"

fun latin1_bytes :: "u8 list \<Rightarrow> u8 list" where
  "latin1_bytes [] = []"
| "latin1_bytes (p # ps) =
     (if p < 0x80 then p # latin1_bytes ps
      else (0xC0 OR drop_bit 6 p) # (0x80 OR (p AND 0x3F)) # latin1_bytes ps)"

definition latin1_to_utf8 :: "string \<Rightarrow> string" where
  "latin1_to_utf8 str = map char_of_byte (latin1_bytes (map byte_of_char str))"

section \<open>The encoding the validator is meant to accept\<close>

text \<open>Unicode scalar values (RFC 3629) and their UTF-8 form, as numbers.\<close>

definition scalar :: "nat \<Rightarrow> bool" where
  "scalar c \<longleftrightarrow> c < 0x110000 \<and> \<not> (0xD800 \<le> c \<and> c \<le> 0xDFFF)"

definition utf8_codes :: "nat \<Rightarrow> nat list" where
  "utf8_codes c =
     (if c < 0x80 then [c]
      else if c < 0x800 then [0xC0 + c div 64, 0x80 + c mod 64]
      else if c < 0x10000 then [0xE0 + c div 4096, 0x80 + c div 64 mod 64, 0x80 + c mod 64]
      else [0xF0 + c div 262144, 0x80 + c div 4096 mod 64, 0x80 + c div 64 mod 64,
            0x80 + c mod 64])"

definition utf8_encode :: "nat \<Rightarrow> u8 list" where
  "utf8_encode c = map word_of_nat (utf8_codes c)"

lemma unat_word_of_code [simp]: "n < 256 \<Longrightarrow> unat (word_of_nat n :: u8) = n"
  by (simp add: unsigned_of_nat take_bit_eq_mod)

lemma mblen_unat:
  "pg_utf_mblen b =
     (if unat b < 0x80 then 1
      else if 0xC0 \<le> unat b \<and> unat b < 0xE0 then 2
      else if 0xE0 \<le> unat b \<and> unat b < 0xF0 then 3
      else if 0xF0 \<le> unat b \<and> unat b < 0xF8 then 4 else 1)"
  by (rule u8_all [of _ b]) code_simp

lemmas legal_defs = pg_utf8_islegal_def islegal_4_def islegal_3_def islegal_2_def islegal_1_def

lemmas unat_order = word_less_nat_alt word_le_nat_alt word_unat_eq_iff

text \<open>Acceptance of one sequence, in numbers.\<close>

definition legal_seq :: "nat list \<Rightarrow> bool" where
  "legal_seq ns = (case ns of
       [a] \<Rightarrow> a < 0x80
     | [a, b] \<Rightarrow> 0xC2 \<le> a \<and> a < 0xE0 \<and> 0x80 \<le> b \<and> b \<le> 0xBF
     | [a, b, c] \<Rightarrow> 0xE0 \<le> a \<and> a < 0xF0 \<and> 0x80 \<le> c \<and> c \<le> 0xBF \<and>
         (if a = 0xE0 then 0xA0 else 0x80) \<le> b \<and> b \<le> (if a = 0xED then 0x9F else 0xBF)
     | [a, b, c, d] \<Rightarrow> 0xF0 \<le> a \<and> a \<le> 0xF4 \<and> 0x80 \<le> c \<and> c \<le> 0xBF \<and>
         0x80 \<le> d \<and> d \<le> 0xBF \<and>
         (if a = 0xF0 then 0x90 else 0x80) \<le> b \<and> b \<le> (if a = 0xF4 then 0x8F else 0xBF)
     | _ \<Rightarrow> False)"

text \<open>Base-64 digits: the arithmetic behind the continuation bytes.\<close>

lemma div_64_64: "c div 4096 = c div 64 div 64" "c div 262144 = c div 64 div 64 div 64"
  for c :: nat
  by (simp_all add: div_mult2_eq [symmetric])

lemma base64_split: "c = 64 * (c div 64) + c mod 64" for c :: nat
  by simp

lemma base64_join: "r < 64 \<Longrightarrow> (64 * q + r) div 64 = q \<and> (64 * q + r) mod 64 = r" for q r :: nat
  by simp

lemma three_byte_codes:
  fixes c :: nat
  assumes "0x800 \<le> c" and "c < 0x10000" and "\<not> (0xD800 \<le> c \<and> c \<le> 0xDFFF)"
  shows "c div 4096 < 16" and "c div 4096 = 0 \<Longrightarrow> 32 \<le> c div 64 mod 64"
    and "c div 4096 = 13 \<Longrightarrow> c div 64 mod 64 \<le> 31"
  using assms base64_split [of c] base64_split [of "c div 64"]
    mod_less_divisor [of 64 c] mod_less_divisor [of 64 "c div 64"]
  unfolding div_64_64 by linarith+

lemma four_byte_codes:
  fixes c :: nat
  assumes "0x10000 \<le> c" and "c < 0x110000"
  shows "c div 262144 \<le> 4" and "c div 262144 = 0 \<Longrightarrow> 16 \<le> c div 4096 mod 64"
    and "c div 262144 = 4 \<Longrightarrow> c div 4096 mod 64 \<le> 15"
  using assms base64_split [of c] base64_split [of "c div 64"] base64_split [of "c div 64 div 64"]
    mod_less_divisor [of 64 c] mod_less_divisor [of 64 "c div 64"]
    mod_less_divisor [of 64 "c div 64 div 64"]
  unfolding div_64_64 by linarith+

lemma mod_64_le [simp]: "n mod 64 \<le> (63::nat)"
  using mod_less_divisor [of 64 n] by linarith

lemma legal_seq_three:
  "q < 16 \<Longrightarrow> (q = 0 \<Longrightarrow> 32 \<le> r) \<Longrightarrow> (q = 13 \<Longrightarrow> r \<le> 31) \<Longrightarrow> r \<le> 63 \<Longrightarrow> s \<le> 63
   \<Longrightarrow> legal_seq [0xE0 + q, 0x80 + r, 0x80 + s]"
  by (auto simp: legal_seq_def)

lemma legal_seq_four:
  "q \<le> 4 \<Longrightarrow> (q = 0 \<Longrightarrow> 16 \<le> r) \<Longrightarrow> (q = 4 \<Longrightarrow> r \<le> 15) \<Longrightarrow> r \<le> 63 \<Longrightarrow> s \<le> 63 \<Longrightarrow> t \<le> 63
   \<Longrightarrow> legal_seq [0xF0 + q, 0x80 + r, 0x80 + s, 0x80 + t]"
  by (auto simp: legal_seq_def)

lemma legal_seq_utf8_codes:
  assumes "scalar c"
  shows "legal_seq (utf8_codes c)"
proof -
  consider "c < 0x80" | "0x80 \<le> c" "c < 0x800" | "0x800 \<le> c" "c < 0x10000" | "0x10000 \<le> c"
    by linarith
  then show ?thesis
  proof cases
    case 1
    then show ?thesis by (simp add: legal_seq_def utf8_codes_def)
  next
    case 2
    then have "2 \<le> c div 64" "c div 64 < 32"
      using base64_split [of c] mod_less_divisor [of 64 c] by linarith+
    with 2 show ?thesis by (simp add: legal_seq_def utf8_codes_def)
  next
    case 3
    then have "legal_seq [0xE0 + c div 4096, 0x80 + c div 64 mod 64, 0x80 + c mod 64]"
      using assms
      by (intro legal_seq_three [OF three_byte_codes [OF 3] mod_64_le mod_64_le])
        (simp_all add: scalar_def)
    with 3 show ?thesis by (simp add: utf8_codes_def)
  next
    case 4
    then have "legal_seq [0xF0 + c div 262144, 0x80 + c div 4096 mod 64, 0x80 + c div 64 mod 64,
        0x80 + c mod 64]"
      using assms
      by (intro legal_seq_four [OF four_byte_codes [OF 4] mod_64_le mod_64_le mod_64_le])
        (simp_all add: scalar_def)
    with 4 show ?thesis by (simp add: utf8_codes_def)
  qed
qed

lemma legal_seq_bound: "legal_seq ns \<Longrightarrow> list_all (\<lambda>n. n < 256) ns"
  by (auto simp: legal_seq_def split: list.splits if_splits)

lemma legal_seq_is_encoding:
  assumes "legal_seq ns"
  shows "\<exists>c. scalar c \<and> ns = utf8_codes c"
proof -
  from assms consider
      (one) a where "ns = [a]" | (two) a b where "ns = [a, b]"
    | (three) a b c where "ns = [a, b, c]" | (four) a b c d where "ns = [a, b, c, d]"
    by (auto simp: legal_seq_def split: list.splits)
  then show ?thesis
  proof cases
    case one
    with assms show ?thesis
      by (intro exI [of _ a]) (simp add: legal_seq_def scalar_def utf8_codes_def)
  next
    case two
    with assms obtain x y where
      v: "a = 0xC0 + x" "b = 0x80 + y" "2 \<le> x" "x < 32" "y < 64"
      by (intro that [of "a - 0xC0" "b - 0x80"]) (auto simp: legal_seq_def)
    with base64_join [of y x] show ?thesis
      unfolding two v(1,2)
      by (intro exI [of _ "64 * x + y"]) (simp add: scalar_def utf8_codes_def)
  next
    case three
    with assms obtain x y z where
      v: "a = 0xE0 + x" "b = 0x80 + y" "c = 0x80 + z" "x < 16" "y < 64" "z < 64"
        "x = 0 \<Longrightarrow> 32 \<le> y" "x = 13 \<Longrightarrow> y \<le> 31"
      by (intro that [of "a - 0xE0" "b - 0x80" "c - 0x80"])
        (auto simp: legal_seq_def split: if_splits)
    define k where "k = 4096 * x + 64 * y + z"
    then have k: "k = 64 * (64 * x + y) + z" by simp
    have d: "k div 4096 = x" "k div 64 mod 64 = y" "k mod 64 = z"
      using base64_join [OF v(6), of "64 * x + y"] base64_join [OF v(5), of x]
      by (simp_all add: k div_64_64)
    have "k < 0x10000"
      using v(4-6) unfolding k_def by linarith
    moreover have "0x800 \<le> k"
      using v(7) unfolding k_def by (cases "x = 0") simp_all
    moreover have "\<not> (0xD800 \<le> k \<and> k \<le> 0xDFFF)"
    proof (cases "x = 13")
      case True
      with v(8) have "y \<le> 31" by simp
      with True v(6) show ?thesis unfolding k_def by simp
    next
      case False
      then consider "x \<le> 12" | "14 \<le> x" by linarith
      then show ?thesis using v(4-6) unfolding k_def by cases linarith+
    qed
    ultimately show ?thesis unfolding three v(1-3)
      by (intro exI [of _ k]) (simp add: scalar_def utf8_codes_def d)
  next
    case four
    with assms obtain x y z w where
      v: "a = 0xF0 + x" "b = 0x80 + y" "c = 0x80 + z" "d = 0x80 + w"
        "x \<le> 4" "y < 64" "z < 64" "w < 64" "x = 0 \<Longrightarrow> 16 \<le> y" "x = 4 \<Longrightarrow> y \<le> 15"
      by (intro that [of "a - 0xF0" "b - 0x80" "c - 0x80" "d - 0x80"])
        (auto simp: legal_seq_def split: if_splits)
    define k where "k = 262144 * x + 4096 * y + 64 * z + w"
    then have k: "k = 64 * (64 * (64 * x + y) + z) + w" by simp
    have "k div 64 = 64 * (64 * x + y) + z" and d: "k mod 64 = w"
      using base64_join [OF v(8), of "64 * (64 * x + y) + z"] by (simp_all add: k)
    then have "k div 64 div 64 = 64 * x + y" and d': "k div 64 mod 64 = z"
      using base64_join [OF v(7), of "64 * x + y"] by simp_all
    then have d'': "k div 262144 = x" "k div 4096 mod 64 = y"
      using base64_join [OF v(6), of x] by (simp_all add: div_64_64)
    have "0x10000 \<le> k"
      using v(9) unfolding k_def by (cases "x = 0") simp_all
    moreover have "k < 0x110000"
    proof (cases "x = 4")
      case True
      with v(10) have "y \<le> 15" by simp
      with True v(7,8) show ?thesis unfolding k_def by simp
    next
      case False
      with v(5) have "x \<le> 3" by linarith
      with v(6-8) show ?thesis unfolding k_def by linarith
    qed
    ultimately show ?thesis unfolding four v(1-4)
      by (intro exI [of _ k]) (simp add: scalar_def utf8_codes_def d d' d'')
  qed
qed

section \<open>The validator accepts exactly UTF-8\<close>

text \<open>
  One call of the verifier on a non-empty rest of the input: it never reads past the end, and
  it returns the length of a legal sequence at the front, or \<open>-1\<close> if there is none.
\<close>

definition front_legal :: "u8 list \<Rightarrow> bool" where
  "front_legal p \<longleftrightarrow> pg_utf_mblen (hd p) \<le> length p
     \<and> legal_seq (map unat (take (pg_utf_mblen (hd p)) p))"

lemma verifier_eq:
  assumes "p \<noteq> []" and "n = (if length p > 16 then 16 else length p)"
  shows "pg_utf8_verifier p n =
    Inr (if front_legal p then int (pg_utf_mblen (hd p)) else - 1)"
proof -
  obtain a q where p: "p = a # q" using assms(1) by (cases p) auto
  have lim: "n < l \<longleftrightarrow> length p < l" if "l \<le> 4" for l
    using that assms(2) by auto
  have l: "pg_utf_mblen a = 1 \<or> pg_utf_mblen a = 2 \<or> pg_utf_mblen a = 3 \<or> pg_utf_mblen a = 4"
    by (auto simp: pg_utf_mblen_def)
  then have "pg_utf_mblen a \<le> 4" by auto
  show ?thesis
  proof (cases "length p < pg_utf_mblen a")
    case True
    then show ?thesis
      using lim [OF \<open>pg_utf_mblen a \<le> 4\<close>]
      by (simp add: pg_utf8_verifier_def front_legal_def p)
  next
    case False
    from l have "pg_utf8_islegal p (pg_utf_mblen a) =
        Inr (legal_seq (map unat (take (pg_utf_mblen a) p)))"
    proof (elim disjE)
      assume m: "pg_utf_mblen a = 1"
      show ?thesis
        using m [unfolded mblen_unat] unfolding m p by (auto simp: legal_defs unat_order legal_seq_def split: if_splits)
    next
      assume m: "pg_utf_mblen a = 2"
      then obtain b r where "q = b # r" using False p by (cases q) auto
      with m show ?thesis
        unfolding p by (auto simp: legal_defs unat_order legal_seq_def mblen_unat split: if_splits)
    next
      assume m: "pg_utf_mblen a = 3"
      then obtain b c r where "q = b # c # r"
        using False p by (cases q; cases "tl q") auto
      with m show ?thesis
        unfolding p by (auto simp: legal_defs unat_order legal_seq_def mblen_unat split: if_splits)
    next
      assume m: "pg_utf_mblen a = 4"
      then obtain b c d r where "q = b # c # d # r"
        using False p by (cases q; cases "tl q"; cases "tl (tl q)") auto
      with m show ?thesis
        unfolding p by (auto simp: legal_defs unat_order legal_seq_def mblen_unat split: if_splits)
    qed
    with False lim [OF \<open>pg_utf_mblen a \<le> 4\<close>] show ?thesis
      by (simp add: pg_utf8_verifier_def front_legal_def p)
  qed
qed

lemma front_legal_split:
  assumes "p \<noteq> []" and "front_legal p"
  shows "\<exists>c. scalar c \<and> p = utf8_encode c @ drop (pg_utf_mblen (hd p)) p"
proof -
  let ?l = "pg_utf_mblen (hd p)"
  from assms(2) have "legal_seq (map unat (take ?l p))" by (simp add: front_legal_def)
  then obtain c where c: "scalar c" and "map unat (take ?l p) = utf8_codes c"
    using legal_seq_is_encoding by blast
  then have "utf8_encode c = map word_of_nat (map unat (take ?l p))"
    by (simp only: utf8_encode_def)
  then have "utf8_encode c = take ?l p"
    by (simp add: comp_def)
  with c show ?thesis by (metis append_take_drop_id)
qed

lemma map_unat_utf8_encode: "scalar c \<Longrightarrow> map unat (utf8_encode c) = utf8_codes c"
proof -
  assume "scalar c"
  then have "list_all (\<lambda>n. n < 256) (utf8_codes c)"
    by (intro legal_seq_bound legal_seq_utf8_codes)
  then show ?thesis
    by (simp add: utf8_encode_def comp_def list_all_iff map_idI)
qed

lemma mblen_legal:
  assumes "legal_seq (map unat (a # q))"
  shows "pg_utf_mblen a = Suc (length q)"
  using assms unfolding mblen_unat legal_seq_def
  by (auto split: list.splits if_splits)

lemma front_legal_encode:
  assumes "scalar c"
  shows "front_legal (utf8_encode c @ rest) \<and> utf8_encode c \<noteq> []
    \<and> pg_utf_mblen (hd (utf8_encode c)) = length (utf8_encode c)"
proof -
  have leg: "legal_seq (map unat (utf8_encode c))"
    using assms by (simp add: map_unat_utf8_encode legal_seq_utf8_codes)
  then obtain a q where e: "utf8_encode c = a # q"
    by (cases "utf8_encode c") (auto simp: legal_seq_def)
  with leg mblen_legal [of a q] have m: "pg_utf_mblen a = Suc (length q)" by simp
  from leg show ?thesis
    unfolding e by (simp add: front_legal_def m)
qed

lemma is_valid_utf8_from_step:
  "p \<noteq> [] \<Longrightarrow> is_valid_utf8_from p =
     (if front_legal p then is_valid_utf8_from (drop (pg_utf_mblen (hd p)) p) else return False)"
  by (subst is_valid_utf8_from.simps) (simp add: verifier_eq Let_def)

lemma is_valid_utf8_from_total: "\<exists>b. is_valid_utf8_from p = Inr b"
proof (induction p rule: length_induct)
  case (1 p)
  show ?case
  proof (cases "p = []")
    case True
    then show ?thesis by (intro exI [of _ True]) (simp add: is_valid_utf8_from.simps)
  next
    case False
    then have "length (drop (pg_utf_mblen (hd p)) p) < length p"
      using mblen_pos [of "hd p"] by simp
    then obtain b where "is_valid_utf8_from (drop (pg_utf_mblen (hd p)) p) = Inr b"
      using 1 by blast
    with False show ?thesis
      by (cases "front_legal p") (auto simp: is_valid_utf8_from_step)
  qed
qed

lemma is_valid_utf8_from_encodings:
  "list_all scalar cs \<Longrightarrow> is_valid_utf8_from (concat (map utf8_encode cs)) = Inr True"
proof (induction cs)
  case Nil
  then show ?case by (simp add: is_valid_utf8_from.simps)
next
  case (Cons c cs)
  from Cons.prems front_legal_encode [of c "concat (map utf8_encode cs)"] Cons.IH show ?case
    by (simp add: is_valid_utf8_from_step)
qed

lemma is_valid_utf8_from_sound:
  "is_valid_utf8_from p = Inr True \<Longrightarrow> \<exists>cs. list_all scalar cs \<and> p = concat (map utf8_encode cs)"
proof (induction p rule: length_induct)
  case (1 p)
  show ?case
  proof (cases "p = []")
    case True
    then show ?thesis by (intro exI [of _ "[]"]) simp
  next
    case False
    let ?q = "drop (pg_utf_mblen (hd p)) p"
    from False "1.prems" have fl: "front_legal p" and "is_valid_utf8_from ?q = Inr True"
      by (simp_all add: is_valid_utf8_from_step split: if_splits)
    moreover have "length ?q < length p" using False mblen_pos [of "hd p"] by simp
    ultimately obtain cs where cs: "list_all scalar cs" "?q = concat (map utf8_encode cs)"
      using "1.IH" by blast
    obtain c where "scalar c" "p = utf8_encode c @ ?q"
      using front_legal_split [OF False fl] by blast
    with cs show ?thesis by (intro exI [of _ "c # cs"]) simp
  qed
qed

text \<open>
  C16. The validator always returns (it never reads outside the string), and it returns true
  exactly for the concatenations of UTF-8 encodings of Unicode scalar values: no overlong
  forms, no surrogates, nothing above U+10FFFF.
\<close>

theorem is_valid_utf8_correct:
  "is_valid_utf8 s =
     Inr (\<exists>cs. list_all scalar cs \<and> map byte_of_char s = concat (map utf8_encode cs))"
proof -
  obtain b where "is_valid_utf8_from (map byte_of_char s) = Inr b"
    using is_valid_utf8_from_total by blast
  then show ?thesis
    using is_valid_utf8_from_sound is_valid_utf8_from_encodings
    unfolding is_valid_utf8_def by (cases b) fastforce+
qed

section \<open>The Latin-1 conversion\<close>

lemma latin1_byte:
  "(if p < 0x80 then [p] else [0xC0 OR drop_bit 6 p, 0x80 OR (p AND 0x3F)]) = utf8_encode (unat p)"
proof -
  have lo: "(0x80 :: u8) = push_bit 7 1" and m: "(0x3F :: u8) = mask 6"
    by (simp_all add: mask_eq_exp_minus_1)
  have "0xC0 OR drop_bit 6 p = 0xC0 + drop_bit 6 p"
  proof (rule disjunctive_add [symmetric])
    fix n
    have "bit p (6 + n) \<Longrightarrow> n = 0 \<or> n = 1" by (drule bit_imp_le_length) auto
    then show "\<not> bit (0xC0 :: u8) n \<or> \<not> bit (drop_bit 6 p) n" by (auto simp: bit_drop_bit_eq)
  qed
  moreover have "unat p div 64 < 256" using div_le_dividend [of "unat p" 64] unat_u8_less [of p] by linarith
  then have "drop_bit 6 p = word_of_nat (unat p div 64)"
    by (simp add: word_unat_eq_iff unsigned_drop_bit_eq drop_bit_eq_div unat_div)
  moreover have "0x80 OR (p AND 0x3F) = 0x80 + (p AND 0x3F)"
  proof (rule disjunctive_add [symmetric])
    fix n
    have "\<not> bit (0x80 :: u8) n" if "n < 6" using that unfolding lo bit_push_bit_iff by simp
    then show "\<not> bit (0x80 :: u8) n \<or> \<not> bit (p AND 0x3F) n" unfolding m by (auto simp: bit_simps)
  qed
  moreover have "p AND 0x3F = word_of_nat (unat p mod 64)"
    unfolding m by (simp add: take_bit_eq_mask [symmetric] take_bit_eq_mod word_unat_eq_iff unat_mod)
  moreover have "unat p < 2048" using unat_u8_less [of p] by linarith
  ultimately show ?thesis
    by (auto simp: utf8_encode_def utf8_codes_def word_less_nat_alt)
qed

lemma latin1_bytes_eq: "latin1_bytes ps = concat (map (\<lambda>p. utf8_encode (unat p)) ps)"
proof (induction ps)
  case (Cons p ps)
  then show ?case using latin1_byte [of p] by (auto split: if_splits)
qed simp

lemma latin1_to_utf8_bytes: "map byte_of_char (latin1_to_utf8 s) = concat (map utf8_encode (map ucode s))"
  by (simp add: latin1_to_utf8_def latin1_bytes_eq comp_def)

lemma latin1_to_utf8_is_valid: "is_valid_utf8 (latin1_to_utf8 s) = Inr True"
proof -
  have "scalar (ucode c)" for c
    using nat_of_char_less_256 [of c] by (simp add: scalar_def del: nat_of_char_less_256)
  then have "list_all scalar (map ucode s)" by (simp add: list_all_iff)
  then have "is_valid_utf8_from (concat (map utf8_encode (map ucode s))) = Inr True"
    by (rule is_valid_utf8_from_encodings)
  then show ?thesis using latin1_to_utf8_bytes [of s] by (simp add: is_valid_utf8_def comp_def)
qed

lemma is_valid_utf8_total: "\<exists>b. is_valid_utf8 s = Inr b"
  unfolding is_valid_utf8_def using is_valid_utf8_from_total by blast

text \<open>
  The Latin-1 conversion encodes each byte as the code point with its number, and its
  result is always valid UTF-8.
\<close>

theorem latin1_to_utf8_valid:
  "map byte_of_char (latin1_to_utf8 s) = concat (map (\<lambda>c. utf8_encode (ucode c)) s) \<and>
   is_valid_utf8 (latin1_to_utf8 s) = Inr True"
  using latin1_to_utf8_bytes latin1_to_utf8_is_valid by (simp add: comp_def)

end
