(* ===== verification/Stringref.thy ===== *)
theory Stringref
  imports Strings
begin

text \<open>
  String slices (\<open>const_stringref\<close>): a pointer and a length into memory the slice does not
  own. Memory is a list of characters and a pointer an index into it; \<open>lit\<close> is the address
  of the literal \<open>""\<close> that empty slices point to. \<open>str mem s\<close> is the string a slice
  denotes; every operation is related to an operation on that string.
\<close>

section \<open>Slices\<close>

record const_stringref =
  sr_start :: nat
  sr_size :: nat

definition valid :: "string \<Rightarrow> const_stringref \<Rightarrow> bool" where
  "valid mem s \<longleftrightarrow> sr_start s + sr_size s \<le> length mem"

section \<open>C library functions on memory\<close>

definition strlen :: "string \<Rightarrow> nat \<Rightarrow> nat result" where
  "strlen mem p =
     (let n = length (takeWhile (\<lambda>c. c \<noteq> NUL) (drop p mem))
      in if p + n < length mem then return n
         else throw (Undefined_behaviour ''strlen: no NUL''))"

fun memcmp :: "string \<Rightarrow> string \<Rightarrow> int" where
  "memcmp (x # xs) (y # ys) =
     (if ucode x < ucode y then - 1 else if ucode x > ucode y then 1 else memcmp xs ys)"
| "memcmp _ _ = 0"

section \<open>Construction\<close>

definition stringref_empty :: "nat \<Rightarrow> const_stringref" where
  "stringref_empty lit = \<lparr>sr_start = lit, sr_size = 0\<rparr>"

definition stringref_cstr :: "string \<Rightarrow> nat \<Rightarrow> const_stringref result" where
  "stringref_cstr mem s = bind (strlen mem s) (\<lambda>n. return \<lparr>sr_start = s, sr_size = n\<rparr>)"

definition stringref_range :: "nat \<Rightarrow> nat \<Rightarrow> const_stringref" where
  "stringref_range s len = \<lparr>sr_start = s, sr_size = len\<rparr>"

text \<open>From a vector or a \<open>std::string\<close>, given the address and the number of its elements.\<close>

definition stringref_vector :: "nat \<Rightarrow> nat \<Rightarrow> nat \<Rightarrow> const_stringref" where
  "stringref_vector lit data n = \<lparr>sr_start = (if n \<noteq> 0 then data else lit), sr_size = n\<rparr>"

definition stringref_string :: "nat \<Rightarrow> nat \<Rightarrow> nat \<Rightarrow> const_stringref" where
  "stringref_string lit data n = \<lparr>sr_start = (if n \<noteq> 0 then data else lit), sr_size = n\<rparr>"

section \<open>Observation\<close>

definition str :: "string \<Rightarrow> const_stringref \<Rightarrow> string" where
  "str mem s = take (sr_size s) (drop (sr_start s) mem)"

definition empty :: "const_stringref \<Rightarrow> bool" where
  "empty s \<longleftrightarrow> sr_size s = 0"

definition size_of :: "const_stringref \<Rightarrow> nat" where
  "size_of s = sr_size s"

definition throw_bad_index :: "nat \<Rightarrow> nat \<Rightarrow> 'a result" where
  "throw_bad_index n index = throw (Bad_string_index n index)"

definition throw_bad_empty :: "'a result" where
  "throw_bad_empty = throw (Bad_string_index 0 0)"

definition check_index :: "const_stringref \<Rightarrow> nat \<Rightarrow> unit result" where
  "check_index s index = (if index \<ge> sr_size s then throw_bad_index (sr_size s) index else return ())"

definition check_index_equal_ok :: "const_stringref \<Rightarrow> nat \<Rightarrow> unit result" where
  "check_index_equal_ok s index =
     (if index > sr_size s then throw_bad_index (sr_size s) index else return ())"

definition at :: "string \<Rightarrow> const_stringref \<Rightarrow> nat \<Rightarrow> char result" where
  "at mem s index = bind (check_index s index) (\<lambda>_. byte_at mem (sr_start s + index))"

definition cmp :: "string \<Rightarrow> const_stringref \<Rightarrow> const_stringref \<Rightarrow> int" where
  "cmp mem left right =
     (let n = min (sr_size left) (sr_size right);
          ret = memcmp (take n (drop (sr_start left) mem)) (take n (drop (sr_start right) mem))
      in if ret \<noteq> 0 then ret
         else if sr_size left < sr_size right then - 1
         else if sr_size left > sr_size right then 1
         else 0)"

definition less_than :: "string \<Rightarrow> const_stringref \<Rightarrow> const_stringref \<Rightarrow> bool" where
  "less_than mem left right \<longleftrightarrow> cmp mem left right < 0"

definition less_than_equal :: "string \<Rightarrow> const_stringref \<Rightarrow> const_stringref \<Rightarrow> bool" where
  "less_than_equal mem left right \<longleftrightarrow> cmp mem left right \<le> 0"

definition equal_to :: "string \<Rightarrow> const_stringref \<Rightarrow> const_stringref \<Rightarrow> bool" where
  "equal_to mem s t \<longleftrightarrow> sr_size s = sr_size t
     \<and> memcmp (take (sr_size s) (drop (sr_start s) mem)) (take (sr_size s) (drop (sr_start t) mem)) = 0"

definition not_equal_to :: "string \<Rightarrow> const_stringref \<Rightarrow> const_stringref \<Rightarrow> bool" where
  "not_equal_to mem s t \<longleftrightarrow> sr_size s \<noteq> sr_size t
     \<or> memcmp (take (sr_size s) (drop (sr_start s) mem)) (take (sr_size s) (drop (sr_start t) mem)) \<noteq> 0"

text \<open>\<open>strnlen\<close> and \<open>strndup\<close>: up to the first NUL or the size, whichever comes first.\<close>

definition nlen :: "string \<Rightarrow> const_stringref \<Rightarrow> nat" where
  "nlen mem s = length (takeWhile (\<lambda>c. c \<noteq> NUL) (take (sr_size s) (drop (sr_start s) mem)))"

definition ndup :: "string \<Rightarrow> const_stringref \<Rightarrow> string" where
  "ndup mem s = takeWhile (\<lambda>c. c \<noteq> NUL) (take (sr_size s) (drop (sr_start s) mem)) @ [NUL]"

definition c_str :: "string \<Rightarrow> const_stringref \<Rightarrow> string" where
  "c_str mem s = ndup mem s"

section \<open>Slicing\<close>

definition substr :: "const_stringref \<Rightarrow> nat \<Rightarrow> nat \<Rightarrow> const_stringref result" where
  "substr s pos count = bind (check_index_equal_ok s pos) (\<lambda>_.
     return \<lparr>sr_start = sr_start s + pos, sr_size = min count (sr_size s - pos)\<rparr>)"

definition plus_index :: "const_stringref \<Rightarrow> nat \<Rightarrow> const_stringref result" where
  "plus_index s index = bind (check_index_equal_ok s index) (\<lambda>_.
     return \<lparr>sr_start = sr_start s + index, sr_size = sr_size s - index\<rparr>)"

definition plus_assign :: "const_stringref \<Rightarrow> nat \<Rightarrow> const_stringref result" where
  "plus_assign s index = bind (check_index_equal_ok s index) (\<lambda>_.
     return (s\<lparr>sr_start := sr_start s + index, sr_size := sr_size s - index\<rparr>))"

definition incr :: "const_stringref \<Rightarrow> const_stringref result" where
  "incr s = (if sr_size s = 0 then throw_bad_empty
     else return (s\<lparr>sr_start := sr_start s + 1, sr_size := sr_size s - 1\<rparr>))"

text \<open>Post-increment: the old slice and the new one.\<close>

definition post_incr :: "const_stringref \<Rightarrow> (const_stringref \<times> const_stringref) result" where
  "post_incr s = bind (incr s) (\<lambda>t. return (s, t))"

text \<open>\<open>memchr\<close>: the offset of the first occurrence.\<close>

definition memchr :: "string \<Rightarrow> const_stringref \<Rightarrow> char \<Rightarrow> nat option" where
  "memchr mem s ch =
     (let n = length (takeWhile (\<lambda>c. c \<noteq> ch) (str mem s))
      in if n < sr_size s then Some n else None)"

definition chr :: "string \<Rightarrow> nat \<Rightarrow> const_stringref \<Rightarrow> char \<Rightarrow> const_stringref" where
  "chr mem lit s ch =
     (case memchr mem s ch of
        Some ptr \<Rightarrow> \<lparr>sr_start = sr_start s + ptr, sr_size = (sr_start s + sr_size s) - (sr_start s + ptr)\<rparr>
      | None \<Rightarrow> stringref_empty lit)"

text \<open>
  The pointer difference is a \<open>size_t\<close>: a stop before the slice gives a number of at least
  \<open>2 ^ 63\<close>, which the index check rejects.
\<close>

definition pointer_diff :: "nat \<Rightarrow> nat \<Rightarrow> nat" where
  "pointer_diff p q = (if q \<le> p then p - q else 2 ^ 64 - (q - p))"

definition upto :: "const_stringref \<Rightarrow> const_stringref \<Rightarrow> const_stringref result" where
  "upto s stop =
     (if empty stop then return s
      else let off = pointer_diff (sr_start stop) (sr_start s)
           in bind (check_index_equal_ok s off) (\<lambda>_.
                return \<lparr>sr_start = sr_start s, sr_size = off\<rparr>))"

definition append_to :: "string \<Rightarrow> string \<Rightarrow> const_stringref \<Rightarrow> string" where
  "append_to mem dest s = dest @ str mem s"

section \<open>What the operations do to the denoted string\<close>

lemma length_str [simp]: "valid mem s \<Longrightarrow> length (str mem s) = sr_size s"
  by (simp add: valid_def str_def)

lemma str_empty_iff [simp]: "valid mem s \<Longrightarrow> str mem s = [] \<longleftrightarrow> empty s"
  by (metis empty_def length_0_conv length_str)

lemma str_of_empty [simp]: "empty s \<Longrightarrow> str mem s = []"
  by (simp add: empty_def str_def)

lemma at_spec:
  assumes "valid mem s"
  shows "at mem s i =
    (if i < sr_size s then return (str mem s ! i) else throw (Bad_string_index (sr_size s) i))"
  using assms by (simp add: at_def check_index_def throw_bad_index_def str_def valid_def)

lemma memcmp_zero_iff: "length xs = length ys \<Longrightarrow> memcmp xs ys = 0 \<longleftrightarrow> xs = ys"
  by (induction xs ys rule: memcmp.induct) auto

lemma memcmp_sign: "memcmp xs ys = - 1 \<or> memcmp xs ys = 0 \<or> memcmp xs ys = 1"
  by (induction xs ys rule: memcmp.induct) auto

text \<open>Byte-wise comparison with the length as tie-break is the lexicographic order.\<close>

definition cmp_list :: "string \<Rightarrow> string \<Rightarrow> int" where
  "cmp_list xs ys =
     (let n = min (length xs) (length ys); r = memcmp (take n xs) (take n ys)
      in if r \<noteq> 0 then r else if length xs < length ys then - 1
         else if length xs > length ys then 1 else 0)"

lemma cmp_list_simps [simp]:
  "cmp_list [] [] = 0"
  "cmp_list [] (y # ys) = - 1"
  "cmp_list (x # xs) [] = 1"
  "cmp_list (x # xs) (y # ys) =
     (if ucode x < ucode y then - 1 else if ucode x > ucode y then 1 else cmp_list xs ys)"
  by (simp_all add: cmp_list_def Let_def)

lemma cmp_list_less: "cmp_list xs ys < 0 \<longleftrightarrow> xs < ys"
proof (induction xs arbitrary: ys)
  case Nil
  then show ?case by (cases ys) simp_all
next
  case IH: (Cons x xs)
  show ?case
  proof (cases ys)
    case (Cons y ys')
    then show ?thesis
      using IH by (cases "ucode x = ucode y") (auto simp: less_char_def)
  qed simp
qed

lemma str_take: "valid mem s \<Longrightarrow> n \<le> sr_size s \<Longrightarrow> take n (drop (sr_start s) mem) = take n (str mem s)"
  by (simp add: str_def min_absorb1)

lemma cmp_eq:
  assumes "valid mem s" and "valid mem t"
  shows "cmp mem s t = cmp_list (str mem s) (str mem t)"
  unfolding cmp_def cmp_list_def Let_def length_str [OF assms(1)] length_str [OF assms(2)]
    str_take [OF assms(1) min.cobounded1] str_take [OF assms(2) min.cobounded2] by simp

lemma less_than_iff:
  assumes "valid mem s" and "valid mem t"
  shows "less_than mem s t \<longleftrightarrow> str mem s < str mem t"
  by (simp add: less_than_def cmp_eq [OF assms] cmp_list_less)

lemma equal_to_iff:
  assumes "valid mem s" and "valid mem t"
  shows "equal_to mem s t \<longleftrightarrow> str mem s = str mem t"
proof -
  have "sr_size s = sr_size t" if "str mem s = str mem t"
    using that assms by (metis length_str)
  then show ?thesis
    using assms by (auto simp: equal_to_def str_take memcmp_zero_iff)
qed

text \<open>
  C37. The comparison operators order slices as the strings they denote: \<open><\<close> is the
  lexicographic order by unsigned bytes, \<open><=\<close> its reflexive closure, \<open>==\<close> equality of
  contents and \<open>!=\<close> its negation.
\<close>

theorem stringref_order:
  assumes "valid mem s" and "valid mem t"
  shows "(less_than mem s t \<longleftrightarrow> str mem s < str mem t) \<and>
    (less_than_equal mem s t \<longleftrightarrow> str mem s \<le> str mem t) \<and>
    (equal_to mem s t \<longleftrightarrow> str mem s = str mem t) \<and>
    (not_equal_to mem s t \<longleftrightarrow> str mem s \<noteq> str mem t)"
proof -
  have z: "cmp mem s t = 0 \<longleftrightarrow> str mem s = str mem t"
  proof -
    have "cmp mem s t = 0 \<longleftrightarrow> equal_to mem s t"
      by (auto simp: cmp_def equal_to_def Let_def)
    then show ?thesis using equal_to_iff [OF assms] by simp
  qed
  have "less_than_equal mem s t \<longleftrightarrow> less_than mem s t \<or> cmp mem s t = 0"
    by (auto simp: less_than_equal_def less_than_def)
  moreover have "not_equal_to mem s t \<longleftrightarrow> \<not> equal_to mem s t"
    by (auto simp: equal_to_def not_equal_to_def)
  ultimately show ?thesis
    using z less_than_iff [OF assms] equal_to_iff [OF assms] by (auto simp: le_less)
qed

theorem stringref_order_witness:
  "let mem = ''abcab''; s = \<lparr>sr_start = 0, sr_size = 3\<rparr>; t = \<lparr>sr_start = 3, sr_size = 2\<rparr>
   in valid mem s \<and> valid mem t \<and> str mem t < str mem s \<and> less_than mem t s"
proof -
  have h: "valid ''abcab'' \<lparr>sr_start = 3, sr_size = 2\<rparr>"
    "valid ''abcab'' \<lparr>sr_start = 0, sr_size = 3\<rparr>"
    by (simp_all add: valid_def)
  have "str ''abcab'' \<lparr>sr_start = 3, sr_size = 2\<rparr> < str ''abcab'' \<lparr>sr_start = 0, sr_size = 3\<rparr>"
    by (simp add: str_def)
  then show ?thesis using h stringref_order [OF h] by (simp add: Let_def)
qed

lemma substr_spec:
  assumes "valid mem s"
  shows "substr s pos count =
     (if pos \<le> sr_size s
      then return \<lparr>sr_start = sr_start s + pos, sr_size = min count (sr_size s - pos)\<rparr>
      else throw (Bad_string_index (sr_size s) pos))"
  by (simp add: substr_def check_index_equal_ok_def throw_bad_index_def)

lemma str_slice:
  "str mem \<lparr>sr_start = sr_start s + pos, sr_size = min count (sr_size s - pos)\<rparr> =
   take count (drop pos (str mem s))"
  by (simp add: str_def drop_take min.commute add.commute)

text \<open>
  \<open>substr\<close> throws exactly when the position lies behind the end, reporting size and
  position; otherwise it gives the characters from that position on, at most \<open>count\<close> of them.
  The result is a slice of the same memory.
\<close>

theorem stringref_substr:
  assumes "valid mem s"
  shows "(case substr s pos count of
            Inr t \<Rightarrow> pos \<le> sr_size s \<and> valid mem t \<and> str mem t = take count (drop pos (str mem s))
          | Inl e \<Rightarrow> sr_size s < pos \<and> e = Bad_string_index (sr_size s) pos)"
  using assms by (simp add: substr_spec str_slice) (auto simp: valid_def min_def)

theorem stringref_substr_witness:
  "valid ''abcd'' \<lparr>sr_start = 1, sr_size = 3\<rparr> \<and>
   substr \<lparr>sr_start = 1, sr_size = 3\<rparr> 1 9 = Inr \<lparr>sr_start = 2, sr_size = 2\<rparr> \<and>
   str ''abcd'' \<lparr>sr_start = 2, sr_size = 2\<rparr> = ''cd''"
proof -
  have h: "valid ''abcd'' \<lparr>sr_start = 1, sr_size = 3\<rparr>" by (simp add: valid_def)
  have "substr \<lparr>sr_start = 1, sr_size = 3\<rparr> 1 9 = Inr \<lparr>sr_start = 2, sr_size = 2\<rparr>"
    by (simp add: substr_def check_index_equal_ok_def)
  then show ?thesis
    using h stringref_substr [OF h, of 1 9] by (simp add: str_def)
qed

text \<open>Moving forward: \<open>+\<close>, \<open>+=\<close>, \<open>++\<close> and \<open>chr\<close> give suffixes.\<close>

definition suffix_of :: "const_stringref \<Rightarrow> const_stringref \<Rightarrow> bool" where
  "suffix_of t s \<longleftrightarrow> (\<exists>k \<le> sr_size s. sr_start t = sr_start s + k \<and> sr_size t = sr_size s - k)"

lemma suffix_of_valid: "suffix_of t s \<Longrightarrow> valid mem s \<Longrightarrow> valid mem t"
  by (auto simp: suffix_of_def valid_def)

lemma suffix_of_refl [simp]: "suffix_of s s"
  by (simp add: suffix_of_def)

lemma suffix_of_trans: "suffix_of u t \<Longrightarrow> suffix_of t s \<Longrightarrow> suffix_of u s"
proof -
  assume "suffix_of u t" and "suffix_of t s"
  then obtain k l where "k \<le> sr_size t" "sr_start u = sr_start t + k" "sr_size u = sr_size t - k"
    "l \<le> sr_size s" "sr_start t = sr_start s + l" "sr_size t = sr_size s - l"
    by (auto simp: suffix_of_def)
  then show ?thesis unfolding suffix_of_def by (intro exI [of _ "l + k"]) auto
qed

lemma suffix_of_size: "suffix_of t s \<Longrightarrow> sr_size t \<le> sr_size s"
  by (auto simp: suffix_of_def)

lemma suffix_of_str:
  assumes "suffix_of t s" and "valid mem s"
  shows "str mem t = drop (sr_size s - sr_size t) (str mem s)"
proof -
  obtain k where k: "k \<le> sr_size s" "sr_start t = sr_start s + k" "sr_size t = sr_size s - k"
    using assms(1) by (auto simp: suffix_of_def)
  then have "str mem t = drop k (str mem s)"
    by (simp add: str_def drop_take add.commute)
  moreover have "sr_size s - sr_size t = k" using k by simp
  ultimately show ?thesis by simp
qed

lemma incr_spec:
  assumes "valid mem s" and "str mem s = c # cs"
  shows "\<exists>t. incr s = return t \<and> suffix_of t s \<and> str mem t = cs \<and> sr_size t < sr_size s"
proof -
  from assms have "0 < sr_size s" by (metis length_greater_0_conv length_str list.discI)
  then have i: "incr s = return (s\<lparr>sr_start := sr_start s + 1, sr_size := sr_size s - 1\<rparr>)"
    by (simp add: incr_def)
  moreover have "suffix_of (s\<lparr>sr_start := sr_start s + 1, sr_size := sr_size s - 1\<rparr>) s"
    using \<open>0 < sr_size s\<close> unfolding suffix_of_def by (intro exI [of _ 1]) simp
  ultimately show ?thesis
    using assms \<open>0 < sr_size s\<close> by (auto dest: suffix_of_str)
qed

lemma memchr_spec:
  assumes "valid mem s"
  shows "memchr mem s ch =
    (if ch \<in> set (str mem s) then Some (length (takeWhile (\<lambda>c. c \<noteq> ch) (str mem s))) else None)"
proof -
  have "length (takeWhile (\<lambda>c. c \<noteq> ch) (str mem s)) < length (str mem s) \<longleftrightarrow> ch \<in> set (str mem s)"
    unfolding length_takeWhile_less_iff by blast
  then show ?thesis using assms by (simp add: memchr_def Let_def)
qed

lemma chr_found:
  assumes "valid mem s" and "ch \<in> set (str mem s)"
  shows "suffix_of (chr mem lit s ch) s \<and>
    str mem (chr mem lit s ch) = dropWhile (\<lambda>c. c \<noteq> ch) (str mem s)"
proof -
  define n where "n = length (takeWhile (\<lambda>c. c \<noteq> ch) (str mem s))"
  have "n \<le> length (str mem s)" by (simp add: n_def length_takeWhile_le)
  then have n: "n \<le> sr_size s" using assms(1) by simp
  have c: "chr mem lit s ch = \<lparr>sr_start = sr_start s + n, sr_size = sr_size s - n\<rparr>"
    using assms by (simp add: chr_def memchr_spec n_def)
  have suf: "suffix_of (chr mem lit s ch) s"
    unfolding suffix_of_def c using n by (intro exI [of _ n]) simp
  have "str mem (chr mem lit s ch) = drop n (str mem s)"
    using suffix_of_str [OF suf assms(1)] n by (simp add: c)
  with suf show ?thesis by (simp add: n_def dropWhile_eq_drop)
qed

lemma chr_not_found:
  "valid mem s \<Longrightarrow> ch \<notin> set (str mem s) \<Longrightarrow> empty (chr mem lit s ch)"
  by (simp add: chr_def memchr_spec stringref_empty_def empty_def)

lemma upto_spec:
  assumes "valid mem s" and "suffix_of t s"
  shows "\<exists>u. upto s t = return u \<and> str mem u = take (sr_size s - sr_size t) (str mem s)"
proof (cases "empty t")
  case True
  then show ?thesis using assms by (simp add: upto_def empty_def)
next
  case False
  obtain k where k: "k \<le> sr_size s" "sr_start t = sr_start s + k" "sr_size t = sr_size s - k"
    using assms(2) by (auto simp: suffix_of_def)
  then have "upto s t = return \<lparr>sr_start = sr_start s, sr_size = k\<rparr>"
    using False by (simp add: upto_def pointer_diff_def check_index_equal_ok_def)
  moreover have "str mem \<lparr>sr_start = sr_start s, sr_size = k\<rparr> = take k (str mem s)"
    using k by (simp add: str_def min_absorb1)
  ultimately show ?thesis using k by simp
qed

end
