(* ===== verification/PgText.thy ===== *)
theory PgText
  imports Stringref "HOL-Library.Sublist"
begin

text \<open>
  Text that goes to PostgreSQL: splitting an SQL script into statements
  (\<open>lib/cxxll/pg_split_statement.cpp\<close>) and array literals
  (\<open>lib/cxxll/pg_encode_array.cpp\<close>). The splitter walks string slices; it is modelled on
  them first, then shown to agree with a function on the text itself, of which the
  properties are proved.
\<close>

section \<open>The statement splitter\<close>

abbreviation sql_error :: "string \<Rightarrow> 'a result" where
  "sql_error msg \<equiv> throw (Runtime_error msg)"

lemma incr_smaller: "incr s = Inr t \<Longrightarrow> sr_size t < sr_size s"
  by (auto simp: incr_def throw_bad_empty_def split: if_splits)

lemma chr_smaller: "sr_size (chr mem lit s c) \<le> sr_size s"
  by (simp add: chr_def stringref_empty_def split: option.split)

lemma plus_index_smaller: "plus_index s n = Inr t \<Longrightarrow> sr_size t \<le> sr_size s"
  by (auto simp: plus_index_def)

text \<open>Skips the rest of a quoted string; two quotes in a row stand for one.\<close>

function skip_quoted :: "string \<Rightarrow> const_stringref \<Rightarrow> const_stringref result" where
  "skip_quoted mem sql =
     (if empty sql then return sql
      else bind (at mem sql 0) (\<lambda>c.
        if c = CHR 0x27 then
          bind (incr sql) (\<lambda>sql1.
            if empty sql1 then return sql1
            else bind (at mem sql1 0) (\<lambda>d.
              if d \<noteq> CHR 0x27 then return sql1
              else bind (incr sql1) (\<lambda>sql2. skip_quoted mem sql2)))
        else bind (incr sql) (\<lambda>sql1. skip_quoted mem sql1)))"
  by pat_completeness auto
termination
  by (relation "measure (\<lambda>(mem, sql). sr_size sql)") (auto dest!: incr_smaller)

text \<open>Skips the rest of a \<open>$$\<close>-quoted string, its terminator included.\<close>

function skip_dollar :: "string \<Rightarrow> const_stringref \<Rightarrow> const_stringref result" where
  "skip_dollar mem sql =
     (if empty sql then return sql
      else bind (at mem sql 0) (\<lambda>c.
        if c = CHR ''$'' then
          bind (incr sql) (\<lambda>sql1.
            if empty sql1 then skip_dollar mem sql1
            else bind (at mem sql1 0) (\<lambda>d.
              if d = CHR ''$'' then incr sql1 else skip_dollar mem sql1))
        else bind (incr sql) (\<lambda>sql1. skip_dollar mem sql1)))"
  by pat_completeness auto
termination
  by (relation "measure (\<lambda>(mem, sql). sr_size sql)") (auto dest!: incr_smaller)

declare skip_quoted.simps [simp del] skip_dollar.simps [simp del]

lemma skip_quoted_smaller: "skip_quoted mem sql = Inr t \<Longrightarrow> sr_size t \<le> sr_size sql"
proof (induction mem sql rule: skip_quoted.induct)
  case (1 mem sql)
  show ?case
  proof (cases "empty sql")
    case True
    with "1.prems" show ?thesis by (simp add: skip_quoted.simps [of mem sql])
  next
    case False
    with "1.prems" obtain c u where a: "at mem sql 0 = Inr c" and i: "incr sql = Inr u"
      by (auto simp: skip_quoted.simps [of mem sql] split: if_splits)
    from "1.prems" False a i consider "t = u"
      | v d where "c = CHR 0x27" "\<not> empty u" "at mem u 0 = Inr d" "d = CHR 0x27"
          "incr u = Inr v" "skip_quoted mem v = Inr t"
      | "c \<noteq> CHR 0x27" "skip_quoted mem u = Inr t"
      by (auto simp: skip_quoted.simps [of mem sql] split: if_splits)
    then show ?thesis
    proof cases
      case 1
      with incr_smaller [OF i] show ?thesis by simp
    next
      case 2
      with "1.IH"(1) [OF False a _ i] incr_smaller [OF i] incr_smaller [OF 2(5)]
      show ?thesis by fastforce
    next
      case 3
      with "1.IH"(2) [OF False a _ i] incr_smaller [OF i] show ?thesis by fastforce
    qed
  qed
qed

lemma skip_dollar_smaller: "skip_dollar mem sql = Inr t \<Longrightarrow> sr_size t \<le> sr_size sql"
proof (induction mem sql rule: skip_dollar.induct)
  case (1 mem sql)
  show ?case
  proof (cases "empty sql")
    case True
    with "1.prems" show ?thesis by (simp add: skip_dollar.simps [of mem sql])
  next
    case False
    with "1.prems" obtain c u where a: "at mem sql 0 = Inr c" and i: "incr sql = Inr u"
      by (auto simp: skip_dollar.simps [of mem sql] split: if_splits)
    from "1.prems" False a i consider "incr u = Inr t"
      | "c = CHR ''$''" "empty u" "skip_dollar mem u = Inr t"
      | d where "c = CHR ''$''" "\<not> empty u" "at mem u 0 = Inr d" "d \<noteq> CHR ''$''"
          "skip_dollar mem u = Inr t"
      | "c \<noteq> CHR ''$''" "skip_dollar mem u = Inr t"
      by (auto simp: skip_dollar.simps [of mem sql] split: if_splits)
    then show ?thesis
    proof cases
      case 1
      with incr_smaller [OF i] incr_smaller [OF 1] show ?thesis by simp
    next
      case 2
      with "1.IH"(1) [OF False a _ i] incr_smaller [OF i] show ?thesis by simp
    next
      case 3
      with "1.IH"(2) [OF False a _ i] incr_smaller [OF i] show ?thesis by simp
    next
      case 4
      with "1.IH"(3) [OF False a _ i] incr_smaller [OF i] show ?thesis by simp
    qed
  qed
qed

text \<open>
  The main loop: the rest \<open>sql\<close>, the start \<open>lastp\<close> of the current statement, whether a
  statement has begun, and the statements found so far.
\<close>

function split_loop ::
  "string \<Rightarrow> nat \<Rightarrow> const_stringref \<Rightarrow> const_stringref \<Rightarrow> bool \<Rightarrow> string list \<Rightarrow> string list result" where
  "split_loop mem lit sql lastp in_statement res =
     (if empty sql then
        (if \<not> empty lastp then sql_error ''unterminated final SQL statement'' else return res)
      else bind (at mem sql 0) (\<lambda>ch. bind (incr sql) (\<lambda>sql.
        if ch = CHR ''-'' then
          (if empty sql then split_loop mem lit sql lastp in_statement res
           else bind (at mem sql 0) (\<lambda>c.
             if c = CHR ''-'' then
               bind (plus_index sql 1) (\<lambda>sql1.
                 let sql2 = chr mem lit sql1 (CHR 0x0A) in
                 if empty sql2 then return res
                 else bind (incr sql2) (\<lambda>sql3.
                   split_loop mem lit sql3 (if \<not> in_statement then sql3 else lastp) in_statement res))
             else split_loop mem lit sql lastp in_statement res))
        else if ch = CHR 0x27 then
          (if \<not> in_statement then sql_error ''string at start of SQL statement''
           else bind (skip_quoted mem sql) (\<lambda>sql1.
             if empty sql1 then sql_error ''unterminated string in SQL statement''
             else split_loop mem lit sql1 lastp in_statement res))
        else if ch = CHR ''$'' then
          (if \<not> in_statement then sql_error ''$ at start of SQL statement''
           else if empty sql then split_loop mem lit sql lastp in_statement res
           else bind (at mem sql 0) (\<lambda>c.
             if c = CHR ''$'' then
               bind (incr sql) (\<lambda>sql1. bind (skip_dollar mem sql1) (\<lambda>sql2.
                 if empty sql2 then sql_error ''unterminated $$ string in SQL statement''
                 else split_loop mem lit sql2 lastp in_statement res))
             else split_loop mem lit sql lastp in_statement res))
        else if ch = CHR '';'' then
          (if \<not> in_statement then sql_error ''empty SQL statement''
           else bind (upto lastp sql) (\<lambda>st.
             let res1 = res @ [str mem st];
                 res2 = (if str mem st = [] then butlast res1 else res1)
             in split_loop mem lit sql sql False res2))
        else
          (let in_statement = (in_statement \<or> scode ch > scode (CHR '' ''))
           in split_loop mem lit sql (if \<not> in_statement then sql else lastp) in_statement res))))"
  by pat_completeness auto
termination
  by (relation "measure (\<lambda>(mem, lit, sql, lastp, ins, res). sr_size sql)")
    (auto dest!: incr_smaller skip_quoted_smaller skip_dollar_smaller plus_index_smaller,
      meson chr_smaller le_less_trans less_trans less_le_trans)

declare split_loop.simps [simp del]

text \<open>The script is the C string at address \<open>sqlptr\<close>.\<close>

definition pg_split_statement :: "string \<Rightarrow> nat \<Rightarrow> nat \<Rightarrow> string list result" where
  "pg_split_statement mem lit sqlptr =
     bind (stringref_cstr mem sqlptr) (\<lambda>sql. split_loop mem lit sql sql False [])"

section \<open>The splitter on the text itself\<close>

fun skip_quoted_text :: "string \<Rightarrow> string" where
  "skip_quoted_text [] = []"
| "skip_quoted_text (c # cs) =
     (if c = CHR 0x27 then
        (case cs of [] \<Rightarrow> [] | d # ds \<Rightarrow> if d \<noteq> CHR 0x27 then cs else skip_quoted_text ds)
      else skip_quoted_text cs)"

fun skip_dollar_text :: "string \<Rightarrow> string" where
  "skip_dollar_text [] = []"
| "skip_dollar_text (c # cs) =
     (if c = CHR ''$'' then
        (case cs of [] \<Rightarrow> [] | d # ds \<Rightarrow> if d = CHR ''$'' then ds else skip_dollar_text cs)
      else skip_dollar_text cs)"

lemma skip_quoted_text_length: "length (skip_quoted_text cs) \<le> length cs"
proof (induction cs rule: skip_quoted_text.induct)
  case (2 c cs)
  show ?case
  proof (cases "c = CHR 0x27")
    case True
    with 2 show ?thesis by (cases cs) (simp_all add: le_SucI)
  next
    case False
    with 2 show ?thesis by (simp add: le_SucI)
  qed
qed simp

lemma skip_dollar_text_length: "length (skip_dollar_text cs) \<le> length cs"
proof (induction cs rule: skip_dollar_text.induct)
  case (2 c cs)
  show ?case
  proof (cases "c = CHR ''$''")
    case True
    with 2 show ?thesis by (cases cs) (simp_all add: le_SucI)
  next
    case False
    with 2 show ?thesis by (simp add: le_SucI)
  qed
qed simp

lemma dropWhile_length: "dropWhile P xs = y # ys \<Longrightarrow> length ys < length xs"
  using length_dropWhile_le [of P xs] by simp

function split_text :: "string \<Rightarrow> string \<Rightarrow> bool \<Rightarrow> string list \<Rightarrow> string list result" where
  "split_text [] lastp ins res =
     (if lastp \<noteq> [] then sql_error ''unterminated final SQL statement'' else return res)"
| "split_text (ch # sql) lastp ins res =
     (if ch = CHR ''-'' then
        (case sql of
           [] \<Rightarrow> split_text sql lastp ins res
         | c # sql1 \<Rightarrow>
             if c = CHR ''-'' then
               (case dropWhile (\<lambda>c. c \<noteq> CHR 0x0A) sql1 of
                  [] \<Rightarrow> return res
                | _ # sql3 \<Rightarrow> split_text sql3 (if \<not> ins then sql3 else lastp) ins res)
             else split_text sql lastp ins res)
      else if ch = CHR 0x27 then
        (if \<not> ins then sql_error ''string at start of SQL statement''
         else if skip_quoted_text sql = [] then sql_error ''unterminated string in SQL statement''
         else split_text (skip_quoted_text sql) lastp ins res)
      else if ch = CHR ''$'' then
        (if \<not> ins then sql_error ''$ at start of SQL statement''
         else (case sql of
                 [] \<Rightarrow> split_text sql lastp ins res
               | c # sql1 \<Rightarrow>
                   if c = CHR ''$'' then
                     (if skip_dollar_text sql1 = []
                      then sql_error ''unterminated $$ string in SQL statement''
                      else split_text (skip_dollar_text sql1) lastp ins res)
                   else split_text sql lastp ins res))
      else if ch = CHR '';'' then
        (if \<not> ins then sql_error ''empty SQL statement''
         else split_text sql sql False (res @ [take (length lastp - length sql) lastp]))
      else split_text sql (if \<not> (ins \<or> scode ch > scode (CHR '' '')) then sql else lastp)
             (ins \<or> scode ch > scode (CHR '' '')) res)"
  by pat_completeness auto
termination
  by (relation "measure (\<lambda>(sql, lastp, ins, res). length sql)")
    (auto simp: less_Suc_eq_le skip_quoted_text_length dest: dropWhile_length,
      (metis le_SucI skip_dollar_text_length)+)

declare split_text.simps [simp del]

lemma nonempty_slice:
  assumes "valid mem s" and "\<not> empty s"
  obtains c cs t where "str mem s = c # cs" and "at mem s 0 = Inr c" and "incr s = Inr t"
    and "suffix_of t s" and "str mem t = cs" and "sr_size t < sr_size s" and "valid mem t"
proof -
  obtain c cs where s: "str mem s = c # cs"
    using assms by (cases "str mem s") auto
  moreover from assms have "at mem s 0 = Inr c"
    using s by (simp add: at_spec empty_def)
  ultimately show thesis
    using that incr_spec [OF assms(1) s] suffix_of_valid [OF _ assms(1)] by blast
qed

lemma skip_quoted_refines:
  "valid mem s \<Longrightarrow> \<exists>t. skip_quoted mem s = Inr t \<and> suffix_of t s
     \<and> str mem t = skip_quoted_text (str mem s)"
proof (induction "sr_size s" arbitrary: s rule: less_induct)
  case less
  show ?case
  proof (cases "empty s")
    case True
    with less.prems have "str mem s = []" by simp
    with True show ?thesis
      by (intro exI [of _ s]) (simp add: skip_quoted.simps [of mem s])
  next
    case False
    from less.prems False obtain c cs t where s: "str mem s = c # cs" "at mem s 0 = Inr c"
      "incr s = Inr t" "suffix_of t s" "str mem t = cs" "sr_size t < sr_size s" "valid mem t"
      by (rule nonempty_slice)
    show ?thesis
    proof (cases "c = CHR 0x27 \<and> \<not> empty t")
      case True
      with s(7) obtain d ds u where t: "str mem t = d # ds" "at mem t 0 = Inr d" "incr t = Inr u"
        "suffix_of u t" "str mem u = ds" "sr_size u < sr_size t" "valid mem u"
        by (metis nonempty_slice)
      obtain v where "skip_quoted mem u = Inr v" "suffix_of v u"
        "str mem v = skip_quoted_text (str mem u)"
        using less.hyps [of u] s t by auto
      with s t True False show ?thesis
        by (auto simp: skip_quoted.simps [of mem s] intro: suffix_of_trans)
    next
      case c: False
      obtain v where "skip_quoted mem t = Inr v" "suffix_of v t"
        "str mem v = skip_quoted_text (str mem t)"
        using less.hyps [of t] s by auto
      with s c False str_empty_iff [OF s(7)] show ?thesis
        by (auto simp: skip_quoted.simps [of mem s] intro: suffix_of_trans)
    qed
  qed
qed

lemma skip_dollar_refines:
  "valid mem s \<Longrightarrow> \<exists>t. skip_dollar mem s = Inr t \<and> suffix_of t s
     \<and> str mem t = skip_dollar_text (str mem s)"
proof (induction "sr_size s" arbitrary: s rule: less_induct)
  case less
  show ?case
  proof (cases "empty s")
    case True
    with less.prems have "str mem s = []" by simp
    with True show ?thesis
      by (intro exI [of _ s]) (simp add: skip_dollar.simps [of mem s])
  next
    case False
    from less.prems False obtain c cs t where s: "str mem s = c # cs" "at mem s 0 = Inr c"
      "incr s = Inr t" "suffix_of t s" "str mem t = cs" "sr_size t < sr_size s" "valid mem t"
      by (rule nonempty_slice)
    obtain v where v: "skip_dollar mem t = Inr v" "suffix_of v t"
      "str mem v = skip_dollar_text (str mem t)"
      using less.hyps [of t] s by auto
    show ?thesis
    proof (cases "c = CHR ''$'' \<and> \<not> empty t")
      case True
      with s(7) obtain d ds u where t: "str mem t = d # ds" "at mem t 0 = Inr d" "incr t = Inr u"
        "suffix_of u t" "str mem u = ds" "sr_size u < sr_size t" "valid mem u"
        by (metis nonempty_slice)
      with s v True False show ?thesis
        by (auto simp: skip_dollar.simps [of mem s] intro: suffix_of_trans)
    next
      case c: False
      with s v False str_empty_iff [OF s(7)] show ?thesis
        by (auto simp: skip_dollar.simps [of mem s] intro: suffix_of_trans)
    qed
  qed
qed

lemma upto_refines:
  assumes "valid mem lastp" and "suffix_of t lastp"
  obtains st where "upto lastp t = Inr st"
    and "str mem st = take (length (str mem lastp) - length (str mem t)) (str mem lastp)"
  using upto_spec [OF assms] suffix_of_valid [OF assms(2,1)] assms(1) by auto

text \<open>The slice version computes what the text version computes on the denoted strings.\<close>

lemma split_loop_refines:
  "valid mem lastp \<Longrightarrow> suffix_of sql lastp \<Longrightarrow>
   split_loop mem lit sql lastp ins res = split_text (str mem sql) (str mem lastp) ins res"
proof (induction "sr_size sql" arbitrary: sql lastp ins res rule: less_induct)
  case less
  have val: "valid mem sql" using less.prems suffix_of_valid by blast
  show ?case
  proof (cases "empty sql")
    case True
    with less.prems show ?thesis
      by (simp add: split_loop.simps [of mem lit sql] split_text.simps(1))
  next
    case False
    from val False obtain ch cs t where s: "str mem sql = ch # cs" "at mem sql 0 = Inr ch"
      "incr sql = Inr t" "suffix_of t sql" "str mem t = cs" "sr_size t < sr_size sql" "valid mem t"
      by (rule nonempty_slice)
    have suf: "suffix_of u lastp" if "suffix_of u t" for u
      using that s(4) less.prems(2) suffix_of_trans by blast
    have rec: "split_loop mem lit u l i r = split_text (str mem u) (str mem l) i r"
      if "suffix_of u t" "l = u \<or> l = lastp" for u l i r
    proof -
      have "sr_size u < sr_size sql" using suffix_of_size [OF that(1)] s(6) by simp
      moreover have "valid mem l" using that suf suffix_of_valid less.prems(1) by blast
      moreover have "suffix_of u l" using that suf by auto
      ultimately show ?thesis by (rule less.hyps)
    qed
    note unfold = split_loop.simps [of mem lit sql] split_text.simps(2) [of _ cs] s False Let_def
    consider "ch = CHR ''-''" | "ch = CHR 0x27" | "ch = CHR ''$''" | "ch = CHR '';''"
      | (other) "ch \<notin> {CHR ''-'', CHR 0x27, CHR ''$'', CHR '';''}" by blast
    then show ?thesis
    proof cases
      case 1
      show ?thesis
      proof (cases "empty t")
        case True
        then have "cs = []" using s(5) by simp
        with 1 True rec [of t lastp] show ?thesis
          by (simp add: unfold split_text.simps(2) [of _ "[]"])
      next
        case ne: False
        from s(7) ne obtain d ds u where t: "str mem t = d # ds" "at mem t 0 = Inr d"
          "incr t = Inr u" "suffix_of u t" "str mem u = ds" "valid mem u"
          by (metis nonempty_slice)
        have p: "plus_index t 1 = Inr u"
          using t(3) ne by (auto simp: plus_index_def incr_def check_index_equal_ok_def empty_def
              throw_bad_empty_def split: if_splits)
        show ?thesis
        proof (cases "CHR 0x0A \<in> set ds")
          case True
          let ?c = "chr mem lit u (CHR 0x0A)"
          have c: "suffix_of ?c u" "str mem ?c = dropWhile (\<lambda>c. c \<noteq> CHR 0x0A) ds"
            using chr_found [OF t(6), of _ lit] True t(5) by auto
          then have "\<not> empty ?c" and "valid mem ?c"
            using True suffix_of_valid [OF c(1) t(6)] str_of_empty [of ?c mem] c(2)
            by (auto simp: dropWhile_eq_Nil_conv)
          then obtain e es w where w: "str mem ?c = e # es" "incr ?c = Inr w" "suffix_of w ?c"
            "str mem w = es"
            by (metis nonempty_slice)
          have "suffix_of w t" using w(3) c(1) t(4) suffix_of_trans by blast
          moreover have "dropWhile (\<lambda>c. c \<noteq> CHR 0x0A) ds = e # es" using c(2) w(1) by simp
          moreover have "cs = d # ds" using s(5) t(1) by simp
          ultimately show ?thesis
            using 1 ne t(2) p w(2,4) \<open>\<not> empty ?c\<close> rec [of w w] rec [of w lastp]
              rec [of t lastp]
            by (simp add: unfold split_text.simps(2) [of "CHR ''-''" "d # ds"])
        next
          case nf: False
          then have "empty (chr mem lit u (CHR 0x0A))"
            using chr_not_found [OF t(6)] t(5) by simp
          moreover have "dropWhile (\<lambda>c. c \<noteq> CHR 0x0A) ds = []" using nf by auto
          moreover have "cs = d # ds" using s(5) t(1) by simp
          ultimately show ?thesis
            using 1 ne t(2) p rec [of t lastp]
            by (simp add: unfold split_text.simps(2) [of "CHR ''-''" "d # ds"]
                del: dropWhile_eq_Nil_conv)
        qed
      qed
    next
      case 2
      obtain v where v: "skip_quoted mem t = Inr v" "suffix_of v t"
        "str mem v = skip_quoted_text cs"
        using skip_quoted_refines [OF s(7)] s(5) by auto
      then have "empty v \<longleftrightarrow> skip_quoted_text cs = []"
        using suffix_of_valid [OF v(2) s(7)] str_empty_iff by metis
      with 2 v rec [of v lastp] show ?thesis by (simp add: unfold)
    next
      case 3
      show ?thesis
      proof (cases "empty t")
        case True
        then have "cs = []" using s(5) by simp
        with 3 True rec [of t lastp] show ?thesis
          by (simp add: unfold split_text.simps(2) [of _ "[]"])
      next
        case ne: False
        from s(7) ne obtain d ds u where t: "str mem t = d # ds" "at mem t 0 = Inr d"
          "incr t = Inr u" "suffix_of u t" "str mem u = ds" "valid mem u"
          by (metis nonempty_slice)
        obtain v where v: "skip_dollar mem u = Inr v" "suffix_of v u"
          "str mem v = skip_dollar_text ds"
          using skip_dollar_refines [OF t(6)] t(5) by auto
        then have "empty v \<longleftrightarrow> skip_dollar_text ds = []"
          using suffix_of_valid [OF v(2) t(6)] str_empty_iff by metis
        moreover have "cs = d # ds" using s(5) t(1) by simp
        ultimately show ?thesis
          using 3 ne t(2,3) v(1,3) rec [of v lastp] rec [of t lastp]
            suffix_of_trans [OF v(2) t(4)]
          by (simp add: unfold split_text.simps(2) [of "CHR ''$''" "d # ds"])
      qed
    next
      case 4
      obtain st where st: "upto lastp t = Inr st"
        "str mem st = take (length (str mem lastp) - length (str mem t)) (str mem lastp)"
        using upto_refines [OF less.prems(1) suf [OF suffix_of_refl]] by blast
      have "length (str mem t) < length (str mem lastp)"
        unfolding length_str [OF s(7)] length_str [OF less.prems(1)]
        using s(6) suffix_of_size [OF less.prems(2)] by linarith
      then have "length (str mem st) > 0" unfolding st(2) length_take by linarith
      then have "str mem st \<noteq> []" by force
      with 4 st rec [of t t] s(5) show ?thesis by (simp add: unfold)
    next
      case other
      with rec [of t t] rec [of t lastp] s(5) show ?thesis by (simp add: unfold)
    qed
  qed
qed

lemma strlen_script:
  assumes "NUL \<notin> set script" and "mem = before @ script @ NUL # after"
  shows "strlen mem (length before) = Inr (length script)"
proof -
  have "takeWhile (\<lambda>c. c \<noteq> NUL) (script @ NUL # after) = script"
    by (rule takeWhile_append_stop) (use assms(1) in auto)
  then show ?thesis
    using assms(2) by (simp add: strlen_def)
qed

lemma pg_split_statement_text:
  assumes "NUL \<notin> set script" and "mem = before @ script @ NUL # after"
  shows "pg_split_statement mem lit (length before) = split_text script script False []"
proof -
  let ?s = "\<lparr>sr_start = length before, sr_size = length script\<rparr>"
  have "pg_split_statement mem lit (length before) = split_loop mem lit ?s ?s False []"
    by (simp add: pg_split_statement_def stringref_cstr_def strlen_script [OF assms])
  moreover have "valid mem ?s" and "str mem ?s = script"
    using assms(2) by (simp_all add: valid_def str_def)
  ultimately show ?thesis by (simp add: split_loop_refines)
qed

text \<open>
  C33. The splitter on slices agrees with its reading on the text: for a NUL-terminated script
  at any address it returns what \<open>split_text\<close> returns on the characters before the NUL. In
  particular no slice operation in it can fail: every exception is one of the splitter's own.
\<close>

theorem pg_split_statement_refines:
  assumes "NUL \<notin> set script" and "mem = before @ script @ NUL # after"
  shows "pg_split_statement mem lit (length before) = split_text script script False []"
  using assms by (rule pg_split_statement_text)

theorem pg_split_statement_refines_witness:
  "NUL \<notin> set ''a;'' \<and> pg_split_statement (''x'' @ ''a;'' @ NUL # ''y'') 0 1 = Inr [''a;'']"
proof -
  have h: "NUL \<notin> set ''a;''" by simp
  have "split_text ''a;'' ''a;'' False [] = Inr [''a;'']"
    by (simp add: split_text.simps scode_def Let_def)
  then show ?thesis
    using h pg_split_statement_refines [OF h refl, of "''x''" "''y''" 0] by simp
qed

section \<open>What the statements are\<close>

text \<open>
  \<open>pieces_of txt sts\<close>: the statements \<open>sts\<close> are disjoint pieces of the text, in the order
  of the text, with other text before, between and after them.
\<close>

fun pieces_of :: "string \<Rightarrow> string list \<Rightarrow> bool" where
  "pieces_of txt [] = True"
| "pieces_of txt (st # sts) = (\<exists>pre post. txt = pre @ st @ post \<and> pieces_of post sts)"

lemma pieces_of_prefix: "pieces_of txt sts \<Longrightarrow> pieces_of (pre @ txt) sts"
  by (cases sts) (auto, metis append.assoc)

lemma pieces_of_suffix: "suffix u t \<Longrightarrow> pieces_of u sts \<Longrightarrow> pieces_of t sts"
  by (auto simp: suffix_def pieces_of_prefix)

definition good_statement :: "string \<Rightarrow> bool" where
  "good_statement st \<longleftrightarrow> st \<noteq> [] \<and> last st = CHR '';''"

text \<open>Every branch of the splitter moves to a proper suffix of the rest.\<close>

lemma skip_quoted_text_suffix: "suffix (skip_quoted_text cs) cs"
proof (induction cs rule: skip_quoted_text.induct)
  case (2 c cs)
  show ?case
  proof (cases "c = CHR 0x27")
    case True
    with 2 show ?thesis by (cases cs) (simp_all add: suffix_ConsI)
  next
    case False
    with 2 show ?thesis by (simp add: suffix_ConsI)
  qed
qed simp

lemma skip_dollar_text_suffix: "suffix (skip_dollar_text cs) cs"
proof (induction cs rule: skip_dollar_text.induct)
  case (2 c cs)
  show ?case
  proof (cases "c = CHR ''$''")
    case True
    with 2 show ?thesis by (cases cs) (simp_all add: suffix_ConsI)
  next
    case False
    with 2 show ?thesis by (simp add: suffix_ConsI)
  qed
qed simp

lemma suffix_shorter: "suffix u cs \<Longrightarrow> length u < Suc (length cs)"
  by (auto simp: suffix_def)

text \<open>
  One step of the splitter on a non-empty rest, seen from outside: it ends with a result or an
  error, or it goes on with a suffix of the rest, having emitted nothing or the current
  statement.
\<close>

lemma split_text_step:
  obtains (stop) "split_text (ch # sql) lastp ins res = Inr res"
  | (error) e where "split_text (ch # sql) lastp ins res = sql_error e"
  | (skip) u l i where "split_text (ch # sql) lastp ins res = split_text u l i res"
      "suffix u sql" "l = u \<or> l = lastp"
  | (emit) "split_text (ch # sql) lastp ins res =
        split_text sql sql False (res @ [take (length lastp - length sql) lastp])"
      "ch = CHR '';''"
proof -
  have dw: "suffix sql3 sql" if "sql = c # sql1"
    "dropWhile (\<lambda>c. c \<noteq> CHR 0x0A) sql1 = x # sql3" for c sql1 x sql3
  proof -
    have "suffix (x # sql3) sql1" using suffix_dropWhile that(2) by metis
    then show ?thesis using that(1) by (simp add: suffix_ConsI suffix_ConsD)
  qed
  have sd: "suffix (skip_dollar_text sql1) sql" if "sql = c # sql1" for c sql1
    unfolding that by (rule suffix_ConsI [OF skip_dollar_text_suffix])
  consider "ch = CHR ''-''" | "ch = CHR 0x27" | "ch = CHR ''$''" | "ch = CHR '';''"
    | (other) "ch \<notin> {CHR ''-'', CHR 0x27, CHR ''$'', CHR '';''}" by blast
  then show thesis
  proof cases
    case 1
    show thesis
    proof (cases "\<exists>sql1. sql = CHR ''-'' # sql1")
      case True
      then obtain sql1 where sql: "sql = CHR ''-'' # sql1" by blast
      show thesis
      proof (cases "dropWhile (\<lambda>c. c \<noteq> CHR 0x0A) sql1")
        case Nil
        with 1 sql show thesis
          by (intro that(1)) (simp add: split_text.simps(2) del: dropWhile_eq_Nil_conv)
      next
        case (Cons x sql3)
        with 1 sql show thesis
          using dw [OF sql Cons]
          by (intro that(3) [of sql3 "if \<not> ins then sql3 else lastp" ins])
            (simp_all add: split_text.simps(2))
      qed
    next
      case False
      with 1 show thesis
        by (intro that(3) [of sql lastp ins])
          (auto simp: split_text.simps(2) [of _ sql] split: list.split)
    qed
  next
    case 2
    then show thesis
      using that(2) that(3) [of "skip_quoted_text sql" lastp ins] skip_quoted_text_suffix
      by (cases ins; cases "skip_quoted_text sql = []")
        (simp_all add: split_text.simps(2) [of _ sql])
  next
    case 3
    show thesis
    proof (cases "ins \<and> (\<exists>sql1. sql = CHR ''$'' # sql1)")
      case True
      then obtain sql1 where sql: "sql = CHR ''$'' # sql1" by blast
      with 3 True show thesis
        using sd [OF sql] that(2) that(3) [of "skip_dollar_text sql1" lastp ins]
        by (cases "skip_dollar_text sql1 = []") 
          (simp_all add: split_text.simps(2) [of _ "CHR ''$'' # sql1"])
    next
      case False
      with 3 show thesis
        using that(2) that(3) [of sql lastp ins]
        by (cases sql; cases ins)
          (auto simp: split_text.simps(2) [of _ "[]"] split_text.simps(2) [of "CHR ''$''" "_ # _"])
    qed
  next
    case 4
    then show thesis
      using that(2,4) by (cases ins) (simp_all add: split_text.simps(2) [of _ sql])
  next
    case other
    then show thesis
      using that(3) [of sql "if \<not> (ins \<or> scode ch > scode (CHR '' '')) then sql else lastp"]
      by (simp add: split_text.simps(2) [of _ sql])
  qed
qed

lemma emitted_statement:
  assumes "suffix (CHR '';'' # sql) lastp"
  shows "good_statement (take (length lastp - length sql) lastp)"
    and "lastp = take (length lastp - length sql) lastp @ sql"
  using assms by (auto simp: suffix_def good_statement_def)

lemma split_text_sound:
  "split_text sql lastp ins res = Inr out \<Longrightarrow> suffix sql lastp \<Longrightarrow>
   \<exists>new. out = res @ new \<and> pieces_of lastp new \<and> list_all good_statement new"
proof (induction "length sql" arbitrary: sql lastp ins res rule: less_induct)
  case less
  show ?case
  proof (cases sql)
    case Nil
    with less.prems show ?thesis
      by (intro exI [of _ "[]"]) (simp add: split_text.simps(1) split: if_splits)
  next
    case (Cons ch cs)
    then show ?thesis
    proof (cases rule: split_text_step [of ch cs lastp ins res])
      case stop
      with Cons less.prems show ?thesis by (intro exI [of _ "[]"]) simp
    next
      case (error e)
      with Cons less.prems show ?thesis by simp
    next
      case (skip u l i)
      have "suffix u lastp"
        using skip(2) Cons less.prems(2) by (metis suffix_ConsI suffix_order.trans)
      moreover from this skip(3) have "suffix u l" by auto
      ultimately obtain new where n: "out = res @ new" "pieces_of l new" "list_all good_statement new"
        using less.hyps [of u l i res] suffix_shorter [OF skip(2)] skip(1) Cons less.prems(1) by auto
      have "suffix l lastp" using skip(3) \<open>suffix u lastp\<close> by auto
      with n show ?thesis using pieces_of_suffix by blast
    next
      case emit
      let ?st = "take (length lastp - length cs) lastp"
      have suf: "suffix (CHR '';'' # cs) lastp" using emit(2) Cons less.prems(2) by simp
      obtain new where n: "out = res @ ?st # new" "pieces_of cs new" "list_all good_statement new"
        using less.hyps [of cs cs False "res @ [?st]"] emit(1) Cons less.prems(1) by auto
      have "lastp = [] @ ?st @ cs" using emitted_statement(2) [OF suf] by simp
      then have "pieces_of lastp (?st # new)"
        using n(2) pieces_of.simps(2) by blast
      with n emitted_statement(1) [OF suf] show ?thesis
        by (intro exI [of _ "?st # new"]) simp
    qed
  qed
qed

text \<open>
  When the splitter returns, the statements are disjoint pieces of the script, in the order
  of the script, and each of them is non-empty and ends with its semicolon.
\<close>

theorem pg_split_statement_pieces:
  assumes "NUL \<notin> set script" and "mem = before @ script @ NUL # after"
    and "pg_split_statement mem lit (length before) = Inr sts"
  shows "pieces_of script sts \<and> list_all good_statement sts"
proof -
  have "split_text script script False [] = Inr sts"
    using assms(3) by (simp add: pg_split_statement_text [OF assms(1,2)])
  from split_text_sound [OF this suffix_order.refl] show ?thesis by simp
qed

theorem pg_split_statement_pieces_witness:
  "pieces_of ''a;'' [''a;''] \<and> list_all good_statement [''a;'']"
proof -
  have h: "NUL \<notin> set ''a;''" by simp
  have "split_text ''a;'' ''a;'' False [] = Inr [''a;'']"
    by (simp add: split_text.simps scode_def Let_def)
  then have "pg_split_statement (''x'' @ ''a;'' @ NUL # ''y'') 0 (length ''x'') = Inr [''a;'']"
    by (simp only: pg_split_statement_text [OF h refl])
  then show ?thesis by (rule pg_split_statement_pieces [OF h refl])
qed

subsection \<open>Array literals\<close>

text \<open>
  The two loops of pg\_encode\_array, over the strings of the array and over the characters of
  one string; the accumulator is the variable result of the source.
\<close>

fun encode_chars :: "string \<Rightarrow> string \<Rightarrow> string result" where
  "encode_chars [] acc = return acc"
| "encode_chars (ch # q) acc =
    (if ch = NUL then throw (Pg_exception ''NUL character in pg_encode_array'')
     else if ch = CHR 0x22 \<or> ch = CHR 0x5C then encode_chars q ((acc @ [CHR 0x5C]) @ [ch])
     else encode_chars q (acc @ [ch]))"

fun encode_elements :: "string list \<Rightarrow> string \<Rightarrow> string result" where
  "encode_elements [] acc = return acc"
| "encode_elements (p # ps) acc =
    (let acc1 = (if length acc > 1 then acc @ '','' else acc) in
     bind (encode_chars p (acc1 @ [CHR 0x22])) (\<lambda>acc2. encode_elements ps (acc2 @ [CHR 0x22])))"

definition pg_encode_array :: "string list \<Rightarrow> string result" where
  "pg_encode_array xs = bind (encode_elements xs ''{'') (\<lambda>acc. return (acc @ ''}''))"

text \<open>
  The reference reader of array literals, as the PostgreSQL manual describes the quoted form:
  a brace, elements in double quotes separated by commas, a brace; inside the quotes a backslash
  takes the next character literally.
\<close>

fun read_quoted :: "string \<Rightarrow> string \<Rightarrow> string list \<Rightarrow> string list option"
  and read_delim :: "string \<Rightarrow> string list \<Rightarrow> string list option" where
  "read_quoted [] cur xs = None"
| "read_quoted [c] cur xs = None"
| "read_quoted (c # d # cs) cur xs =
    (if c = CHR 0x5C then read_quoted cs (cur @ [d]) xs
     else if c = CHR 0x22 then read_delim (d # cs) (xs @ [cur])
     else read_quoted (d # cs) (cur @ [c]) xs)"
| "read_delim [] xs = None"
| "read_delim [c] xs = (if c = CHR ''}'' then Some xs else None)"
| "read_delim (c # d # cs) xs =
    (if c = CHR '','' \<and> d = CHR 0x22 then read_quoted cs [] xs else None)"

fun read_array :: "string \<Rightarrow> string list option" where
  "read_array (c # d # cs) =
    (if c \<noteq> CHR ''{'' then None
     else if d = CHR ''}'' \<and> cs = [] then Some []
     else if d = CHR 0x22 then read_quoted cs [] [] else None)"
| "read_array _ = None"

primrec escaped :: "string \<Rightarrow> string" where
  "escaped [] = []"
| "escaped (c # cs) = (if c = CHR 0x22 \<or> c = CHR 0x5C then CHR 0x5C # c # escaped cs else c # escaped cs)"

lemma encode_chars_eq:
  "encode_chars q acc = (if NUL \<in> set q
     then throw (Pg_exception ''NUL character in pg_encode_array'') else return (acc @ escaped q))"
  by (induction q acc rule: encode_chars.induct) auto

lemma read_quoted_escaped:
  assumes "rest \<noteq> []"
  shows "read_quoted (escaped q @ CHR 0x22 # rest) cur xs = read_delim rest (xs @ [cur @ q])"
proof (induction q arbitrary: cur)
  case Nil
  obtain r rs where "rest = r # rs" using assms by (cases rest) auto
  then show ?case by simp
next
  case (Cons c q)
  obtain d ds where d: "escaped q @ CHR 0x22 # rest = d # ds"
    by (cases "escaped q @ CHR 0x22 # rest") auto
  show ?case using Cons.IH [of "cur @ [c]"] by (auto simp: d)
qed

primrec elements_text :: "string list \<Rightarrow> string" where
  "elements_text [] = []"
| "elements_text (p # ps) = '','' @ [CHR 0x22] @ escaped p @ [CHR 0x22] @ elements_text ps"

lemma encode_elements_eq:
  assumes "1 < length acc"
  shows "encode_elements ps acc = (if list_ex (\<lambda>p. NUL \<in> set p) ps
     then throw (Pg_exception ''NUL character in pg_encode_array'')
     else return (acc @ elements_text ps))"
  using assms by (induction ps arbitrary: acc) (auto simp: encode_chars_eq Let_def)

lemma read_elements_text: "read_delim (elements_text ps @ ''}'') xs = Some (xs @ ps)"
proof (induction ps arbitrary: xs)
  case (Cons p ps)
  have "read_quoted (escaped p @ CHR 0x22 # elements_text ps @ ''}'') [] xs = Some (xs @ p # ps)"
    by (subst read_quoted_escaped) (simp_all add: Cons.IH)
  then show ?case by simp
qed simp

text \<open>
  Encoding an array fails exactly when one of its strings contains a NUL character, with the
  NUL error; otherwise PostgreSQL's array syntax reads the literal back as the same strings.
\<close>

theorem pg_encode_array_roundtrip:
  "case pg_encode_array xs of
     Inl e \<Rightarrow> e = Pg_exception ''NUL character in pg_encode_array'' \<and> list_ex (\<lambda>x. NUL \<in> set x) xs
   | Inr t \<Rightarrow> read_array t = Some xs \<and> list_all (\<lambda>x. NUL \<notin> set x) xs"
proof (cases xs)
  case (Cons p ps)
  have "read_quoted (escaped p @ CHR 0x22 # elements_text ps @ ''}'') [] [] = Some (p # ps)"
    by (subst read_quoted_escaped) (simp_all add: read_elements_text)
  then show ?thesis
    by (auto simp: Cons pg_encode_array_def encode_chars_eq encode_elements_eq list_ex_iff list_all_iff)
qed (simp add: pg_encode_array_def)

subsection \<open>Input lost by the splitter\<close>

lemma no_newline_end: "CHR 0x0A \<notin> set cs \<Longrightarrow> dropWhile (\<lambda>c. c \<noteq> CHR 0x0A) cs = []"
  by (induction cs) auto

text \<open>
  A script whose last line is a comment that the end of the file terminates is accepted even
  inside a statement: the unterminated statement before the comment is dropped and no error is
  reported, although the end of the text inside a statement is an error otherwise.
\<close>

theorem pg_split_statement_drops_unterminated:
  "split_text (''ab'' @ ''--'' @ replicate n (CHR ''x'')) (''ab'' @ ''--'' @ replicate n (CHR ''x'')) False [] = Inr []
   \<and> (\<exists>e. split_text ''ab'' ''ab'' False [] = sql_error e)"
proof -
  have "dropWhile (\<lambda>c. c \<noteq> CHR 0x0A) (replicate n (CHR ''x'')) = []"
    by (rule no_newline_end) auto
  then show ?thesis by (simp add: split_text.simps scode_def Let_def)
qed

end
