(* ===== verification/Extract.thy ===== *)
theory Extract
  imports Endian
begin

text \<open>
  The readers of binary formats: \<open>lib/cxxll/vector_extract.cpp\<close> and
  \<open>include/cxxll/vector_extract.hpp\<close>. A \<open>std::vector<unsigned char>\<close> is a list of bytes, a
  \<open>size_t\<close> is a 64-bit word. The functions that advance the offset they take by reference are
  cursors: from the offset at the call they give the outcome and the offset afterwards, so that
  the offset is known on the error path too.
\<close>

section \<open>Reads at an offset\<close>

text \<open>\<open>std::vector::at\<close>\<close>

definition vector_at :: "'a list \<Rightarrow> u64 \<Rightarrow> 'a result" where
  "vector_at vec off =
     (if unat off < length vec then return (vec ! unat off)
      else throw (Out_of_range ''vector::_M_range_check''))"

definition extract_string :: "u8 list \<Rightarrow> u64 \<Rightarrow> u64 \<Rightarrow> string result" where
  "extract_string vec offset len =
     (let stop = offset + len in
      if stop < offset \<or> unat stop > length vec then throw (Out_of_range ''cxxll::extract'')
      else return (map char_of_byte (take (unat stop - unat offset) (drop (unat offset) vec))))"

definition extract8 :: "u8 list \<Rightarrow> u64 \<Rightarrow> u8 result" where
  "extract8 vec offset = vector_at vec offset"

definition extract16 :: "u8 list \<Rightarrow> u64 \<Rightarrow> u16 result" where
  "extract16 vec offset =
     bind (vector_at vec offset) (\<lambda>a.
     bind (vector_at vec (offset + 1)) (\<lambda>b.
     return (ucast (push_bit 8 (ucast a :: u32) + ucast b))))"

definition extract32 :: "u8 list \<Rightarrow> u64 \<Rightarrow> u32 result" where
  "extract32 vec offset =
     bind (vector_at vec offset) (\<lambda>a.
     bind (vector_at vec (offset + 1)) (\<lambda>b.
     bind (vector_at vec (offset + 2)) (\<lambda>c.
     bind (vector_at vec (offset + 3)) (\<lambda>d.
     return (push_bit 24 (ucast a) + push_bit 16 (ucast b) + push_bit 8 (ucast c) + ucast d)))))"

definition extract64 :: "u8 list \<Rightarrow> u64 \<Rightarrow> u64 result" where
  "extract64 vec offset =
     bind (extract32 vec offset) (\<lambda>a.
     bind (extract32 vec (offset + 4)) (\<lambda>b.
     return (push_bit 32 (ucast a) OR ucast b)))"

section \<open>Cursors\<close>

type_synonym 'a cursor = "u64 \<Rightarrow> 'a result \<times> u64"

definition cbind :: "'a cursor \<Rightarrow> ('a \<Rightarrow> 'b cursor) \<Rightarrow> 'b cursor" where
  "cbind m f offset = (case m offset of (Inl e, off) \<Rightarrow> (Inl e, off) | (Inr x, off) \<Rightarrow> f x off)"

definition creturn :: "'a \<Rightarrow> 'a cursor" where
  "creturn x offset = (return x, offset)"

definition cthrow :: "exn \<Rightarrow> 'a cursor" where
  "cthrow e offset = (throw e, offset)"

definition advance :: "u64 \<Rightarrow> unit cursor" where
  "advance n offset = (return (), offset + n)"

definition reading :: "(u64 \<Rightarrow> 'a result) \<Rightarrow> u64 \<Rightarrow> 'a cursor" where
  "reading f n offset = (case f offset of Inl e \<Rightarrow> (Inl e, offset) | Inr x \<Rightarrow> (Inr x, offset + n))"

definition extract_uchar :: "u8 list \<Rightarrow> u8 cursor" where
  "extract_uchar vec offset = (vector_at vec offset, offset + 1)"

definition extract_ushort :: "u8 list \<Rightarrow> u16 cursor" where
  "extract_ushort vec = reading (extract16 vec) 2"

definition extract_unsigned :: "u8 list \<Rightarrow> u32 cursor" where
  "extract_unsigned vec = reading (extract32 vec) 4"

definition extract_ulonglong :: "u8 list \<Rightarrow> u64 cursor" where
  "extract_ulonglong vec = reading (extract64 vec) 8"

lemma cbind_simps [simp]:
  "m offset = (Inl e, off) \<Longrightarrow> cbind m f offset = (Inl e, off)"
  "m offset = (Inr x, off) \<Longrightarrow> cbind m f offset = f x off"
  by (simp_all add: cbind_def)

lemma cbind_cong [fundef_cong]:
  assumes "m offset = m' offset'" and "\<And>x off. m' offset' = (Inr x, off) \<Longrightarrow> f x off = f' x off"
  shows "cbind m f offset = cbind m' f' offset'"
  using assms by (auto simp: cbind_def split: sum.splits prod.splits)

section \<open>The numbers read\<close>

text \<open>The number that bytes stand for with the most significant byte first.\<close>

definition be_value :: "u8 list \<Rightarrow> nat" where
  "be_value bs = foldl (\<lambda>n b. 256 * n + unat b) 0 bs"

definition be_bytes16 :: "u16 \<Rightarrow> u8 list" where
  "be_bytes16 v = [ucast (drop_bit 8 v), ucast v]"

definition be_bytes32 :: "u32 \<Rightarrow> u8 list" where
  "be_bytes32 v = [ucast (drop_bit 24 v), ucast (drop_bit 16 v), ucast (drop_bit 8 v), ucast v]"

lemma unat_add_small:
  assumes "length vec < 2 ^ 64" and "unat off + k \<le> length vec"
  shows "unat (off + word_of_nat k :: u64) = unat off + k"
proof -
  have "off + word_of_nat k = (word_of_nat (unat off + k) :: u64)" by simp
  moreover have "unat (word_of_nat (unat off + k) :: u64) = unat off + k"
    using assms by (subst unsigned_of_nat) (simp add: take_bit_nat_eq_self)
  ultimately show ?thesis by (simp only:)
qed

lemma vector_at_offset:
  assumes "length vec < 2 ^ 64" and "unat off + k < length vec"
  shows "vector_at vec (off + word_of_nat k) = return (vec ! (unat off + k))"
  using assms unat_add_small [of vec off k] by (simp add: vector_at_def)

lemma vector_at_end:
  assumes "length vec < 2 ^ 64" and "unat off + k = length vec"
  shows "vector_at vec (off + word_of_nat k) = throw (Out_of_range ''vector::_M_range_check'')"
  using assms unat_add_small [of vec off k] by (simp add: vector_at_def)

lemma take_drop_bytes:
  assumes "n + k \<le> length vec"
  shows "take k (drop n vec) = map (\<lambda>i. vec ! (n + i)) [0..<k]"
  using assms by (intro nth_equalityI) auto

lemma small_word_of_nat [simp]:
  "word_of_nat 1 = (1 :: 'a::len word)" "word_of_nat 2 = (2 :: 'a::len word)"
  "word_of_nat 3 = (3 :: 'a::len word)" "word_of_nat (Suc 0) = (1 :: 'a::len word)"
  by simp_all

lemmas vector_at_offsets =
  vector_at_offset [of _ _ 0, simplified] vector_at_offset [of _ _ 1, simplified]
  vector_at_offset [of _ _ 2, simplified] vector_at_offset [of _ _ 3, simplified]
  vector_at_end [of _ _ 1, simplified] vector_at_end [of _ _ 2, simplified]
  vector_at_end [of _ _ 3, simplified]

lemma ucast_u32_of_nat: "(ucast (word_of_nat n :: u32) :: u16) = word_of_nat n"
  by (simp add: word_unat_eq_iff unsigned_ucast_eq unsigned_of_nat)

lemma push_bit_word: "push_bit n (w :: 'a::len word) = w * 2 ^ n"
  by (simp add: push_bit_eq_mult)

lemma combine16: "(ucast (push_bit 8 (ucast a :: u32) + ucast b) :: u16) = word_of_nat (be_value [a, b])"
proof -
  have "push_bit 8 (ucast a :: u32) + ucast b = word_of_nat (be_value [a, b])"
    by (simp add: push_bit_word be_value_def algebra_simps)
  then show ?thesis by (simp only: ucast_u32_of_nat)
qed

lemma combine32:
  "push_bit 24 (ucast a :: u32) + push_bit 16 (ucast b) + push_bit 8 (ucast c) + ucast d
   = word_of_nat (be_value [a, b, c, d])"
  by (simp add: push_bit_word be_value_def algebra_simps)

lemma bytes_at:
  assumes "n + 2 \<le> length vec"
  shows "take 2 (drop n vec) = [vec ! n, vec ! (n + 1)]"
  using assms by (simp add: take_drop_bytes numeral_eq_Suc)

lemma bytes_at4:
  assumes "n + 4 \<le> length vec"
  shows "take 4 (drop n vec) = [vec ! n, vec ! (n + 1), vec ! (n + 2), vec ! (n + 3)]"
  using assms by (simp add: take_drop_bytes numeral_eq_Suc)

lemma extract16_value:
  assumes "length vec < 2 ^ 64"
  shows "extract16 vec off =
    (if unat off + 2 \<le> length vec
     then return (word_of_nat (be_value (take 2 (drop (unat off) vec))))
     else throw (Out_of_range ''vector::_M_range_check''))"
proof -
  consider "unat off + 2 \<le> length vec" | "unat off + 1 = length vec" | "length vec \<le> unat off"
    by linarith
  then show ?thesis
  proof cases
    case 1
    then have "vector_at vec off = return (vec ! unat off)"
      "vector_at vec (off + 1) = return (vec ! (unat off + 1))"
      using assms by (auto intro: vector_at_offsets)
    with 1 show ?thesis
      by (simp only: extract16_def bind_simps combine16 bytes_at if_True)
  next
    case 2
    then have "vector_at vec off = return (vec ! unat off)"
      "vector_at vec (off + 1) = throw (Out_of_range ''vector::_M_range_check'')"
      using assms by (auto intro: vector_at_offsets)
    with 2 show ?thesis by (simp add: extract16_def)
  next
    case 3
    then show ?thesis by (simp add: extract16_def vector_at_def)
  qed
qed

lemma extract32_value:
  assumes "length vec < 2 ^ 64"
  shows "extract32 vec off =
    (if unat off + 4 \<le> length vec
     then return (word_of_nat (be_value (take 4 (drop (unat off) vec))))
     else throw (Out_of_range ''vector::_M_range_check''))"
proof -
  consider "unat off + 4 \<le> length vec" | "length vec \<le> unat off"
    | "unat off + 1 = length vec" | "unat off + 2 = length vec" | "unat off + 3 = length vec"
    by linarith
  then show ?thesis
  proof cases
    case 1
    then have "vector_at vec off = return (vec ! unat off)"
      "vector_at vec (off + 1) = return (vec ! (unat off + 1))"
      "vector_at vec (off + 2) = return (vec ! (unat off + 2))"
      "vector_at vec (off + 3) = return (vec ! (unat off + 3))"
      using assms vector_at_offset [of vec off 2] vector_at_offset [of vec off 3]
      by (auto intro: vector_at_offsets)
    with 1 show ?thesis
      by (simp only: extract32_def bind_simps combine32 bytes_at4 if_True)
  next
    case 2
    then show ?thesis by (simp add: extract32_def vector_at_def)
  next
    case 3
    with assms have "vector_at vec off = return (vec ! unat off)"
      "vector_at vec (off + 1) = throw (Out_of_range ''vector::_M_range_check'')"
      by (auto intro: vector_at_offsets)
    with 3 show ?thesis by (simp add: extract32_def)
  next
    case 4
    with assms have "vector_at vec off = return (vec ! unat off)"
      "vector_at vec (off + 1) = return (vec ! (unat off + 1))"
      "vector_at vec (off + 2) = throw (Out_of_range ''vector::_M_range_check'')"
      using vector_at_end [of vec off 2] by (auto intro: vector_at_offsets)
    with 4 show ?thesis by (simp add: extract32_def)
  next
    case 5
    with assms have "vector_at vec off = return (vec ! unat off)"
      "vector_at vec (off + 1) = return (vec ! (unat off + 1))"
      "vector_at vec (off + 2) = return (vec ! (unat off + 2))"
      "vector_at vec (off + 3) = throw (Out_of_range ''vector::_M_range_check'')"
      using vector_at_offset [of vec off 2] vector_at_end [of vec off 3]
      by (auto intro: vector_at_offsets)
    with 5 show ?thesis by (simp add: extract32_def)
  qed
qed

lemma be_value_snoc: "be_value (bs @ [b]) = 256 * be_value bs + unat b"
  by (simp add: be_value_def)

lemma be_value_append: "be_value (as @ bs) = 256 ^ length bs * be_value as + be_value bs"
proof (induction bs rule: rev_induct)
  case Nil
  then show ?case by (simp add: be_value_def)
next
  case (snoc b bs)
  have "be_value (as @ bs @ [b]) = 256 * be_value (as @ bs) + unat b"
    using be_value_snoc [of "as @ bs" b] by simp
  then show ?case by (simp add: snoc be_value_snoc algebra_simps)
qed

lemma be_value_bound: "be_value bs < 256 ^ length bs"
proof (induction bs rule: rev_induct)
  case Nil
  then show ?case by (simp add: be_value_def)
next
  case (snoc b bs)
  have "256 * be_value bs + unat b < 256 * (be_value bs + 1)" using unat_u8_less [of b] by simp
  also have "\<dots> \<le> 256 * 256 ^ length bs" using snoc by (intro mult_le_mono2) simp
  finally show ?case by (simp add: be_value_snoc)
qed

lemma combine64: "(push_bit 32 (ucast a) OR ucast b :: u64) = word_of_nat (2 ^ 32 * unat a + unat b)"
  for a b :: u32
proof -
  have "(push_bit 32 (ucast a) OR ucast b :: u64) = push_bit 32 (ucast a) + ucast b"
    by (rule disjunctive_add [symmetric]) (auto simp: bit_simps dest: bit_imp_le_length)
  then show ?thesis by (simp add: push_bit_word)
qed

lemma unat_be_value4: "length bs = 4 \<Longrightarrow> unat (word_of_nat (be_value bs) :: u32) = be_value bs"
  using be_value_bound [of bs] by (simp add: unsigned_of_nat take_bit_nat_eq_self)

lemma take_drop_8: "take 8 (drop n vec) = take 4 (drop n vec) @ take 4 (drop (n + 4) vec)"
proof -
  have "take (4 + 4) (drop n vec) = take 4 (drop n vec) @ take 4 (drop 4 (drop n vec))"
    by (rule take_add)
  then show ?thesis by (simp add: add.commute)
qed

lemma extract64_value:
  assumes "length vec < 2 ^ 64"
  shows "extract64 vec off =
    (if unat off + 8 \<le> length vec
     then return (word_of_nat (be_value (take 8 (drop (unat off) vec))))
     else throw (Out_of_range ''vector::_M_range_check''))"
proof (cases "unat off + 4 \<le> length vec")
  case True
  then have off: "unat (off + 4) = unat off + 4"
    using unat_add_small [OF assms, of off 4] by simp
  show ?thesis
  proof (cases "unat off + 8 \<le> length vec")
    case True
    then have "extract64 vec off = return (word_of_nat (2 ^ 32 * be_value (take 4 (drop (unat off) vec))
        + be_value (take 4 (drop (unat off + 4) vec))))"
      by (simp add: extract64_def extract32_value [OF assms] off combine64 unat_be_value4
          del: of_nat_add of_nat_mult of_nat_unat)
    moreover have "length (take 4 (drop (unat off + 4) vec)) = 4" using True by simp
    ultimately show ?thesis using True
      by (simp add: take_drop_8 be_value_append del: length_take)
  next
    case False
    with \<open>unat off + 4 \<le> length vec\<close> show ?thesis
      by (simp add: extract64_def extract32_value [OF assms] off)
  qed
next
  case False
  then show ?thesis by (simp add: extract64_def extract32_value [OF assms])
qed

text \<open>
  C36. The big-endian readers return the number that the bytes at the offset stand for, most
  significant byte first, when all of them are inside the vector, and throw
  \<open>std::out_of_range\<close> otherwise; no read wraps around the end of the address space.
\<close>

theorem extract_big_endian:
  assumes "length vec < 2 ^ 64"
  shows "extract16 vec off =
      (if unat off + 2 \<le> length vec
       then return (word_of_nat (be_value (take 2 (drop (unat off) vec))))
       else throw (Out_of_range ''vector::_M_range_check'')) \<and>
    extract32 vec off =
      (if unat off + 4 \<le> length vec
       then return (word_of_nat (be_value (take 4 (drop (unat off) vec))))
       else throw (Out_of_range ''vector::_M_range_check'')) \<and>
    extract64 vec off =
      (if unat off + 8 \<le> length vec
       then return (word_of_nat (be_value (take 8 (drop (unat off) vec))))
       else throw (Out_of_range ''vector::_M_range_check''))"
  using extract16_value [OF assms] extract32_value [OF assms] extract64_value [OF assms] by blast

theorem extract_big_endian_witness:
  "extract16 [0xCA, 0xFE, 0xBA] 1 = return 0xFEBA \<and>
   extract32 [0xCA, 0xFE, 0xBA] 0 = throw (Out_of_range ''vector::_M_range_check'')"
  using extract_big_endian [of "[0xCA, 0xFE, 0xBA]" 1] extract_big_endian [of "[0xCA, 0xFE, 0xBA]" 0]
  by (simp add: be_value_def)

end
