(* ===== verification/Java_class.thy ===== *)
theory Java_class
  imports Extract
begin

text \<open>
  The reader of Java class files: \<open>lib/cxxll/java_class.cpp\<close> and
  \<open>include/cxxll/java_class.hpp\<close>. The constructor is a cursor over the file whose
  \<open>out_of_range\<close> errors are caught and reported with the offset reached.
\<close>

section \<open>The class and its constructor\<close>

record class_data =
  buffer :: "u8 list"
  minor_version :: u16
  major_version :: u16
  constant_pool_offsets :: "u32 list"
  access_flags :: u16
  this_class_idx :: u16
  super_class_idx :: u16
  interface_indexes :: "u32 list"

abbreviation CONSTANT_Class :: u8 where "CONSTANT_Class \<equiv> 7"
abbreviation CONSTANT_Fieldref :: u8 where "CONSTANT_Fieldref \<equiv> 9"
abbreviation CONSTANT_Methodref :: u8 where "CONSTANT_Methodref \<equiv> 10"
abbreviation CONSTANT_InterfaceMethodref :: u8 where "CONSTANT_InterfaceMethodref \<equiv> 11"
abbreviation CONSTANT_String :: u8 where "CONSTANT_String \<equiv> 8"
abbreviation CONSTANT_Integer :: u8 where "CONSTANT_Integer \<equiv> 3"
abbreviation CONSTANT_Float :: u8 where "CONSTANT_Float \<equiv> 4"
abbreviation CONSTANT_Long :: u8 where "CONSTANT_Long \<equiv> 5"
abbreviation CONSTANT_Double :: u8 where "CONSTANT_Double \<equiv> 6"
abbreviation CONSTANT_NameAndType :: u8 where "CONSTANT_NameAndType \<equiv> 12"
abbreviation CONSTANT_Utf8 :: u8 where "CONSTANT_Utf8 \<equiv> 1"

definition has_signature :: "u8 list \<Rightarrow> bool result" where
  "has_signature vec =
     (if length vec < 32 then return False
      else fst (cbind (extract_unsigned vec) (\<lambda>magic.
                cbind (extract_ushort vec) (\<lambda>minor.
                cbind (extract_ushort vec) (\<lambda>major.
                creturn (magic = 0xCAFEBABE \<and> major < 100)))) 0))"

text \<open>
  The switch on the tag: it skips the constant and says whether the constant takes two slots.
\<close>

definition skip_constant :: "u8 list \<Rightarrow> u8 \<Rightarrow> bool cursor" where
  "skip_constant vec tag =
     (if tag \<in> {CONSTANT_Class, CONSTANT_String} then cbind (advance 2) (\<lambda>_. creturn False)
      else if tag \<in> {CONSTANT_Fieldref, CONSTANT_Float, CONSTANT_Integer,
          CONSTANT_InterfaceMethodref, CONSTANT_Methodref, CONSTANT_NameAndType}
        then cbind (advance 4) (\<lambda>_. creturn False)
      else if tag \<in> {CONSTANT_Long, CONSTANT_Double} then cbind (advance 8) (\<lambda>_. creturn True)
      else if tag = CONSTANT_Utf8
        then cbind (extract_ushort vec) (\<lambda>len. cbind (advance (ucast len)) (\<lambda>_. creturn False))
      else cthrow (Java_class_exception (''invalid constant pool tag '' @ dec (unat tag))))"

function pool_loop :: "u8 list \<Rightarrow> nat \<Rightarrow> nat \<Rightarrow> u32 list \<Rightarrow> u32 list cursor" where
  "pool_loop vec count i offs offset =
     (if i < count then
        cbind (extract_uchar vec) (\<lambda>tag.
        cbind (skip_constant vec tag) (\<lambda>wide.
          if wide then pool_loop vec count (i + 2) (offs @ [ucast offset] @ [0])
          else pool_loop vec count (i + 1) (offs @ [ucast offset]))) offset
      else creturn offs offset)"
  by pat_completeness auto
termination by (relation "measure (\<lambda>(_, count, i, _, _). count - i)") auto

declare pool_loop.simps [simp del]

fun interface_loop :: "u8 list \<Rightarrow> nat \<Rightarrow> u32 list \<Rightarrow> u32 list cursor" where
  "interface_loop vec 0 acc offset = creturn acc offset"
| "interface_loop vec (Suc n) acc offset =
     cbind (extract_ushort vec) (\<lambda>idx. interface_loop vec n (acc @ [ucast idx])) offset"

definition class_body :: "u8 list \<Rightarrow> class_data cursor" where
  "class_body vec =
     cbind (extract_unsigned vec) (\<lambda>magic.
     if magic \<noteq> 0xCAFEBABE then cthrow (Java_class_exception ''class file magic value not found'')
     else
     cbind (extract_ushort vec) (\<lambda>minor.
     cbind (extract_ushort vec) (\<lambda>major.
     cbind (extract_ushort vec) (\<lambda>constant_pool_count.
     if constant_pool_count < 2 then cthrow (Java_class_exception ''constant pool is empty'')
     else
     cbind (pool_loop vec (unat constant_pool_count) 1 []) (\<lambda>offs.
     cbind (extract_ushort vec) (\<lambda>flags.
     cbind (extract_ushort vec) (\<lambda>this.
     cbind (extract_ushort vec) (\<lambda>super.
     cbind (extract_ushort vec) (\<lambda>interface_count.
     cbind (interface_loop vec (unat interface_count) []) (\<lambda>indexes.
     creturn \<lparr>buffer = vec, minor_version = minor, major_version = major,
       constant_pool_offsets = offs, access_flags = flags, this_class_idx = this,
       super_class_idx = super, interface_indexes = indexes\<rparr>))))))))))"

definition java_class :: "u8 list \<Rightarrow> class_data result" where
  "java_class vec =
     (case class_body vec 0 of
        (Inl e, offset) \<Rightarrow>
          if is_out_of_range e
          then throw (Java_class_exception (''index out of range at '' @ dec (unat offset)))
          else throw e
      | (Inr c, offset) \<Rightarrow> return c)"

section \<open>The accessors\<close>

definition utf8_string :: "class_data \<Rightarrow> u16 \<Rightarrow> string result" where
  "utf8_string c idx =
     (if idx = 0 then throw (Java_class_exception ''zero constant pool index'')
      else bind (vector_at (constant_pool_offsets c) (ucast idx - 1)) (\<lambda>offset.
        fst (cbind (extract_uchar (buffer c)) (\<lambda>tag.
          if tag \<noteq> CONSTANT_Utf8 then cthrow (Java_class_exception ''UTF-8 tag expected'')
          else cbind (extract_ushort (buffer c)) (\<lambda>len off.
            (extract_string (buffer c) off (ucast len), off))) (ucast offset))))"

definition class_name :: "class_data \<Rightarrow> u16 \<Rightarrow> string result" where
  "class_name c idx =
     (if idx = 0 then throw (Java_class_exception ''zero constant pool index'')
      else bind (vector_at (constant_pool_offsets c) (ucast idx - 1)) (\<lambda>offset.
        fst (cbind (extract_uchar (buffer c)) (\<lambda>tag.
          if tag \<noteq> CONSTANT_Class then cthrow (Java_class_exception ''class tag expected'')
          else cbind (extract_ushort (buffer c)) (\<lambda>name_idx off.
            (utf8_string c name_idx, off))) (ucast offset))))"

definition this_class :: "class_data \<Rightarrow> string result" where
  "this_class c = class_name c (this_class_idx c)"

definition super_class :: "class_data \<Rightarrow> string result" where
  "super_class c = (if super_class_idx c = 0 then return [] else class_name c (super_class_idx c))"

definition interface_count :: "class_data \<Rightarrow> u32" where
  "interface_count c = of_nat (length (interface_indexes c))"

definition interface :: "class_data \<Rightarrow> u32 \<Rightarrow> string result" where
  "interface c index =
     bind (vector_at (interface_indexes c) (ucast index)) (\<lambda>idx. class_name c (ucast idx))"

fun references_loop :: "class_data \<Rightarrow> u32 list \<Rightarrow> string list \<Rightarrow> string list result" where
  "references_loop c [] acc = return acc"
| "references_loop c (p # ps) acc =
    (if p \<noteq> 0 then
       bind (vector_at (buffer c) (ucast p)) (\<lambda>tag.
         if tag = CONSTANT_Class then
           bind (extract16 (buffer c) (ucast p + 1)) (\<lambda>name_idx.
           bind (utf8_string c name_idx) (\<lambda>name.
           references_loop c ps (acc @ [name])))
         else references_loop c ps acc)
     else references_loop c ps acc)"

definition class_references :: "class_data \<Rightarrow> string list result" where
  "class_references c = references_loop c (constant_pool_offsets c) []"

section \<open>Errors of the constructor\<close>

definition parse_error :: "exn \<Rightarrow> bool" where
  "parse_error e \<longleftrightarrow> (\<exists>m. e = Out_of_range m \<or> e = Java_class_exception m)"

definition contained :: "'a cursor \<Rightarrow> bool" where
  "contained m \<longleftrightarrow> (\<forall>off e off'. m off = (Inl e, off') \<longrightarrow> parse_error e)"

lemma containedI: "(\<And>off e off'. m off = (Inl e, off') \<Longrightarrow> parse_error e) \<Longrightarrow> contained m"
  by (simp add: contained_def)

lemma contained_cbind:
  assumes "contained m" and "\<And>x. contained (f x)"
  shows "contained (cbind m f)"
  using assms unfolding contained_def cbind_def by (fastforce split: sum.splits prod.splits)

lemma contained_basic:
  "contained (creturn x)" "contained (advance n)"
  "contained (cthrow (Java_class_exception m))"
  "contained (extract_uchar vec)" "contained (extract_ushort vec)" "contained (extract_unsigned vec)"
  by (auto intro!: containedI split: if_splits sum.splits
      simp: creturn_def advance_def cthrow_def extract_uchar_def vector_at_def parse_error_def
        extract_ushort_def extract_unsigned_def reading_def extract16_def extract32_def bind_eq_Inl)

lemmas contained_intros = contained_cbind contained_basic

lemma contained_if: "contained a \<Longrightarrow> contained b \<Longrightarrow> contained (if P then a else b)"
  by simp

lemma contained_skip_constant: "contained (skip_constant vec tag)"
  unfolding skip_constant_def by (intro contained_if contained_intros)

lemma contained_pool_loop: "contained (pool_loop vec count i offs)"
proof (induction "count - i" arbitrary: i offs rule: less_induct)
  case less
  show ?case
  proof (cases "i < count")
    case True
    have "contained (cbind (extract_uchar vec) (\<lambda>tag. cbind (skip_constant vec tag) (\<lambda>wide.
          if wide then pool_loop vec count (i + 2) (offs @ [x] @ [0])
          else pool_loop vec count (i + 1) (offs @ [x]))))" for x
      using True by (intro contained_intros contained_skip_constant contained_if less) auto
    then show ?thesis
      unfolding contained_def using True by (subst pool_loop.simps) simp
  next
    case False
    then show ?thesis
      using contained_basic(1) unfolding contained_def by (subst pool_loop.simps) simp
  qed
qed

lemma contained_interface_loop: "contained (interface_loop vec n acc)"
proof (induction n arbitrary: acc)
  case 0
  show ?case using contained_basic(1) [of acc] by (simp add: contained_def)
next
  case (Suc n)
  have "interface_loop vec (Suc n) acc
      = cbind (extract_ushort vec) (\<lambda>idx. interface_loop vec n (acc @ [ucast idx]))" by auto
  then show ?case by (simp only:) (intro contained_intros Suc)
qed

lemma contained_class_body: "contained (class_body vec)"
  unfolding class_body_def
  by (intro contained_if contained_intros contained_pool_loop contained_interface_loop)

section \<open>Class files as the format describes them\<close>

text \<open>
  The constants of the class file format, grouped by their size: names and four-byte constants
  carry their tag, eight-byte constants take two slots of the constant pool.
\<close>

datatype cp_info =
    CP_Class u16
  | CP_String u16
  | CP_Quad u8 "u8 list"
  | CP_Wide u8 "u8 list"
  | CP_Utf8 "u8 list"

primrec wf_constant :: "cp_info \<Rightarrow> bool" where
  "wf_constant (CP_Class i) = True"
| "wf_constant (CP_String i) = True"
| "wf_constant (CP_Quad t bs) =
    (t \<in> {CONSTANT_Fieldref, CONSTANT_Float, CONSTANT_Integer, CONSTANT_InterfaceMethodref,
       CONSTANT_Methodref, CONSTANT_NameAndType} \<and> length bs = 4)"
| "wf_constant (CP_Wide t bs) = (t \<in> {CONSTANT_Long, CONSTANT_Double} \<and> length bs = 8)"
| "wf_constant (CP_Utf8 bs) = (length bs < 65536)"

primrec encode_constant :: "cp_info \<Rightarrow> u8 list" where
  "encode_constant (CP_Class i) = CONSTANT_Class # be_bytes16 i"
| "encode_constant (CP_String i) = CONSTANT_String # be_bytes16 i"
| "encode_constant (CP_Quad t bs) = t # bs"
| "encode_constant (CP_Wide t bs) = t # bs"
| "encode_constant (CP_Utf8 bs) = CONSTANT_Utf8 # be_bytes16 (of_nat (length bs)) @ bs"

primrec slots_of :: "cp_info \<Rightarrow> cp_info option list" where
  "slots_of (CP_Class i) = [Some (CP_Class i)]"
| "slots_of (CP_String i) = [Some (CP_String i)]"
| "slots_of (CP_Quad t bs) = [Some (CP_Quad t bs)]"
| "slots_of (CP_Wide t bs) = [Some (CP_Wide t bs), None]"
| "slots_of (CP_Utf8 bs) = [Some (CP_Utf8 bs)]"

definition encode_pool :: "cp_info list \<Rightarrow> u8 list" where
  "encode_pool pool = concat (map encode_constant pool)"

definition pool_slots :: "cp_info list \<Rightarrow> cp_info option list" where
  "pool_slots pool = concat (map slots_of pool)"

definition encode_class ::
  "u16 \<Rightarrow> u16 \<Rightarrow> cp_info list \<Rightarrow> u16 \<Rightarrow> u16 \<Rightarrow> u16 \<Rightarrow> u16 list \<Rightarrow> u8 list" where
  "encode_class minor major pool flags this super ifs =
     be_bytes32 0xCAFEBABE @ be_bytes16 minor @ be_bytes16 major @
     be_bytes16 (of_nat (1 + length (pool_slots pool))) @ encode_pool pool @
     be_bytes16 flags @ be_bytes16 this @ be_bytes16 super @
     be_bytes16 (of_nat (length ifs)) @ concat (map be_bytes16 ifs)"

primrec offsets_of :: "nat \<Rightarrow> cp_info list \<Rightarrow> u32 list" where
  "offsets_of n [] = []"
| "offsets_of n (c # cs) =
     of_nat n # replicate (length (slots_of c) - 1) 0 @ offsets_of (n + length (encode_constant c)) cs"

section \<open>Reading what was written\<close>

definition reads :: "u8 list \<Rightarrow> nat \<Rightarrow> u8 list \<Rightarrow> bool" where
  "reads vec n bs \<longleftrightarrow> (\<exists>pre post. vec = pre @ bs @ post \<and> length pre = n)"

lemma reads_append: "reads vec n (as @ bs) \<Longrightarrow> reads vec n as \<and> reads vec (n + length as) bs"
  unfolding reads_def by (metis append.assoc length_append)

lemma reads_Cons: "reads vec n (a # bs) \<Longrightarrow> reads vec n [a] \<and> reads vec (n + 1) bs"
  using reads_append [of vec n "[a]" bs] by simp

lemma reads_take: "reads vec n bs \<Longrightarrow> n + length bs \<le> length vec \<and> take (length bs) (drop n vec) = bs"
  unfolding reads_def by auto

lemma reads_nth: "reads vec n [b] \<Longrightarrow> n < length vec \<and> vec ! n = b"
  unfolding reads_def by (auto simp: nth_append)

lemma unat_offset: "n \<le> length vec \<Longrightarrow> length vec < 2 ^ 32 \<Longrightarrow> unat (of_nat n :: u64) = n"
  by (simp add: unsigned_of_nat take_bit_nat_eq_self)

lemma be_value_be_bytes16: "word_of_nat (be_value (be_bytes16 v)) = v"
proof -
  have lim: "unat v < 65536" using unsigned_less [of v, where ?'a = nat] by simp
  moreover have "unat (ucast (drop_bit 8 v) :: u8) = unat v div 256 mod 256"
    using lim by (simp only: unsigned_ucast_eq unsigned_drop_bit_eq)
      (simp add: take_bit_eq_mod drop_bit_eq_div)
  moreover have "unat (ucast v :: u8) = unat v mod 256"
    by (simp add: unsigned_ucast_eq take_bit_eq_mod)
  moreover have "unat v div 256 mod 256 = unat v div 256" using lim by (simp add: div_less_iff_less_mult)
  ultimately have "be_value (be_bytes16 v) = unat v"
    by (simp add: be_value_def be_bytes16_def)
  then show ?thesis by simp
qed

lemma length_be_bytes [simp]: "length (be_bytes16 v) = 2" "length (be_bytes32 w) = 4"
  by (simp_all add: be_bytes16_def be_bytes32_def)

lemma extract_uchar_reads:
  assumes "length vec < 2 ^ 32" and "reads vec n [b]"
  shows "extract_uchar vec (of_nat n) = (Inr b, of_nat (n + 1))"
  using reads_nth [OF assms(2)] unat_offset [OF _ assms(1), of n]
  by (simp add: extract_uchar_def vector_at_def add.commute)

lemma extract16_reads:
  assumes "length vec < 2 ^ 32" and "reads vec n (be_bytes16 v)"
  shows "extract16 vec (of_nat n) = Inr v"
proof -
  have "length vec < 2 ^ 64" using assms(1) by simp
  then show ?thesis
    using reads_take [OF assms(2)] unat_offset [OF _ assms(1), of n]
    by (simp add: extract16_value be_value_be_bytes16)
qed

lemma extract_ushort_reads:
  assumes "length vec < 2 ^ 32" and "reads vec n (be_bytes16 v)"
  shows "extract_ushort vec (of_nat n) = (Inr v, of_nat (n + 2))"
  by (simp add: extract_ushort_def reading_def extract16_reads [OF assms] add.commute)

lemma extract_string_reads:
  assumes "length vec < 2 ^ 32" and "reads vec n bs"
  shows "extract_string vec (of_nat n) (of_nat (length bs)) = Inr (map char_of_byte bs)"
proof -
  have stop: "of_nat n + of_nat (length bs) = (of_nat (n + length bs) :: u64)" by simp
  have "unat (of_nat n + of_nat (length bs) :: u64) = n + length bs"
    unfolding stop using reads_take [OF assms(2)] by (intro unat_offset [OF _ assms(1)]) simp
  then show ?thesis
    using reads_take [OF assms(2)] unat_offset [OF _ assms(1), of n]
    by (simp add: extract_string_def Let_def word_less_nat_alt)
qed

lemma skip_constant_tags:
  "skip_constant vec CONSTANT_Class = cbind (advance 2) (\<lambda>_. creturn False)"
  "skip_constant vec CONSTANT_String = cbind (advance 2) (\<lambda>_. creturn False)"
  "skip_constant vec CONSTANT_Utf8 =
     cbind (extract_ushort vec) (\<lambda>len. cbind (advance (ucast len)) (\<lambda>_. creturn False))"
  "t \<in> {CONSTANT_Long, CONSTANT_Double} \<Longrightarrow>
     skip_constant vec t = cbind (advance 8) (\<lambda>_. creturn True)"
  "t \<in> {CONSTANT_Fieldref, CONSTANT_Float, CONSTANT_Integer,
          CONSTANT_InterfaceMethodref, CONSTANT_Methodref, CONSTANT_NameAndType} \<Longrightarrow>
     skip_constant vec t = cbind (advance 4) (\<lambda>_. creturn False)"
  by (auto simp: skip_constant_def)

lemma skip_constant_reads:
  assumes small: "length vec < 2 ^ 32" and "wf_constant c" and "reads vec n (encode_constant c)"
  shows "cbind (extract_uchar vec) (\<lambda>tag. cbind (skip_constant vec tag) f) (of_nat n)
    = f (length (slots_of c) = 2) (of_nat (n + length (encode_constant c)))"
proof -
  have tag: "extract_uchar vec (of_nat n) = (Inr (hd (encode_constant c)), of_nat (n + 1))"
    using reads_Cons [of vec n "hd (encode_constant c)" "tl (encode_constant c)"] assms(3)
    by (intro extract_uchar_reads [OF small]) (cases c; simp)
  show ?thesis
  proof (cases c)
    case (CP_Utf8 bs)
    have "reads vec (n + 1) (be_bytes16 (of_nat (length bs)))"
      using assms(3) CP_Utf8 reads_append reads_Cons by fastforce
    moreover have "unat (of_nat (length bs) :: u16) = length bs"
      using assms(2) CP_Utf8 by (simp add: unsigned_of_nat take_bit_nat_eq_self)
    then have "(ucast (of_nat (length bs) :: u16) :: u64) = of_nat (length bs)"
      by (metis of_nat_unat)
    ultimately show ?thesis
      using tag CP_Utf8
      by (simp add: skip_constant_tags extract_ushort_reads [OF small, of "n + 1", simplified]
          cbind_def advance_def creturn_def add_ac)
  qed (use tag assms(2) in \<open>simp_all add: skip_constant_tags cbind_def advance_def creturn_def add_ac\<close>)
qed

lemma slots_of_cases: "length (slots_of c) = (if length (slots_of c) = 2 then 2 else 1)"
  by (cases c) simp_all

lemma pool_loop_reads:
  assumes small: "length vec < 2 ^ 32"
  shows "list_all wf_constant pool \<Longrightarrow> reads vec n (encode_pool pool) \<Longrightarrow>
    count = i + length (pool_slots pool) \<Longrightarrow>
    pool_loop vec count i offs (of_nat n)
      = (Inr (offs @ offsets_of n pool), of_nat (n + length (encode_pool pool)))"
proof (induction pool arbitrary: n i offs)
  case Nil
  then show ?case by (simp add: pool_loop.simps encode_pool_def pool_slots_def creturn_def)
next
  case (Cons c cs)
  have c: "wf_constant c" "reads vec n (encode_constant c)"
    and cs: "list_all wf_constant cs" "reads vec (n + length (encode_constant c)) (encode_pool cs)"
    using Cons.prems(1,2) by (simp_all add: encode_pool_def reads_append)
  have cut: "(ucast (of_nat n :: u64) :: u32) = of_nat n"
    by (simp add: word_unat_eq_iff unsigned_ucast_eq unsigned_of_nat)
  have "i < count" and rest: "count = i + length (slots_of c) + length (pool_slots cs)"
    using Cons.prems(3) by (cases c; simp add: pool_slots_def)+
  note step = skip_constant_reads [OF small c] cut
  have len: "n + length (encode_pool (c # cs)) = n + length (encode_constant c) + length (encode_pool cs)"
    by (simp add: encode_pool_def)
  show ?case
  proof (cases "length (slots_of c) = 2")
    case True
    then show ?thesis
      using \<open>i < count\<close> rest Cons.IH [OF cs, of "i + 2" "offs @ [of_nat n] @ [0]"]
      unfolding len by (subst pool_loop.simps) (simp add: step del: of_nat_add)
  next
    case False
    then have one: "length (slots_of c) = 1" using slots_of_cases [of c] by presburger
    then show ?thesis
      using \<open>i < count\<close> rest False Cons.IH [OF cs, of "i + 1" "offs @ [of_nat n]"]
      unfolding len by (subst pool_loop.simps) (simp add: step del: of_nat_add)
  qed
qed

lemma interface_loop_reads:
  assumes small: "length vec < 2 ^ 32"
  shows "reads vec n (concat (map be_bytes16 ifs)) \<Longrightarrow>
    interface_loop vec (length ifs) acc (of_nat n)
      = (Inr (acc @ map ucast ifs), of_nat (n + 2 * length ifs))"
proof (induction ifs arbitrary: n acc)
  case (Cons x xs)
  then have "reads vec n (be_bytes16 x)" "reads vec (n + 2) (concat (map be_bytes16 xs))"
    using reads_append [of vec n "be_bytes16 x"] by auto
  then show ?case
    using extract_ushort_reads [OF small] Cons.IH [of "n + 2"] by (simp add: algebra_simps)
qed (simp add: creturn_def)

lemma reads_self: "reads (bs @ rest) 0 bs"
  unfolding reads_def by (intro exI [of _ "[]"] exI [of _ rest]) simp

lemma unat_of_nat_u16: "n < 65536 \<Longrightarrow> unat (of_nat n :: u16) = n"
  by (simp add: unsigned_of_nat take_bit_nat_eq_self)

lemma extract_magic: "extract_unsigned (be_bytes32 0xCAFEBABE @ rest) 0 = (Inr 0xCAFEBABE, 4)"
  by (simp add: be_bytes32_def extract_unsigned_def reading_def extract32_def vector_at_def)

lemma java_class_encoded:
  assumes "list_all wf_constant pool" and "pool \<noteq> []" and "length (pool_slots pool) < 65535"
    and "length ifs < 65536"
    and vec: "vec = encode_class minor major pool flags this super ifs @ rest"
    and small: "length vec < 2 ^ 32"
  shows "java_class vec = Inr \<lparr>buffer = vec, minor_version = minor, major_version = major,
      constant_pool_offsets = offsets_of 10 pool, access_flags = flags, this_class_idx = this,
      super_class_idx = super, interface_indexes = map ucast ifs\<rparr>"
proof -
  let ?count = "1 + length (pool_slots pool)" and ?p = "10 + length (encode_pool pool)"
  have all: "reads vec 0 (encode_class minor major pool flags this super ifs)"
    unfolding vec by (rule reads_self)
  have rd: "reads vec 4 (be_bytes16 minor)" "reads vec 6 (be_bytes16 major)"
    "reads vec 8 (be_bytes16 (of_nat ?count))" "reads vec 10 (encode_pool pool)"
    "reads vec ?p (be_bytes16 flags)" "reads vec (?p + 2) (be_bytes16 this)"
    "reads vec (?p + 4) (be_bytes16 super)" "reads vec (?p + 6) (be_bytes16 (of_nat (length ifs)))"
    "reads vec (?p + 8) (concat (map be_bytes16 ifs))"
    using all unfolding encode_class_def
    by (auto dest!: reads_append simp: numeral_eq_Suc)
  have magic: "extract_unsigned vec 0 = (Inr 0xCAFEBABE, of_nat 4)"
    unfolding vec encode_class_def using extract_magic by simp
  note sh = extract_ushort_reads [OF small]
  have n: "unat (of_nat ?count :: u16) = ?count" "unat (of_nat (length ifs) :: u16) = length ifs"
    using assms(3,4) by (simp_all add: unat_of_nat_u16 del: of_nat_add of_nat_Suc)
  have "1 \<le> length (pool_slots pool)"
    using assms(2) by (cases pool; cases "hd pool") (simp_all add: pool_slots_def)
  then have "\<not> (of_nat ?count :: u16) < 2" using n(1) by (auto simp: word_less_nat_alt)
  then show ?thesis
    using pool_loop_reads [OF small assms(1) rd(4), of ?count 1 "[]"]
      interface_loop_reads [OF small rd(9), of "[]"]
      sh [OF rd(1)] sh [OF rd(2)] sh [OF rd(3)] sh [OF rd(5)] sh [OF rd(6)] sh [OF rd(7)]
      sh [OF rd(8)] magic n
    by (simp add: java_class_def class_body_def creturn_def add.assoc del: of_nat_add of_nat_Suc of_nat_numeral)
qed

section \<open>References of a class\<close>

definition slot_at :: "u8 list \<Rightarrow> u32 \<Rightarrow> cp_info option \<Rightarrow> bool" where
  "slot_at vec off s \<longleftrightarrow>
     (case s of None \<Rightarrow> off = 0
      | Some c \<Rightarrow> (\<exists>m. 0 < m \<and> m < 2 ^ 32 \<and> off = of_nat m \<and> reads vec m (encode_constant c)))"

lemma offsets_of_slots:
  assumes "0 < n" and "n + length (encode_pool pool) \<le> length vec" and "length vec < 2 ^ 32"
    and "reads vec n (encode_pool pool)"
  shows "list_all2 (slot_at vec) (offsets_of n pool) (pool_slots pool)"
  using assms
proof (induction pool arbitrary: n)
  case (Cons c cs)
  have rd: "reads vec n (encode_constant c)" "reads vec (n + length (encode_constant c)) (encode_pool cs)"
    using Cons.prems(4) reads_append by (auto simp: encode_pool_def)
  have "list_all2 (slot_at vec) (offsets_of (n + length (encode_constant c)) cs) (pool_slots cs)"
    using Cons.prems rd(2) by (intro Cons.IH) (auto simp: encode_pool_def)
  moreover have "n < 2 ^ 32" using Cons.prems(2,3) by linarith
  then have "slot_at vec (of_nat n) (Some c)" and "slot_at vec 0 None"
    using rd(1) Cons.prems(1) by (auto simp: slot_at_def)
  ultimately show ?case by (cases c) (auto simp: pool_slots_def)
qed (simp add: pool_slots_def)

lemma u32_offset: "m < 2 ^ 32 \<Longrightarrow> ucast (of_nat m :: u32) = (of_nat m :: u64)"
  by (simp add: word_unat_eq_iff unsigned_ucast_eq unsigned_of_nat take_bit_nat_eq_self)

lemma utf8_string_slot:
  assumes small: "length (buffer c) < 2 ^ 32" and "idx \<noteq> 0"
    and slots: "list_all2 (slot_at (buffer c)) (constant_pool_offsets c) slots"
    and "unat idx - 1 < length slots" and "slots ! (unat idx - 1) = Some (CP_Utf8 bs)"
    and "length bs < 65536"
  shows "utf8_string c idx = Inr (map char_of_byte bs)"
proof -
  have "slot_at (buffer c) (constant_pool_offsets c ! (unat idx - 1)) (Some (CP_Utf8 bs))"
    using slots assms(4,5) by (metis list_all2_conv_all_nth)
  then obtain m where m: "m < 2 ^ 32" "constant_pool_offsets c ! (unat idx - 1) = of_nat m"
    and rd: "reads (buffer c) m (CONSTANT_Utf8 # be_bytes16 (of_nat (length bs)) @ bs)"
    by (auto simp: slot_at_def)
  have "0 < unat idx" using assms(2) by (simp add: word_neq_0_conv unat_gt_0)
  moreover have "unat idx < 65536" using unsigned_less [of idx, where ?'a = nat] by simp
  then have "take_bit 64 (unat idx) = unat idx" by (simp add: take_bit_nat_eq_self)
  ultimately have "unat (ucast idx - 1 :: u64) = unat idx - 1"
    by (simp add: unat_sub_if_size word_size unsigned_ucast_eq)
  then have "vector_at (constant_pool_offsets c) (ucast idx - 1) = Inr (of_nat m)"
    using m(2) assms(4) list_all2_lengthD [OF slots] by (simp add: vector_at_def)
  moreover have "extract_uchar (buffer c) (of_nat m) = (Inr CONSTANT_Utf8, of_nat (m + 1))"
    using reads_Cons [OF rd] by (intro extract_uchar_reads [OF small]) simp
  moreover have "extract_ushort (buffer c) (of_nat (m + 1)) = (Inr (of_nat (length bs)), of_nat (m + 3))"
    using reads_Cons [OF rd] reads_append extract_ushort_reads [OF small, of "m + 1"] by fastforce
  moreover have "extract_string (buffer c) (of_nat (m + 3)) (of_nat (length bs)) = Inr (map char_of_byte bs)"
    using reads_Cons [OF rd] reads_append [of "buffer c" "m + 1" _ bs]
    by (intro extract_string_reads [OF small]) (fastforce simp: numeral_eq_Suc)
  moreover have "(ucast (of_nat (length bs) :: u16) :: u64) = of_nat (length bs)"
    using unat_of_nat_u16 [OF assms(6)] by (metis of_nat_unat)
  ultimately show ?thesis
    using assms(2) m(1) by (simp add: utf8_string_def u32_offset del: of_nat_add)
qed

text \<open>The class references of a pool, with the names the pool has for them.\<close>

definition utf8_slot :: "cp_info option list \<Rightarrow> u16 \<Rightarrow> u8 list option" where
  "utf8_slot slots i =
     (if i = 0 \<or> length slots \<le> unat i - 1 then None
      else case slots ! (unat i - 1) of Some (CP_Utf8 bs) \<Rightarrow> Some bs | _ \<Rightarrow> None)"

fun referenced :: "cp_info option list \<Rightarrow> cp_info option list \<Rightarrow> string list option" where
  "referenced slots [] = Some []"
| "referenced slots (Some (CP_Class i) # ss) =
     (case (utf8_slot slots i, referenced slots ss) of
        (Some bs, Some names) \<Rightarrow> Some (map char_of_byte bs # names) | _ \<Rightarrow> None)"
| "referenced slots (s # ss) = referenced slots ss"

lemma utf8_string_utf8_slot:
  assumes "length (buffer c) < 2 ^ 32"
    and "list_all2 (slot_at (buffer c)) (constant_pool_offsets c) slots"
    and "\<And>bs. Some (CP_Utf8 bs) \<in> set slots \<Longrightarrow> length bs < 65536"
    and "utf8_slot slots i = Some bs"
  shows "utf8_string c i = Inr (map char_of_byte bs)"
proof -
  have slot: "i \<noteq> 0" "unat i - 1 < length slots" "slots ! (unat i - 1) = Some (CP_Utf8 bs)"
    using assms(4) by (auto simp: utf8_slot_def split: if_splits option.splits cp_info.splits)
  then have "length bs < 65536" using assms(3) nth_mem [of "unat i - 1" slots] by simp
  with slot show ?thesis by (intro utf8_string_slot [OF assms(1) _ assms(2)])
qed

lemma references_loop_slots:
  assumes small: "length (buffer c) < 2 ^ 32"
    and slots: "list_all2 (slot_at (buffer c)) (constant_pool_offsets c) slots"
    and names: "\<And>bs. Some (CP_Utf8 bs) \<in> set slots \<Longrightarrow> length bs < 65536"
    and wf: "\<And>k. Some k \<in> set ss \<Longrightarrow> wf_constant k"
    and "list_all2 (slot_at (buffer c)) offs ss" and "referenced slots ss = Some rs"
  shows "references_loop c offs acc = Inr (acc @ rs)"
  using assms(5,6) wf
proof (induction offs ss arbitrary: rs acc rule: list_all2_induct)
  case (Cons p offs s ss)
  show ?case
  proof (cases s)
    case None
    with Cons show ?thesis by (auto simp: slot_at_def)
  next
    case (Some k)
    then obtain m where m: "0 < m" "m < 2 ^ 32" "p = of_nat m"
      and rd: "reads (buffer c) m (encode_constant k)"
      using Cons.hyps(1) by (auto simp: slot_at_def)
    have "p \<noteq> 0" using m by (simp add: word_unat_eq_iff unsigned_of_nat take_bit_nat_eq_self)
    moreover have "reads (buffer c) m [hd (encode_constant k)]"
      using rd reads_Cons [of _ m "hd (encode_constant k)" "tl (encode_constant k)"]
      by (cases k) auto
    then have tag: "vector_at (buffer c) (of_nat m) = Inr (hd (encode_constant k))"
      using extract_uchar_reads [OF small] by (simp add: extract_uchar_def)
    ultimately have loop: "references_loop c (p # offs) acc =
        (if hd (encode_constant k) = CONSTANT_Class then
           bind (extract16 (buffer c) (of_nat (m + 1))) (\<lambda>name_idx.
           bind (utf8_string c name_idx) (\<lambda>name. references_loop c offs (acc @ [name])))
         else references_loop c offs acc)"
      by (simp add: m(3) u32_offset [OF m(2)] add.commute)
    show ?thesis
    proof (cases k)
      case (CP_Class i)
      have "extract16 (buffer c) (of_nat (m + 1)) = Inr i"
        using rd CP_Class reads_Cons by (intro extract16_reads [OF small]) fastforce
      with CP_Class Some Cons loop show ?thesis
        using utf8_string_utf8_slot [OF small slots names]
        by (auto split: option.splits simp del: references_loop.simps)
    qed (use Some Cons loop Cons.prems(2) [of k] in \<open>auto simp del: references_loop.simps\<close>)
  qed
qed simp

lemma pool_slots_wf:
  assumes "list_all wf_constant pool" and "Some k \<in> set (pool_slots pool)"
  shows "wf_constant k"
proof -
  obtain c where "c \<in> set pool" "Some k \<in> set (slots_of c)" using assms(2) by (auto simp: pool_slots_def)
  moreover have "wf_constant c" using assms(1) calculation(1) by (simp add: list_all_iff)
  ultimately show ?thesis by (cases c rule: cp_info.exhaust) auto
qed

text \<open>
  C18. A file written in the class file format is read back: the constructor finds the versions,
  the flags, the class indexes and the interface list of the file, whatever follows them, and
  \<open>class_references\<close> returns the names of the class constants of the pool, in pool order.
\<close>

theorem java_class_roundtrip:
  assumes "list_all wf_constant pool" and "pool \<noteq> []" and "length (pool_slots pool) < 65535"
    and "length ifs < 65536"
    and "vec = encode_class minor major pool flags this super ifs @ rest"
    and "length vec < 2 ^ 32"
    and "referenced (pool_slots pool) (pool_slots pool) = Some names"
  shows "\<exists>c. java_class vec = return c \<and> minor_version c = minor \<and> major_version c = major \<and>
    access_flags c = flags \<and> this_class_idx c = this \<and> super_class_idx c = super \<and>
    interface_indexes c = map ucast ifs \<and> class_references c = return names"
proof -
  define c where "c = \<lparr>buffer = vec, minor_version = minor, major_version = major,
      constant_pool_offsets = offsets_of 10 pool, access_flags = flags, this_class_idx = this,
      super_class_idx = super, interface_indexes = map ucast ifs\<rparr>"
  have "java_class vec = return c" unfolding c_def by (rule java_class_encoded [OF assms(1-6)])
  moreover have "reads vec 10 (encode_pool pool)"
    unfolding assms(5) encode_class_def reads_def
    by (rule exI [of _ "be_bytes32 0xCAFEBABE @ be_bytes16 minor @ be_bytes16 major @
        be_bytes16 (of_nat (1 + length (pool_slots pool)))"], rule exI [of _ "be_bytes16 flags @
        be_bytes16 this @ be_bytes16 super @ be_bytes16 (of_nat (length ifs)) @
        concat (map be_bytes16 ifs) @ rest"]) simp
  then have slots: "list_all2 (slot_at (buffer c)) (constant_pool_offsets c) (pool_slots pool)"
    using reads_take [of vec 10 "encode_pool pool"] assms(6)
    by (simp add: c_def) (intro offsets_of_slots; simp)
  have "class_references c = return ([] @ names)"
    unfolding class_references_def
    by (rule references_loop_slots [OF _ slots _ _ slots assms(7)])
      (use assms(1,6) pool_slots_wf in \<open>force simp: c_def\<close>)+
  ultimately show ?thesis by (auto simp: c_def)
qed

theorem java_class_roundtrip_witness:
  "\<exists>c. java_class (encode_class 0 50 [CP_Wide CONSTANT_Long [0,0,0,0,0,0,0,1], CP_Class 4, CP_Utf8 [65]]
        33 3 0 [3] @ [7]) = return c \<and> minor_version c = 0 \<and> major_version c = 50 \<and>
    access_flags c = 33 \<and> this_class_idx c = 3 \<and> super_class_idx c = 0 \<and>
    interface_indexes c = map ucast [3 :: u16] \<and> class_references c = return [''A'']"
proof -
  let ?pool = "[CP_Wide CONSTANT_Long [0,0,0,0,0,0,0,1], CP_Class 4, CP_Utf8 [65]]"
  have "referenced (pool_slots ?pool) (pool_slots ?pool) = Some [''A'']"
    by (simp add: pool_slots_def utf8_slot_def char_of_byte_def) code_simp
  moreover have "length (encode_class 0 50 ?pool 33 3 0 [3] @ [7]) < 2 ^ 32"
    by (simp add: encode_class_def encode_pool_def)
  ultimately show ?thesis
    by (intro java_class_roundtrip [OF _ _ _ _ refl]) (simp_all add: pool_slots_def)
qed

text \<open>
  The accessors have no such guard: a class index outside the constant pool leaves
  \<open>this_class\<close> as the \<open>std::out_of_range\<close> of the vector, not as the exception the class
  declares for malformed input.
\<close>

lemma this_class_out_of_range:
  assumes "length (constant_pool_offsets c) < unat (this_class_idx c)"
  shows "this_class c = throw (Out_of_range ''vector::_M_range_check'')"
proof -
  have pos: "0 < unat (this_class_idx c)" using assms by linarith
  then have nz: "this_class_idx c \<noteq> 0" by auto
  moreover have "unat (this_class_idx c) < 65536"
    using unsigned_less [of "this_class_idx c", where ?'a = nat] by simp
  then have "take_bit 64 (unat (this_class_idx c)) = unat (this_class_idx c)"
    by (simp add: take_bit_nat_eq_self)
  with pos have "unat (ucast (this_class_idx c) - 1 :: u64) = unat (this_class_idx c) - 1"
    by (simp add: unat_sub_if_size word_size unsigned_ucast_eq)
  moreover have "\<not> unat (this_class_idx c) - 1 < length (constant_pool_offsets c)" using assms by linarith
  ultimately show ?thesis by (simp add: this_class_def class_name_def vector_at_def)
qed

end
