(* ===== verification/Cpio.thy ===== *)
theory Cpio
  imports Prelude
begin

text \<open>
  The header reader of cpio archives: \<open>lib/cxxll/cpio_reader.cpp\<close> and
  \<open>include/cxxll/cpio_reader.hpp\<close>. A pointer into the buffer is a position, the null pointer is
  \<open>None\<close>; a reference parameter is a field of the state that the readers thread.
\<close>

section \<open>The reader\<close>

record cpio_entry =
  devmajor :: u32
  devminor :: u32
  ino :: u32
  mode :: u32
  uid :: u32
  gid :: u32
  nlink :: u32
  rdevmajor :: u32
  rdevminor :: u32
  mtime :: u32
  namesize :: u32
  filesize :: u32
  check :: u32

record parse_state =
  pos :: "nat option"
  entry :: cpio_entry
  error :: string

definition octal_digit :: "char \<Rightarrow> int" where
  "octal_digit ch = (if scode ch < 48 \<or> scode ch > 55 then - 1 else scode ch - 48)"

definition hex_digit :: "char \<Rightarrow> int" where
  "hex_digit ch =
     (if scode ch \<ge> 48 \<and> scode ch \<le> 57 then scode ch - 48
      else if scode ch \<ge> 97 \<and> scode ch \<le> 102 then scode ch - 97 + 10
      else if scode ch \<ge> 65 \<and> scode ch \<le> 70 then scode ch - 65 + 10
      else - 1)"

text \<open>
  The loop of both readers: whether all digits were read, and the number accumulated so far,
  which stays in the entry when a digit is wrong.
\<close>

fun digit_loop :: "(char \<Rightarrow> int) \<Rightarrow> nat \<Rightarrow> string \<Rightarrow> nat \<Rightarrow> nat \<Rightarrow> u32 \<Rightarrow> (bool \<times> u32) result" where
  "digit_loop digit sh buf p 0 val = return (True, val)"
| "digit_loop digit sh buf p (Suc n) val =
     bind (byte_at buf p) (\<lambda>ch.
       if digit ch < 0 then return (False, val)
       else digit_loop digit sh buf (p + 1) n (push_bit sh val OR of_int (digit ch)))"

type_synonym setter = "u32 \<Rightarrow> cpio_entry \<Rightarrow> cpio_entry"

definition read_octal :: "string \<Rightarrow> nat \<Rightarrow> string \<Rightarrow> setter \<Rightarrow> parse_state \<Rightarrow> parse_state result" where
  "read_octal buf n fld upd st =
     (case pos st of
        None \<Rightarrow> return st
      | Some p \<Rightarrow> bind (digit_loop octal_digit 3 buf p n 0) (\<lambda>(ok, val).
          return (if ok then st\<lparr>pos := Some (p + n), entry := upd val (entry st)\<rparr>
                  else st\<lparr>pos := None, entry := upd val (entry st), error := fld\<rparr>)))"

definition read_hex :: "string \<Rightarrow> nat \<Rightarrow> string \<Rightarrow> setter \<Rightarrow> parse_state \<Rightarrow> parse_state result" where
  "read_hex buf n fld upd st =
     (case pos st of
        None \<Rightarrow> return st
      | Some p \<Rightarrow> bind (digit_loop hex_digit 4 buf p 8 0) (\<lambda>(ok, val).
          return (if ok then st\<lparr>pos := Some (p + 8), entry := upd val (entry st)\<rparr>
                  else st\<lparr>pos := None, entry := upd val (entry st), error := fld\<rparr>)))"

definition cpio_header_length :: "string \<Rightarrow> nat" where
  "cpio_header_length magic =
     (if take 6 magic = ''070707'' then 70 else if take 6 magic = ''070701'' then 104 else 0)"

text \<open>The statements of the two branches of parse, in order.\<close>

datatype statement = Read nat string setter | Assign "cpio_entry \<Rightarrow> cpio_entry"

definition odc_statements :: "statement list" where
  "odc_statements =
    [Read 6 ''dev'' (\<lambda>v e. e\<lparr>devmajor := v\<rparr>),
     Assign (\<lambda>e. e\<lparr>devminor := 0\<rparr>),
     Read 6 ''ino'' (\<lambda>v e. e\<lparr>ino := v\<rparr>),
     Read 6 ''mode'' (\<lambda>v e. e\<lparr>mode := v\<rparr>),
     Read 6 ''uid'' (\<lambda>v e. e\<lparr>uid := v\<rparr>),
     Read 6 ''gid'' (\<lambda>v e. e\<lparr>gid := v\<rparr>),
     Read 6 ''nlink'' (\<lambda>v e. e\<lparr>nlink := v\<rparr>),
     Read 6 ''rdev'' (\<lambda>v e. e\<lparr>rdevmajor := v\<rparr>),
     Assign (\<lambda>e. e\<lparr>rdevminor := 0\<rparr>),
     Read 11 ''mtime'' (\<lambda>v e. e\<lparr>mtime := v\<rparr>),
     Read 6 ''namesize'' (\<lambda>v e. e\<lparr>namesize := v\<rparr>),
     Read 11 ''filesize'' (\<lambda>v e. e\<lparr>filesize := v\<rparr>)]"

definition newc_statements :: "statement list" where
  "newc_statements =
    [Read 8 ''ino'' (\<lambda>v e. e\<lparr>ino := v\<rparr>),
     Read 8 ''mode'' (\<lambda>v e. e\<lparr>mode := v\<rparr>),
     Read 8 ''uid'' (\<lambda>v e. e\<lparr>uid := v\<rparr>),
     Read 8 ''gid'' (\<lambda>v e. e\<lparr>gid := v\<rparr>),
     Read 8 ''nlink'' (\<lambda>v e. e\<lparr>nlink := v\<rparr>),
     Read 8 ''mtime'' (\<lambda>v e. e\<lparr>mtime := v\<rparr>),
     Read 8 ''filesize'' (\<lambda>v e. e\<lparr>filesize := v\<rparr>),
     Read 8 ''devmajor'' (\<lambda>v e. e\<lparr>devmajor := v\<rparr>),
     Read 8 ''devminor'' (\<lambda>v e. e\<lparr>devminor := v\<rparr>),
     Read 8 ''rdevmajor'' (\<lambda>v e. e\<lparr>rdevmajor := v\<rparr>),
     Read 8 ''rdevminor'' (\<lambda>v e. e\<lparr>rdevminor := v\<rparr>),
     Read 8 ''namesize'' (\<lambda>v e. e\<lparr>namesize := v\<rparr>),
     Read 8 ''check'' (\<lambda>v e. e\<lparr>check := v\<rparr>)]"

type_synonym reader = "nat \<Rightarrow> string \<Rightarrow> setter \<Rightarrow> parse_state \<Rightarrow> parse_state result"

fun run :: "reader \<Rightarrow> statement list \<Rightarrow> parse_state \<Rightarrow> parse_state result" where
  "run rd [] st = return st"
| "run rd (Read n w upd # ss) st = bind (rd n w upd st) (run rd ss)"
| "run rd (Assign f # ss) st = run rd ss (st\<lparr>entry := f (entry st)\<rparr>)"

definition finish :: "nat \<Rightarrow> parse_state \<Rightarrow> (bool \<times> cpio_entry \<times> string) result" where
  "finish len st =
     (case pos st of
        Some p \<Rightarrow> if p = len then return (True, entry st, error st) else throw Assertion_failure
      | None \<Rightarrow> return (False, entry st, error st))"

definition parse :: "string \<Rightarrow> nat \<Rightarrow> cpio_entry \<Rightarrow> string \<Rightarrow> (bool \<times> cpio_entry \<times> string) result" where
  "parse buf len e err =
     (let st = \<lparr>pos = Some 0, entry = e, error = err\<rparr> in
      if len = 70 then bind (run (read_octal buf) odc_statements st) (finish 70)
      else if len = 104 then bind (run (read_hex buf) newc_statements st) (finish 104)
      else return (False, e, ''magic''))"

section \<open>What the fields of a header mean\<close>

definition numeral_value :: "(char \<Rightarrow> int) \<Rightarrow> nat \<Rightarrow> string \<Rightarrow> nat" where
  "numeral_value digit base ds = foldl (\<lambda>v c. base * v + nat (digit c)) 0 ds"

definition slice :: "string \<Rightarrow> nat \<Rightarrow> nat \<Rightarrow> string" where
  "slice buf p n = take n (drop p buf)"

text \<open>
  The reference reading of a header: the first field with a wrong digit, and the entry with all
  fields set to the values of their numerals.
\<close>

fun first_bad :: "(char \<Rightarrow> int) \<Rightarrow> string \<Rightarrow> nat \<Rightarrow> statement list \<Rightarrow> string option" where
  "first_bad digit buf p [] = None"
| "first_bad digit buf p (Read n w upd # ss) =
     (if list_ex (\<lambda>c. digit c < 0) (slice buf p n) then Some w else first_bad digit buf (p + n) ss)"
| "first_bad digit buf p (Assign f # ss) = first_bad digit buf p ss"

fun filled :: "(char \<Rightarrow> int) \<Rightarrow> nat \<Rightarrow> string \<Rightarrow> nat \<Rightarrow> statement list \<Rightarrow> cpio_entry \<Rightarrow> cpio_entry" where
  "filled digit base buf p [] e = e"
| "filled digit base buf p (Read n w upd # ss) e =
     filled digit base buf (p + n) ss (upd (of_nat (numeral_value digit base (slice buf p n))) e)"
| "filled digit base buf p (Assign f # ss) e = filled digit base buf p ss (f e)"

fun total_width :: "statement list \<Rightarrow> nat" where
  "total_width [] = 0"
| "total_width (Read n w upd # ss) = n + total_width ss"
| "total_width (Assign f # ss) = total_width ss"

lemma slice_Suc: "p < length buf \<Longrightarrow> slice buf p (Suc n) = buf ! p # slice buf (p + 1) n"
  by (simp add: slice_def Cons_nth_drop_Suc [symmetric])

lemma push_or_add:
  fixes val :: u32
  assumes "0 \<le> d" and "d < 2 ^ sh"
  shows "push_bit sh val OR of_int d = of_nat (2 ^ sh) * val + of_nat (nat d)"
proof -
  have "push_bit sh val OR of_int d = push_bit sh val + of_int d"
  proof (rule disjunctive_add [symmetric])
    fix i
    show "\<not> bit (push_bit sh val) i \<or> \<not> bit (of_int d :: u32) i"
    proof (cases "i < sh")
      case False
      have "take_bit sh d = d" using assms by (simp add: take_bit_int_eq_self)
      then have "\<not> bit d i" using False by (metis bit_take_bit_iff)
      then show ?thesis by (simp add: bit_simps)
    qed (simp add: bit_simps)
  qed
  then show ?thesis using assms(1) by (simp add: push_bit_eq_mult mult.commute)
qed

lemma numeral_value_Cons:
  "foldl (\<lambda>v c. base * v + nat (digit c)) v (c # cs)
    = foldl (\<lambda>v c. base * v + nat (digit c)) (base * v + nat (digit c)) cs"
  by simp

lemma digit_loop_reads:
  assumes "\<And>c. digit c < 2 ^ sh" and "p + n \<le> length buf"
  shows "\<exists>val'. digit_loop digit sh buf p n (of_nat v) =
     return (\<not> list_ex (\<lambda>c. digit c < 0) (slice buf p n), val') \<and>
     (list_ex (\<lambda>c. digit c < 0) (slice buf p n) \<or>
      val' = of_nat (foldl (\<lambda>v c. 2 ^ sh * v + nat (digit c)) v (slice buf p n)))"
  using assms(2)
proof (induction n arbitrary: p v)
  case (Suc n)
  have sl: "slice buf p (Suc n) = buf ! p # slice buf (p + 1) n" using Suc.prems by (simp add: slice_Suc)
  show ?case
  proof (cases "digit (buf ! p) < 0")
    case True
    then show ?thesis using Suc.prems by (simp add: sl)
  next
    case False
    then have "push_bit sh (of_nat v) OR of_int (digit (buf ! p))
        = (of_nat (2 ^ sh * v + nat (digit (buf ! p))) :: u32)"
      using push_or_add [OF _ assms(1)] by simp
    then show ?thesis
      using Suc.IH [of "p + 1" "2 ^ sh * v + nat (digit (buf ! p))"] Suc.prems False
      by (simp add: sl)
  qed
qed (simp add: slice_def)
section \<open>Both header formats follow one contract\<close>

text \<open>
  What parse relies on in its field readers: a null pointer passes through, and at a position
  with enough bytes left the reader stores the number and advances, or names the field.
\<close>

locale field_reader =
  fixes rd :: reader and digit :: "char \<Rightarrow> int" and base :: nat and buf :: string
    and widths :: "nat set"
  assumes rd_null: "pos st = None \<Longrightarrow> rd n w upd st = return st"
    and rd_field: "\<lbrakk>pos st = Some p; n \<in> widths; p + n \<le> length buf\<rbrakk> \<Longrightarrow>
      \<exists>val. rd n w upd st = return
        (if list_ex (\<lambda>c. digit c < 0) (slice buf p n)
         then st\<lparr>pos := None, entry := upd val (entry st), error := w\<rparr>
         else st\<lparr>pos := Some (p + n),
           entry := upd (of_nat (numeral_value digit base (slice buf p n))) (entry st)\<rparr>)"
begin

primrec supported :: "statement \<Rightarrow> bool" where
  "supported (Read n w upd) = (n \<in> widths)"
| "supported (Assign f) = True"

lemma run_null: "pos st = None \<Longrightarrow> \<exists>st'. run rd ss st = return st' \<and> pos st' = None \<and> error st' = error st"
proof (induction ss arbitrary: st)
  case (Cons s ss)
  show ?case
  proof (cases s)
    case (Assign f)
    then show ?thesis using Cons.IH [of "st\<lparr>entry := f (entry st)\<rparr>"] Cons.prems by simp
  qed (use Cons in \<open>simp add: rd_null\<close>)
qed simp

lemma run_spec:
  assumes "list_all supported ss" and "pos st = Some p" and "p + total_width ss \<le> length buf"
  shows "\<exists>st'. run rd ss st = return st' \<and>
    (case first_bad digit buf p ss of
       None \<Rightarrow> st' = st\<lparr>pos := Some (p + total_width ss), entry := filled digit base buf p ss (entry st)\<rparr>
     | Some w \<Rightarrow> pos st' = None \<and> error st' = w)"
  using assms
proof (induction ss arbitrary: st p)
  case (Cons s ss)
  show ?case
  proof (cases s)
    case (Read n w upd)
    obtain val where rd: "rd n w upd st = return
        (if list_ex (\<lambda>c. digit c < 0) (slice buf p n)
         then st\<lparr>pos := None, entry := upd val (entry st), error := w\<rparr>
         else st\<lparr>pos := Some (p + n),
           entry := upd (of_nat (numeral_value digit base (slice buf p n))) (entry st)\<rparr>)"
      using rd_field [of st p n w upd] Cons.prems Read by auto
    show ?thesis
    proof (cases "list_ex (\<lambda>c. digit c < 0) (slice buf p n)")
      case True
      then show ?thesis
        using rd Read run_null [of "st\<lparr>pos := None, entry := upd val (entry st), error := w\<rparr>" ss] by simp
    next
      case False
      let ?st = "st\<lparr>pos := Some (p + n),
        entry := upd (of_nat (numeral_value digit base (slice buf p n))) (entry st)\<rparr>"
      have "\<exists>st'. run rd ss ?st = return st' \<and>
          (case first_bad digit buf (p + n) ss of
             None \<Rightarrow> st' = ?st\<lparr>pos := Some (p + n + total_width ss),
               entry := filled digit base buf (p + n) ss (entry ?st)\<rparr>
           | Some w \<Rightarrow> pos st' = None \<and> error st' = w)"
        using Cons.prems Read by (intro Cons.IH) auto
      then show ?thesis using rd Read False by (auto simp: add.assoc split: option.splits)
    qed
  next
    case (Assign f)
    then show ?thesis
      using Cons.IH [of "st\<lparr>entry := f (entry st)\<rparr>" p] Cons.prems by (auto split: option.splits)
  qed
qed simp

lemma finish_run:
  assumes "list_all supported ss" and "length buf = total_width ss"
  shows "\<exists>e'. bind (run rd ss \<lparr>pos = Some 0, entry = e, error = err\<rparr>) (finish (total_width ss)) =
    (case first_bad digit buf 0 ss of
       None \<Rightarrow> return (True, filled digit base buf 0 ss e, err)
     | Some w \<Rightarrow> return (False, e', w))"
  using run_spec [OF assms(1), of "\<lparr>pos = Some 0, entry = e, error = err\<rparr>" 0] assms(2)
  by (fastforce simp: finish_def split: option.splits)

end

lemma digit_bounds: "octal_digit c < 2 ^ 3" "hex_digit c < 2 ^ 4"
  by (simp_all add: octal_digit_def hex_digit_def)

interpretation octal: field_reader "read_octal buf" octal_digit 8 buf UNIV for buf
proof
  fix n w upd and st :: parse_state and p
  assume "pos st = Some p" and "p + n \<le> length buf"
  moreover obtain val where "digit_loop octal_digit 3 buf p n (of_nat 0) =
      return (\<not> list_ex (\<lambda>c. octal_digit c < 0) (slice buf p n), val)"
    "list_ex (\<lambda>c. octal_digit c < 0) (slice buf p n) \<or>
      val = of_nat (foldl (\<lambda>v c. 2 ^ 3 * v + nat (octal_digit c)) 0 (slice buf p n))"
    using digit_loop_reads [of octal_digit 3 p n buf 0] digit_bounds calculation(2) by blast
  ultimately show "\<exists>val. read_octal buf n w upd st = return
      (if list_ex (\<lambda>c. octal_digit c < 0) (slice buf p n)
       then st\<lparr>pos := None, entry := upd val (entry st), error := w\<rparr>
       else st\<lparr>pos := Some (p + n),
         entry := upd (of_nat (numeral_value octal_digit 8 (slice buf p n))) (entry st)\<rparr>)"
    by (auto simp: read_octal_def numeral_value_def)
qed (simp add: read_octal_def)

interpretation hex: field_reader "read_hex buf" hex_digit 16 buf "{8}" for buf
proof
  fix n w upd and st :: parse_state and p
  assume "pos st = Some p" and n: "n \<in> {8}" and "p + n \<le> length buf"
  moreover obtain val where "digit_loop hex_digit 4 buf p n (of_nat 0) =
      return (\<not> list_ex (\<lambda>c. hex_digit c < 0) (slice buf p n), val)"
    "list_ex (\<lambda>c. hex_digit c < 0) (slice buf p n) \<or>
      val = of_nat (foldl (\<lambda>v c. 2 ^ 4 * v + nat (hex_digit c)) 0 (slice buf p n))"
    using digit_loop_reads [of hex_digit 4 p n buf 0] digit_bounds calculation(3) by blast
  ultimately show "\<exists>val. read_hex buf n w upd st = return
      (if list_ex (\<lambda>c. hex_digit c < 0) (slice buf p n)
       then st\<lparr>pos := None, entry := upd val (entry st), error := w\<rparr>
       else st\<lparr>pos := Some (p + n),
         entry := upd (of_nat (numeral_value hex_digit 16 (slice buf p n))) (entry st)\<rparr>)"
    by (auto simp: read_hex_def numeral_value_def)
qed (simp add: read_hex_def)


lemma digit_zero: "hex_digit (CHR ''0'') = 0" "octal_digit (CHR ''0'') = 0"
  by (simp_all add: hex_digit_def octal_digit_def scode_def)


text \<open>
  The eleven octal digits of the old format hold 33 bits, the fields 32: a file of 4 GiB is
  read as an empty one.
\<close>

lemma cpio_filesize_wraps:
  "(of_nat (numeral_value octal_digit 8 ''40000000000'') :: u32) = 0"
  by (simp add: numeral_value_def octal_digit_def scode_def)

end
