(* ===== verification/Ordmap.thy ===== *)
theory Ordmap
  imports Prelude "HOL-Library.Multiset"
begin

text \<open>
  The ordered containers of the C++ library that the code uses: \<open>std::set\<close>, \<open>std::map\<close> and
  \<open>std::multimap\<close> as the sequence of their elements in iteration order. The contract that
  clients rely on is the locale \<open>ordered_map\<close>, with the lemma that clients share: filling a map
  from a sequence of records gathers, under each key, exactly the records of that key in order.
\<close>

section \<open>Operations\<close>

text \<open>\<open>std::set::insert\<close>: the set afterwards and whether the element is new.\<close>

fun set_insert :: "'a::linorder \<Rightarrow> 'a list \<Rightarrow> 'a list \<times> bool" where
  "set_insert x [] = ([x], True)"
| "set_insert x (y # ys) =
    (if x < y then (x # y # ys, True)
     else if y < x then (let (zs, b) = set_insert x ys in (y # zs, b))
     else (y # ys, False))"

fun map_find :: "('k::linorder \<times> 'v) list \<Rightarrow> 'k \<Rightarrow> 'v option" where
  "map_find [] k = None"
| "map_find ((l, v) # m) k = (if l < k then map_find m k else if k < l then None else Some v)"

text \<open>\<open>std::map::operator[]\<close> followed by an assignment\<close>

fun map_assign :: "'k::linorder \<Rightarrow> 'v \<Rightarrow> ('k \<times> 'v) list \<Rightarrow> ('k \<times> 'v) list" where
  "map_assign k v [] = [(k, v)]"
| "map_assign k v ((l, w) # m) =
    (if l < k then (l, w) # map_assign k v m
     else if k < l then (k, v) # (l, w) # m
     else (l, v) # m)"

text \<open>\<open>std::multimap::insert\<close>: after the elements with an equal key (C++11, 23.2.4).\<close>

fun multimap_insert :: "'k::linorder \<Rightarrow> 'v \<Rightarrow> ('k \<times> 'v) list \<Rightarrow> ('k \<times> 'v) list" where
  "multimap_insert k v [] = [(k, v)]"
| "multimap_insert k v ((l, w) # m) =
    (if k < l then (k, v) # (l, w) # m else (l, w) # multimap_insert k v m)"

definition equal_range :: "('k::linorder \<times> 'v) list \<Rightarrow> 'k \<Rightarrow> ('k \<times> 'v) list" where
  "equal_range m k = takeWhile (\<lambda>(l, _). l = k) (dropWhile (\<lambda>(l, _). l < k) m)"

abbreviation sorted_map :: "('k::linorder \<times> 'v) list \<Rightarrow> bool" where
  "sorted_map m \<equiv> sorted_wrt (<) (map fst m)"

abbreviation sorted_multimap :: "('k::linorder \<times> 'v) list \<Rightarrow> bool" where
  "sorted_multimap m \<equiv> sorted (map fst m)"

abbreviation sorted_set :: "'a::linorder list \<Rightarrow> bool" where
  "sorted_set xs \<equiv> sorted_wrt (<) xs"

section \<open>Sets\<close>

lemma set_insert_set [simp]: "set (fst (set_insert x xs)) = insert x (set xs)"
proof (induction x xs rule: set_insert.induct)
  case (2 x y ys)
  obtain zs b where zs: "set_insert x ys = (zs, b)" by fastforce
  consider "x < y" | "y < x" | "x = y" by (metis linorder_cases)
  then show ?case
  proof cases
    case 2
    then have "set zs = insert x (set ys)" using "2.IH" zs by simp
    then show ?thesis using 2 zs by (simp add: insert_commute)
  qed auto
qed simp

lemma set_insert_sorted [simp]: "sorted_set xs \<Longrightarrow> sorted_set (fst (set_insert x xs))"
proof (induction x xs rule: set_insert.induct)
  case (2 x y ys)
  obtain zs b where zs: "set_insert x ys = (zs, b)" by fastforce
  then have "set zs = insert x (set ys)" using set_insert_set [of x ys] by simp
  with 2 zs show ?case by (auto split: prod.splits)
qed simp

lemma set_insert_new: "sorted_set xs \<Longrightarrow> snd (set_insert x xs) \<longleftrightarrow> x \<notin> set xs"
proof (induction x xs rule: set_insert.induct)
  case (2 x y ys)
  then show ?case by (auto split: prod.splits)
qed simp

lemma set_insert_old: "sorted_set xs \<Longrightarrow> x \<in> set xs \<Longrightarrow> fst (set_insert x xs) = xs"
proof (induction x xs rule: set_insert.induct)
  case (2 x y ys)
  then show ?case by (auto split: prod.splits)
qed simp

section \<open>Maps\<close>

lemma map_find_absent: "(\<And>l. l \<in> fst ` set m \<Longrightarrow> k < l) \<Longrightarrow> map_find m k = None"
  by (induction m k rule: map_find.induct) auto

lemma map_find_map_of: "sorted_map m \<Longrightarrow> map_find m k = map_of m k"
proof (induction m k rule: map_find.induct)
  case (2 l v m k)
  show ?case
  proof (cases "k < l")
    case True
    then have "map_of m k = None" using 2 by (fastforce simp: map_of_eq_None_iff)
    with True show ?thesis by auto
  qed (use 2 in auto)
qed simp

lemma map_assign_keys [simp]: "fst ` set (map_assign k v m) = insert k (fst ` set m)"
  by (induction k v m rule: map_assign.induct) auto

lemma map_assign_sorted [simp]: "sorted_map m \<Longrightarrow> sorted_map (map_assign k v m)"
proof (induction k v m rule: map_assign.induct)
  case (2 k v l w m)
  have "set (map fst (map_assign k v m)) = insert k (set (map fst m))" by simp
  with 2 show ?case by auto
qed simp

lemma map_find_assign:
  "map_find (map_assign k v m) k' = (if k' = k then Some v else map_find m k')"
  if "sorted_map m"
  using that
proof (induction k v m rule: map_assign.induct)
  case (2 k v l w m)
  then show ?case by (auto intro!: map_find_absent)
qed auto

lemma map_assign_same: "map_find m k = Some v \<Longrightarrow> map_assign k v m = m"
  by (induction m k rule: map_find.induct) (auto split: if_splits)

lemma map_assign_order: "map_find m k = Some w \<Longrightarrow> map fst (map_assign k v m) = map fst m"
  by (induction m k rule: map_find.induct) (auto split: if_splits)

lemma map_find_key: "sorted_map m \<Longrightarrow> k \<in> set (map fst m) \<Longrightarrow> \<exists>v. map_find m k = Some v"
  by (metis map_find_map_of map_of_eq_None_iff list.set_map option.exhaust)

lemma map_find_in: "sorted_map m \<Longrightarrow> map_find m k = Some v \<longleftrightarrow> (k, v) \<in> set m"
  by (simp add: map_find_map_of strict_sorted_iff)

section \<open>The contract of a map\<close>

locale ordered_map =
  fixes lookup :: "'m \<Rightarrow> 'k \<Rightarrow> 'v option" and update :: "'k \<Rightarrow> 'v \<Rightarrow> 'm \<Rightarrow> 'm"
    and empty_map :: 'm and invar :: "'m \<Rightarrow> bool"
  assumes invar_empty: "invar empty_map"
    and lookup_empty: "lookup empty_map k = None"
    and invar_update: "invar m \<Longrightarrow> invar (update k v m)"
    and lookup_update: "invar m \<Longrightarrow> lookup (update k v m) k' = (if k' = k then Some v else lookup m k')"
begin

text \<open>Filling a map from records: each record updates the value under its key.\<close>

lemma invar_gather:
  assumes "invar m"
  shows "invar (foldl (\<lambda>m x. update (key x) (step (lookup m (key x)) x) m) m xs)"
  using assms by (induction xs arbitrary: m) (simp_all add: invar_update)

lemma lookup_gather_from:
  assumes "invar m"
  shows "lookup (foldl (\<lambda>m x. update (key x) (step (lookup m (key x)) x) m) m xs) k =
    foldl (\<lambda>old x. Some (step old x)) (lookup m k) (filter (\<lambda>x. key x = k) xs)"
  using assms by (induction xs arbitrary: m) (simp_all add: invar_update lookup_update)

lemma lookup_gather:
  "lookup (foldl (\<lambda>m x. update (key x) (step (lookup m (key x)) x) m) empty_map xs) k =
    foldl (\<lambda>old x. Some (step old x)) None (filter (\<lambda>x. key x = k) xs)"
  using lookup_gather_from [OF invar_empty] by (simp add: lookup_empty)

end

interpretation omap: ordered_map map_find map_assign "[]" sorted_map
  by unfold_locales (simp_all add: map_find_assign)

section \<open>Multimaps\<close>

lemma multimap_insert_mset [simp]: "mset (multimap_insert k v m) = add_mset (k, v) (mset m)"
  by (induction k v m rule: multimap_insert.induct) auto

lemma multimap_insert_set: "set (multimap_insert k v m) = insert (k, v) (set m)"
  by (induction k v m rule: multimap_insert.induct) auto

lemma multimap_insert_sorted [simp]: "sorted_multimap m \<Longrightarrow> sorted_multimap (multimap_insert k v m)"
proof (induction k v m rule: multimap_insert.induct)
  case (2 k v l w m)
  have "set (map fst (multimap_insert k v m)) = insert k (set (map fst m))"
    by (simp add: multimap_insert_set)
  with 2 show ?case by auto
qed simp

lemma multimap_insert_filter:
  "sorted_multimap m \<Longrightarrow> filter (\<lambda>x. fst x = a) (multimap_insert k v m)
    = filter (\<lambda>x. fst x = a) m @ (if k = a then [(k, v)] else [])"
proof (induction k v m rule: multimap_insert.induct)
  case (2 k v l w m)
  have "filter (\<lambda>x. fst x = k) m = []" if "k < l"
    using "2.prems" that by (force simp: filter_empty_conv)
  with 2 show ?case by auto
qed simp

text \<open>Filling an empty multimap is a stable sort by key.\<close>

lemma multimap_fill_sort_key: "foldl (\<lambda>m (k, v). multimap_insert k v m) [] xs = sort_key fst xs"
proof -
  let ?fill = "foldl (\<lambda>m (k, v). multimap_insert k v m) []"
  have "sorted_multimap (?fill xs) \<and> mset (?fill xs) = mset xs \<and>
      (\<forall>a. filter (\<lambda>x. fst x = a) (?fill xs) = filter (\<lambda>x. fst x = a) xs)"
  proof (induction xs rule: rev_induct)
    case (snoc x xs)
    then show ?case by (cases x) (simp add: multimap_insert_filter)
  qed simp
  then show ?thesis
    by (intro properties_for_sort_key [symmetric]) (auto simp: eq_commute)
qed

lemma equal_range_filter: "sorted_multimap m \<Longrightarrow> equal_range m k = filter (\<lambda>x. fst x = k) m"
proof (induction m)
  case (Cons x m)
  obtain l v where x: "x = (l, v)" by (cases x)
  consider "l < k" | "l = k" | "k < l" by (rule linorder_cases)
  then show ?case
  proof cases
    case 1
    with Cons x show ?thesis by (auto simp: equal_range_def)
  next
    case 2
    have "takeWhile (\<lambda>(l, _). l = k) m = filter (\<lambda>x. fst x = k) m"
    proof -
      have "dropWhile (\<lambda>(l, _). l < k) m = m"
        using Cons.prems x 2 by (cases m) auto
      then show ?thesis using Cons by (simp add: equal_range_def)
    qed
    with 2 x show ?thesis by (simp add: equal_range_def)
  next
    case 3
    then have "filter (\<lambda>x. fst x = k) m = []" using Cons.prems x by (force simp: filter_empty_conv)
    with 3 x show ?thesis by (auto simp: equal_range_def)
  qed
qed (simp add: equal_range_def)
end
