(* ===== verification/Queue.thy ===== *)
theory Queue
  imports Ordmap
begin

text \<open>
  The bounded priority queue between threads: \<open>include/cxxll/bounded_ordered_queue.hpp\<close>.

  Every member function holds the mutex except while it waits on a condition variable, so a
  call is a sequence of atomic sections. Each section is a function on the queue: it either
  finishes the call or says that the caller waits. The threads around the queue are a step
  relation: threads asleep on one of the two condition variables, threads that were woken (or
  have just called) and compete for the mutex, and the sections they run when they get it.
\<close>

section \<open>The atomic sections\<close>

record ('k, 'v) queue =
  items :: "('k \<times> 'v) list"
  capacity :: u32
  producers :: u32

definition bounded_ordered_queue :: "u32 \<Rightarrow> u32 \<Rightarrow> ('k, 'v) queue result" where
  "bounded_ordered_queue cap prods =
     (if cap = 0 then throw (Logic_error ''bounded_ordered_queue capacity must not be zero'')
      else return \<lparr>items = [], capacity = cap, producers = prods\<rparr>)"

text \<open>The counter is incremented before the overflow check: the state changes on the error path.\<close>

definition add_producer :: "('k, 'v) queue \<Rightarrow> unit result \<times> ('k, 'v) queue" where
  "add_producer q =
     (let q' = q\<lparr>producers := producers q + 1\<rparr> in
      (if producers q' = 0 then throw (Runtime_error ''too many producers'') else return (), q'))"

text \<open>The result says whether the readers are woken.\<close>

definition remove_producer :: "('k, 'v) queue \<Rightarrow> bool result \<times> ('k, 'v) queue" where
  "remove_producer q =
     (if producers q = 0 then (throw Queue_without_producers, q)
      else let q' = q\<lparr>producers := producers q - 1\<rparr> in (return (producers q' = 0), q'))"

text \<open>The loop of push: \<open>None\<close> when the caller waits for a reader.\<close>

definition push_loop :: "'k::linorder \<Rightarrow> 'v \<Rightarrow> ('k, 'v) queue \<Rightarrow> ('k, 'v) queue option" where
  "push_loop k v q =
     (if length (items q) \<ge> unat (capacity q) then None
      else Some (q\<lparr>items := multimap_insert k v (items q)\<rparr>))"

definition push :: "'k::linorder \<Rightarrow> 'v \<Rightarrow> ('k, 'v) queue \<Rightarrow> ('k, 'v) queue option result" where
  "push k v q =
     (if producers q = 0 then throw (Logic_error ''bounded_ordered_queue push without producers'')
      else return (push_loop k v q))"

datatype ('k, 'v) pop_outcome =
    Pop_waits
  | Pop_closed
  | Popped 'k 'v "('k, 'v) queue"

definition pop :: "('k, 'v) queue \<Rightarrow> ('k, 'v) pop_outcome" where
  "pop q =
     (case items q of
        [] \<Rightarrow> if producers q > 0 then Pop_waits else Pop_closed
      | (k, v) # m \<Rightarrow> Popped k v (q\<lparr>items := m\<rparr>))"

text \<open>The overload of pop that returns a pair; \<open>None\<close> when the caller waits.\<close>

definition pop_pair :: "('k, 'v) queue \<Rightarrow> (('k \<times> 'v) \<times> ('k, 'v) queue) result option" where
  "pop_pair q =
     (case pop q of
        Pop_waits \<Rightarrow> None
      | Pop_closed \<Rightarrow> Some (throw Queue_without_producers)
      | Popped k v q' \<Rightarrow> Some (return ((k, v), q')))"

definition size_estimate :: "('k, 'v) queue \<Rightarrow> u32" where
  "size_estimate q = of_nat (length (items q))"

section \<open>One thread\<close>

fun push_all :: "('k::linorder \<times> 'v) list \<Rightarrow> ('k, 'v) queue \<Rightarrow> ('k, 'v) queue option result" where
  "push_all [] q = return (Some q)"
| "push_all ((k, v) # xs) q =
     bind (push k v q) (\<lambda>r. case r of None \<Rightarrow> return None | Some q' \<Rightarrow> push_all xs q')"

fun pop_all :: "nat \<Rightarrow> ('k, 'v) queue \<Rightarrow> ('k \<times> 'v) list \<times> ('k, 'v) pop_outcome" where
  "pop_all 0 q = ([], pop q)"
| "pop_all (Suc n) q =
     (case pop q of
        Popped k v q' \<Rightarrow> (let (xs, e) = pop_all n q' in ((k, v) # xs, e))
      | e \<Rightarrow> ([], e))"

lemma push_all_fills:
  "length (items q) + length xs \<le> unat (capacity q) \<Longrightarrow> producers q \<noteq> 0 \<Longrightarrow>
   push_all xs q = return (Some (q\<lparr>items := foldl (\<lambda>m (k, v). multimap_insert k v m) (items q) xs\<rparr>))"
proof (induction xs q rule: push_all.induct)
  case (2 k v xs q)
  have "length (multimap_insert k v (items q)) = Suc (length (items q))"
    using multimap_insert_mset [of k v "items q"] by (metis size_mset size_add_mset)
  with 2 show ?case by (simp add: push_def push_loop_def)
qed simp

lemma pop_all_drains:
  "pop_all (length (items q)) q = (items q, pop (q\<lparr>items := []\<rparr>))"
proof (induction "items q" arbitrary: q)
  case Nil
  then have "q\<lparr>items := []\<rparr> = q" by simp
  with Nil show ?case by (metis list.size(3) pop_all.simps(1))
next
  case (Cons x m)
  obtain k v where x: "x = (k, v)" by (cases x)
  have "pop_all (length m) (q\<lparr>items := m\<rparr>) = (m, pop (q\<lparr>items := []\<rparr>))"
    using Cons.hyps(1) [of "q\<lparr>items := m\<rparr>"] by simp
  with Cons.hyps(2) [symmetric] x show ?case by (simp add: pop_def)
qed

text \<open>
  Used from one thread, the queue is a stable sort: as many elements as fit are accepted
  without waiting, they come out ordered by key, elements with equal keys in the order they were
  pushed, and when no producer is left the next pop reports the end instead of waiting.
\<close>

theorem queue_stable_sort:
  assumes "bounded_ordered_queue cap prods = return q" and "prods \<noteq> 0" and "length xs \<le> unat cap"
  shows "\<exists>q'. push_all xs q = return (Some q') \<and>
    pop_all (length xs) q' = (sort_key fst xs, Pop_waits) \<and>
    pop_all (length xs) (q'\<lparr>producers := 0\<rparr>) = (sort_key fst xs, Pop_closed)"
proof -
  have q: "items q = []" "capacity q = cap" "producers q = prods"
    using assms(1) by (auto simp: bounded_ordered_queue_def split: if_splits)
  let ?q' = "q\<lparr>items := sort_key fst xs\<rparr>"
  have "push_all xs q = return (Some ?q')"
    using push_all_fills [of q xs] assms(2,3) q by (simp add: multimap_fill_sort_key)
  moreover have "pop_all (length xs) ?q' = (sort_key fst xs, Pop_waits)"
    using pop_all_drains [of ?q'] assms(2) q by (simp add: pop_def word_greater_zero_iff)
  moreover have "pop_all (length xs) (?q'\<lparr>producers := 0\<rparr>) = (sort_key fst xs, Pop_closed)"
    using pop_all_drains [of "?q'\<lparr>producers := 0\<rparr>"] by (simp add: pop_def)
  ultimately show ?thesis by blast
qed

theorem queue_stable_sort_witness:
  "\<exists>q'. push_all [(2, ''a''), (1, ''b''), (2, ''c'')]
      \<lparr>items = [], capacity = 5, producers = 1\<rparr> = return (Some q') \<and>
    pop_all 3 q' = ([(1, ''b''), (2, ''a''), (2, ''c'')], Pop_waits) \<and>
    pop_all 3 (q'\<lparr>producers := 0\<rparr>) = ([(1 :: nat, ''b''), (2, ''a''), (2, ''c'')], Pop_closed)"
proof -
  let ?xs = "[(2 :: nat, ''a''), (1, ''b''), (2, ''c'')]"
  have "bounded_ordered_queue 5 1 = return \<lparr>items = [] :: (nat \<times> string) list, capacity = 5, producers = 1\<rparr>"
    and "(1 :: u32) \<noteq> 0" and "length ?xs \<le> unat (5 :: u32)"
    by (simp_all add: bounded_ordered_queue_def)
  note applied = queue_stable_sort [OF this]
  have "length ?xs = 3" and "sort_key fst ?xs = [(1, ''b''), (2, ''a''), (2, ''c'')]" by simp_all
  with applied show ?thesis by (simp only:)
qed

section \<open>Threads around the queue\<close>

text \<open>
  Readers are anonymous; a waiting writer carries the element it pushes. \<open>pushed\<close> and
  \<open>popped\<close> record the elements that went in and out, \<open>overflowed\<close> that the producer counter
  has wrapped around.
\<close>

record ('k, 'v) sys =
  q :: "('k, 'v) queue"
  sleeping_readers :: nat
  ready_readers :: nat
  sleeping_writers :: "('k \<times> 'v) multiset"
  ready_writers :: "('k \<times> 'v) multiset"
  pushed :: "('k \<times> 'v) multiset"
  popped :: "('k \<times> 'v) list"
  overflowed :: bool

definition initial :: "('k, 'v) queue \<Rightarrow> ('k, 'v) sys" where
  "initial q0 = \<lparr>q = q0, sleeping_readers = 0, ready_readers = 0, sleeping_writers = {#},
     ready_writers = {#}, pushed = {#}, popped = [], overflowed = False\<rparr>"

text \<open>\<open>reader_.signal()\<close>, \<open>reader_.broadcast()\<close>\<close>

definition wake_reader :: "('k, 'v) sys \<Rightarrow> ('k, 'v) sys" where
  "wake_reader s =
     (if sleeping_readers s = 0 then s
      else s\<lparr>sleeping_readers := sleeping_readers s - 1, ready_readers := ready_readers s + 1\<rparr>)"

definition wake_readers :: "('k, 'v) sys \<Rightarrow> ('k, 'v) sys" where
  "wake_readers s =
     s\<lparr>sleeping_readers := 0, ready_readers := ready_readers s + sleeping_readers s\<rparr>"

text \<open>\<open>writer_.signal()\<close> wakes one writer, if any sleeps; the system chooses which.\<close>

inductive wake_writer :: "('k, 'v) sys \<Rightarrow> ('k, 'v) sys \<Rightarrow> bool" where
  none: "sleeping_writers s = {#} \<Longrightarrow> wake_writer s s"
| one: "sleeping_writers s = add_mset w ws \<Longrightarrow>
    wake_writer s (s\<lparr>sleeping_writers := ws, ready_writers := add_mset w (ready_writers s)\<rparr>)"

text \<open>
  Condition variables may also wake threads for no reason (the last two rules): the loops of
  the code re-check their conditions, and the invariants do not depend on who was woken.
\<close>

inductive step :: "('k::linorder, 'v) sys \<Rightarrow> ('k, 'v) sys \<Rightarrow> bool" where
  push_insert: "push k v (q s) = return (Some q') \<Longrightarrow>
    step s (wake_reader (s\<lparr>q := q', pushed := add_mset (k, v) (pushed s)\<rparr>))"
| push_wait: "push k v (q s) = return None \<Longrightarrow>
    step s (s\<lparr>sleeping_writers := add_mset (k, v) (sleeping_writers s)\<rparr>)"
| resume_insert: "ready_writers s = add_mset (k, v) ws \<Longrightarrow> push_loop k v (q s) = Some q' \<Longrightarrow>
    step s (wake_reader (s\<lparr>q := q', pushed := add_mset (k, v) (pushed s), ready_writers := ws\<rparr>))"
| resume_wait: "ready_writers s = add_mset (k, v) ws \<Longrightarrow> push_loop k v (q s) = None \<Longrightarrow>
    step s (s\<lparr>ready_writers := ws, sleeping_writers := add_mset (k, v) (sleeping_writers s)\<rparr>)"
| pop_call: "step s (s\<lparr>ready_readers := ready_readers s + 1\<rparr>)"
| pop_item: "ready_readers s > 0 \<Longrightarrow> pop (q s) = Popped k v q' \<Longrightarrow>
    wake_writer (s\<lparr>q := q', popped := popped s @ [(k, v)], ready_readers := ready_readers s - 1\<rparr>) s' \<Longrightarrow>
    step s s'"
| pop_wait: "ready_readers s > 0 \<Longrightarrow> pop (q s) = Pop_waits \<Longrightarrow>
    step s (s\<lparr>ready_readers := ready_readers s - 1, sleeping_readers := sleeping_readers s + 1\<rparr>)"
| pop_end: "ready_readers s > 0 \<Longrightarrow> pop (q s) = Pop_closed \<Longrightarrow>
    step s (s\<lparr>ready_readers := ready_readers s - 1\<rparr>)"
| add_ok: "add_producer (q s) = (return (), q') \<Longrightarrow> step s (s\<lparr>q := q'\<rparr>)"
| add_overflow: "add_producer (q s) = (throw e, q') \<Longrightarrow> step s (s\<lparr>q := q', overflowed := True\<rparr>)"
| remove_last: "remove_producer (q s) = (return True, q') \<Longrightarrow> step s (wake_readers (s\<lparr>q := q'\<rparr>))"
| remove_one: "remove_producer (q s) = (return False, q') \<Longrightarrow> step s (s\<lparr>q := q'\<rparr>)"
| spurious_reader: "sleeping_readers s > 0 \<Longrightarrow> step s (wake_reader s)"
| spurious_writer: "wake_writer s s' \<Longrightarrow> step s s'"

inductive_cases wake_writerE: "wake_writer s s'"
inductive_cases stepE: "step s s'"

section \<open>Invariants\<close>

definition data_inv :: "('k::linorder, 'v) sys \<Rightarrow> bool" where
  "data_inv s \<longleftrightarrow> sorted_multimap (items (q s)) \<and> capacity (q s) \<noteq> 0 \<and>
     length (items (q s)) \<le> unat (capacity (q s)) \<and>
     pushed s = mset (popped s) + mset (items (q s))"

definition wakeup_inv :: "('k, 'v) sys \<Rightarrow> bool" where
  "wakeup_inv s \<longleftrightarrow>
     (sleeping_readers s = 0 \<or> length (items (q s)) \<le> ready_readers s) \<and>
     (sleeping_writers s = {#} \<or>
      unat (capacity (q s)) \<le> length (items (q s)) + size (ready_writers s)) \<and>
     (overflowed s \<or> producers (q s) \<noteq> 0 \<or> sleeping_readers s = 0)"

lemma length_multimap_insert [simp]: "length (multimap_insert k v m) = Suc (length m)"
  using multimap_insert_mset [of k v m] by (metis size_mset size_add_mset)

lemmas section_defs = push_def push_loop_def pop_def add_producer_def remove_producer_def

lemma wake_reader_keeps [simp]:
  "q (wake_reader s) = q s" "pushed (wake_reader s) = pushed s" "popped (wake_reader s) = popped s"
  "sleeping_writers (wake_reader s) = sleeping_writers s" "ready_writers (wake_reader s) = ready_writers s"
  "overflowed (wake_reader s) = overflowed s"
  by (simp_all add: wake_reader_def)

lemma step_data_inv:
  assumes "step s s'" and "data_inv s"
  shows "data_inv s'"
  using assms
  by (induction rule: step.induct)
    (auto simp: data_inv_def section_defs wake_readers_def Let_def elim!: wake_writerE
      split: if_splits list.splits)

lemma step_wakeup_inv:
  assumes "step s s'" and "data_inv s" and "wakeup_inv s"
  shows "wakeup_inv s'"
  using assms
  by (induction rule: step.induct)
    (auto simp: data_inv_def wakeup_inv_def section_defs wake_readers_def wake_reader_def Let_def
      elim!: wake_writerE split: if_splits list.splits)

text \<open>The states the threads can reach from a fresh queue.\<close>

definition reachable :: "u32 \<Rightarrow> u32 \<Rightarrow> ('k::linorder, 'v) sys \<Rightarrow> bool" where
  "reachable cap prods s \<longleftrightarrow>
     (\<exists>q0. bounded_ordered_queue cap prods = return q0 \<and> step\<^sup>*\<^sup>* (initial q0) s)"

lemma reachable_inv:
  assumes "reachable cap prods s"
  shows "data_inv s \<and> wakeup_inv s"
proof -
  obtain q0 where q0: "bounded_ordered_queue cap prods = return q0" and "step\<^sup>*\<^sup>* (initial q0) s"
    using assms by (auto simp: reachable_def)
  from this(2) show ?thesis
  proof (induction rule: rtranclp_induct)
    case base
    then show ?case
      using q0 by (auto simp: data_inv_def wakeup_inv_def initial_def bounded_ordered_queue_def
          split: if_splits)
  next
    case (step s s')
    then show ?case using step_data_inv step_wakeup_inv by blast
  qed
qed

lemma step_capacity: "step s s' \<Longrightarrow> capacity (q s') = capacity (q s)"
  by (induction rule: step.induct)
    (auto simp: section_defs wake_readers_def Let_def elim!: wake_writerE split: if_splits list.splits)

lemma reachable_capacity:
  assumes "reachable cap prods s"
  shows "capacity (q s) = cap"
proof -
  obtain q0 where q0: "bounded_ordered_queue cap prods = return q0" and "step\<^sup>*\<^sup>* (initial q0) s"
    using assms by (auto simp: reachable_def)
  from this(2) show ?thesis
    by (induction rule: rtranclp_induct)
      (use q0 in \<open>auto simp: step_capacity initial_def bounded_ordered_queue_def split: if_splits\<close>)
qed

text \<open>
  C34. However the threads interleave and whatever wakeups happen, the queue never holds more
  elements than its capacity, every element that was pushed was popped once or is still there,
  and a pop takes an element with the least key of the queue.
\<close>

theorem queue_safety:
  assumes "reachable cap prods s"
  shows "length (items (q s)) \<le> unat cap \<and>
    pushed s = mset (popped s) + mset (items (q s)) \<and>
    (case pop (q s) of
       Popped k v q' \<Rightarrow> (\<forall>x \<in> set (items (q s)). k \<le> fst x) \<and>
         mset (items (q s)) = add_mset (k, v) (mset (items q'))
     | _ \<Rightarrow> items (q s) = [])"
  using reachable_inv [OF assms] reachable_capacity [OF assms]
  by (fastforce simp: data_inv_def pop_def split: list.splits)

lemma reachable_example:
  "reachable 1 1 \<lparr>q = \<lparr>items = [(7, ''x'')], capacity = 1, producers = 1\<rparr>, sleeping_readers = 0,
     ready_readers = 0, sleeping_writers = {#(3 :: nat, ''y'')#}, ready_writers = {#},
     pushed = {#(7, ''x'')#}, popped = [], overflowed = False\<rparr>"
proof -
  let ?q = "\<lparr>items = [] :: (nat \<times> string) list, capacity = 1, producers = 1\<rparr>"
  let ?s = "\<lparr>q = ?q\<lparr>items := [(7, ''x'')]\<rparr>, sleeping_readers = 0, ready_readers = 0,
     sleeping_writers = {#}, ready_writers = {#}, pushed = {#(7, ''x'')#}, popped = [], overflowed = False\<rparr>"
  have "bounded_ordered_queue 1 1 = return ?q" by (simp add: bounded_ordered_queue_def)
  moreover have "step (initial ?q) ?s"
    using step.push_insert [of 7 "''x''" "initial ?q" "?q\<lparr>items := [(7, ''x'')]\<rparr>"]
    by (simp add: initial_def section_defs wake_reader_def)
  moreover have "step ?s (?s\<lparr>sleeping_writers := {#(3, ''y'')#}\<rparr>)"
    using step.push_wait [of 3 "''y''" ?s] by (simp add: section_defs)
  ultimately show ?thesis unfolding reachable_def by (intro exI [of _ ?q]) auto
qed

theorem queue_safety_witness:
  "length [(7 :: nat, ''x'')] \<le> unat (1 :: u32) \<and> {#(7 :: nat, ''x'')#} = mset [] + mset [(7, ''x'')] \<and>
   (case pop \<lparr>items = [(7 :: nat, ''x'')], capacity = 1, producers = 1\<rparr> of
      Popped k v q' \<Rightarrow> (\<forall>x \<in> set [(7, ''x'')]. k \<le> fst x) \<and>
        mset [(7, ''x'')] = add_mset (k, v) (mset (items q'))
    | _ \<Rightarrow> False)"
  using queue_safety [OF reachable_example] by (simp add: pop_def)

text \<open>
  C12. No wakeup is lost. When no thread that has been woken is still to run, sleeping readers
  mean that the queue is empty and (unless the producer counter has overflowed) that a producer
  is left, sleeping writers mean that the queue is full, and so readers and writers never all
  sleep at once.
\<close>

theorem queue_no_lost_wakeup:
  assumes "reachable cap prods s" and "ready_readers s = 0" and "ready_writers s = {#}"
  shows "(sleeping_readers s = 0 \<or> items (q s) = [] \<and> (overflowed s \<or> producers (q s) \<noteq> 0)) \<and>
    (sleeping_writers s = {#} \<or> length (items (q s)) = unat cap) \<and>
    (sleeping_readers s = 0 \<or> sleeping_writers s = {#})"
proof -
  have "unat cap \<noteq> 0"
    using reachable_inv [OF assms(1)] reachable_capacity [OF assms(1)]
    by (simp add: data_inv_def unat_eq_zero)
  then show ?thesis
    using reachable_inv [OF assms(1)] reachable_capacity [OF assms(1)] assms(2,3)
    by (auto simp: data_inv_def wakeup_inv_def)
qed

theorem queue_no_lost_wakeup_witness:
  "length (items \<lparr>items = [(7 :: nat, ''x'')], capacity = 1, producers = 1\<rparr>) = unat (1 :: u32)"
  using queue_no_lost_wakeup [OF reachable_example] by simp

text \<open>
  Where the exception of the overflow check matters: the counter has wrapped to zero, the queue
  behaves as if no producer were left, and the readers asleep at that moment are not woken.
\<close>

lemma add_producer_overflow:
  "producers q0 = - 1 \<Longrightarrow>
   add_producer q0 = (throw (Runtime_error ''too many producers''), q0\<lparr>producers := 0\<rparr>)"
  by (simp add: add_producer_def)

end
