(* ===== verification/Hash.thy ===== *)
theory Hash
  imports Base16
begin

text \<open>
  Digests (\<open>hash.cpp\<close>) and checksums with a type and a length (\<open>checksum.cpp\<close>). The digest
  contexts of NSS are a parameter: a record with the four functions that the code calls, each of
  which may fail.
\<close>

section \<open>Digests\<close>

datatype hash_type = md5 | sha1 | sha256

record 'c nss =
  PK11_CreateDigestContext :: "hash_type \<Rightarrow> 'c option"
  PK11_DigestBegin :: "'c \<Rightarrow> 'c option"
  PK11_DigestOp :: "'c \<Rightarrow> u8 list \<Rightarrow> 'c option"
  PK11_DigestFinal :: "'c \<Rightarrow> nat \<Rightarrow> u8 list option"

record 'c hash_sink =
  raw :: 'c
  digest_length :: nat
  octets :: u64

fun digest_size :: "hash_type \<Rightarrow> nat" where
  "digest_size md5 = 16"
| "digest_size sha1 = 20"
| "digest_size sha256 = 32"

definition hash_sink_impl :: "'c nss \<Rightarrow> hash_type \<Rightarrow> 'c hash_sink result" where
  "hash_sink_impl nss t =
     (case PK11_CreateDigestContext nss t of
        None \<Rightarrow> throw (Runtime_error ''PK11_CreateDigestContext'')
      | Some c \<Rightarrow> return \<lparr>raw = c, digest_length = digest_size t, octets = 0\<rparr>)"

definition hash_sink_new :: "'c nss \<Rightarrow> hash_type \<Rightarrow> 'c hash_sink result" where
  "hash_sink_new nss t =
     bind (hash_sink_impl nss t) (\<lambda>impl.
     case PK11_DigestBegin nss (raw impl) of
       None \<Rightarrow> throw (Runtime_error ''PK11_DigestBegin'')
     | Some c \<Rightarrow> return (impl\<lparr>raw := c\<rparr>))"

definition INT_MAX :: nat where
  "INT_MAX = 2147483647"

text \<open>A long buffer is passed on in slices, because the length is an \<open>int\<close> on the other side.\<close>

function write_hash :: "'c nss \<Rightarrow> u8 list \<Rightarrow> 'c hash_sink \<Rightarrow> 'c hash_sink result" where
  "write_hash nss buf impl =
     (if buf = [] then return impl
      else let to_hash = min (length buf) (INT_MAX div 2)
           in case PK11_DigestOp nss (raw impl) (take to_hash buf) of
                None \<Rightarrow> throw (Runtime_error ''PK11_DigestOp'')
              | Some c \<Rightarrow>
                  write_hash nss (drop to_hash buf) (impl\<lparr>raw := c, octets := octets impl + of_nat to_hash\<rparr>))"
  by pat_completeness auto
termination by (relation "measure (\<lambda>(nss, buf, impl). length buf)") (auto simp: INT_MAX_def)

declare write_hash.simps [simp del]

definition digest :: "'c nss \<Rightarrow> 'c hash_sink \<Rightarrow> u8 list result" where
  "digest nss impl =
     (case PK11_DigestFinal nss (raw impl) (digest_length impl) of
        None \<Rightarrow> throw (Runtime_error ''PK11_DigestFinal'')
      | Some d \<Rightarrow> if length d = digest_length impl then return d else throw Assertion_failure)"

definition from_string :: "string \<Rightarrow> hash_type result" where
  "from_string str =
     (if str = ''md5'' then return md5
      else if str = ''sha1'' \<or> str = ''sha'' then return sha1
      else if str = ''sha256'' then return sha256
      else throw (Runtime_error (''unknown hash type: '' @ str)))"

fun hash_name :: "hash_type \<Rightarrow> string" where
  "hash_name md5 = ''md5''"
| "hash_name sha1 = ''sha1''"
| "hash_name sha256 = ''sha256''"

definition hash_data :: "'c nss \<Rightarrow> hash_type \<Rightarrow> u8 list \<Rightarrow> u8 list result" where
  "hash_data nss t dat = bind (hash_sink_new nss t) (\<lambda>sink. bind (write_hash nss dat sink) (digest nss))"

text \<open>
  The reads of a file: each yields some bytes or fails; an empty read and the end of the list are
  the end of the file.
\<close>

fun hash_reads :: "'c nss \<Rightarrow> u8 list result list \<Rightarrow> 'c hash_sink \<Rightarrow> 'c hash_sink result" where
  "hash_reads nss [] sink = return sink"
| "hash_reads nss (r # rs) sink =
     bind r (\<lambda>buf. if buf = [] then return sink
                   else bind (write_hash nss buf sink) (hash_reads nss rs))"

definition hash_file :: "'c nss \<Rightarrow> hash_type \<Rightarrow> unit result \<Rightarrow> u8 list result list \<Rightarrow> u8 list result" where
  "hash_file nss t opened reads =
     bind (hash_sink_new nss t) (\<lambda>sink. bind opened (\<lambda>_. bind (hash_reads nss reads sink) (digest nss)))"

section \<open>Checksums\<close>

record checksum =
  csum_value :: "u8 list"
  csum_length :: u64
  csum_type :: hash_type

definition no_length :: u64 where
  "no_length = -1"

definition checksum_new :: checksum where
  "checksum_new = \<lparr>csum_value = [], csum_length = no_length, csum_type = sha256\<rparr>"

definition set_hexadecimal :: "string \<Rightarrow> u64 \<Rightarrow> string \<Rightarrow> checksum \<Rightarrow> checksum result" where
  "set_hexadecimal typ len hex cs =
     (case base16_decode hex of
        (v, Some e) \<Rightarrow> throw e
      | (v, None) \<Rightarrow> bind (from_string typ) (\<lambda>t.
          return (cs\<lparr>csum_type := t, csum_length := len, csum_value := v\<rparr>)))"

definition hash_file_checksum ::
    "'c nss \<Rightarrow> hash_type \<Rightarrow> unit result \<Rightarrow> u8 list result list \<Rightarrow> checksum \<Rightarrow> checksum result" where
  "hash_file_checksum nss t opened reads csum =
     bind (hash_sink_new nss t) (\<lambda>sink. bind opened (\<lambda>_.
     bind (hash_reads nss reads sink) (\<lambda>sink.
     bind (digest nss sink) (\<lambda>d.
     return (csum\<lparr>csum_value := d, csum_type := t, csum_length := octets sink\<rparr>)))))"

section \<open>The digest of a file\<close>

text \<open>
  What NSS documents: a context collects the bytes it is given, and the final call returns their
  digest. \<open>collected\<close> relates a context to the algorithm and the bytes so far.
\<close>

definition nss_digests ::
    "'c nss \<Rightarrow> (hash_type \<Rightarrow> u8 list \<Rightarrow> u8 list) \<Rightarrow> ('c \<Rightarrow> hash_type \<Rightarrow> u8 list \<Rightarrow> bool) \<Rightarrow> bool" where
  "nss_digests nss H collected \<longleftrightarrow>
     (\<forall>t. \<exists>c c'. PK11_CreateDigestContext nss t = Some c \<and> PK11_DigestBegin nss c = Some c' \<and> collected c' t []) \<and>
     (\<forall>c t d b. collected c t d \<longrightarrow> length b \<le> INT_MAX \<longrightarrow>
        (\<exists>c'. PK11_DigestOp nss c b = Some c' \<and> collected c' t (d @ b))) \<and>
     (\<forall>c t d. collected c t d \<longrightarrow> PK11_DigestFinal nss c (digest_size t) = Some (H t d)) \<and>
     (\<forall>t d. length (H t d) = digest_size t)"

definition sink_holds ::
    "('c \<Rightarrow> hash_type \<Rightarrow> u8 list \<Rightarrow> bool) \<Rightarrow> 'c hash_sink \<Rightarrow> hash_type \<Rightarrow> u8 list \<Rightarrow> bool" where
  "sink_holds collected sink t d \<longleftrightarrow>
     collected (raw sink) t d \<and> digest_length sink = digest_size t \<and> octets sink = of_nat (length d)"

lemma hash_sink_holds:
  assumes "nss_digests nss H collected"
  shows "\<exists>sink. hash_sink_new nss t = return sink \<and> sink_holds collected sink t []"
proof -
  obtain c c' where "PK11_CreateDigestContext nss t = Some c" "PK11_DigestBegin nss c = Some c'" "collected c' t []"
    using assms unfolding nss_digests_def by blast
  then show ?thesis by (simp add: hash_sink_new_def hash_sink_impl_def sink_holds_def)
qed

lemma write_hash_holds:
  assumes "nss_digests nss H collected"
  shows "sink_holds collected sink t d \<Longrightarrow>
    \<exists>sink'. write_hash nss buf sink = return sink' \<and> sink_holds collected sink' t (d @ buf)"
proof (induction "length buf" arbitrary: buf sink d rule: less_induct)
  case less
  show ?case
  proof (cases "buf = []")
    case True
    then show ?thesis using less.prems by (simp add: write_hash.simps)
  next
    case False
    let ?n = "min (length buf) (INT_MAX div 2)"
    have "length (take ?n buf) \<le> INT_MAX" by (simp add: INT_MAX_def)
    then obtain c where c: "PK11_DigestOp nss (raw sink) (take ?n buf) = Some c" "collected c t (d @ take ?n buf)"
      using assms less.prems unfolding nss_digests_def sink_holds_def by blast
    let ?s = "sink\<lparr>raw := c, octets := octets sink + of_nat ?n\<rparr>"
    have "sink_holds collected ?s t (d @ take ?n buf)"
      using less.prems c(2) by (simp add: sink_holds_def)
    moreover have "length (drop ?n buf) < length buf" using False by (simp add: INT_MAX_def)
    ultimately obtain sink' where "write_hash nss (drop ?n buf) ?s = return sink'"
      "sink_holds collected sink' t ((d @ take ?n buf) @ drop ?n buf)"
      using less.hyps by blast
    then show ?thesis using False c(1) by (simp add: write_hash.simps [of nss buf] Let_def)
  qed
qed

lemma digest_holds:
  assumes "nss_digests nss H collected" and "sink_holds collected sink t d"
  shows "digest nss sink = return (H t d)"
proof -
  have "PK11_DigestFinal nss (raw sink) (digest_size t) = Some (H t d)" "length (H t d) = digest_size t"
    "digest_length sink = digest_size t"
    using assms unfolding nss_digests_def sink_holds_def by blast+
  then show ?thesis by (simp add: digest_def)
qed

text \<open>The bytes a reader gets before the end of the file, or the exception of the read that fails.\<close>

fun contents :: "u8 list result list \<Rightarrow> u8 list result" where
  "contents [] = return []"
| "contents (r # rs) = bind r (\<lambda>b. if b = [] then return [] else bind (contents rs) (\<lambda>bs. return (b @ bs)))"

lemma hash_reads_holds:
  assumes "nss_digests nss H collected"
  shows "sink_holds collected sink t d \<Longrightarrow>
    (case contents reads of
       Inl e \<Rightarrow> hash_reads nss reads sink = throw e
     | Inr bs \<Rightarrow> (\<exists>sink'. hash_reads nss reads sink = return sink' \<and> sink_holds collected sink' t (d @ bs)))"
proof (induction reads arbitrary: sink d)
  case (Cons r rs)
  show ?case
  proof (cases r)
    case (Inr b)
    show ?thesis
    proof (cases "b = []")
      case False
      obtain sink' where "write_hash nss b sink = return sink'" "sink_holds collected sink' t (d @ b)"
        using write_hash_holds [OF assms Cons.prems] by blast
      then show ?thesis using Cons.IH [of sink' "d @ b"] Inr False by (cases "contents rs") simp_all
    qed (use Cons.prems Inr in simp)
  qed simp
qed simp

text \<open>
  C38. Hashing a file gives the digest of its contents and their length, whatever the sizes of the
  reads; an open or read that fails is reported. (The length is kept modulo \<open>2^64\<close>.)
\<close>

theorem hash_file_digest:
  assumes "nss_digests nss H collected"
  shows "hash_file_checksum nss t opened reads csum =
    bind opened (\<lambda>_. bind (contents reads) (\<lambda>bs.
      return (csum\<lparr>csum_value := H t bs, csum_type := t, csum_length := of_nat (length bs)\<rparr>)))"
proof -
  obtain sink where sink: "hash_sink_new nss t = return sink" "sink_holds collected sink t []"
    using hash_sink_holds [OF assms] by blast
  show ?thesis
  proof (cases "contents reads")
    case (Inl e)
    then show ?thesis
      using hash_reads_holds [OF assms sink(2), of reads] sink(1) by (cases opened) (simp_all add: hash_file_checksum_def)
  next
    case (Inr bs)
    then obtain sink' where "hash_reads nss reads sink = return sink'" "sink_holds collected sink' t bs"
      using hash_reads_holds [OF assms sink(2), of reads] by auto
    then show ?thesis
      using sink(1) Inr digest_holds [OF assms, of sink' t bs]
      by (cases opened) (simp_all add: hash_file_checksum_def sink_holds_def)
  qed
qed

text \<open>A digest that only remembers what it was given shows that the hypothesis can hold.\<close>

definition pad_digest :: "hash_type \<Rightarrow> u8 list \<Rightarrow> u8 list" where
  "pad_digest t d = take (digest_size t) (d @ replicate (digest_size t) 0)"

definition pad_nss :: "(hash_type \<times> u8 list) nss" where
  "pad_nss = \<lparr>PK11_CreateDigestContext = \<lambda>t. Some (t, []), PK11_DigestBegin = Some,
     PK11_DigestOp = \<lambda>(t, d) b. Some (t, d @ b), PK11_DigestFinal = \<lambda>(t, d) n. Some (pad_digest t d)\<rparr>"

lemma pad_nss_digests: "nss_digests pad_nss pad_digest (\<lambda>c t d. c = (t, d))"
  by (auto simp: nss_digests_def pad_nss_def pad_digest_def)

theorem hash_file_digest_witness:
  "hash_file_checksum pad_nss md5 (return ()) [return [1, 2], return [3]] checksum_new =
     return \<lparr>csum_value = [1, 2, 3] @ replicate 13 0, csum_length = 3, csum_type = md5\<rparr>"
proof -
  from hash_file_digest [OF pad_nss_digests, of md5 "return ()" "[return [1, 2], return [3]]" checksum_new]
  show ?thesis by (simp add: checksum_new_def pad_digest_def)
qed

section \<open>Checksums in text\<close>

lemma from_string_hash_name: "from_string (hash_name t) = return t"
  by (cases t) (simp_all add: from_string_def)

text \<open>
  A checksum in hexadecimal text is read back with its type and length. It is refused exactly
  when the text is not hexadecimal, with the error of the decoder, or else when the type is not
  known.
\<close>

theorem checksum_roundtrip:
  "set_hexadecimal (hash_name t) len (base16_encode v) cs = return \<lparr>csum_value = v, csum_length = len, csum_type = t\<rparr> \<and>
   (set_hexadecimal typ len hex cs = throw e \<longleftrightarrow>
      decode_error 0 hex = Some e \<or>
      decode_error 0 hex = None \<and> typ \<notin> {''md5'', ''sha'', ''sha1'', ''sha256''} \<and>
      e = Runtime_error (''unknown hash type: '' @ typ))"
proof
  show "set_hexadecimal (hash_name t) len (base16_encode v) cs = return \<lparr>csum_value = v, csum_length = len, csum_type = t\<rparr>"
    by (simp add: set_hexadecimal_def base16_decode_def decode_from_encode from_string_hash_name)
next
  obtain v r where d: "base16_decode hex = (v, r)" "decode_error 0 hex = r"
    using decode_from_spec [of 0 hex] by (cases "base16_decode hex") (auto simp: base16_decode_def)
  then show "set_hexadecimal typ len hex cs = throw e \<longleftrightarrow>
      decode_error 0 hex = Some e \<or>
      decode_error 0 hex = None \<and> typ \<notin> {''md5'', ''sha'', ''sha1'', ''sha256''} \<and>
      e = Runtime_error (''unknown hash type: '' @ typ)"
    by (cases r) (auto simp: set_hexadecimal_def from_string_def)
qed

end
