(* ===== verification/Package_set.thy ===== *)
theory Package_set
  imports Ordmap Utf8 Hash
begin

text \<open>
  RPM packages and the choice of the newest ones: \<open>lib/cxxll/rpm_evr.cpp\<close>,
  \<open>include/cxxll/package_set_consolidator.hpp\<close>, \<open>lib/cxxll/rpm_package_info.cpp\<close> and
  \<open>lib/cxxll/rpm_file_info.cpp\<close>. The version comparison \<open>rpmvercmp\<close> belongs to the RPM library
  and is a parameter; \<open>version_order\<close> is what its documentation promises, a total preorder.
\<close>

section \<open>Package and file records\<close>

datatype package_kind = Binary | Source

record rpm_package_info =
  name :: string
  version :: string
  release :: string
  arch :: string
  source_rpm :: string
  hash :: string
  build_host :: string
  summary :: string
  description :: string
  license :: string
  group :: string
  build_time :: int
  epoch :: int
  kind :: package_kind
  normalized :: bool

definition normalize :: "rpm_package_info \<Rightarrow> rpm_package_info result" where
  "normalize info =
     bind (is_valid_utf8 (license info)) (\<lambda>ok.
       return (if \<not> ok then info\<lparr>license := latin1_to_utf8 (license info), normalized := True\<rparr>
               else info))"

record rpm_file_info =
  file_name :: string
  user :: string
  file_group :: string
  capabilities :: string
  linkto :: string
  file_digest :: checksum
  file_mode :: u32
  file_mtime :: u32
  file_ino :: u32
  flags :: u32
  file_normalized :: bool

text \<open>\<open>S_IFMT\<close>, \<open>S_IFDIR\<close>, \<open>S_IFLNK\<close> of the C library, \<open>RPMFILE_GHOST\<close> of RPM\<close>

definition is_directory :: "rpm_file_info \<Rightarrow> bool" where
  "is_directory fi \<longleftrightarrow> file_mode fi AND 0xF000 = 0x4000"

definition is_symlink :: "rpm_file_info \<Rightarrow> bool" where
  "is_symlink fi \<longleftrightarrow> file_mode fi AND 0xF000 = 0xA000"

definition ghost :: "rpm_file_info \<Rightarrow> bool" where
  "ghost fi \<longleftrightarrow> flags fi AND 0x40 \<noteq> 0"

definition normalize_name :: "rpm_file_info \<Rightarrow> rpm_file_info result" where
  "normalize_name fi =
     (if file_normalized fi then return fi
      else bind (is_valid_utf8 (file_name fi)) (\<lambda>ok.
        return (if \<not> ok then fi\<lparr>file_name := latin1_to_utf8 (file_name fi), file_normalized := True\<rparr>
                else fi)))"

section \<open>Versions\<close>

record rpm_evr =
  evr_epoch :: string
  evr_version :: string
  evr_release :: string

type_synonym vercmp = "string \<Rightarrow> string \<Rightarrow> int"

definition evr_less :: "vercmp \<Rightarrow> rpm_evr \<Rightarrow> rpm_evr \<Rightarrow> bool" where
  "evr_less vercmp a b =
     (if evr_epoch a = evr_epoch b then
        let ret = vercmp (cstr (evr_version a)) (cstr (evr_version b)) in
        if ret \<noteq> 0 then ret < 0
        else vercmp (cstr (evr_release a)) (cstr (evr_release b)) < 0
      else if length (evr_epoch a) \<noteq> length (evr_epoch b)
        then length (evr_epoch a) < length (evr_epoch b)
      else evr_epoch a < evr_epoch b)"

section \<open>The consolidator\<close>

type_synonym 'a name_map = "(string \<times> rpm_evr \<times> 'a) list"
type_synonym 'a arch_map = "(string \<times> 'a name_map) list"

text \<open>
  The assignment of the integer epoch to a string selects \<open>std::string::operator=(char)\<close>: the
  string has one character, the epoch modulo 256.
\<close>

definition evr_of :: "rpm_package_info \<Rightarrow> rpm_evr" where
  "evr_of info = \<lparr>evr_epoch = [char_of (nat (epoch info mod 256))],
     evr_version = version info, evr_release = release info\<rparr>"

definition add_name :: "vercmp \<Rightarrow> rpm_package_info \<times> 'a \<Rightarrow> 'a name_map \<Rightarrow> 'a name_map" where
  "add_name vercmp x nmap =
     (case map_find nmap (name (fst x)) of
        None \<Rightarrow> map_assign (name (fst x)) (evr_of (fst x), snd x) nmap
      | Some (ver, dat) \<Rightarrow>
          if evr_less vercmp ver (evr_of (fst x))
          then map_assign (name (fst x)) (evr_of (fst x), snd x) nmap
          else nmap)"

definition add :: "vercmp \<Rightarrow> 'a arch_map \<Rightarrow> rpm_package_info \<times> 'a \<Rightarrow> 'a arch_map" where
  "add vercmp m x =
     (let nmap = (case map_find m (arch (fst x)) of None \<Rightarrow> [] | Some n \<Rightarrow> n) in
      map_assign (arch (fst x)) (add_name vercmp x nmap) m)"

definition consolidated :: "'a arch_map \<Rightarrow> 'a list" where
  "consolidated m = concat (map (\<lambda>(a, nmap). map (\<lambda>(n, ver, dat). dat) nmap) m)"

section \<open>Normalisation\<close>

text \<open>
  Normalising a package never fails and leaves a license in valid UTF-8; it changes nothing
  but the license, and only when the license was not valid before, and then sets the flag.
\<close>

theorem normalize_license:
  "\<exists>info'. normalize info = return info' \<and> is_valid_utf8 (license info') = return True \<and>
     (is_valid_utf8 (license info) = return True \<and> info' = info \<or>
      is_valid_utf8 (license info) = return False \<and>
      info' = info\<lparr>license := latin1_to_utf8 (license info), normalized := True\<rparr>)"
proof -
  obtain b where "is_valid_utf8 (license info) = return b" using is_valid_utf8_total by blast
  then show ?thesis by (cases b) (simp_all add: normalize_def latin1_to_utf8_is_valid)
qed

section \<open>The order of versions\<close>

text \<open>What \<open>rpmvercmp\<close> promises: its sign is a total preorder of version strings.\<close>

definition version_order :: "vercmp \<Rightarrow> bool" where
  "version_order vercmp \<longleftrightarrow>
     (\<forall>a b. vercmp a b < 0 \<longleftrightarrow> vercmp b a > 0) \<and>
     (\<forall>a b c. vercmp a b \<le> 0 \<longrightarrow> vercmp b c \<le> 0 \<longrightarrow> vercmp a c \<le> 0)"

text \<open>The order of versions as a comparison of keys, epoch first.\<close>

definition epoch_less :: "string \<Rightarrow> string \<Rightarrow> bool" where
  "epoch_less x y \<longleftrightarrow> length x < length y \<or> length x = length y \<and> x < y"

definition evr_le :: "vercmp \<Rightarrow> rpm_evr \<Rightarrow> rpm_evr \<Rightarrow> bool" where
  "evr_le vercmp a b \<longleftrightarrow>
     epoch_less (evr_epoch a) (evr_epoch b) \<or>
     evr_epoch a = evr_epoch b \<and>
       (vercmp (cstr (evr_version a)) (cstr (evr_version b)) < 0 \<or>
        vercmp (cstr (evr_version a)) (cstr (evr_version b)) = 0 \<and>
        vercmp (cstr (evr_release a)) (cstr (evr_release b)) \<le> 0)"

lemma epoch_less_trans: "epoch_less x y \<Longrightarrow> epoch_less y z \<Longrightarrow> epoch_less x z"
  by (auto simp: epoch_less_def)

lemma epoch_less_linear: "x = y \<or> epoch_less x y \<or> epoch_less y x"
  by (auto simp: epoch_less_def)

lemma epoch_less_asym: "epoch_less x y \<Longrightarrow> \<not> epoch_less y x \<and> x \<noteq> y"
  by (auto simp: epoch_less_def)

lemma evr_less_le:
  assumes "version_order vercmp"
  shows "evr_less vercmp a b \<longleftrightarrow> \<not> evr_le vercmp b a"
proof -
  have sw: "vercmp x y < 0 \<longleftrightarrow> vercmp y x > 0" for x y using assms by (simp add: version_order_def)
  have z: "vercmp x y = 0 \<longleftrightarrow> vercmp y x = 0" for x y
    using sw [of x y] sw [of y x] by linarith
  show ?thesis
  proof (cases "evr_epoch a = evr_epoch b")
    case True
    then show ?thesis
      using sw [of "cstr (evr_version a)" "cstr (evr_version b)"] z [of "cstr (evr_version a)" "cstr (evr_version b)"]
        sw [of "cstr (evr_release a)" "cstr (evr_release b)"]
      by (auto simp: evr_less_def evr_le_def epoch_less_def Let_def)
  next
    case False
    then have "evr_less vercmp a b = epoch_less (evr_epoch a) (evr_epoch b)"
      by (auto simp: evr_less_def epoch_less_def)
    with False show ?thesis
      using epoch_less_linear epoch_less_asym unfolding evr_le_def by metis
  qed
qed

lemma evr_le_trans:
  assumes "version_order vercmp" and "evr_le vercmp a b" and "evr_le vercmp b c"
  shows "evr_le vercmp a c"
proof -
  have sw: "vercmp x y < 0 \<longleftrightarrow> vercmp y x > 0" for x y using assms(1) by (simp add: version_order_def)
  have tr: "vercmp x y \<le> 0 \<Longrightarrow> vercmp y z \<le> 0 \<Longrightarrow> vercmp x z \<le> 0" for x y z
    using assms(1) unfolding version_order_def by blast
  have strict: "vercmp x z < 0" if "vercmp x y \<le> 0" "vercmp y z \<le> 0" "vercmp x y < 0 \<or> vercmp y z < 0"
    for x y z
    using that tr [of x y z] tr [of y z x] tr [of z x y] sw [of x y] sw [of y z] sw [of x z] sw [of z x] by force
  have ver: "vercmp va vc < 0 \<or> vercmp va vc = 0 \<and> vercmp ra rc \<le> 0"
    if "vercmp va vb < 0 \<or> vercmp va vb = 0 \<and> vercmp ra rb \<le> 0"
      "vercmp vb vc < 0 \<or> vercmp vb vc = 0 \<and> vercmp rb rc \<le> 0" for va vb vc ra rb rc
    using that strict [of va vb vc] tr [of va vb vc] tr [of ra rb rc] by linarith
  consider "epoch_less (evr_epoch a) (evr_epoch c)"
    | "evr_epoch a = evr_epoch b" "evr_epoch b = evr_epoch c"
  proof -
    have "epoch_less (evr_epoch a) (evr_epoch b) \<or> evr_epoch a = evr_epoch b"
      "epoch_less (evr_epoch b) (evr_epoch c) \<or> evr_epoch b = evr_epoch c"
      using assms(2,3) by (auto simp: evr_le_def)
    then show ?thesis using that epoch_less_trans by metis
  qed
  then show ?thesis
  proof cases
    case 2
    then have "\<not> epoch_less (evr_epoch a) (evr_epoch b)" "\<not> epoch_less (evr_epoch b) (evr_epoch c)"
      using epoch_less_asym by auto
    with assms(2,3) have "vercmp (cstr (evr_version a)) (cstr (evr_version c)) < 0 \<or>
        vercmp (cstr (evr_version a)) (cstr (evr_version c)) = 0 \<and>
        vercmp (cstr (evr_release a)) (cstr (evr_release c)) \<le> 0"
      using ver [of "cstr (evr_version a)" "cstr (evr_version b)" "cstr (evr_release a)"
          "cstr (evr_release b)" "cstr (evr_version c)" "cstr (evr_release c)"]
      unfolding evr_le_def by blast
    with 2 show ?thesis by (simp add: evr_le_def)
  qed (simp add: evr_le_def)
qed

lemma evr_le_total: "version_order vercmp \<Longrightarrow> evr_le vercmp a b \<or> evr_le vercmp b a"
proof -
  assume v: "version_order vercmp"
  then have sw: "vercmp x y < 0 \<longleftrightarrow> vercmp y x > 0" for x y by (simp add: version_order_def)
  show ?thesis
    using sw [of "cstr (evr_version a)" "cstr (evr_version b)"] sw [of "cstr (evr_version b)" "cstr (evr_version a)"]
      sw [of "cstr (evr_release a)" "cstr (evr_release b)"]
      epoch_less_linear [of "evr_epoch a" "evr_epoch b"]
    unfolding evr_le_def by (cases "evr_epoch a = evr_epoch b") (simp_all, linarith+)
qed
section \<open>What the consolidator keeps\<close>

definition key :: "rpm_package_info \<times> 'a \<Rightarrow> string \<times> string" where
  "key x = (arch (fst x), name (fst x))"

abbreviation evr :: "rpm_package_info \<times> 'a \<Rightarrow> rpm_evr" where
  "evr x \<equiv> evr_of (fst x)"

text \<open>
  The newest package of a sequence: no later one is newer, and it is newer than every earlier
  one, so that among equally new ones it is the first.
\<close>

definition newest :: "vercmp \<Rightarrow> (rpm_package_info \<times> 'a) list \<Rightarrow> string \<times> string \<Rightarrow> 'a \<Rightarrow> bool" where
  "newest vercmp xs k d \<longleftrightarrow>
     (\<exists>as x bs. xs = as @ x # bs \<and> key x = k \<and> snd x = d \<and>
        (\<forall>y \<in> set as. key y = k \<longrightarrow> evr_less vercmp (evr y) (evr x)) \<and>
        (\<forall>y \<in> set bs. key y = k \<longrightarrow> \<not> evr_less vercmp (evr x) (evr y)))"

definition newer :: "vercmp \<Rightarrow> (rpm_evr \<times> 'a) option \<Rightarrow> rpm_package_info \<times> 'a \<Rightarrow> rpm_evr \<times> 'a" where
  "newer vercmp old x =
     (case old of None \<Rightarrow> (evr x, snd x)
      | Some (ver, dat) \<Rightarrow> if evr_less vercmp ver (evr x) then (evr x, snd x) else (ver, dat))"

lemma add_name_eq:
  "add_name vercmp x nmap =
     map_assign (name (fst x)) (newer vercmp (map_find nmap (name (fst x))) x) nmap"
  by (auto simp: add_name_def newer_def map_assign_same split: option.split)

definition names_of :: "vercmp \<Rightarrow> (rpm_package_info \<times> 'a) list \<Rightarrow> 'a name_map" where
  "names_of vercmp ys = foldl (\<lambda>n x. add_name vercmp x n) [] ys"

lemma names_of_gather:
  "names_of vercmp ys =
     foldl (\<lambda>m x. map_assign (name (fst x)) (newer vercmp (map_find m (name (fst x))) x) m) [] ys"
  unfolding names_of_def add_name_eq ..

lemma find_arch:
  "map_find (foldl (add vercmp) [] xs) a =
     (let ys = filter (\<lambda>x. arch (fst x) = a) xs in if ys = [] then None else Some (names_of vercmp ys))"
proof -
  let ?step = "\<lambda>old x. add_name vercmp x (case old of None \<Rightarrow> [] | Some n \<Rightarrow> n)"
  have add: "add vercmp = (\<lambda>m x. map_assign (arch (fst x)) (?step (map_find m (arch (fst x))) x) m)"
    by (simp add: add_def fun_eq_iff Let_def)
  have "foldl (\<lambda>old x. Some (?step old x)) None ys = (if ys = [] then None else Some (names_of vercmp ys))"
    for ys
    by (induction ys rule: rev_induct) (simp_all add: names_of_def)
  then show ?thesis
    unfolding add omap.lookup_gather [where key = "\<lambda>x. arch (fst x)" and step = ?step] Let_def by blast
qed

lemma names_of_sorted: "sorted_map (names_of vercmp ys)"
  unfolding names_of_gather by (rule omap.invar_gather) simp

lemma archs_sorted: "sorted_map (foldl (add vercmp) [] xs)"
proof -
  have "sorted_map m \<Longrightarrow> sorted_map (foldl (add vercmp) m xs)" for m
    by (induction xs arbitrary: m) (simp_all add: add_def Let_def)
  then show ?thesis by simp
qed

lemma find_name:
  "map_find (names_of vercmp ys) n =
     foldl (\<lambda>old x. Some (newer vercmp old x)) None (filter (\<lambda>x. name (fst x) = n) ys)"
  unfolding names_of_gather by (rule omap.lookup_gather)

lemma newest_of_group:
  assumes v: "version_order vercmp" and "zs \<noteq> []"
  shows "\<exists>as x bs. zs = as @ x # bs \<and>
    foldl (\<lambda>old x. Some (newer vercmp old x)) None zs = Some (evr x, snd x) \<and>
    (\<forall>y \<in> set as. evr_less vercmp (evr y) (evr x)) \<and>
    (\<forall>y \<in> set bs. \<not> evr_less vercmp (evr x) (evr y))"
  using assms(2)
proof (induction zs rule: rev_induct)
  case (snoc z zs)
  show ?case
  proof (cases "zs = []")
    case True
    then show ?thesis
      by (intro exI [of _ "[]"] exI [of _ z]) (simp add: newer_def)
  next
    case False
    then obtain as x bs where zs: "zs = as @ x # bs"
      and f: "foldl (\<lambda>old x. Some (newer vercmp old x)) None zs = Some (evr x, snd x)"
      and lt: "\<forall>y \<in> set as. evr_less vercmp (evr y) (evr x)"
      and ge: "\<forall>y \<in> set bs. \<not> evr_less vercmp (evr x) (evr y)"
      using snoc.IH by blast
    show ?thesis
    proof (cases "evr_less vercmp (evr x) (evr z)")
      case True
      have "evr_less vercmp (evr y) (evr z)" if "y \<in> set zs" for y
        using that True lt ge evr_le_trans [OF v] evr_le_total [OF v] unfolding zs evr_less_le [OF v]
        by auto metis+
      with True f show ?thesis
        by (intro exI [of _ zs] exI [of _ z] exI [of _ "[]"]) (simp add: newer_def)
    next
      case False
      with zs f lt ge show ?thesis
        by (intro exI [of _ as] exI [of _ x] exI [of _ "bs @ [z]"]) (simp add: newer_def)
    qed
  qed
qed simp

lemma newest_found:
  assumes "version_order vercmp"
    and "foldl (\<lambda>old x. Some (newer vercmp old x)) None (filter (\<lambda>x. key x = k) xs) = Some (ver, dat)"
  shows "newest vercmp xs k dat"
proof -
  let ?P = "\<lambda>x. key x = k"
  have "filter ?P xs \<noteq> []" using assms(2) by auto
  then obtain as x bs where f: "filter ?P xs = as @ x # bs" and d: "snd x = dat"
    and lt: "\<forall>y \<in> set as. evr_less vercmp (evr y) (evr x)"
    and ge: "\<forall>y \<in> set bs. \<not> evr_less vercmp (evr x) (evr y)"
    using newest_of_group [OF assms(1), of "filter ?P xs"] assms(2) by auto
  obtain us ws where xs: "xs = us @ ws" and us: "filter ?P us = as" and ws: "filter ?P ws = x # bs"
    using f by (rule filter_eq_append)
  obtain vs ts where "ws = vs @ x # ts" and vs: "\<forall>y \<in> set vs. \<not> ?P y" and "?P x" and ts: "filter ?P ts = bs"
    using ws by (auto simp: filter_eq_Cons_iff)
  then show ?thesis
    unfolding newest_def
    by (intro exI [of _ "us @ vs"] exI [of _ x] exI [of _ ts])
      (use xs us d lt ge in auto)
qed

text \<open>The keys of the two nested maps, in iteration order.\<close>

definition map_keys :: "'a arch_map \<Rightarrow> (string \<times> string) list" where
  "map_keys m = concat (map (\<lambda>(a, nmap). map (\<lambda>(n, _). (a, n)) nmap) m)"

definition key_less :: "string \<times> string \<Rightarrow> string \<times> string \<Rightarrow> bool" where
  "key_less k l \<longleftrightarrow> fst k < fst l \<or> fst k = fst l \<and> snd k < snd l"

lemma map_keys_sorted:
  "sorted_map m \<Longrightarrow> (\<And>a nmap. (a, nmap) \<in> set m \<Longrightarrow> sorted_map nmap) \<Longrightarrow> sorted_wrt key_less (map_keys m)"
proof (induction m)
  case (Cons e m)
  obtain a nmap where e: "e = (a, nmap)" by (cases e)
  have "sorted_wrt key_less (map (\<lambda>(n, _). (a, n)) nmap)"
    using Cons.prems(2) [of a nmap] e
    by (simp add: sorted_wrt_map key_less_def case_prod_beta)
  moreover have "a < fst k" if "k \<in> set (map_keys m)" for k
    using that Cons.prems(1) e by (auto simp: map_keys_def)
  moreover have "sorted_wrt key_less (map_keys m)" using Cons.prems by (intro Cons.IH) auto
  moreover have "map_keys (e # m) = map (\<lambda>(n, _). (a, n)) nmap @ map_keys m"
    using e by (simp add: map_keys_def)
  moreover have "key_less (a, n) k" if "k \<in> set (map_keys m)" for n k
    using calculation(2) [OF that] by (simp add: key_less_def)
  ultimately show ?case by (auto simp: sorted_wrt_append)
qed (simp add: map_keys_def)

lemma consolidated_entry:
  assumes "(a, nmap) \<in> set (foldl (add vercmp) [] xs)"
  shows "nmap = names_of vercmp (filter (\<lambda>x. arch (fst x) = a) xs)"
proof -
  have "map_find (foldl (add vercmp) [] xs) a = Some nmap"
    using assms archs_sorted [of vercmp xs]
    by (simp add: map_find_map_of map_of_eq_Some_iff strict_sorted_iff)
  then show ?thesis by (simp add: find_arch Let_def split: if_splits)
qed

lemma find_entry:
  assumes "(a, nmap) \<in> set (foldl (add vercmp) [] xs)" and "(n, ver, dat) \<in> set nmap"
  shows "foldl (\<lambda>old x. Some (newer vercmp old x)) None (filter (\<lambda>x. key x = (a, n)) xs) = Some (ver, dat)"
proof -
  let ?ys = "filter (\<lambda>x. arch (fst x) = a) xs"
  have "nmap = names_of vercmp ?ys" using consolidated_entry [OF assms(1)] .
  then have "map_find (names_of vercmp ?ys) n = Some (ver, dat)"
    using assms(2) names_of_sorted [of vercmp ?ys]
    by (simp add: map_find_map_of map_of_eq_Some_iff strict_sorted_iff)
  then show ?thesis by (simp add: find_name key_def conj_commute)
qed

lemma map_keys_complete: "x \<in> set xs \<Longrightarrow> key x \<in> set (map_keys (foldl (add vercmp) [] xs))"
proof -
  assume x: "x \<in> set xs"
  let ?ys = "filter (\<lambda>y. arch (fst y) = arch (fst x)) xs"
  have "?ys \<noteq> []" using x by (auto simp: filter_empty_conv)
  then have "map_find (foldl (add vercmp) [] xs) (arch (fst x)) = Some (names_of vercmp ?ys)"
    by (simp add: find_arch)
  then have a: "(arch (fst x), names_of vercmp ?ys) \<in> set (foldl (add vercmp) [] xs)"
    using archs_sorted [of vercmp xs] by (simp add: map_find_map_of map_of_SomeD)
  have "filter (\<lambda>y. name (fst y) = name (fst x)) ?ys \<noteq> []" using x by (auto simp: filter_empty_conv)
  then have "\<exists>v. map_find (names_of vercmp ?ys) (name (fst x)) = Some v"
    unfolding find_name by (cases "filter (\<lambda>y. name (fst y) = name (fst x)) ?ys" rule: rev_cases) auto
  then obtain v where "(name (fst x), v) \<in> set (names_of vercmp ?ys)"
    using names_of_sorted [of vercmp ?ys] by (auto simp: map_find_map_of dest: map_of_SomeD)
  with a show ?thesis by (force simp: map_keys_def key_def)
qed

lemma map_keys_consolidated:
  assumes "\<And>a nmap n ver dat. (a, nmap) \<in> set m \<Longrightarrow> (n, ver, dat) \<in> set nmap \<Longrightarrow> P (a, n) dat"
  shows "list_all2 P (map_keys m) (consolidated m)"
  using assms
proof (induction m)
  case (Cons e m)
  obtain a nmap where e: "e = (a, nmap)" by (cases e)
  have "list_all2 P (map (\<lambda>(n, _). (a, n)) nmap) (map (\<lambda>(n, ver, dat). dat) nmap)"
    using Cons.prems [of a nmap] e
    by (auto simp: list_all2_conv_all_nth split: prod.splits) (metis nth_mem)
  moreover have "list_all2 P (map_keys m) (consolidated m)"
    by (rule Cons.IH) (metis Cons.prems list.set_intros(2))
  ultimately show ?case using e by (simp add: map_keys_def consolidated_def list_all2_appendI)
qed (simp add: map_keys_def consolidated_def)

lemma consolidated_newest:
  assumes "version_order vercmp"
  shows "\<exists>ks. sorted_wrt key_less ks \<and> set ks = key ` set xs \<and>
    list_all2 (newest vercmp xs) ks (consolidated (foldl (add vercmp) [] xs))"
proof (intro exI [of _ "map_keys (foldl (add vercmp) [] xs)"] conjI)
  let ?m = "foldl (add vercmp) [] xs"
  have found: "newest vercmp xs (a, n) dat" if "(a, nmap) \<in> set ?m" "(n, ver, dat) \<in> set nmap"
    for a nmap n ver dat
    using newest_found [OF assms find_entry [OF that]] .
  show "sorted_wrt key_less (map_keys ?m)"
    using consolidated_entry names_of_sorted by (intro map_keys_sorted archs_sorted) fastforce
  show "list_all2 (newest vercmp xs) (map_keys ?m) (consolidated ?m)"
    by (rule map_keys_consolidated) (rule found)
  have "k \<in> key ` set xs" if "k \<in> set (map_keys ?m)" for k
    using that found by (force simp: map_keys_def newest_def)
  then show "set (map_keys ?m) = key ` set xs" using map_keys_complete by blast
qed


definition sample_package :: "string \<Rightarrow> int \<Rightarrow> string \<Rightarrow> rpm_package_info" where
  "sample_package n e ver = \<lparr>name = n, version = ver, release = ''1'', arch = ''noarch'',
     source_rpm = [], hash = [], build_host = [], summary = [], description = [], license = [],
     group = [], build_time = 0, epoch = e, kind = Binary, normalized = False\<rparr>"

definition by_length :: vercmp where
  "by_length a b = int (length a) - int (length b)"

lemma version_order_by_length: "version_order by_length"
  by (auto simp: version_order_def by_length_def)


text \<open>
  The epoch is compared as the one character it was assigned to. A package without an epoch
  (\<open>-1\<close>) therefore counts as newer than any package with an epoch below 255, and epoch 256 as
  epoch 0.
\<close>

lemma missing_epoch_is_newest:
  "0 \<le> epoch b \<Longrightarrow> epoch b < 255 \<Longrightarrow> epoch a = - 1 \<Longrightarrow> evr_less vercmp (evr_of b) (evr_of a)"
proof -
  assume b: "0 \<le> epoch b" "epoch b < 255" and a: "epoch a = - 1"
  have "of_char (char_of (nat (epoch b)) :: char) = nat (epoch b)" using b by simp
  then have "(char_of (nat (epoch b)) :: char) < char_of (255 :: nat)"
    using b by (simp add: less_char_def)
  then show ?thesis using a b by (auto simp: evr_less_def evr_of_def)
qed

end
