(* ===== verification/Elf_closure.thy ===== *)
theory Elf_closure
  imports Ordmap Strings
begin

text \<open>
  The dependency closure of the ELF files of a package set:
  \<open>lib/symboldb/update_elf_closure.cpp\<close>. The rows of the two queries are arguments of the
  model, the table that the function updates is a set of rows. The callbacks on the conflicts
  object are returned as a list of events, in the order of the calls. The counters that only
  the disabled debug output prints are left out.
\<close>

section \<open>Choosing a library\<close>

type_synonym file_id = int

abbreviation no_file :: file_id where
  "no_file \<equiv> 0"

record file_ref =
  fid :: file_id
  fname :: string
  package :: string

definition strrchr :: "string \<Rightarrow> char \<Rightarrow> nat option" where
  "strrchr s c =
     (if c \<in> set s then Some (length s - 1 - length (takeWhile (\<lambda>d. d \<noteq> c) (rev s))) else None)"

definition same_directory :: "string \<Rightarrow> string \<Rightarrow> bool" where
  "same_directory left right =
     (case (strrchr left (CHR ''/''), strrchr right (CHR ''/'')) of
        (Some leftslash, Some rightslash) \<Rightarrow>
          leftslash = rightslash \<and> take leftslash left = take leftslash right
      | _ \<Rightarrow> False)"

fun shared_path :: "string \<Rightarrow> string \<Rightarrow> int \<Rightarrow> int" where
  "shared_path (c # cs) (d # ds) prio = (if c = d then shared_path cs ds (prio + 2) else prio)"
| "shared_path _ _ prio = prio"

text \<open>Path names are far shorter than the range of an \<open>int\<close>: the arithmetic does not wrap.\<close>

definition priority :: "file_ref \<Rightarrow> string \<Rightarrow> int" where
  "priority ref needed_path =
     (let nm = cstr (fname ref);
          prio = (if starts_with nm ''/lib/'' \<or> starts_with nm ''/lib64/''
                    \<or> starts_with nm ''/usr/lib/'' \<or> starts_with nm ''/usr/lib64/''
                  then 100000 else 0);
          prio = (if same_directory nm needed_path then prio + 10000 else prio)
      in shared_path (fname ref) needed_path prio - int (length (fname ref)))"

type_synonym soname_map = "(string \<times> file_ref) list"
type_synonym arch_soname_map = "(string \<times> soname_map) list"
type_synonym dependency_map = "(file_id \<times> file_id list) list"

datatype conflict_event =
    Missing file_id string
  | Conflict file_id string "file_id list"

fun best_loop :: "string \<Rightarrow> file_ref \<Rightarrow> int \<Rightarrow> file_ref list \<Rightarrow> file_ref" where
  "best_loop path best best_priority [] = best"
| "best_loop path best best_priority (p # ps) =
     (let prio = priority p path in
      if prio > best_priority \<or> (fname p = fname best \<and> package p < package best)
      then best_loop path p prio ps
      else best_loop path best best_priority ps)"

definition lookup ::
  "arch_soname_map \<Rightarrow> string \<Rightarrow> string \<Rightarrow> file_id \<Rightarrow> string \<Rightarrow> file_id \<times> conflict_event list" where
  "lookup arch_soname arch needed_name needing_file needing_path =
     (case map_find arch_soname arch of
        None \<Rightarrow> (no_file, [])
      | Some soname \<Rightarrow>
          (case map snd (equal_range soname needed_name) of
             [] \<Rightarrow> (no_file, [Missing needing_file needed_name])
           | [best] \<Rightarrow> (fid best, [])
           | first # rest \<Rightarrow>
               let best = best_loop needing_path first (priority first needing_path) rest in
               (fid best, [Conflict needing_file needed_name
                  (fid best # filter (\<lambda>f. f \<noteq> fid best) (map fid (first # rest)))])))"

definition ignored_file_name :: "string \<Rightarrow> bool" where
  "ignored_file_name path \<longleftrightarrow>
     (starts_with path ''/lib/''
      \<and> (starts_with path ''/lib/i686/nosegneg/''
         \<or> (starts_with path ''/lib/rtkaio/''
            \<and> (starts_with path ''/lib/rtkaio/librtkaio-''
               \<or> starts_with path ''/lib/rtkaio/i686/nosegneg/''))))
     \<or> starts_with path ''/lib64/rtkaio/librtkaio-''"

definition ignored_package_name :: "string \<Rightarrow> bool" where
  "ignored_package_name pkg \<longleftrightarrow> pkg = ''compat-gcc-34-c++'' \<or> pkg = ''compat-glibc''"

definition ignored :: "string \<times> file_ref \<Rightarrow> bool" where
  "ignored q \<longleftrightarrow> ignored_file_name (fname (snd q)) \<or> ignored_package_name (package (snd q))"

text \<open>One round of the loop treats the elements \<open>p .. q\<close> with one key.\<close>

function ignore_in_map :: "soname_map \<Rightarrow> soname_map" where
  "ignore_in_map [] = []"
| "ignore_in_map (p # ps) =
     (let same = p # takeWhile (\<lambda>q. fst q = fst p) ps;
          ignore_queue = filter ignored same
      in (if length ignore_queue + 1 = length same then filter (\<lambda>q. \<not> ignored q) same else same)
         @ ignore_in_map (dropWhile (\<lambda>q. fst q = fst p) ps))"
  by pat_completeness auto
termination
  by (relation "measure length") (auto simp: less_Suc_eq_le length_dropWhile_le)

definition ignore_some_conflicts :: "arch_soname_map \<Rightarrow> arch_soname_map" where
  "ignore_some_conflicts arch = map (\<lambda>(a, soname). (a, ignore_in_map soname)) arch"

definition synthesize_soname :: "string \<Rightarrow> string" where
  "synthesize_soname path =
     (case strrchr path (CHR ''/'') of None \<Rightarrow> path | Some slash \<Rightarrow> drop (slash + 1) path)"

section \<open>Computing the closure\<close>

record provider_row =
  pr_arch :: string
  pr_soname :: string
  pr_fid :: file_id
  pr_file_name :: string
  pr_pkg :: string

record needed_row =
  nr_arch :: string
  nr_needed_name :: string
  nr_fid :: file_id
  nr_needing_path :: string

definition add_provider :: "arch_soname_map \<Rightarrow> provider_row \<Rightarrow> arch_soname_map" where
  "add_provider m row =
     (let soname = (if pr_soname row = [] then synthesize_soname (pr_file_name row) else pr_soname row);
          old = (case map_find m (pr_arch row) of None \<Rightarrow> [] | Some sm \<Rightarrow> sm)
      in map_assign (pr_arch row) (multimap_insert soname
           \<lparr>fid = pr_fid row, fname = pr_file_name row, package = pr_pkg row\<rparr> old) m)"

definition providers :: "provider_row list \<Rightarrow> arch_soname_map" where
  "providers rows = ignore_some_conflicts (foldl add_provider [] rows)"

fun direct_loop ::
  "arch_soname_map \<Rightarrow> needed_row list \<Rightarrow> dependency_map \<times> conflict_event list
     \<Rightarrow> dependency_map \<times> conflict_event list" where
  "direct_loop arch_soname [] acc = acc"
| "direct_loop arch_soname (row # rows) (closure, events) =
     (let (library, ev) = lookup arch_soname (nr_arch row) (nr_needed_name row) (nr_fid row)
            (cstr (nr_needing_path row));
          closure' = (if library \<noteq> no_file
            then map_assign (nr_fid row)
              (fst (set_insert library (case map_find closure (nr_fid row) of None \<Rightarrow> [] | Some s \<Rightarrow> s)))
              closure
            else closure)
      in direct_loop arch_soname rows (closure', events @ ev))"

text \<open>The innermost loop: insert the dependencies of a dependency.\<close>

fun insert_all :: "file_id list \<Rightarrow> file_id list \<Rightarrow> bool \<Rightarrow> file_id list \<times> bool" where
  "insert_all [] deps changed = (deps, changed)"
| "insert_all (d # ds) deps changed =
     (let (deps', new_element) = set_insert d deps in insert_all ds deps' (changed \<or> new_element))"

text \<open>
  The iterator over a \<open>std::set\<close> that grows during the iteration: the next element is the
  least one above the current one, whether it was there at the start or not.
\<close>

fun next_after :: "file_id option \<Rightarrow> file_id list \<Rightarrow> file_id option" where
  "next_after pos [] = None"
| "next_after pos (d # ds) =
     (if (case pos of None \<Rightarrow> True | Some c \<Rightarrow> c < d) then Some d else next_after pos ds)"

definition ahead :: "dependency_map \<Rightarrow> file_id option \<Rightarrow> file_id list \<Rightarrow> file_id set" where
  "ahead closure pos deps =
     {d \<in> set deps \<union> (\<Union>e \<in> set closure. set (snd e)). case pos of None \<Rightarrow> True | Some c \<Rightarrow> c < d}"

lemma next_after_Some:
  "next_after pos deps = Some d \<Longrightarrow> d \<in> set deps \<and> (case pos of None \<Rightarrow> True | Some c \<Rightarrow> c < d)"
  by (induction pos deps rule: next_after.induct) (auto split: if_splits)

lemma map_found_in: "map_find m k = Some v \<Longrightarrow> (k, v) \<in> set m"
  by (induction m k rule: map_find.induct) (auto split: if_splits)

lemma map_assign_in: "e \<in> set (map_assign k v m) \<Longrightarrow> e = (k, v) \<or> e \<in> set m"
  by (induction k v m rule: map_assign.induct) (auto split: if_splits)

lemma insert_all_set: "set (fst (insert_all ds deps changed)) = set ds \<union> set deps"
proof (induction ds deps changed rule: insert_all.induct)
  case (2 d ds deps changed)
  obtain deps' b where di: "set_insert d deps = (deps', b)" by fastforce
  have "set deps' = insert d (set deps)" using set_insert_set [of d deps] di by simp
  with 2 di show ?case by auto
qed simp

function scan :: "dependency_map \<Rightarrow> file_id \<Rightarrow> file_id option \<Rightarrow> file_id list \<Rightarrow> bool \<Rightarrow> file_id list \<times> bool" where
  "scan closure needing pos deps changed =
     (case next_after pos deps of
        None \<Rightarrow> (deps, changed)
      | Some d \<Rightarrow>
          (case map_find (map_assign needing deps closure) d of
             None \<Rightarrow> scan closure needing (Some d) deps changed
           | Some depdeps \<Rightarrow>
               scan closure needing (Some d) (fst (insert_all depdeps deps changed))
                 (snd (insert_all depdeps deps changed))))"
  by pat_completeness auto
termination
proof (relation "measure (\<lambda>(closure, needing, pos, deps, changed). card (ahead closure pos deps))")
  fix closure :: dependency_map and needing d :: file_id and pos deps and changed :: bool
  assume d: "next_after pos deps = Some d"
  have fin: "finite (ahead closure pos deps)" for pos deps by (simp add: ahead_def)
  have "ahead closure (Some d) deps \<subset> ahead closure pos deps"
    using next_after_Some [OF d] by (fastforce simp: ahead_def split: option.splits)
  then show "((closure, needing, Some d, deps, changed), closure, needing, pos, deps, changed)
      \<in> measure (\<lambda>(closure, needing, pos, deps, changed). card (ahead closure pos deps))"
    by (simp add: psubset_card_mono fin)
  fix depdeps
  assume "map_find (map_assign needing deps closure) d = Some depdeps"
  then have "(d, depdeps) = (needing, deps) \<or> (d, depdeps) \<in> set closure"
    by (intro map_assign_in map_found_in)
  then have "ahead closure (Some d) (fst (insert_all depdeps deps changed)) \<subseteq> ahead closure (Some d) deps"
    by (fastforce simp: ahead_def insert_all_set)
  with \<open>ahead closure (Some d) deps \<subset> ahead closure pos deps\<close>
  have "ahead closure (Some d) (fst (insert_all depdeps deps changed)) \<subset> ahead closure pos deps" by blast
  then show "((closure, needing, Some d, fst (insert_all depdeps deps changed),
        snd (insert_all depdeps deps changed)), closure, needing, pos, deps, changed)
      \<in> measure (\<lambda>(closure, needing, pos, deps, changed). card (ahead closure pos deps))"
    by (simp add: psubset_card_mono fin case_prod_beta)
qed simp

declare scan.simps [simp del]

fun pass :: "file_id list \<Rightarrow> dependency_map \<Rightarrow> bool \<Rightarrow> dependency_map \<times> bool" where
  "pass [] closure changed = (closure, changed)"
| "pass (needing # ks) closure changed =
     (let deps = (case map_find closure needing of None \<Rightarrow> [] | Some s \<Rightarrow> s);
          (deps', changed') = scan closure needing None deps changed
      in pass ks (map_assign needing deps' closure) changed')"

partial_function (option) fixpoint :: "dependency_map \<Rightarrow> dependency_map option" where
  "fixpoint closure =
     (let (closure', changed) = pass (map fst closure) closure False in
      if changed then fixpoint closure' else Some closure')"

section \<open>The fixpoint is the transitive closure\<close>

definition edges :: "dependency_map \<Rightarrow> (file_id \<times> file_id) set" where
  "edges closure = {(k, d). \<exists>deps. map_find closure k = Some deps \<and> d \<in> set deps}"

definition wf_closure :: "dependency_map \<Rightarrow> bool" where
  "wf_closure closure \<longleftrightarrow> sorted_map closure \<and> (\<forall>e \<in> set closure. sorted_set (snd e))"

lemma wf_assign: "wf_closure m \<Longrightarrow> sorted_set deps \<Longrightarrow> wf_closure (map_assign k deps m)"
  by (auto simp: wf_closure_def dest: map_assign_in)

lemma wf_find: "wf_closure m \<Longrightarrow> map_find m k = Some deps \<Longrightarrow> sorted_set deps"
  by (fastforce simp: wf_closure_def dest: map_found_in)

lemma edges_assign:
  "wf_closure m \<Longrightarrow> edges (map_assign k deps m) = {e \<in> edges m. fst e \<noteq> k} \<union> {k} \<times> set deps"
  by (auto simp: wf_closure_def edges_def map_find_assign split: if_splits)

lemma insert_all_spec:
  "sorted_set deps \<Longrightarrow> sorted_set (fst (insert_all ds deps changed)) \<and>
    (snd (insert_all ds deps changed) \<longleftrightarrow> changed \<or> \<not> set ds \<subseteq> set deps)"
proof (induction ds deps changed rule: insert_all.induct)
  case (2 d ds deps changed)
  obtain deps' b where di: "set_insert d deps = (deps', b)" by fastforce
  have "sorted_set deps'" "set deps' = insert d (set deps)" "b \<longleftrightarrow> d \<notin> set deps"
    using set_insert_sorted [OF "2.prems", of d] set_insert_set [of d deps]
      set_insert_new [OF "2.prems", of d] di by simp_all
  with 2 di show ?case by auto
qed simp

text \<open>What one scan of the dependencies of a file does.\<close>

definition after :: "file_id option \<Rightarrow> file_id \<Rightarrow> bool" where
  "after pos d \<longleftrightarrow> (case pos of None \<Rightarrow> True | Some c \<Rightarrow> c < d)"

definition closed_after :: "(file_id \<times> file_id) set \<Rightarrow> file_id option \<Rightarrow> file_id list \<Rightarrow> bool" where
  "closed_after E pos deps \<longleftrightarrow>
     (\<forall>d \<in> set deps. after pos d \<longrightarrow> (\<forall>x. (d, x) \<in> E \<longrightarrow> x \<in> set deps))"

definition scan_ok ::
  "dependency_map \<Rightarrow> file_id \<Rightarrow> file_id option \<Rightarrow> file_id list \<Rightarrow> bool \<Rightarrow> file_id list \<times> bool \<Rightarrow> bool" where
  "scan_ok m k pos deps changed r \<longleftrightarrow>
     sorted_set (fst r) \<and> set deps \<subseteq> set (fst r) \<and>
     {k} \<times> set (fst r) \<subseteq> (edges (map_assign k deps m))\<^sup>+ \<and>
     (snd r \<longleftrightarrow> changed \<or> set (fst r) \<noteq> set deps) \<and>
     (set (fst r) = set deps \<longrightarrow> closed_after (edges (map_assign k deps m)) pos deps)"

lemma trancl_within: "A \<subseteq> B\<^sup>+ \<Longrightarrow> A\<^sup>+ \<subseteq> B\<^sup>+"
proof (rule subrelI)
  fix x y
  assume "A \<subseteq> B\<^sup>+" and "(x, y) \<in> A\<^sup>+"
  from this(2,1) show "(x, y) \<in> B\<^sup>+" by (induction rule: trancl_induct) (auto intro: trancl_trans)
qed

lemma next_after_None: "next_after pos deps = None \<Longrightarrow> d \<in> set deps \<Longrightarrow> \<not> after pos d"
  by (induction pos deps rule: next_after.induct) (auto simp: after_def split: if_splits)

lemma next_after_least:
  "sorted_set deps \<Longrightarrow> next_after pos deps = Some d \<Longrightarrow> e \<in> set deps \<Longrightarrow> after pos e \<Longrightarrow>
    e = d \<or> after (Some d) e"
  by (induction pos deps rule: next_after.induct) (auto simp: after_def split: if_splits option.splits)

lemma closed_after_step:
  assumes "sorted_set deps" and "next_after pos deps = Some d"
    and "closed_after E (Some d) deps" and "\<And>x. (d, x) \<in> E \<Longrightarrow> x \<in> set deps"
  shows "closed_after E pos deps"
  unfolding closed_after_def
proof (intro ballI impI allI)
  fix e x assume "e \<in> set deps" "after pos e" "(e, x) \<in> E"
  then show "x \<in> set deps"
    using next_after_least [OF assms(1,2)] assms(3,4) unfolding closed_after_def by blast
qed

lemma edges_insert_all:
  assumes "wf_closure m" and "map_find (map_assign k deps m) d = Some depdeps" and "d \<in> set deps"
  shows "edges (map_assign k (fst (insert_all depdeps deps changed)) m) \<subseteq> (edges (map_assign k deps m))\<^sup>+"
proof -
  let ?E = "edges (map_assign k deps m)"
  have E: "?E = {e \<in> edges m. fst e \<noteq> k} \<union> {k} \<times> set deps" by (rule edges_assign [OF assms(1)])
  have "(k, x) \<in> ?E\<^sup>+" if "x \<in> set depdeps" for x
  proof -
    have "(k, d) \<in> ?E" using assms(3) E by blast
    moreover have "(d, x) \<in> ?E" using assms(2) that by (simp add: edges_def)
    ultimately show ?thesis by (metis trancl.simps)
  qed
  moreover have "?E \<subseteq> ?E\<^sup>+" by auto
  ultimately show ?thesis
    unfolding edges_assign [OF assms(1), of k "fst (insert_all depdeps deps changed)"] insert_all_set
    using E by blast
qed

lemma scan_correct:
  "wf_closure m \<Longrightarrow> sorted_set deps \<Longrightarrow> scan_ok m k pos deps changed (scan m k pos deps changed)"
proof (induction m k pos deps changed rule: scan.induct)
  case (1 m k pos deps changed)
  let ?E = "edges (map_assign k deps m)"
  have own: "{k} \<times> set deps \<subseteq> ?E" using edges_assign [OF "1.prems"(1)] by auto
  show ?case
  proof (cases "next_after pos deps")
    case None
    then have "scan m k pos deps changed = (deps, changed)" by (simp add: scan.simps)
    moreover have "closed_after ?E pos deps" using next_after_None [OF None] by (simp add: closed_after_def)
    moreover have "{k} \<times> set deps \<subseteq> ?E\<^sup>+" using own by auto
    ultimately show ?thesis using "1.prems"(2) by (simp add: scan_ok_def)
  next
    case na: (Some d)
    have d: "d \<in> set deps" using next_after_Some [OF na] by simp
    show ?thesis
    proof (cases "map_find (map_assign k deps m) d")
      case None
      then have "(d, x) \<notin> ?E" for x by (simp add: edges_def)
      then have "closed_after ?E (Some d) deps \<Longrightarrow> closed_after ?E pos deps"
        using closed_after_step [OF "1.prems"(2) na] by blast
      moreover have "scan m k pos deps changed = scan m k (Some d) deps changed"
        using na None by (subst scan.simps) simp
      ultimately show ?thesis
        using "1.IH"(1) [OF na None "1.prems"] by (simp add: scan_ok_def)
    next
      case (Some depdeps)
      let ?r = "insert_all depdeps deps changed"
      let ?E' = "edges (map_assign k (fst ?r) m)"
      have s: "sorted_set (fst ?r)" "snd ?r \<longleftrightarrow> changed \<or> \<not> set depdeps \<subseteq> set deps"
        using insert_all_spec [OF "1.prems"(2)] by blast+
      have r: "set (fst ?r) = set depdeps \<union> set deps" by (rule insert_all_set)
      have E': "?E'\<^sup>+ \<subseteq> ?E\<^sup>+" by (rule trancl_within [OF edges_insert_all [OF "1.prems"(1) Some d]])
      have eq: "scan m k pos deps changed = scan m k (Some d) (fst ?r) (snd ?r)"
        using na Some by (subst scan.simps) simp
      have IH: "scan_ok m k (Some d) (fst ?r) (snd ?r) (scan m k (Some d) (fst ?r) (snd ?r))"
        using "1.IH"(2) [OF na Some "1.prems"(1) s(1)] .
      have "closed_after ?E pos deps" if "set (fst (scan m k (Some d) (fst ?r) (snd ?r))) = set deps"
      proof -
        have "set (fst ?r) = set deps" using that IH r by (auto simp: scan_ok_def)
        then have same: "fst ?r = deps" using s(1) "1.prems"(2) by (simp add: strict_sorted_equal)
        then have "closed_after ?E (Some d) deps" using IH that by (simp add: scan_ok_def)
        moreover have "(d, x) \<in> ?E \<Longrightarrow> x \<in> set deps" for x
          using Some r same by (auto simp: edges_def)
        ultimately show ?thesis by (rule closed_after_step [OF "1.prems"(2) na])
      qed
      then show ?thesis using IH E' s r unfolding eq scan_ok_def by blast
    qed
  qed
qed

definition pass_ok :: "file_id list \<Rightarrow> dependency_map \<Rightarrow> bool \<Rightarrow> dependency_map \<times> bool \<Rightarrow> bool" where
  "pass_ok ks m changed r \<longleftrightarrow>
     wf_closure (fst r) \<and> map fst (fst r) = map fst m \<and>
     edges m \<subseteq> edges (fst r) \<and> edges (fst r) \<subseteq> (edges m)\<^sup>+ \<and>
     (snd r \<longleftrightarrow> changed \<or> edges (fst r) \<noteq> edges m) \<and>
     (edges (fst r) = edges m \<longrightarrow>
       (\<forall>k \<in> set ks. \<forall>d x. (k, d) \<in> edges m \<longrightarrow> (d, x) \<in> edges m \<longrightarrow> (k, x) \<in> edges m))"

lemma scan_step:
  assumes "wf_closure m" and "map_find m k = Some deps" and "scan m k None deps changed = (deps', changed')"
  shows "wf_closure (map_assign k deps' m) \<and> map fst (map_assign k deps' m) = map fst m \<and>
    edges m \<subseteq> edges (map_assign k deps' m) \<and> edges (map_assign k deps' m) \<subseteq> (edges m)\<^sup>+ \<and>
    (changed' \<longleftrightarrow> changed \<or> edges (map_assign k deps' m) \<noteq> edges m) \<and>
    (edges (map_assign k deps' m) = edges m \<longrightarrow>
      (\<forall>d x. (k, d) \<in> edges m \<longrightarrow> (d, x) \<in> edges m \<longrightarrow> (k, x) \<in> edges m))"
proof -
  have deps: "sorted_set deps" using wf_find [OF assms(1,2)] .
  have "scan_ok m k None deps changed (deps', changed')"
    using scan_correct [OF assms(1) deps, of k None changed] assms(3) by simp
  then have ok: "sorted_set deps'" "set deps \<subseteq> set deps'" "{k} \<times> set deps' \<subseteq> (edges m)\<^sup>+"
    "changed' \<longleftrightarrow> changed \<or> set deps' \<noteq> set deps"
    "set deps' = set deps \<Longrightarrow> closed_after (edges m) None deps"
    unfolding scan_ok_def map_assign_same [OF assms(2)] by simp_all
  have E: "(k, d) \<in> edges m \<longleftrightarrow> d \<in> set deps" for d using assms(2) by (simp add: edges_def)
  have E': "edges (map_assign k deps' m) = {e \<in> edges m. fst e \<noteq> k} \<union> {k} \<times> set deps'"
    by (rule edges_assign [OF assms(1)])
  have same: "edges (map_assign k deps' m) = edges m \<longleftrightarrow> set deps' = set deps"
    using E unfolding E' by (auto simp: set_eq_iff)
  have "edges m \<subseteq> edges (map_assign k deps' m)" using E ok(2) unfolding E' by auto
  moreover have "edges (map_assign k deps' m) \<subseteq> (edges m)\<^sup>+" using ok(3) unfolding E' by auto
  moreover have "(k, x) \<in> edges m" if "set deps' = set deps" "(k, d) \<in> edges m" "(d, x) \<in> edges m" for d x
    using ok(5) that E by (auto simp: closed_after_def after_def)
  ultimately show ?thesis
    using wf_assign [OF assms(1) ok(1)] map_assign_order [OF assms(2)] ok(4) same by blast
qed

lemma pass_correct:
  "wf_closure m \<Longrightarrow> set ks \<subseteq> set (map fst m) \<Longrightarrow> pass_ok ks m changed (pass ks m changed)"
proof (induction ks m changed rule: pass.induct)
  case (1 m changed)
  then show ?case by (auto simp: pass_ok_def)
next
  case (2 k ks m changed)
  obtain deps where deps: "map_find m k = Some deps"
    using 2 map_find_key [of m k] by (auto simp: wf_closure_def)
  obtain deps' changed' where sc: "scan m k None deps changed = (deps', changed')" by fastforce
  let ?m = "map_assign k deps' m"
  note st = scan_step [OF "2.prems"(1) deps sc]
  have IH: "pass_ok ks ?m changed' (pass ks ?m changed')"
    using "2.IH" [of deps "(deps', changed')" deps' changed'] sc st "2.prems" deps by simp
  have eq: "pass (k # ks) m changed = pass ks ?m changed'" using deps sc by simp
  let ?r = "fst (pass ks ?m changed')"
  have r: "wf_closure ?r" "map fst ?r = map fst ?m" "edges ?m \<subseteq> edges ?r" "edges ?r \<subseteq> (edges ?m)\<^sup>+"
    "snd (pass ks ?m changed') \<longleftrightarrow> changed' \<or> edges ?r \<noteq> edges ?m"
    "edges ?r = edges ?m \<Longrightarrow>
      (\<forall>k \<in> set ks. \<forall>d x. (k, d) \<in> edges ?m \<longrightarrow> (d, x) \<in> edges ?m \<longrightarrow> (k, x) \<in> edges ?m)"
    using IH by (simp_all add: pass_ok_def)
  have st': "map fst ?m = map fst m" "edges m \<subseteq> edges ?m" "changed' \<longleftrightarrow> changed \<or> edges ?m \<noteq> edges m"
    "edges ?m = edges m \<Longrightarrow> (\<forall>d x. (k, d) \<in> edges m \<longrightarrow> (d, x) \<in> edges m \<longrightarrow> (k, x) \<in> edges m)"
    using st by simp_all
  have "edges ?r \<subseteq> (edges m)\<^sup>+" using r(4) st trancl_within [of "edges ?m" "edges m"] by blast
  moreover have both: "edges ?r = edges m \<longleftrightarrow> edges ?r = edges ?m \<and> edges ?m = edges m"
    using r(3) st'(2) by blast
  moreover have "\<forall>l \<in> set (k # ks). \<forall>d x. (l, d) \<in> edges m \<longrightarrow> (d, x) \<in> edges m \<longrightarrow> (l, x) \<in> edges m"
    if "edges ?r = edges m"
  proof -
    have e: "edges ?r = edges ?m" "edges ?m = edges m" using that both by blast+
    show ?thesis using r(6) [OF e(1)] st'(4) [OF e(2)] unfolding e(2) list.set by blast
  qed
  ultimately show ?case
    unfolding eq pass_ok_def using r(1) r(2) st'(1) r(3) st'(2) r(5) st'(3)
    by (intro conjI; (simp only:; fail)?; blast?)
qed

lemma finite_edges: "finite (edges m)"
proof -
  have "edges m \<subseteq> (\<Union>e \<in> set m. {fst e} \<times> set (snd e))"
    by (force simp: edges_def dest: map_found_in)
  then show ?thesis by (rule finite_subset) auto
qed

lemma fixpoint_correct:
  assumes "wf_closure m"
  shows "\<exists>m'. fixpoint m = Some m' \<and> wf_closure m' \<and> map fst m' = map fst m \<and> edges m' = (edges m)\<^sup>+"
  using assms
proof (induction "card ((edges m)\<^sup>+ - edges m)" arbitrary: m rule: less_induct)
  case less
  obtain m1 changed where p: "pass (map fst m) m False = (m1, changed)" by fastforce
  have ok: "pass_ok (map fst m) m False (m1, changed)"
    using pass_correct [OF less.prems, of "map fst m" False] p by simp
  then have m1: "wf_closure m1" "map fst m1 = map fst m" "edges m \<subseteq> edges m1" "edges m1 \<subseteq> (edges m)\<^sup>+"
    "changed \<longleftrightarrow> edges m1 \<noteq> edges m" by (simp_all add: pass_ok_def)
  have cl: "(edges m1)\<^sup>+ = (edges m)\<^sup>+"
    using trancl_within [OF m1(4)] trancl_mono [OF _ m1(3)] by blast
  show ?case
  proof (cases changed)
    case True
    then have "(edges m1)\<^sup>+ - edges m1 \<subset> (edges m)\<^sup>+ - edges m"
      using m1(3,4,5) cl by blast
    then have "card ((edges m1)\<^sup>+ - edges m1) < card ((edges m)\<^sup>+ - edges m)"
      by (intro psubset_card_mono) (simp_all add: finite_edges finite_trancl)
    from less.hyps [OF this m1(1)] True p m1(2) cl show ?thesis
      by (subst fixpoint.simps) simp
  next
    case False
    then have "(k, x) \<in> edges m" if "(k, d) \<in> edges m" "(d, x) \<in> edges m" for k d x
    proof -
      have "k \<in> set (map fst m)" using that(1) by (force simp: edges_def dest: map_found_in)
      then show ?thesis using ok that False m1(5) unfolding pass_ok_def by auto
    qed
    then have "(edges m)\<^sup>+ = edges m" by (intro trancl_id) (blast intro: transI)
    then show ?thesis using False p m1 by (subst fixpoint.simps) simp
  qed
qed

section \<open>Updating the table\<close>

definition decimal :: "int \<Rightarrow> string" where
  "decimal i = (if i < 0 then CHR ''-'' # dec (nat (- i)) else dec (nat i))"

definition copy_line :: "file_id \<times> file_id \<Rightarrow> string" where
  "copy_line p = decimal (fst p) @ [CHR 0x09] @ decimal (snd p) @ [CHR 0x0A]"

text \<open>The loop that fills the buffer and hands it to \<open>putCopyData\<close>: the list of calls.\<close>

fun upload_loop :: "(file_id \<times> file_id) list \<Rightarrow> string \<Rightarrow> string list \<Rightarrow> string list" where
  "upload_loop [] upload sent = (if upload \<noteq> [] then sent @ [upload] else sent)"
| "upload_loop (p # ps) upload sent =
     (let upload' = upload @ copy_line p in
      if length upload' > 128 * 1024 then upload_loop ps [] (sent @ [upload'])
      else upload_loop ps upload' sent)"

definition pairs :: "dependency_map \<Rightarrow> (file_id \<times> file_id) list" where
  "pairs closure = concat (map (\<lambda>(needing, deps). map (Pair needing) deps) closure)"

type_synonym closure_table = "(int \<times> file_id \<times> file_id) set"

text \<open>The DELETE and the INSERT ... EXCEPT statement.\<close>

definition update_table :: "int \<Rightarrow> (file_id \<times> file_id) set \<Rightarrow> closure_table \<Rightarrow> closure_table" where
  "update_table sid u t =
     (let t1 = {r \<in> t. \<not> (fst r = sid \<and> snd r \<notin> u)} in t1 \<union> Pair sid ` (u - {x. (sid, x) \<in> t1}))"

text \<open>
  The whole function. \<open>conflicts\<close> is \<open>None\<close> for a null pointer and otherwise what
  \<open>skip_update\<close> answers. The result has the table, the events and the data sent; \<open>None\<close>
  would be a call that does not return.
\<close>

definition update_elf_closure ::
  "bool \<Rightarrow> int \<Rightarrow> bool option \<Rightarrow> provider_row list \<Rightarrow> needed_row list \<Rightarrow> closure_table
     \<Rightarrow> (closure_table \<times> conflict_event list \<times> string list) result option" where
  "update_elf_closure in_transaction sid conflicts provider_rows needed_rows table =
     (if \<not> in_transaction then Some (throw Assertion_failure)
      else
        let (direct, events) = direct_loop (providers provider_rows) needed_rows ([], []) in
        case fixpoint direct of
          None \<Rightarrow> None
        | Some closure \<Rightarrow>
            let reported = (if conflicts = None then [] else events) in
            if conflicts = Some True then Some (return (table, reported, []))
            else Some (return (update_table sid (set (pairs closure)) table, reported,
              upload_loop (pairs closure) [] [])))"

definition chosen :: "arch_soname_map \<Rightarrow> needed_row \<Rightarrow> file_id" where
  "chosen arch_soname row =
     fst (lookup arch_soname (nr_arch row) (nr_needed_name row) (nr_fid row) (cstr (nr_needing_path row)))"

definition direct_edges :: "arch_soname_map \<Rightarrow> needed_row list \<Rightarrow> (file_id \<times> file_id) set" where
  "direct_edges arch_soname rows =
     {(nr_fid row, chosen arch_soname row) | row. row \<in> set rows \<and> chosen arch_soname row \<noteq> no_file}"

lemma direct_loop_edges:
  "wf_closure (fst acc) \<Longrightarrow> wf_closure (fst (direct_loop arch_soname rows acc)) \<and>
    edges (fst (direct_loop arch_soname rows acc)) = edges (fst acc) \<union> direct_edges arch_soname rows"
proof (induction arch_soname rows acc rule: direct_loop.induct)
  case (1 arch_soname acc)
  then show ?case by (simp add: direct_edges_def)
next
  case (2 arch_soname row rows m events)
  let ?l = "lookup arch_soname (nr_arch row) (nr_needed_name row) (nr_fid row) (cstr (nr_needing_path row))"
  let ?old = "case map_find m (nr_fid row) of None \<Rightarrow> [] | Some s \<Rightarrow> s"
  let ?m = "if fst ?l \<noteq> no_file then map_assign (nr_fid row) (fst (set_insert (fst ?l) ?old)) m else m"
  have old: "sorted_set ?old" "{nr_fid row} \<times> set ?old = {e \<in> edges m. fst e = nr_fid row}"
    using "2.prems" wf_find [of m "nr_fid row"]
    by (cases "map_find m (nr_fid row)"; auto simp: edges_def)+
  have wf: "wf_closure ?m" using "2.prems" old(1) by (simp add: wf_assign)
  have "edges ?m = edges m \<union> (if fst ?l \<noteq> no_file then {(nr_fid row, fst ?l)} else {})"
    using old(2) "2.prems" by (auto simp: edges_assign)
  moreover have "direct_edges arch_soname (row # rows)
      = (if fst ?l \<noteq> no_file then {(nr_fid row, fst ?l)} else {}) \<union> direct_edges arch_soname rows"
    by (auto simp: direct_edges_def chosen_def)
  moreover have "direct_loop arch_soname (row # rows) (m, events)
      = direct_loop arch_soname rows (?m, events @ snd ?l)"
    by (simp add: case_prod_beta Let_def)
  ultimately show ?case
    using "2.IH" [of ?l "fst ?l" "snd ?l" ?m] wf by simp
qed

lemma set_pairs: "wf_closure m \<Longrightarrow> set (pairs m) = edges m"
  by (force simp: pairs_def edges_def wf_closure_def map_find_map_of strict_sorted_iff
      map_of_eq_Some_iff)

lemma upload_loop_data: "concat (upload_loop ps upload sent) = concat sent @ upload @ concat (map copy_line ps)"
  by (induction ps upload sent rule: upload_loop.induct) (simp_all add: Let_def)

lemma update_table_rows:
  "{x. (sid, x) \<in> update_table sid u t} = u"
  "s \<noteq> sid \<Longrightarrow> (s, x) \<in> update_table sid u t \<longleftrightarrow> (s, x) \<in> t"
  by (auto simp: update_table_def Let_def)

lemma wf_empty: "wf_closure []" "edges [] = {}"
  by (simp_all add: wf_closure_def edges_def)

text \<open>
  C4. Inside a transaction the update always returns: the iteration reaches its fixpoint. The
  rows of the package set are then exactly the transitive closure of the direct dependencies
  (each needed name resolved to the library chosen for it), the rows of other package sets are
  as before, and the data sent to the server is one line for each pair of the closure.
\<close>

theorem update_elf_closure_transitive:
  "\<exists>ps sent. update_elf_closure True sid None provider_rows needed_rows table
      = Some (return (update_table sid (set ps) table, [], sent)) \<and>
    set ps = (direct_edges (providers provider_rows) needed_rows)\<^sup>+ \<and>
    {x. (sid, x) \<in> update_table sid (set ps) table} = set ps \<and>
    {r \<in> update_table sid (set ps) table. fst r \<noteq> sid} = {r \<in> table. fst r \<noteq> sid} \<and>
    concat sent = concat (map copy_line ps)"
proof -
  let ?d = "direct_loop (providers provider_rows) needed_rows ([], [])"
  have "wf_closure (fst ?d)" "edges (fst ?d) = direct_edges (providers provider_rows) needed_rows"
    using direct_loop_edges [of "([], [])"] by (simp_all add: wf_empty)
  then obtain closure where c: "fixpoint (fst ?d) = Some closure" "wf_closure closure"
    "edges closure = (direct_edges (providers provider_rows) needed_rows)\<^sup>+"
    using fixpoint_correct by metis
  have "update_elf_closure True sid None provider_rows needed_rows table
      = Some (return (update_table sid (set (pairs closure)) table, [], upload_loop (pairs closure) [] []))"
    using c(1) by (simp add: update_elf_closure_def case_prod_beta Let_def)
  moreover have "concat (upload_loop (pairs closure) [] []) = concat (map copy_line (pairs closure))"
    by (simp add: upload_loop_data)
  moreover have "set (pairs closure) = (direct_edges (providers provider_rows) needed_rows)\<^sup>+"
    using c(2,3) by (simp add: set_pairs)
  moreover have "{r \<in> update_table sid (set (pairs closure)) table. fst r \<noteq> sid} = {r \<in> table. fst r \<noteq> sid}"
    using update_table_rows(2) [of _ sid _ "set (pairs closure)" table] by force
  ultimately show ?thesis using update_table_rows(1) by blast
qed

section \<open>The library chosen\<close>

lemma priority_same_name: "fname a = fname b \<Longrightarrow> priority a path = priority b path"
  by (simp add: priority_def)

definition best_of :: "string \<Rightarrow> file_ref \<Rightarrow> file_ref list \<Rightarrow> bool" where
  "best_of path w ps \<longleftrightarrow> w \<in> set ps \<and> (\<forall>p \<in> set ps. priority p path \<le> priority w path) \<and>
     (\<forall>p \<in> set ps. fname p = fname w \<longrightarrow> package w \<le> package p)"

lemma best_loop_best:
  "best_of path best seen \<Longrightarrow> best_of path (best_loop path best (priority best path) ps) (seen @ ps)"
proof (induction ps arbitrary: best seen)
  case (Cons p ps)
  let ?better = "priority p path > priority best path \<or> (fname p = fname best \<and> package p < package best)"
  have "best_of path (if ?better then p else best) (seen @ [p])"
  proof (cases ?better)
    case True
    then have p: "priority best path \<le> priority p path" using priority_same_name [of p best path] by auto
    have "package p \<le> package q" if "q \<in> set seen" "fname q = fname p" for q
    proof (cases "fname p = fname best \<and> package p < package best")
      case True
      then have "package best \<le> package q" using Cons.prems that by (auto simp: best_of_def)
      then show ?thesis using True less_imp_le order_trans by blast
    next
      case False
      then have "priority best path < priority p path" using True by blast
      moreover have "priority q path \<le> priority best path" using Cons.prems that(1) by (simp add: best_of_def)
      ultimately show ?thesis using priority_same_name [OF that(2), of path] by simp
    qed
    moreover have "priority q path \<le> priority p path" if "q \<in> set seen" for q
      using Cons.prems that p unfolding best_of_def by force
    ultimately show ?thesis using True by (simp add: best_of_def)
  next
    case False
    then show ?thesis using Cons.prems unfolding best_of_def by (auto simp: not_less)
  qed
  then show ?case
    using Cons.IH [of "if ?better then p else best" "seen @ [p]"] by (auto simp: Let_def)
qed simp

lemma lookup_multimap:
  assumes "map_find m arch = Some soname" and "sorted_multimap soname"
  shows "let ps = map snd (filter (\<lambda>q. fst q = needed) soname) in
    (ps = [] \<and> lookup m arch needed f path = (no_file, [Missing f needed])) \<or>
    (\<exists>w ev. best_of path w ps \<and> lookup m arch needed f path = (fid w, ev))"
proof -
  let ?ps = "map snd (filter (\<lambda>q. fst q = needed) soname)"
  have eq: "map snd (equal_range soname needed) = ?ps" using equal_range_filter [OF assms(2)] by simp
  have lk: "lookup m arch needed f path = (case ?ps of
      [] \<Rightarrow> (no_file, [Missing f needed])
    | [best] \<Rightarrow> (fid best, [])
    | first # rest \<Rightarrow>
        let best = best_loop path first (priority first path) rest in
        (fid best, [Conflict f needed (fid best # filter (\<lambda>g. g \<noteq> fid best) (map fid (first # rest)))]))"
    unfolding lookup_def assms(1) option.case eq ..
  consider "?ps = []" | p where "?ps = [p]" | p q rest where "?ps = p # q # rest"
    by (metis list.exhaust)
  then show ?thesis
  proof cases
    case 1
    then show ?thesis unfolding lk by simp
  next
    case (2 p)
    then have "best_of path p ?ps" by (simp add: best_of_def)
    then show ?thesis unfolding lk Let_def 2 by auto
  next
    case (3 p q rest)
    have "best_of path p [p]" by (simp add: best_of_def)
    then have "best_of path (best_loop path p (priority p path) (q # rest)) ?ps"
      using best_loop_best [of path p "[p]" "q # rest"] 3 by simp
    then show ?thesis unfolding lk Let_def 3 by (intro disjI2 exI conjI) (assumption, simp)
  qed
qed

text \<open>Suppressing conflicts only removes entries, and never the last one of a name.\<close>

lemma group_split:
  assumes "\<forall>q \<in> set ps. a \<le> fst q" and "sorted_multimap ps"
  shows "takeWhile (\<lambda>q. fst q = a) ps = filter (\<lambda>q. fst q = a) ps \<and>
    dropWhile (\<lambda>q. fst q = a) ps = filter (\<lambda>q. fst q \<noteq> a) ps"
  using assms
proof (induction ps)
  case (Cons x ps)
  have gt: "\<forall>q \<in> set ps. a < fst q" if "fst x \<noteq> a" using Cons.prems that by fastforce
  then have none: "filter (\<lambda>q. fst q = a) ps = []" "filter (\<lambda>q. fst q \<noteq> a) ps = ps" if "fst x \<noteq> a"
    using that by (auto simp: filter_empty_conv filter_id_conv)
  then show ?case using Cons by auto
qed simp

definition suppressed :: "soname_map \<Rightarrow> soname_map" where
  "suppressed same =
     (if length (filter ignored same) + 1 = length same then filter (\<lambda>q. \<not> ignored q) same else same)"

lemma ignore_in_map_unfold:
  "ignore_in_map (p # ps) = suppressed (p # takeWhile (\<lambda>q. fst q = fst p) ps)
     @ ignore_in_map (dropWhile (\<lambda>q. fst q = fst p) ps)"
  unfolding ignore_in_map.simps(2) suppressed_def Let_def ..

lemma ignore_in_map_group:
  "sorted_multimap m \<Longrightarrow>
   filter (\<lambda>q. fst q = k) (ignore_in_map m) = suppressed (filter (\<lambda>q. fst q = k) m)"
proof (induction m rule: ignore_in_map.induct)
  case (2 p ps)
  let ?same = "p # takeWhile (\<lambda>q. fst q = fst p) ps" and ?rest = "dropWhile (\<lambda>q. fst q = fst p) ps"
  have g: "takeWhile (\<lambda>q. fst q = fst p) ps = filter (\<lambda>q. fst q = fst p) ps"
    "?rest = filter (\<lambda>q. fst q \<noteq> fst p) ps"
    using group_split [of ps "fst p"] "2.prems" by auto
  have "sorted_multimap ?rest" unfolding g(2) using "2.prems" by (simp add: sorted_filter)
  then have IH: "filter (\<lambda>q. fst q = k) (ignore_in_map ?rest) = suppressed (filter (\<lambda>q. fst q = k) ?rest)"
    using 2 by simp
  note un = ignore_in_map_unfold [of p ps]
  show ?case
  proof (cases "k = fst p")
    case True
    have "filter (\<lambda>q. fst q = k) (suppressed ?same) = suppressed ?same"
      using True g(1) by (auto simp: suppressed_def filter_id_conv)
    moreover have "filter (\<lambda>q. fst q = k) ?rest = []" using True g(2) by (simp add: filter_empty_conv)
    then have "filter (\<lambda>q. fst q = k) (ignore_in_map ?rest) = []" using IH by (simp add: suppressed_def)
    ultimately show ?thesis unfolding un using True g(1) by simp
  next
    case False
    have "filter (\<lambda>q. fst q = k) (suppressed ?same) = []"
      using False g(1) by (auto simp: suppressed_def filter_empty_conv)
    moreover have "filter (\<lambda>q. fst q = k) ?rest = filter (\<lambda>q. fst q = k) ps"
      unfolding g(2) using False by (auto intro: filter_cong)
    ultimately show ?thesis unfolding un using False IH by simp
  qed
qed (simp add: suppressed_def)

definition entry_of :: "provider_row \<Rightarrow> string \<times> file_ref" where
  "entry_of row =
     (if pr_soname row = [] then synthesize_soname (pr_file_name row) else pr_soname row,
      \<lparr>fid = pr_fid row, fname = pr_file_name row, package = pr_pkg row\<rparr>)"

definition filled :: "(string \<times> file_ref) list \<Rightarrow> soname_map" where
  "filled es = foldl (\<lambda>m (k, v). multimap_insert k v m) [] es"

lemma filled_props: "sorted_multimap (filled es) \<and> filter (\<lambda>q. fst q = k) (filled es) = filter (\<lambda>q. fst q = k) es"
proof (induction es rule: rev_induct)
  case (snoc e es)
  then show ?case by (cases e) (simp add: filled_def multimap_insert_filter)
qed (simp add: filled_def)

lemma find_provider:
  "map_find (foldl add_provider [] rows) a =
     (let rs = filter (\<lambda>r. pr_arch r = a) rows in
      if rs = [] then None else Some (filled (map entry_of rs)))"
proof -
  let ?step = "\<lambda>old row. (case entry_of row of (k, v) \<Rightarrow>
    multimap_insert k v (case old of None \<Rightarrow> [] | Some sm \<Rightarrow> sm))"
  have add: "add_provider = (\<lambda>m row. map_assign (pr_arch row) (?step (map_find m (pr_arch row)) row) m)"
    by (simp add: add_provider_def fun_eq_iff Let_def entry_of_def)
  have "foldl (\<lambda>old row. Some (?step old row)) None rs
      = (if rs = [] then None else Some (filled (map entry_of rs)))" for rs
    by (induction rs rule: rev_induct) (simp_all add: filled_def split: prod.splits)
  then show ?thesis
    unfolding add omap.lookup_gather [where key = pr_arch and step = ?step] Let_def by blast
qed

lemma map_find_ignore:
  "map_find (ignore_some_conflicts m) a = map_option ignore_in_map (map_find m a)"
  by (induction m a rule: map_find.induct) (auto simp: ignore_some_conflicts_def)

lemma suppressed_subset: "set (suppressed same) \<subseteq> set same"
  by (simp add: suppressed_def)

lemma ignore_in_map_set: "set (ignore_in_map m) \<subseteq> set m"
proof (induction m rule: ignore_in_map.induct)
  case (2 p ps)
  let ?same = "p # takeWhile (\<lambda>q. fst q = fst p) ps" and ?rest = "dropWhile (\<lambda>q. fst q = fst p) ps"
  have "set (ignore_in_map ?rest) \<subseteq> set ?rest" using 2 by simp
  moreover have "set (suppressed ?same) \<subseteq> set ?same" by (rule suppressed_subset)
  moreover have "set ?same \<subseteq> set (p # ps)" "set ?rest \<subseteq> set ps"
    by (auto dest: set_takeWhileD set_dropWhileD)
  ultimately show ?case unfolding ignore_in_map_unfold set_append by auto
qed simp

lemma sorted_same_key: "(\<And>q. q \<in> set xs \<Longrightarrow> fst q = a) \<Longrightarrow> sorted_multimap xs"
  by (induction xs) auto

lemma ignore_in_map_sorted: "sorted_multimap m \<Longrightarrow> sorted_multimap (ignore_in_map m)"
proof (induction m rule: ignore_in_map.induct)
  case (2 p ps)
  let ?same = "p # takeWhile (\<lambda>q. fst q = fst p) ps" and ?rest = "dropWhile (\<lambda>q. fst q = fst p) ps"
  have g: "?rest = filter (\<lambda>q. fst q \<noteq> fst p) ps" using group_split [of ps "fst p"] "2.prems" by auto
  have "sorted_multimap ?rest" unfolding g using "2.prems" by (simp add: sorted_filter)
  then have IH: "sorted_multimap (ignore_in_map ?rest)" using 2 by simp
  have same: "fst q = fst p" if "q \<in> set (suppressed ?same)" for q
    using that suppressed_subset [of ?same] by (auto dest: set_takeWhileD)
  have "sorted_multimap (suppressed ?same)"
    by (rule sorted_same_key) (rule same)
  moreover have "x \<le> y" if "x \<in> fst ` set (suppressed ?same)" "y \<in> fst ` set (ignore_in_map ?rest)" for x y
  proof -
    have "x = fst p" using that(1) same by blast
    moreover have "set ?rest \<subseteq> set ps" using set_dropWhileD by fast
    then have "y \<in> fst ` set ps"
      using that(2) ignore_in_map_set [of ?rest] by (meson image_mono subset_iff)
    ultimately show ?thesis using "2.prems" by auto
  qed
  ultimately show ?case
    using IH unfolding ignore_in_map_unfold map_append sorted_append set_map by blast
qed simp

lemma suppressed_not_Nil: "same \<noteq> [] \<Longrightarrow> suppressed same \<noteq> []"
proof
  assume "same \<noteq> []" and "suppressed same = []"
  then have "filter (\<lambda>q. \<not> ignored q) same = []" "length (filter ignored same) + 1 = length same"
    by (auto simp: suppressed_def split: if_splits)
  then show False using sum_length_filter_compl [of ignored same] by simp
qed

text \<open>
  C31. A needed name is resolved among the files that provide it on the architecture of the
  needing file. If there are none, nothing is chosen, and this is reported when the architecture
  is known. Otherwise a file is chosen: when suppressing compatibility files leaves exactly one
  candidate, among the rest only, else among all of them; the chosen file has the highest
  priority for the needing path and, among files with its name, the least package name.
\<close>

theorem lookup_resolves:
  "let rs = filter (\<lambda>r. pr_arch r = arch) rows;
       cands = filter (\<lambda>q. fst q = needed) (map entry_of rs);
       r = lookup (providers rows) arch needed f path
   in (rs = [] \<and> r = (no_file, [])) \<or>
      (rs \<noteq> [] \<and> cands = [] \<and> r = (no_file, [Missing f needed])) \<or>
      (cands \<noteq> [] \<and> (\<exists>w. best_of path w (map snd (suppressed cands)) \<and> fst r = fid w))"
proof -
  let ?rs = "filter (\<lambda>r. pr_arch r = arch) rows"
  let ?cands = "filter (\<lambda>q. fst q = needed) (map entry_of ?rs)"
  let ?sm = "filled (map entry_of ?rs)"
  have find: "map_find (providers rows) arch = (if ?rs = [] then None else Some (ignore_in_map ?sm))"
    by (simp add: providers_def map_find_ignore find_provider Let_def)
  have sorted: "sorted_multimap (ignore_in_map ?sm)" using filled_props by (intro ignore_in_map_sorted) blast
  have group: "filter (\<lambda>q. fst q = needed) (ignore_in_map ?sm) = suppressed ?cands"
    using filled_props [of "map entry_of ?rs" needed] ignore_in_map_group [of ?sm needed] by simp
  show ?thesis
  proof (cases "?rs = []")
    case True
    then show ?thesis using find by (simp add: lookup_def)
  next
    case False
    then have "map_find (providers rows) arch = Some (ignore_in_map ?sm)" using find by simp
    note lk = lookup_multimap [OF this sorted, of needed f path, unfolded group]
    show ?thesis
    proof (cases "?cands = []")
      case True
      then have "suppressed ?cands = []" by (simp add: suppressed_def)
      then show ?thesis using lk False True by (auto simp: best_of_def Let_def)
    next
      case cands: False
      then have "suppressed ?cands \<noteq> []" by (rule suppressed_not_Nil)
      then show ?thesis using lk False cands by (auto simp: Let_def)
    qed
  qed
qed

end
