(* ===== verification/Expat.thy ===== *)
theory Expat
  imports Strings Endian Ordmap
begin

text \<open>
  The pull parser for XML: \<open>lib/cxxll/expat_source.cpp\<close> and
  \<open>include/cxxll/expat_source.hpp\<close>. The parser Expat is not part of the repository: what one
  call of \<open>XML_Parse\<close> does (the callbacks it makes with their positions, its status and its
  error data) is an input of the model, one \<open>chunk\<close> for each read of the byte source. The
  code turns the callbacks into a byte buffer and decodes the buffer again; the model keeps the
  buffer with its encoding. Running out of memory is not modelled.
\<close>

section \<open>Data\<close>

datatype xml_state = INIT | START | END | TEXT | EOD

text \<open>The callbacks; Expat passes strings without NUL characters.\<close>

datatype callback =
    StartElement string "(string \<times> string) list"
  | EndElement
  | CharacterData string
  | EntityDecl

record chunk =
  read_failure :: "exn option"
  buf :: string
  calls :: "(callback \<times> u32 \<times> u32) list"   \<comment> \<open>with line and column\<close>
  status_ok :: bool
  err_line :: u32
  err_column :: u32
  err_message :: string
  err_index :: nat

record expat =
  chunks :: "chunk list"       \<comment> \<open>the reads that return data\<close>
  final_chunk :: chunk         \<comment> \<open>the read that returns 0\<close>
  consumed_bytes :: nat
  upcoming :: string
  upcoming_pos :: nat
  pos_line :: u32
  pos_column :: u32
  elem_start :: nat
  elem_len :: nat
  attr_start :: nat
  error_text :: string
  state_of :: xml_state
  bad_entity :: bool

abbreviation ENC_START :: char where "ENC_START \<equiv> CHR 0x01"
abbreviation ENC_ATTRIBUTE :: char where "ENC_ATTRIBUTE \<equiv> CHR 0x02"
abbreviation ENC_END :: char where "ENC_END \<equiv> CHR 0x03"
abbreviation ENC_TEXT :: char where "ENC_TEXT \<equiv> CHR 0x04"
abbreviation ENC_EOD :: char where "ENC_EOD \<equiv> CHR 0x05"

definition expat_source :: "chunk list \<Rightarrow> chunk \<Rightarrow> expat" where
  "expat_source cs fin = \<lparr>chunks = cs, final_chunk = fin, consumed_bytes = 0, upcoming = [],
     upcoming_pos = 0, pos_line = 0, pos_column = 0, elem_start = 0, elem_len = 0, attr_start = 0,
     error_text = [], state_of = INIT, bad_entity = False\<rparr>"

definition remaining :: "expat \<Rightarrow> bool" where
  "remaining s \<longleftrightarrow> upcoming_pos s < length (upcoming s)"

definition tag :: "expat \<Rightarrow> char result" where
  "tag s = (if upcoming_pos s < length (upcoming s) then return (upcoming s ! upcoming_pos s)
     else throw (Out_of_range ''vector::_M_range_check''))"

text \<open>\<open>strlen\<close> of a pointer into the buffer\<close>

definition strlen_at :: "string \<Rightarrow> nat \<Rightarrow> nat result" where
  "strlen_at up p =
     (let rest = drop p up in
      if NUL \<in> set rest then return (length (takeWhile (\<lambda>c. c \<noteq> NUL) rest))
      else throw (Undefined_behaviour ''read past the end''))"

definition append_cstr :: "string \<Rightarrow> string \<Rightarrow> string" where
  "append_cstr up s = up @ cstr s @ [NUL]"

definition state_string :: "xml_state \<Rightarrow> string" where
  "state_string e =
     (case e of INIT \<Rightarrow> ''INIT'' | START \<Rightarrow> ''START'' | END \<Rightarrow> ''END'' | TEXT \<Rightarrow> ''TEXT'' | EOD \<Rightarrow> ''EOD'')"

section \<open>Exceptions\<close>

definition illegal_state :: "expat \<Rightarrow> xml_state \<Rightarrow> exn" where
  "illegal_state s expected = Xml_illegal_state
     (dec (unat (pos_line s)) @ '':'' @ dec (unat (pos_column s)) @ '': actual=''
      @ state_string (state_of s) @ '' expected='' @ state_string expected)"

definition check_state :: "xml_state \<Rightarrow> expat \<Rightarrow> unit result" where
  "check_state expected s =
     (if state_of s \<noteq> expected then throw (illegal_state s expected) else return ())"

text \<open>\<open>const_stringref::substr\<close> on the bytes just read\<close>

definition substr_of :: "string \<Rightarrow> nat \<Rightarrow> nat \<Rightarrow> string result" where
  "substr_of s p n =
     (if p > length s then throw (Bad_string_index (length s) p) else return (take n (drop p s)))"

definition location :: "chunk \<Rightarrow> string" where
  "location c = dec (unat (err_line c)) @ '':'' @ dec (unat (err_column c))"

definition described :: "string \<Rightarrow> string \<Rightarrow> string \<Rightarrow> string" where
  "described msg before after =
     msg @ (if before \<noteq> [] then '' before='' @ [CHR 0x22] @ quote before @ [CHR 0x22] else [])
       @ (if after \<noteq> [] then '' after='' @ [CHR 0x22] @ quote after @ [CHR 0x22] else [])"

text \<open>
  The constructor of malformed: the text before and after the error, and the message. When the
  byte index lies before the data just read, the message stays empty. \<open>buf.size() - index\<close> is
  an unsigned difference.
\<close>

definition malformed :: "expat \<Rightarrow> chunk \<Rightarrow> (string \<times> string \<times> string) result" where
  "malformed s c =
     (let msg = location c @ '': error='' @ [CHR 0x22] @ err_message c @ [CHR 0x22] in
      if err_index c \<ge> consumed_bytes s then
        let index = err_index c - consumed_bytes s;
            before_count = min index 50;
            after_count = (if index \<le> length (buf c) then min (length (buf c) - index) 50 else 50)
        in bind (substr_of (buf c) (index - before_count) before_count) (\<lambda>before.
           bind (substr_of (buf c) index after_count) (\<lambda>after.
           return (described msg before after, before, after)))
      else return ([], [], []))"

definition entity_declaration :: "expat \<Rightarrow> chunk \<Rightarrow> (string \<times> string \<times> string) result" where
  "entity_declaration s c =
     bind (malformed s c) (\<lambda>(_, before, after).
       return (described (location c @ '': error='' @ [CHR 0x22] @ ''unexpected XML entity'' @ [CHR 0x22])
         before after, before, after))"

definition source_error :: "expat \<Rightarrow> chunk \<Rightarrow> exn" where
  "source_error s c = Xml_source_error (location c @ '': '' @ error_text s)"

definition check_error :: "expat \<Rightarrow> chunk \<Rightarrow> unit result" where
  "check_error s c =
     (if bad_entity s then bind (entity_declaration s c) (\<lambda>(w, before, after).
        throw (Xml_entity_declaration w (''unexpected XML entity'', err_line c, before, after)))
      else if error_text s \<noteq> [] then throw (source_error s c)
      else if \<not> status_ok c then bind (malformed s c) (\<lambda>(w, before, after).
        throw (Xml_malformed w (err_message c, err_line c, before, after)))
      else return ())"

section \<open>The callbacks and the buffer\<close>

definition push_position :: "u32 \<Rightarrow> u32 \<Rightarrow> string \<Rightarrow> string" where
  "push_position line column up = up @ map char_of_byte (le_bytes line @ le_bytes column)"

definition pop_position :: "expat \<Rightarrow> expat result" where
  "pop_position s =
     (if length (upcoming s) - upcoming_pos s < 8 then throw Assertion_failure
      else let bs = map byte_of_char (drop (upcoming_pos s) (upcoming s)) in
        return (s\<lparr>pos_line := load_le (take 4 bs), pos_column := load_le (take 4 (drop 4 bs)),
          upcoming_pos := upcoming_pos s + 8\<rparr>))"

fun append_attrs :: "string \<Rightarrow> (string \<times> string) list \<Rightarrow> string" where
  "append_attrs up [] = up"
| "append_attrs up ((k, v) # attrs) = append_attrs (append_cstr (append_cstr (up @ [ENC_ATTRIBUTE]) k) v) attrs"

definition StartElementHandler :: "string \<Rightarrow> (string \<times> string) list \<Rightarrow> u32 \<Rightarrow> u32 \<Rightarrow> string \<Rightarrow> string" where
  "StartElementHandler nm attrs line column up =
     append_attrs (append_cstr (push_position line column (up @ [ENC_START])) nm) attrs"

definition EndElementHandler :: "u32 \<Rightarrow> u32 \<Rightarrow> string \<Rightarrow> string" where
  "EndElementHandler line column up = push_position line column (up @ [ENC_END])"

definition CharacterDataHandler :: "string \<Rightarrow> u32 \<Rightarrow> u32 \<Rightarrow> string \<Rightarrow> string result" where
  "CharacterDataHandler s line column up =
     (if NUL \<in> set s then throw Assertion_failure
      else return (push_position line column (up @ [ENC_TEXT]) @ s @ [NUL]))"

text \<open>
  The callbacks of one call of \<open>XML_Parse\<close>. The handler for entity declarations stops the
  parser: no further callback follows.
\<close>

fun run_calls :: "(callback \<times> u32 \<times> u32) list \<Rightarrow> string \<Rightarrow> (string \<times> bool) result" where
  "run_calls [] up = return (up, False)"
| "run_calls ((StartElement nm attrs, line, column) # cs) up =
     run_calls cs (StartElementHandler nm attrs line column up)"
| "run_calls ((EndElement, line, column) # cs) up = run_calls cs (EndElementHandler line column up)"
| "run_calls ((CharacterData s, line, column) # cs) up =
     bind (CharacterDataHandler s line column up) (run_calls cs)"
| "run_calls ((EntityDecl, line, column) # cs) up = return (up, True)"

text \<open>One read of the source and the call of \<open>XML_Parse\<close> on it.\<close>

definition parse_chunk :: "chunk \<Rightarrow> expat \<Rightarrow> expat result" where
  "parse_chunk c s =
     (case read_failure c of
        Some e \<Rightarrow> throw e
      | None \<Rightarrow>
          bind (run_calls (calls c) (upcoming s)) (\<lambda>(up, bad).
          let s1 = s\<lparr>upcoming := up, bad_entity := bad_entity s \<or> bad\<rparr> in
          bind (check_error s1 c) (\<lambda>_.
          return (s1\<lparr>consumed_bytes := consumed_bytes s1 + length (buf c)\<rparr>))))"

fun feed_loop :: "chunk list \<Rightarrow> expat \<Rightarrow> expat result" where
  "feed_loop [] s =
     bind (parse_chunk (final_chunk s) s) (\<lambda>s1.
     return (s1\<lparr>chunks := [], upcoming := upcoming s1 @ [ENC_EOD]\<rparr>))"
| "feed_loop (c # cs) s =
     bind (parse_chunk c s) (\<lambda>s1.
     if upcoming s1 = [] then feed_loop cs s1 else return (s1\<lparr>chunks := cs\<rparr>))"

definition feed :: "expat \<Rightarrow> expat result" where
  "feed s =
     (if upcoming_pos s \<noteq> length (upcoming s) then throw Assertion_failure
      else feed_loop (chunks s) (s\<lparr>upcoming := [], upcoming_pos := 0\<rparr>))"

section \<open>Moving through the document\<close>

text \<open>The loop over the attributes: the position after them.\<close>

function skip_attrs :: "string \<Rightarrow> nat \<Rightarrow> nat result" where
  "skip_attrs up p =
     (if p < length up \<and> up ! p = ENC_ATTRIBUTE then
        bind (strlen_at up p) (\<lambda>n.
        bind (strlen_at up (p + n + 1)) (\<lambda>k.
        skip_attrs up (p + n + 1 + k + 1)))
      else return p)"
  by pat_completeness auto
termination by (relation "measure (\<lambda>(up, p). length up - p)") auto

declare skip_attrs.simps [simp del]

text \<open>The name of an element or a text node at the current position.\<close>

definition take_element :: "expat \<Rightarrow> expat result" where
  "take_element s =
     bind (strlen_at (upcoming s) (upcoming_pos s)) (\<lambda>n.
     return (s\<lparr>elem_start := upcoming_pos s, elem_len := n, upcoming_pos := upcoming_pos s + n + 1\<rparr>))"

definition next_event :: "expat \<Rightarrow> (bool \<times> expat) result" where
  "next_event s =
     (if state_of s = EOD then return (False, s)
      else
        bind (if remaining s then return s else feed s) (\<lambda>s.
        bind (tag s) (\<lambda>t.
        if t = ENC_START then
          bind (pop_position (s\<lparr>upcoming_pos := upcoming_pos s + 1\<rparr>)) (\<lambda>s.
          bind (take_element s) (\<lambda>s.
          bind (skip_attrs (upcoming s) (upcoming_pos s)) (\<lambda>p.
          return (True, s\<lparr>attr_start := upcoming_pos s, upcoming_pos := p, state_of := START\<rparr>))))
        else if t = ENC_TEXT then
          bind (pop_position (s\<lparr>upcoming_pos := upcoming_pos s + 1\<rparr>)) (\<lambda>s.
          bind (take_element s) (\<lambda>s.
          return (True, s\<lparr>state_of := TEXT\<rparr>)))
        else if t = ENC_END then
          bind (pop_position (s\<lparr>upcoming_pos := upcoming_pos s + 1\<rparr>)) (\<lambda>s.
          return (True, s\<lparr>state_of := END\<rparr>))
        else if t = ENC_EOD then
          return (False, s\<lparr>upcoming_pos := upcoming_pos s + 1, state_of := EOD\<rparr>)
        else throw Assertion_failure)))"

definition line :: "expat \<Rightarrow> u32" where
  "line s = pos_line s"

definition column :: "expat \<Rightarrow> u32" where
  "column s = (if state_of s = END \<and> pos_column s > 0 then pos_column s + 1 else pos_column s + 1)"

section \<open>Accessors\<close>

definition elem_string :: "expat \<Rightarrow> string" where
  "elem_string s = take (elem_len s) (drop (elem_start s) (upcoming s))"

definition name_of :: "expat \<Rightarrow> string result" where
  "name_of s = bind (check_state START s) (\<lambda>_. return (elem_string s))"

definition text_of :: "expat \<Rightarrow> string result" where
  "text_of s = bind (check_state TEXT s) (\<lambda>_. return (elem_string s))"

text \<open>The pointer variants give the same characters as C strings.\<close>

definition name_ptr :: "expat \<Rightarrow> string result" where
  "name_ptr s = bind (check_state START s) (\<lambda>_. return (cstr (drop (elem_start s) (upcoming s))))"

definition text_ptr :: "expat \<Rightarrow> string result" where
  "text_ptr s = bind (check_state TEXT s) (\<lambda>_. return (cstr (drop (elem_start s) (upcoming s))))"

function attribute_loop :: "string \<Rightarrow> string \<Rightarrow> nat \<Rightarrow> string result" where
  "attribute_loop nm up p =
     (if p < length up \<and> up ! p = ENC_ATTRIBUTE then
        bind (strlen_at up (p + 1)) (\<lambda>plen.
        if plen = length nm \<and> take plen (drop (p + 1) up) = nm then
          bind (strlen_at up (p + 1 + plen + 1)) (\<lambda>n.
          return (take n (drop (p + 1 + plen + 1) up)))
        else
          bind (strlen_at up (p + 1 + plen + 1)) (\<lambda>n.
          attribute_loop nm up (p + 1 + plen + 1 + n + 1)))
      else return [])"
  by pat_completeness auto
termination by (relation "measure (\<lambda>(nm, up, p). length up - p)") auto

declare attribute_loop.simps [simp del]

definition attribute :: "string \<Rightarrow> expat \<Rightarrow> string result" where
  "attribute nm s = bind (check_state START s) (\<lambda>_. attribute_loop (cstr nm) (upcoming s) (attr_start s))"

text \<open>\<open>std::map::insert\<close> keeps the first value of a key.\<close>

definition map_insert :: "'k::linorder \<Rightarrow> 'v \<Rightarrow> ('k \<times> 'v) list \<Rightarrow> ('k \<times> 'v) list" where
  "map_insert k v m = (case map_find m k of None \<Rightarrow> map_assign k v m | Some _ \<Rightarrow> m)"

function attributes_loop :: "string \<Rightarrow> nat \<Rightarrow> (string \<times> string) list \<Rightarrow> (string \<times> string) list result" where
  "attributes_loop up p acc =
     (if p < length up \<and> up ! p = ENC_ATTRIBUTE then
        bind (strlen_at up (p + 1)) (\<lambda>n.
        bind (strlen_at up (p + 1 + n + 1)) (\<lambda>k.
        attributes_loop up (p + 1 + n + 1 + k + 1)
          (map_insert (take n (drop (p + 1) up)) (take k (drop (p + 1 + n + 1) up)) acc)))
      else return acc)"
  by pat_completeness auto
termination by (relation "measure (\<lambda>(up, p, acc). length up - p)") auto

declare attributes_loop.simps [simp del]

definition attributes :: "(string \<times> string) list \<Rightarrow> expat \<Rightarrow> (string \<times> string) list result" where
  "attributes acc s = bind (check_state START s) (\<lambda>_. attributes_loop (upcoming s) (attr_start s) acc)"
section \<open>Loops over events\<close>

text \<open>
  The loops that call next: \<open>None\<close> is a loop that does not end, which the document decides.
\<close>

partial_function (option) text_loop :: "expat \<Rightarrow> string \<Rightarrow> (string \<times> expat) result option" where
  "text_loop s acc =
     (if state_of s = TEXT then
        (case next_event s of Inl e \<Rightarrow> Some (Inl e) | Inr (b, s') \<Rightarrow> text_loop s' (acc @ elem_string s))
      else Some (Inr (acc, s)))"

definition text_and_next :: "expat \<Rightarrow> (string \<times> expat) result option" where
  "text_and_next s = (case check_state TEXT s of Inl e \<Rightarrow> Some (Inl e) | Inr _ \<Rightarrow> text_loop s [])"

partial_function (option) skip_nested :: "nat \<Rightarrow> expat \<Rightarrow> expat result option" where
  "skip_nested nested s =
     (if nested = 0 then Some (Inr s)
      else case (case state_of s of START \<Rightarrow> Some (nested + 1) | END \<Rightarrow> Some (nested - 1)
                   | TEXT \<Rightarrow> Some nested | _ \<Rightarrow> None) of
          None \<Rightarrow> Some (Inl Assertion_failure)
        | Some n \<Rightarrow>
            (case next_event s of Inl e \<Rightarrow> Some (Inl e) | Inr (b, s') \<Rightarrow> skip_nested n s'))"

partial_function (option) skip_text :: "expat \<Rightarrow> expat result option" where
  "skip_text s =
     (case next_event s of
        Inl e \<Rightarrow> Some (Inl e)
      | Inr (b, s') \<Rightarrow> if state_of s' = TEXT then skip_text s' else Some (Inr s'))"

definition advance_event :: "expat \<Rightarrow> expat result" where
  "advance_event s = bind (next_event s) (\<lambda>(b, s'). return s')"

definition skip :: "expat \<Rightarrow> expat result option" where
  "skip s =
     (case state_of s of
        INIT \<Rightarrow> Some (advance_event s)
      | START \<Rightarrow> (case advance_event s of Inl e \<Rightarrow> Some (Inl e) | Inr s' \<Rightarrow> skip_nested 1 s')
      | TEXT \<Rightarrow> skip_text s
      | END \<Rightarrow> Some (advance_event s)
      | EOD \<Rightarrow> Some (Inr s))"

partial_function (option) unnest_loop :: "expat \<Rightarrow> expat result option" where
  "unnest_loop s =
     (if state_of s = END then Some (advance_event s)
      else case skip s of
          None \<Rightarrow> None
        | Some r \<Rightarrow> (case r of Inl e \<Rightarrow> Some (Inl e) | Inr s' \<Rightarrow> unnest_loop s'))"

definition unnest :: "expat \<Rightarrow> expat result option" where
  "unnest s = (if state_of s \<noteq> EOD then unnest_loop s else Some (Inr s))"

section \<open>The document as a sequence of events\<close>

datatype xevent =
    XStart string "(string \<times> string) list" u32 u32
  | XEnd u32 u32
  | XText string u32 u32

definition enc_position :: "u32 \<Rightarrow> u32 \<Rightarrow> string" where
  "enc_position l c = map char_of_byte (le_bytes l @ le_bytes c)"

definition enc_attr :: "string \<times> string \<Rightarrow> string" where
  "enc_attr a = ENC_ATTRIBUTE # fst a @ [NUL] @ snd a @ [NUL]"

definition enc_attrs :: "(string \<times> string) list \<Rightarrow> string" where
  "enc_attrs as = concat (map enc_attr as)"

primrec enc_event :: "xevent \<Rightarrow> string" where
  "enc_event (XStart n as l c) = ENC_START # enc_position l c @ n @ [NUL] @ enc_attrs as"
| "enc_event (XEnd l c) = ENC_END # enc_position l c"
| "enc_event (XText t l c) = ENC_TEXT # enc_position l c @ t @ [NUL]"

abbreviation nul_free :: "string \<Rightarrow> bool" where
  "nul_free s \<equiv> NUL \<notin> set s"

primrec ok_event :: "xevent \<Rightarrow> bool" where
  "ok_event (XStart n as l c) = (nul_free n \<and> list_all (\<lambda>(k, v). nul_free k \<and> nul_free v) as)"
| "ok_event (XEnd l c) = True"
| "ok_event (XText t l c) = nul_free t"

fun ok_call :: "callback \<times> u32 \<times> u32 \<Rightarrow> bool" where
  "ok_call (StartElement n as, l, c) = (nul_free n \<and> list_all (\<lambda>(k, v). nul_free k \<and> nul_free v) as)"
| "ok_call (EndElement, l, c) = True"
| "ok_call (CharacterData t, l, c) = nul_free t"
| "ok_call (EntityDecl, l, c) = False"

fun event_of :: "callback \<times> u32 \<times> u32 \<Rightarrow> xevent" where
  "event_of (StartElement n as, l, c) = XStart n as l c"
| "event_of (EndElement, l, c) = XEnd l c"
| "event_of (CharacterData t, l, c) = XText t l c"
| "event_of (EntityDecl, l, c) = XEnd l c"

definition enc_all :: "xevent list \<Rightarrow> string" where
  "enc_all evs = concat (map enc_event evs)"

lemma cstr_nul_free [simp]: "nul_free s \<Longrightarrow> cstr s = s"
  by (auto simp: cstr_def takeWhile_eq_all_conv)

lemma append_attrs_eq:
  "list_all (\<lambda>(k, v). nul_free k \<and> nul_free v) as \<Longrightarrow> append_attrs up as = up @ enc_attrs as"
  by (induction up as rule: append_attrs.induct) (auto simp: enc_attrs_def enc_attr_def append_cstr_def)

lemma run_calls_eq:
  "list_all ok_call cs \<Longrightarrow> run_calls cs up = return (up @ enc_all (map event_of cs), False)"
proof (induction cs up rule: run_calls.induct)
  case (2 nm attrs l c cs up)
  then show ?case
    by (simp add: StartElementHandler_def append_attrs_eq append_cstr_def push_position_def
        enc_all_def enc_position_def)
qed (simp_all add: EndElementHandler_def CharacterDataHandler_def push_position_def enc_all_def
    enc_position_def)

lemma length_enc_position [simp]: "length (enc_position l c) = 8"
  by (simp add: enc_position_def le_bytes_def)

lemma decode_position:
  "load_le (take 4 (map byte_of_char (enc_position l c @ up))) = l"
  "load_le (take 4 (drop 4 (map byte_of_char (enc_position l c @ up)))) = c"
proof -
  have four: "take 4 (le_bytes v @ xs) = le_bytes v" "drop 4 (le_bytes v @ xs) = xs" for v xs
    by (simp_all add: le_bytes_def)
  have "map byte_of_char (enc_position l c @ up) = le_bytes l @ le_bytes c @ map byte_of_char up"
    by (simp add: enc_position_def comp_def)
  then show "load_le (take 4 (map byte_of_char (enc_position l c @ up))) = l"
    "load_le (take 4 (drop 4 (map byte_of_char (enc_position l c @ up)))) = c"
    by (simp_all only: four load_le_le_bytes)
qed

lemma takeWhile_nul: "nul_free n \<Longrightarrow> takeWhile (\<lambda>c. c \<noteq> NUL) (n @ NUL # rest) = n"
  by (rule takeWhile_append_stop) auto

lemma strlen_at_append:
  "length pre = p \<Longrightarrow> nul_free n \<Longrightarrow> strlen_at (pre @ n @ NUL # rest) p = return (length n)"
  by (simp add: strlen_at_def takeWhile_nul)

definition stops :: "string \<Rightarrow> bool" where
  "stops rest \<longleftrightarrow> rest = [] \<or> hd rest \<noteq> ENC_ATTRIBUTE"

abbreviation ok_attrs :: "(string \<times> string) list \<Rightarrow> bool" where
  "ok_attrs as \<equiv> list_all (\<lambda>(k, v). nul_free k \<and> nul_free v) as"

lemma stops_not_attr: "stops rest \<Longrightarrow> \<not> (length pre < length (pre @ rest) \<and> (pre @ rest) ! length pre = ENC_ATTRIBUTE)"
  by (cases rest) (auto simp: stops_def)

text \<open>The parts of an encoded attribute, seen from its tag.\<close>

lemma attr_parts:
  assumes "nul_free k" "nul_free v"
    and up: "up = pre @ enc_attr (k, v) @ rest"
  shows "length pre < length up" "up ! length pre = ENC_ATTRIBUTE"
    "strlen_at up (length pre) = return (length k + 1)"
    "strlen_at up (length pre + 1) = return (length k)"
    "strlen_at up (length pre + (length k + 2)) = return (length v)"
    "take (length k) (drop (length pre + 1) up) = k"
    "take (length v) (drop (length pre + (length k + 2)) up) = v"
proof -
  have e1: "up = pre @ (ENC_ATTRIBUTE # k) @ NUL # v @ NUL # rest"
    and e2: "up = (pre @ [ENC_ATTRIBUTE]) @ k @ NUL # v @ NUL # rest"
    and e3: "up = (pre @ ENC_ATTRIBUTE # k @ [NUL]) @ v @ NUL # rest"
    using up by (simp_all add: enc_attr_def)
  show "length pre < length up" "up ! length pre = ENC_ATTRIBUTE" unfolding e1 by simp_all
  show "strlen_at up (length pre) = return (length k + 1)"
    unfolding e1 by (subst strlen_at_append) (use assms in auto)
  show "strlen_at up (length pre + 1) = return (length k)"
    unfolding e2 by (subst strlen_at_append) (use assms in auto)
  show "strlen_at up (length pre + (length k + 2)) = return (length v)"
    unfolding e3 by (subst strlen_at_append) (use assms in auto)
  show "take (length k) (drop (length pre + 1) up) = k"
    "take (length v) (drop (length pre + (length k + 2)) up) = v"
    unfolding e1 by simp_all
qed

lemma skip_attrs_eq:
  "ok_attrs as \<Longrightarrow> stops rest \<Longrightarrow>
   skip_attrs (pre @ enc_attrs as @ rest) (length pre) = return (length pre + length (enc_attrs as))"
proof (induction "as" arbitrary: pre)
  case Nil
  then show ?case using stops_not_attr [of rest pre] by (subst skip_attrs.simps) (auto simp: enc_attrs_def)
next
  case (Cons a as)
  obtain k v where a: "a = (k, v)" by (cases a)
  let ?up = "pre @ enc_attr (k, v) @ enc_attrs as @ rest"
  have kv: "nul_free k" "nul_free v" using Cons.prems a by auto
  note parts = attr_parts [OF kv refl, of pre "enc_attrs as @ rest"]
  have "skip_attrs ((pre @ enc_attr (k, v)) @ enc_attrs as @ rest) (length (pre @ enc_attr (k, v)))
      = return (length (pre @ enc_attr (k, v)) + length (enc_attrs as))"
    using Cons by (intro Cons.IH) auto
  then have "skip_attrs ?up (length pre) = return (length (pre @ enc_attr (k, v)) + length (enc_attrs as))"
    using parts by (subst skip_attrs.simps) (simp add: enc_attr_def add_ac)
  moreover have "enc_attrs (a # as) = enc_attr (k, v) @ enc_attrs as" by (simp add: enc_attrs_def a)
  ultimately show ?case by (simp add: add_ac)
qed

lemma attribute_loop_eq:
  "ok_attrs as \<Longrightarrow> stops rest \<Longrightarrow>
   attribute_loop nm (pre @ enc_attrs as @ rest) (length pre)
     = return (case map_of as nm of None \<Rightarrow> [] | Some v \<Rightarrow> v)"
proof (induction "as" arbitrary: pre)
  case Nil
  then show ?case
    using stops_not_attr [of rest pre] by (subst attribute_loop.simps) (auto simp: enc_attrs_def)
next
  case (Cons a as)
  obtain k v where a: "a = (k, v)" by (cases a)
  let ?up = "pre @ enc_attr (k, v) @ enc_attrs as @ rest"
  have kv: "nul_free k" "nul_free v" using Cons.prems a by auto
  note parts = attr_parts [OF kv refl, of pre "enc_attrs as @ rest"]
  have IH: "attribute_loop nm ((pre @ enc_attr (k, v)) @ enc_attrs as @ rest) (length (pre @ enc_attr (k, v)))
      = return (case map_of as nm of None \<Rightarrow> [] | Some v \<Rightarrow> v)"
    using Cons by (intro Cons.IH) auto
  have "attribute_loop nm ?up (length pre)
      = return (if k = nm then v else case map_of as nm of None \<Rightarrow> [] | Some v \<Rightarrow> v)"
  proof (cases "k = nm")
    case True
    then show ?thesis using parts by (subst attribute_loop.simps) simp
  next
    case False
    have "\<not> (length k = length nm \<and> k = nm)" using False by simp
    then show ?thesis using parts IH False
      by (subst attribute_loop.simps) (simp add: enc_attr_def add_ac)
  qed
  moreover have "enc_attrs (a # as) = enc_attr (k, v) @ enc_attrs as" by (simp add: enc_attrs_def a)
  ultimately show ?case using a by simp
qed

lemma attributes_loop_eq:
  "ok_attrs as \<Longrightarrow> stops rest \<Longrightarrow>
   attributes_loop (pre @ enc_attrs as @ rest) (length pre) acc
     = return (foldl (\<lambda>m (k, v). map_insert k v m) acc as)"
proof (induction "as" arbitrary: pre acc)
  case Nil
  then show ?case
    using stops_not_attr [of rest pre] by (subst attributes_loop.simps) (auto simp: enc_attrs_def)
next
  case (Cons a as)
  obtain k v where a: "a = (k, v)" by (cases a)
  let ?up = "pre @ enc_attr (k, v) @ enc_attrs as @ rest"
  have kv: "nul_free k" "nul_free v" using Cons.prems a by auto
  note parts = attr_parts [OF kv refl, of pre "enc_attrs as @ rest"]
  have "attributes_loop ((pre @ enc_attr (k, v)) @ enc_attrs as @ rest) (length (pre @ enc_attr (k, v)))
        (map_insert k v acc)
      = return (foldl (\<lambda>m (k, v). map_insert k v m) (map_insert k v acc) as)"
    using Cons by (intro Cons.IH) auto
  then have "attributes_loop ?up (length pre) acc
      = return (foldl (\<lambda>m (k, v). map_insert k v m) (map_insert k v acc) as)"
    using parts by (subst attributes_loop.simps) (simp add: enc_attr_def add_ac)
  moreover have "enc_attrs (a # as) = enc_attr (k, v) @ enc_attrs as" by (simp add: enc_attrs_def a)
  ultimately show ?case using a by simp
qed

section \<open>What next does\<close>

text \<open>The source stands at an event: what the accessors rely on.\<close>

definition at_event :: "expat \<Rightarrow> xevent \<Rightarrow> bool" where
  "at_event s ev \<longleftrightarrow>
     (case ev of
        XStart n as l c \<Rightarrow>
          state_of s = START \<and> pos_line s = l \<and> pos_column s = c \<and> elem_string s = n \<and>
          cstr (drop (elem_start s) (upcoming s)) = n \<and> ok_attrs as \<and>
          (\<exists>pre rest. upcoming s = pre @ enc_attrs as @ rest \<and> attr_start s = length pre \<and> stops rest)
      | XEnd l c \<Rightarrow> state_of s = END \<and> pos_line s = l \<and> pos_column s = c
      | XText t l c \<Rightarrow>
          state_of s = TEXT \<and> pos_line s = l \<and> pos_column s = c \<and> elem_string s = t \<and>
          cstr (drop (elem_start s) (upcoming s)) = t)"

lemma pop_position_eq:
  assumes "upcoming s = pre @ enc_position l c @ rest" and "upcoming_pos s = length pre"
  shows "pop_position s = return (s\<lparr>pos_line := l, pos_column := c, upcoming_pos := length pre + 8\<rparr>)"
  using assms decode_position [of l c rest] by (simp add: pop_position_def Let_def)

lemma take_element_eq:
  assumes "upcoming s = pre @ n @ NUL # rest" and "upcoming_pos s = length pre" and "nul_free n"
  shows "take_element s = return (s\<lparr>elem_start := length pre, elem_len := length n,
    upcoming_pos := length pre + length n + 1\<rparr>)"
  using assms strlen_at_append [of pre "length pre" n rest] by (simp add: take_element_def)

lemma cstr_append: "nul_free n \<Longrightarrow> cstr (n @ NUL # rest) = n"
  by (simp add: cstr_def takeWhile_nul)

lemma next_buffered:
  assumes "state_of s \<noteq> EOD" and up: "upcoming s = pre @ enc_event ev @ rest"
    and pos: "upcoming_pos s = length pre" and ok: "ok_event ev" and "stops rest"
  shows "\<exists>s'. next_event s = return (True, s') \<and> at_event s' ev \<and>
    upcoming s' = upcoming s \<and> upcoming_pos s' = length (pre @ enc_event ev) \<and>
    chunks s' = chunks s \<and> final_chunk s' = final_chunk s \<and> consumed_bytes s' = consumed_bytes s \<and>
    error_text s' = error_text s \<and> bad_entity s' = bad_entity s \<and> state_of s' \<noteq> EOD"
proof -
  have rem: "remaining s" and tag: "tag s = return (hd (enc_event ev))"
    using up pos by (cases ev; simp add: remaining_def tag_def nth_append)+
  show ?thesis
  proof (cases ev)
    case (XStart n as l c)
    let ?p = "pre @ ENC_START # enc_position l c"
    have u1: "upcoming s = (pre @ [ENC_START]) @ enc_position l c @ n @ NUL # enc_attrs as @ rest"
      and u2: "upcoming s = ?p @ n @ NUL # enc_attrs as @ rest"
      and u3: "upcoming s = (?p @ n @ [NUL]) @ enc_attrs as @ rest"
      using up XStart by simp_all
    have n: "nul_free n" "ok_attrs as" using ok XStart by simp_all
    let ?s1 = "s\<lparr>upcoming_pos := upcoming_pos s + 1\<rparr>"
    let ?s2 = "s\<lparr>pos_line := l, pos_column := c, upcoming_pos := length (pre @ [ENC_START]) + 8\<rparr>"
    let ?s3 = "?s2\<lparr>elem_start := length ?p, elem_len := length n, upcoming_pos := length ?p + length n + 1\<rparr>"
    have "pop_position ?s1 = return ?s2"
      using pop_position_eq [of ?s1 "pre @ [ENC_START]" l c] u1 pos by simp
    moreover have "take_element ?s2 = return ?s3"
      using take_element_eq [of ?s2 ?p n] u2 n(1) by simp
    moreover have "skip_attrs (upcoming s) (length (?p @ n @ [NUL]))
        = return (length (?p @ n @ [NUL]) + length (enc_attrs as))"
      unfolding u3 by (rule skip_attrs_eq [OF n(2) \<open>stops rest\<close>])
    ultimately have "next_event s = return (True, ?s3\<lparr>attr_start := length (?p @ n @ [NUL]),
        upcoming_pos := length (?p @ n @ [NUL]) + length (enc_attrs as), state_of := START\<rparr>)"
      using assms(1) rem tag XStart by (simp add: next_event_def add_ac)
    moreover have "take (length n) (drop (length ?p) (upcoming s)) = n"
      "cstr (drop (length ?p) (upcoming s)) = n" unfolding u2 using cstr_append [OF n(1)] by simp_all
    moreover have "\<exists>q r. upcoming s = q @ enc_attrs as @ r \<and> length (?p @ n @ [NUL]) = length q \<and> stops r"
      using u3 \<open>stops rest\<close> by blast
    ultimately show ?thesis
      using XStart n up by (simp add: at_event_def elem_string_def)
  next
    case (XEnd l c)
    have u1: "upcoming s = (pre @ [ENC_END]) @ enc_position l c @ rest" using up XEnd by simp
    let ?s1 = "s\<lparr>upcoming_pos := upcoming_pos s + 1\<rparr>"
    have "pop_position ?s1 = return (s\<lparr>pos_line := l, pos_column := c, upcoming_pos := length pre + 9\<rparr>)"
      using pop_position_eq [of ?s1 "pre @ [ENC_END]" l c rest] u1 pos by simp
    then show ?thesis
      using assms(1) rem tag XEnd by (simp add: next_event_def at_event_def)
  next
    case (XText t l c)
    let ?p = "pre @ ENC_TEXT # enc_position l c"
    have u1: "upcoming s = (pre @ [ENC_TEXT]) @ enc_position l c @ t @ NUL # rest"
      and u2: "upcoming s = ?p @ t @ NUL # rest" using up XText by simp_all
    have t: "nul_free t" using ok XText by simp
    let ?s1 = "s\<lparr>upcoming_pos := upcoming_pos s + 1\<rparr>"
    let ?s2 = "s\<lparr>pos_line := l, pos_column := c, upcoming_pos := length (pre @ [ENC_TEXT]) + 8\<rparr>"
    have "pop_position ?s1 = return ?s2"
      using pop_position_eq [of ?s1 "pre @ [ENC_TEXT]" l c] u1 pos by simp
    moreover have "take_element ?s2 = return (?s2\<lparr>elem_start := length ?p, elem_len := length t,
        upcoming_pos := length ?p + length t + 1\<rparr>)"
      using take_element_eq [of ?s2 ?p t] u2 t by simp
    moreover have "take (length t) (drop (length ?p) (upcoming s)) = t"
      "cstr (drop (length ?p) (upcoming s)) = t" unfolding u2 using cstr_append [OF t] by simp_all
    ultimately show ?thesis
      using assms(1) rem tag XText by (simp add: next_event_def at_event_def elem_string_def)
  qed
qed

text \<open>
  The events that the parser will deliver and how the document ends: with \<open>None\<close> at its end,
  or with the exception of the first read that fails. The events of that read are lost, as the
  exception is thrown before they are delivered.
\<close>

definition chunk_failure :: "chunk \<Rightarrow> nat \<Rightarrow> exn option" where
  "chunk_failure c n =
     (case parse_chunk c ((expat_source [] c)\<lparr>consumed_bytes := n\<rparr>) of Inl e \<Rightarrow> Some e | Inr _ \<Rightarrow> None)"

definition chunk_events :: "chunk \<Rightarrow> xevent list" where
  "chunk_events c = map event_of (calls c)"

fun document :: "chunk list \<Rightarrow> chunk \<Rightarrow> nat \<Rightarrow> xevent list \<times> exn option" where
  "document [] fin n =
     (case chunk_failure fin n of Some e \<Rightarrow> ([], Some e) | None \<Rightarrow> (chunk_events fin, None))"
| "document (c # cs) fin n =
     (case chunk_failure c n of
        Some e \<Rightarrow> ([], Some e)
      | None \<Rightarrow> (chunk_events c @ fst (document cs fin (n + length (buf c))),
          snd (document cs fin (n + length (buf c)))))"

fun nul_free_call :: "callback \<times> u32 \<times> u32 \<Rightarrow> bool" where
  "nul_free_call (StartElement n as, l, c) = (nul_free n \<and> ok_attrs as)"
| "nul_free_call (CharacterData t, l, c) = nul_free t"
| "nul_free_call _ = True"

text \<open>What Expat promises: the strings it passes contain no NUL character.\<close>

definition nul_free_chunk :: "chunk \<Rightarrow> bool" where
  "nul_free_chunk c \<longleftrightarrow> list_all nul_free_call (calls c)"

lemma run_calls_entity:
  "list_all nul_free_call cs \<Longrightarrow> \<not> list_all ok_call cs \<Longrightarrow> \<exists>up'. run_calls cs up = return (up', True)"
  by (induction cs up rule: run_calls.induct) (auto simp: CharacterDataHandler_def)

lemma check_error_upcoming:
  "check_error (s\<lparr>upcoming := up\<rparr>) c = check_error s c"
  by (simp add: check_error_def entity_declaration_def malformed_def source_error_def)

lemma check_error_fields:
  assumes "bad_entity s = bad_entity t" "error_text s = error_text t" "consumed_bytes s = consumed_bytes t"
  shows "check_error s c = check_error t c"
  using assms by (simp add: check_error_def entity_declaration_def malformed_def source_error_def)

lemma check_error_bad: "bad_entity s \<Longrightarrow> \<exists>e. check_error s c = Inl e"
  by (cases "entity_declaration s c") (auto simp: check_error_def)

lemma parse_chunk_eq:
  assumes "nul_free_chunk c" and "error_text s = []" and "\<not> bad_entity s"
  shows "parse_chunk c s =
    (case chunk_failure c (consumed_bytes s) of
       Some e \<Rightarrow> throw e
     | None \<Rightarrow> return (s\<lparr>upcoming := upcoming s @ enc_all (chunk_events c),
         consumed_bytes := consumed_bytes s + length (buf c)\<rparr>))"
proof (cases "read_failure c")
  case (Some e)
  then show ?thesis by (simp add: parse_chunk_def chunk_failure_def)
next
  case None
  let ?b = "(expat_source [] c)\<lparr>consumed_bytes := consumed_bytes s\<rparr>"
  have b: "error_text ?b = []" "\<not> bad_entity ?b" "upcoming ?b = []" "consumed_bytes ?b = consumed_bytes s"
    by (simp_all add: expat_source_def)
  show ?thesis
  proof (cases "list_all ok_call (calls c)")
    case True
    let ?up = "enc_all (chunk_events c)"
    let ?s = "s\<lparr>upcoming := upcoming s @ ?up, bad_entity := False\<rparr>" and ?t = "?b\<lparr>upcoming := ?up, bad_entity := False\<rparr>"
    have ce: "check_error ?s c = check_error ?t c" by (rule check_error_fields) (use assms b in auto)
    have run: "run_calls (calls c) u = return (u @ ?up, False)" for u
      using run_calls_eq [OF True] by (simp add: chunk_events_def)
    have same: "?s\<lparr>consumed_bytes := k\<rparr> = s\<lparr>upcoming := upcoming s @ ?up, consumed_bytes := k\<rparr>" for k
      using assms(3) by (cases s) simp
    have ps: "parse_chunk c s = bind (check_error ?s c) (\<lambda>_. return (?s\<lparr>consumed_bytes := consumed_bytes s + length (buf c)\<rparr>))"
      using None assms(3) run by (simp add: parse_chunk_def Let_def)
    have "chunk_failure c (consumed_bytes s) = (case check_error ?t c of Inl e \<Rightarrow> Some e | Inr _ \<Rightarrow> None)"
      using None b run by (cases "check_error ?t c") (simp_all add: chunk_failure_def parse_chunk_def Let_def)
    then show ?thesis unfolding ps same ce by (cases "check_error ?t c") simp_all
  next
    case False
    obtain u w where r: "run_calls (calls c) (upcoming s) = return (u, True)" "run_calls (calls c) [] = return (w, True)"
      using run_calls_entity False assms(1) unfolding nul_free_chunk_def by metis
    have ce: "check_error (s\<lparr>upcoming := u, bad_entity := True\<rparr>) c = check_error (?b\<lparr>upcoming := w, bad_entity := True\<rparr>) c"
      by (rule check_error_fields) (use assms b in auto)
    obtain e where "check_error (s\<lparr>upcoming := u, bad_entity := True\<rparr>) c = Inl e"
      using check_error_bad [of "s\<lparr>upcoming := u, bad_entity := True\<rparr>" c] by auto
    then show ?thesis
      using None r b(3) ce by (simp add: parse_chunk_def chunk_failure_def Let_def)
  qed
qed

lemma chunk_events_ok:
  assumes "nul_free_chunk c" and "chunk_failure c n = None"
  shows "list_all ok_event (chunk_events c)"
proof -
  have "list_all ok_call (calls c)"
  proof (rule ccontr)
    assume "\<not> list_all ok_call (calls c)"
    then obtain up where r: "run_calls (calls c) [] = return (up, True)"
      using run_calls_entity assms(1) unfolding nul_free_chunk_def by metis
    let ?s = "(expat_source [] c)\<lparr>consumed_bytes := n, upcoming := up, bad_entity := True\<rparr>"
    obtain e where "check_error ?s c = Inl e" using check_error_bad [of ?s c] by auto
    then show False
      using assms(2) r by (auto simp: chunk_failure_def parse_chunk_def expat_source_def Let_def
          split: option.splits)
  qed
  moreover have "ok_call x \<Longrightarrow> ok_event (event_of x)" for x
    by (cases x rule: ok_call.cases) auto
  ultimately show ?thesis by (auto simp: chunk_events_def list_all_iff)
qed

text \<open>What is still to come: the decoded rest of the buffer, then the rest of the document.\<close>

definition pending :: "expat \<Rightarrow> xevent list \<Rightarrow> exn option \<Rightarrow> bool" where
  "pending s evs fin \<longleftrightarrow>
     error_text s = [] \<and> \<not> bad_entity s \<and> list_all nul_free_chunk (final_chunk s # chunks s) \<and>
     state_of s \<noteq> EOD \<and>
     (\<exists>pre buffered. upcoming_pos s = length pre \<and> list_all ok_event buffered \<and>
       (upcoming s = pre @ enc_all buffered @ [ENC_EOD] \<and> evs = buffered \<and> fin = None \<or>
        upcoming s = pre @ enc_all buffered \<and>
        evs = buffered @ fst (document (chunks s) (final_chunk s) (consumed_bytes s)) \<and>
        fin = snd (document (chunks s) (final_chunk s) (consumed_bytes s))))"

lemma enc_all_simps [simp]:
  "enc_all [] = []" "enc_all (ev # evs) = enc_event ev @ enc_all evs"
  by (simp_all add: enc_all_def)

lemma enc_event_not_Nil [simp]: "enc_event ev \<noteq> []"
  by (cases ev) simp_all

lemma enc_all_Nil [simp]: "enc_all evs = [] \<longleftrightarrow> evs = []"
  by (cases evs) simp_all

lemma stops_enc_all: "stops (enc_all evs @ [ENC_EOD])" "stops (enc_all evs)"
  by (cases evs; cases "hd evs"; simp add: stops_def)+

lemma feed_loop_spec:
  assumes "error_text s = []" "\<not> bad_entity s" "list_all nul_free_chunk (final_chunk s # cs)"
    "state_of s \<noteq> EOD" "upcoming s = []" "upcoming_pos s = 0"
  shows "case feed_loop cs s of
      Inl e \<Rightarrow> document cs (final_chunk s) (consumed_bytes s) = ([], Some e)
    | Inr s' \<Rightarrow> remaining s' \<and> state_of s' = state_of s \<and>
        pending s' (fst (document cs (final_chunk s) (consumed_bytes s)))
          (snd (document cs (final_chunk s) (consumed_bytes s)))"
  using assms
proof (induction cs arbitrary: s)
  case Nil
  show ?case
  proof (cases "chunk_failure (final_chunk s) (consumed_bytes s)")
    case (Some e)
    then show ?thesis using Nil by (simp add: parse_chunk_eq)
  next
    case None
    have "list_all ok_event (chunk_events (final_chunk s))"
      using chunk_events_ok [OF _ None] Nil.prems(3) by simp
    then show ?thesis using Nil None
      by (auto simp: parse_chunk_eq pending_def remaining_def)
  qed
next
  case (Cons c cs)
  show ?case
  proof (cases "chunk_failure c (consumed_bytes s)")
    case (Some e)
    then show ?thesis using Cons.prems by (simp add: parse_chunk_eq)
  next
    case None
    let ?s1 = "s\<lparr>upcoming := enc_all (chunk_events c), consumed_bytes := consumed_bytes s + length (buf c)\<rparr>"
    have p: "parse_chunk c s = return ?s1" using Cons.prems None by (simp add: parse_chunk_eq)
    show ?thesis
    proof (cases "chunk_events c = []")
      case True
      have doc: "document (c # cs) (final_chunk s) (consumed_bytes s)
          = document cs (final_chunk s) (consumed_bytes s + length (buf c))"
        using True None by simp
      have "feed_loop (c # cs) s = feed_loop cs ?s1" using True p by simp
      then show ?thesis
        unfolding doc using Cons.IH [of ?s1] Cons.prems True by (simp split: sum.splits)
    next
      case False
      have "list_all ok_event (chunk_events c)" using chunk_events_ok [OF _ None] Cons.prems(3) by simp
      then show ?thesis
        using False p None Cons.prems by (auto simp: pending_def remaining_def)
    qed
  qed
qed

lemma next_after_feed: "\<not> remaining s \<Longrightarrow> state_of s \<noteq> EOD \<Longrightarrow> feed s = Inr s' \<Longrightarrow> remaining s' \<Longrightarrow>
    state_of s' = state_of s \<Longrightarrow> next_event s = next_event s'"
  by (simp add: next_event_def)

lemma next_remaining:
  assumes "pending s evs fin" and "remaining s"
  shows "case evs of
      ev # evs' \<Rightarrow> (\<exists>s'. next_event s = return (True, s') \<and> at_event s' ev \<and> pending s' evs' fin)
    | [] \<Rightarrow> fin = None \<and> (\<exists>s'. next_event s = return (False, s') \<and> state_of s' = EOD)"
proof -
  obtain pre buffered where pos: "upcoming_pos s = length pre" and ok: "list_all ok_event buffered"
    and dis: "upcoming s = pre @ enc_all buffered @ [ENC_EOD] \<and> evs = buffered \<and> fin = None \<or>
      upcoming s = pre @ enc_all buffered \<and>
      evs = buffered @ fst (document (chunks s) (final_chunk s) (consumed_bytes s)) \<and>
      fin = snd (document (chunks s) (final_chunk s) (consumed_bytes s))"
    using assms(1) unfolding pending_def by blast
  obtain rest where up: "upcoming s = pre @ enc_all buffered @ rest" and rest: "rest = [] \<or> rest = [ENC_EOD]"
    using dis by force
  show ?thesis
  proof (cases buffered)
    case Nil
    then have "rest = [ENC_EOD]" using up rest assms(2) pos by (auto simp: remaining_def)
    then have "evs = []" "fin = None" using dis up Nil by auto
    moreover have "next_event s = return (False, s\<lparr>upcoming_pos := length pre + 1, state_of := EOD\<rparr>)"
      using assms Nil up \<open>rest = [ENC_EOD]\<close> pos
      by (simp add: next_event_def tag_def pending_def)
    ultimately show ?thesis by simp
  next
    case (Cons ev evs1)
    have "stops (enc_all evs1 @ rest)" using rest stops_enc_all by auto
    moreover have "upcoming s = pre @ enc_event ev @ (enc_all evs1 @ rest)" using up Cons by simp
    ultimately obtain s' where s': "next_event s = return (True, s')" "at_event s' ev"
      "upcoming s' = upcoming s" "upcoming_pos s' = length (pre @ enc_event ev)"
      "chunks s' = chunks s" "final_chunk s' = final_chunk s" "consumed_bytes s' = consumed_bytes s"
      "error_text s' = error_text s" "bad_entity s' = bad_entity s" "state_of s' \<noteq> EOD"
      using next_buffered [of s pre ev "enc_all evs1 @ rest"] assms(1) pos ok Cons
      by (auto simp: pending_def)
    obtain evs' where evs: "evs = ev # evs'"
      "upcoming s = (pre @ enc_event ev) @ enc_all evs1 @ [ENC_EOD] \<and> evs' = evs1 \<and> fin = None \<or>
       upcoming s = (pre @ enc_event ev) @ enc_all evs1 \<and>
       evs' = evs1 @ fst (document (chunks s) (final_chunk s) (consumed_bytes s)) \<and>
       fin = snd (document (chunks s) (final_chunk s) (consumed_bytes s))"
      using dis Cons by auto
    have "pending s' evs' fin"
      unfolding pending_def s'(3-9)
      using assms(1) ok Cons s'(10) evs(2)
      by (intro conjI exI [of _ "pre @ enc_event ev"] exI [of _ evs1]) (simp_all add: pending_def)
    then show ?thesis using evs(1) s'(1,2) by auto
  qed
qed

lemma next_law:
  assumes "pending s evs fin"
  shows "case evs of
      ev # evs' \<Rightarrow> (\<exists>s'. next_event s = return (True, s') \<and> at_event s' ev \<and> pending s' evs' fin)
    | [] \<Rightarrow> (case fin of
          None \<Rightarrow> (\<exists>s'. next_event s = return (False, s') \<and> state_of s' = EOD)
        | Some e \<Rightarrow> next_event s = throw e)"
proof (cases "remaining s")
  case True
  from next_remaining [OF assms True] show ?thesis by (auto split: list.splits)
next
  case False
  let ?d = "document (chunks s) (final_chunk s) (consumed_bytes s)"
  have full: "upcoming_pos s = length (upcoming s)" "evs = fst ?d" "fin = snd ?d"
    using assms False by (auto simp: pending_def remaining_def)
  have st: "state_of s \<noteq> EOD" using assms by (simp add: pending_def)
  let ?s0 = "s\<lparr>upcoming := [], upcoming_pos := 0\<rparr>"
  have f: "feed s = feed_loop (chunks s) ?s0" using full(1) by (simp add: feed_def)
  have spec: "case feed_loop (chunks s) ?s0 of
      Inl e \<Rightarrow> ?d = ([], Some e)
    | Inr s' \<Rightarrow> remaining s' \<and> state_of s' = state_of s \<and> pending s' (fst ?d) (snd ?d)"
  proof -
    have "error_text s = []" "\<not> bad_entity s" "list_all nul_free_chunk (final_chunk s # chunks s)"
      using assms by (simp_all add: pending_def)
    then show ?thesis using feed_loop_spec [of ?s0 "chunks s"] st by (simp split: sum.splits)
  qed
  show ?thesis
  proof (cases "feed_loop (chunks s) ?s0")
    case (Inl e)
    then show ?thesis using spec f full False st by (simp add: next_event_def)
  next
    case (Inr s')
    then have s': "remaining s'" "state_of s' = state_of s" "pending s' evs fin" using spec full by simp_all
    have "next_event s = next_event s'"
      using next_after_feed [OF False st _ s'(1,2)] f Inr by simp
    then show ?thesis using next_remaining [OF s'(3,1)] by (auto split: list.splits)
  qed
qed

text \<open>What a user of the accessors sees at an event.\<close>

definition observed :: "expat \<Rightarrow> xevent \<Rightarrow> bool" where
  "observed s ev \<longleftrightarrow>
     (case ev of
        XStart n as l c \<Rightarrow>
          state_of s = START \<and> line s = l \<and> column s = c + 1 \<and> name_of s = return n \<and> name_ptr s = return n \<and>
          (\<forall>k. nul_free k \<longrightarrow> attribute k s = return (case map_of as k of None \<Rightarrow> [] | Some v \<Rightarrow> v)) \<and>
          attributes [] s = return (foldl (\<lambda>m (k, v). map_insert k v m) [] as)
      | XEnd l c \<Rightarrow> state_of s = END \<and> line s = l \<and> column s = c + 1
      | XText t l c \<Rightarrow>
          state_of s = TEXT \<and> line s = l \<and> column s = c + 1 \<and> text_of s = return t \<and> text_ptr s = return t)"

lemma at_event_attribute:
  assumes "at_event s (XStart n as l c)" and "nul_free k"
  shows "attribute k s = return (case map_of as k of None \<Rightarrow> [] | Some v \<Rightarrow> v)"
  using assms by (auto simp: at_event_def attribute_def check_state_def attribute_loop_eq)

lemma at_event_attributes:
  assumes "at_event s (XStart n as l c)"
  shows "attributes acc s = return (foldl (\<lambda>m (k, v). map_insert k v m) acc as)"
  using assms by (auto simp: at_event_def attributes_def check_state_def attributes_loop_eq)

lemma at_event_observed: "at_event s ev \<Longrightarrow> observed s ev"
proof (cases ev)
  case (XStart n as l c)
  moreover assume "at_event s ev"
  ultimately show ?thesis
    using at_event_attribute [of s n "as" l c] at_event_attributes [of s n "as" l c]
    by (simp add: observed_def at_event_def line_def column_def name_of_def name_ptr_def check_state_def)
qed (simp_all add: observed_def at_event_def line_def column_def text_of_def text_ptr_def check_state_def)

lemma at_event_state:
  "at_event s (XStart n as l c) \<Longrightarrow> state_of s = START"
  "at_event s (XEnd l c) \<Longrightarrow> state_of s = END"
  "at_event s (XText t l c) \<Longrightarrow> state_of s = TEXT"
  "at_event s ev \<Longrightarrow> state_of s \<noteq> EOD"
  "at_event s ev \<Longrightarrow> state_of s \<noteq> INIT"
  by (auto simp: at_event_def split: xevent.splits)

text \<open>Where a move through the document arrives, given the events that are left.\<close>

definition arrived :: "expat result \<Rightarrow> xevent list \<Rightarrow> exn option \<Rightarrow> bool" where
  "arrived r evs fin \<longleftrightarrow>
     (case evs of
        ev # evs' \<Rightarrow> (\<exists>s'. r = Inr s' \<and> at_event s' ev \<and> pending s' evs' fin)
      | [] \<Rightarrow> (case fin of None \<Rightarrow> (\<exists>s'. r = Inr s' \<and> state_of s' = EOD) | Some e \<Rightarrow> r = Inl e))"

lemma advance_arrives: "pending s evs fin \<Longrightarrow> arrived (advance_event s) evs fin"
  using next_law [of s evs fin]
  by (auto simp: arrived_def advance_event_def split: list.splits option.splits)

lemma pending_initial:
  assumes "list_all nul_free_chunk (fin # cs)"
  shows "pending (expat_source cs fin) (fst (document cs fin 0)) (snd (document cs fin 0))"
  using assms unfolding pending_def expat_source_def
  by (auto intro!: exI [of _ "[]"])

fun nexts :: "nat \<Rightarrow> expat \<Rightarrow> expat result" where
  "nexts 0 s = return s"
| "nexts (Suc n) s = bind (advance_event s) (nexts n)"

lemma nexts_pending:
  "k < length evs \<Longrightarrow> pending s evs fin \<Longrightarrow>
   \<exists>s'. nexts (Suc k) s = return s' \<and> at_event s' (evs ! k) \<and> pending s' (drop (Suc k) evs) fin"
proof (induction k arbitrary: s evs)
  case 0
  then obtain ev evs' where "evs = ev # evs'" by (cases evs) auto
  then show ?case using advance_arrives [OF 0(2)] by (auto simp: arrived_def)
next
  case (Suc k)
  then obtain ev evs' where evs: "evs = ev # evs'" by (cases evs) auto
  then obtain s1 where "advance_event s = Inr s1" "pending s1 evs' fin"
    using advance_arrives [OF Suc.prems(2)] by (auto simp: arrived_def)
  then show ?case using Suc.IH [of evs' s1] Suc.prems(1) evs by simp
qed

lemma nexts_append: "nexts (n + m) s = bind (nexts n s) (nexts m)"
proof (induction n arbitrary: s)
  case (Suc n)
  then show ?case by (cases "advance_event s") simp_all
qed simp

text \<open>
  C6. Pulling events from a fresh source delivers the events of the document in order, each
  with the name, attributes, text and position that the parser reported, however the bytes are
  split into reads. After the last one the source is at the end of the document, or the
  exception of the read that failed is thrown.
\<close>

theorem expat_source_delivers:
  assumes "list_all nul_free_chunk (fin # cs)"
  shows "(\<forall>k < length (fst (document cs fin 0)).
      \<exists>s. nexts (Suc k) (expat_source cs fin) = return s \<and> observed s (fst (document cs fin 0) ! k)) \<and>
    (case snd (document cs fin 0) of
       None \<Rightarrow> (\<exists>s. nexts (Suc (length (fst (document cs fin 0)))) (expat_source cs fin) = return s \<and>
         state_of s = EOD)
     | Some e \<Rightarrow> nexts (Suc (length (fst (document cs fin 0)))) (expat_source cs fin) = throw e)"
proof -
  let ?s = "expat_source cs fin" and ?evs = "fst (document cs fin 0)" and ?f = "snd (document cs fin 0)"
  note p = pending_initial [OF assms]
  have "\<exists>s'. nexts (length ?evs) ?s = return s' \<and> pending s' [] ?f"
  proof (cases "?evs = []")
    case True
    then show ?thesis using p by simp
  next
    case False
    then obtain k where "length ?evs = Suc k" by (cases "length ?evs") auto
    then show ?thesis using nexts_pending [of k ?evs ?s ?f] p by auto
  qed
  then obtain s' where s': "nexts (length ?evs) ?s = return s'" "pending s' [] ?f" by blast
  have "nexts (Suc (length ?evs)) ?s = advance_event s'"
    using nexts_append [of "length ?evs" 1 ?s] s'(1) by (cases "advance_event s'") simp_all
  moreover have "\<forall>k < length ?evs. \<exists>s. nexts (Suc k) ?s = return s \<and> observed s (?evs ! k)"
    using nexts_pending [OF _ p] at_event_observed by blast
  ultimately show ?thesis
    using advance_arrives [OF s'(2)] unfolding arrived_def by (cases ?f) auto
qed

theorem expat_source_delivers_witness:
  "\<exists>s. nexts 2 (expat_source [\<lparr>read_failure = None, buf = ''<a x='', calls = [], status_ok = True,
        err_line = 0, err_column = 0, err_message = [], err_index = 0\<rparr>,
      \<lparr>read_failure = None, buf = ''<a/>'',
        calls = [(StartElement ''a'' [(''x'', ''y'')], 1, 0), (EndElement, 1, 9)], status_ok = True,
        err_line = 0, err_column = 0, err_message = [], err_index = 0\<rparr>]
      \<lparr>read_failure = None, buf = [], calls = [], status_ok = True,
        err_line = 0, err_column = 0, err_message = [], err_index = 0\<rparr>) = return s \<and>
    observed s (XEnd 1 9)"
proof -
  let ?c = "\<lparr>read_failure = None, buf = ''<a x='', calls = [], status_ok = True,
        err_line = 0, err_column = 0, err_message = [], err_index = 0\<rparr>"
  let ?d = "\<lparr>read_failure = None, buf = ''<a/>'',
        calls = [(StartElement ''a'' [(''x'', ''y'')], 1, 0), (EndElement, 1, 9)], status_ok = True,
        err_line = 0, err_column = 0, err_message = [], err_index = 0\<rparr>"
  let ?e = "\<lparr>read_failure = None, buf = [], calls = [], status_ok = True,
        err_line = 0, err_column = 0, err_message = [], err_index = 0\<rparr>"
  have nf: "list_all nul_free_chunk (?e # [?c, ?d])" by (simp add: nul_free_chunk_def)
  have "fst (document [?c, ?d] ?e 0) = [XStart ''a'' [(''x'', ''y'')] 1 0, XEnd 1 9]"
    by (simp add: chunk_failure_def parse_chunk_def chunk_events_def expat_source_def check_error_def Let_def)
  then show ?thesis using expat_source_delivers [OF nf] by (auto simp: numeral_2_eq_2 dest!: spec [of _ 1])
qed

section \<open>Moving over elements\<close>

text \<open>Well-formed content: elements with their content between the two tags, and text.\<close>

datatype xtree =
    XElem string "(string \<times> string) list" u32 u32 "xtree list" u32 u32
  | XTxt string u32 u32

primrec flatten :: "xtree \<Rightarrow> xevent list" where
  "flatten (XElem n as l c kids l' c') = XStart n as l c # concat (map flatten kids) @ [XEnd l' c']"
| "flatten (XTxt t l c) = [XText t l c]"

definition flattens :: "xtree list \<Rightarrow> xevent list" where
  "flattens ts = concat (map flatten ts)"

lemma flattens_simps [simp]:
  "flattens [] = []" "flattens (t # ts) = flatten t @ flattens ts"
  "flattens (ts @ us) = flattens ts @ flattens us"
  by (simp_all add: flattens_def)

lemma flatten_elem: "flatten (XElem n as l c kids l' c') = XStart n as l c # flattens kids @ [XEnd l' c']"
  by (simp add: flattens_def)

declare flatten.simps(1) [simp del]
declare flatten_elem [simp]

lemma arrived_Cons: "arrived r (ev # evs) fin \<Longrightarrow> \<exists>s. r = Inr s \<and> at_event s ev \<and> pending s evs fin"
  by (simp add: arrived_def)

definition skip_from :: "nat \<Rightarrow> expat result \<Rightarrow> expat result option" where
  "skip_from n r = (case r of Inl e \<Rightarrow> Some (Inl e) | Inr s \<Rightarrow> skip_nested n s)"

lemma skip_from_step:
  assumes "at_event s ev" and "n \<noteq> 0"
  shows "skip_from n (Inr s) =
    skip_from (case ev of XStart _ _ _ _ \<Rightarrow> n + 1 | XEnd _ _ \<Rightarrow> n - 1 | XText _ _ _ \<Rightarrow> n) (advance_event s)"
proof -
  have "skip_from m (advance_event s)
      = (case next_event s of Inl e \<Rightarrow> Some (Inl e) | Inr (b, s') \<Rightarrow> skip_nested m s')" for m
    by (cases "next_event s") (auto simp: skip_from_def advance_event_def split: prod.splits)
  then show ?thesis
    using assms at_event_state [of s]
    by (subst skip_from_def, subst sum.case, subst skip_nested.simps) (cases ev; simp)
qed

lemma skip_from_forest:
  "arrived r (flattens ts @ es) fin \<Longrightarrow> n \<noteq> 0 \<Longrightarrow> \<exists>r'. arrived r' es fin \<and> skip_from n r = skip_from n r'"
proof (induction "length (flattens ts)" arbitrary: ts es n r rule: less_induct)
  case less
  show ?case
  proof (cases ts)
    case Nil
    then show ?thesis using less.prems by auto
  next
    case (Cons t us)
    show ?thesis
    proof (cases t)
      case (XTxt x l c)
      then obtain s where s: "r = Inr s" "at_event s (XText x l c)" "pending s (flattens us @ es) fin"
        using arrived_Cons less.prems Cons by fastforce
      have "\<exists>r'. arrived r' es fin \<and> skip_from n (advance_event s) = skip_from n r'"
        using less.hyps [OF _ advance_arrives [OF s(3)] less.prems(2)] Cons XTxt by simp
      then show ?thesis using skip_from_step [OF s(2) less.prems(2)] s(1) by simp
    next
      case (XElem nm as l c kids l' c')
      then obtain s where s: "r = Inr s" "at_event s (XStart nm as l c)"
        "pending s (flattens kids @ XEnd l' c' # flattens us @ es) fin"
        using arrived_Cons less.prems Cons by fastforce
      obtain r1 where r1: "arrived r1 (XEnd l' c' # flattens us @ es) fin"
        "skip_from (n + 1) (advance_event s) = skip_from (n + 1) r1"
        using less.hyps [OF _ advance_arrives [OF s(3)], of "n + 1"] Cons XElem by auto
      then obtain s2 where s2: "r1 = Inr s2" "at_event s2 (XEnd l' c')" "pending s2 (flattens us @ es) fin"
        using arrived_Cons by blast
      have "\<exists>r'. arrived r' es fin \<and> skip_from n (advance_event s2) = skip_from n r'"
        using less.hyps [OF _ advance_arrives [OF s2(3)] less.prems(2)] Cons XElem by simp
      then show ?thesis
        using skip_from_step [OF s(2) less.prems(2)] skip_from_step [OF s2(2), of "n + 1"] r1(2) s2(1) s(1) by simp
    qed
  qed
qed

lemma skip_element:
  assumes "at_event s (XStart n as l c)" and "pending s (flattens kids @ XEnd l' c' # evs) fin"
  shows "\<exists>r. skip s = Some r \<and> arrived r evs fin"
proof -
  obtain r where r: "arrived r (XEnd l' c' # evs) fin" "skip_from 1 (advance_event s) = skip_from 1 r"
    using skip_from_forest [OF advance_arrives [OF assms(2)], of 1] by auto
  then obtain s1 where s1: "r = Inr s1" "at_event s1 (XEnd l' c')" "pending s1 evs fin"
    using arrived_Cons by blast
  have "skip s = skip_from 1 (advance_event s)"
    using at_event_state(1) [OF assms(1)] by (simp add: skip_def skip_from_def split: sum.split)
  also have "\<dots> = skip_from 0 (advance_event s1)" using r(2) s1(1) skip_from_step [OF s1(2), of 1] by simp
  also have "\<dots> = Some (advance_event s1)"
    by (simp add: skip_from_def skip_nested.simps split: sum.split)
  finally show ?thesis using advance_arrives [OF s1(3)] by blast
qed


lemma arrived_at: "arrived (Inr s) (ev # evs) fin \<longleftrightarrow> at_event s ev \<and> pending s evs fin"
  by (simp add: arrived_def)

lemma arrived_Nil: "arrived r [] fin \<longleftrightarrow> (case fin of None \<Rightarrow> (\<exists>s. r = Inr s \<and> state_of s = EOD) | Some e \<Rightarrow> r = Inl e)"
  by (simp add: arrived_def)

lemma next_advance:
  "(case next_event s of Inl e \<Rightarrow> Some (Inl e) | Inr (b, s') \<Rightarrow> f s')
     = (case advance_event s of Inl e \<Rightarrow> Some (Inl e) | Inr s' \<Rightarrow> f s')"
  by (auto simp: advance_event_def split: sum.split prod.split)

text \<open>Runs of text: the loops over \<open>TEXT\<close> stop at the first event that is no text.\<close>

fun is_text :: "xevent \<Rightarrow> bool" where
  "is_text (XText _ _ _) = True"
| "is_text _ = False"

fun text_data :: "xevent \<Rightarrow> string" where
  "text_data (XText t _ _) = t"
| "text_data _ = []"

lemma arrived_not_text: "arrived (Inr s) evs fin \<Longrightarrow> evs = [] \<or> \<not> is_text (hd evs) \<Longrightarrow> state_of s \<noteq> TEXT"
proof (cases evs)
  case (Cons ev evs')
  assume "arrived (Inr s) evs fin" "evs = [] \<or> \<not> is_text (hd evs)"
  then show ?thesis using Cons at_event_state [of s] by (cases ev) (auto simp: arrived_at)
qed (auto simp: arrived_def split: option.splits)

lemma skip_text_arrives:
  "pending s evs fin \<Longrightarrow> \<exists>r. skip_text s = Some r \<and> arrived r (dropWhile is_text evs) fin"
proof (induction evs arbitrary: s)
  case Nil
  then show ?case
    using advance_arrives [OF Nil] arrived_not_text [of _ "[]" fin]
    by (subst skip_text.simps, unfold next_advance) (auto split: sum.split)
next
  case (Cons ev evs)
  obtain s1 where s1: "advance_event s = Inr s1" "at_event s1 ev" "pending s1 evs fin"
    using advance_arrives [OF Cons.prems] arrived_Cons by blast
  show ?case
  proof (cases "is_text ev")
    case True
    then have "state_of s1 = TEXT" using at_event_state(3) s1(2) by (cases ev) auto
    then show ?thesis using Cons.IH [OF s1(3)] True s1(1) by (subst skip_text.simps, unfold next_advance) simp
  next
    case False
    then have "state_of s1 \<noteq> TEXT" using arrived_not_text [of s1 "ev # evs" fin] s1 by (simp add: arrived_at)
    then show ?thesis using False s1 by (subst skip_text.simps, unfold next_advance) (simp add: arrived_at)
  qed
qed

lemma text_loop_arrives:
  "arrived r evs fin \<Longrightarrow>
   \<exists>r'. arrived r' (dropWhile is_text evs) fin \<and>
     (case r of Inl e \<Rightarrow> Some (Inl e) | Inr s \<Rightarrow> text_loop s acc)
       = Some (bind r' (\<lambda>s'. return (acc @ concat (map text_data (takeWhile is_text evs)), s')))"
proof (induction evs arbitrary: r acc)
  case Nil
  then have "state_of s \<noteq> TEXT" if "r = Inr s" for s using arrived_not_text [of s "[]" fin] that by simp
  then show ?case using Nil by (intro exI [of _ r], cases r) (simp_all, subst text_loop.simps, simp)
next
  case (Cons ev evs)
  then obtain s where s: "r = Inr s" "at_event s ev" "pending s evs fin" using arrived_Cons by blast
  show ?case
  proof (cases ev)
    case (XText t l c)
    then have "state_of s = TEXT" "elem_string s = t" using s(2) by (auto simp: at_event_def)
    then show ?thesis
      using Cons.IH [OF advance_arrives [OF s(3)], of "acc @ t"] s(1) XText
      by (simp add: text_loop.simps [of s] next_advance cong: sum.case_cong)
  next
    case (XStart n as l c)
    then have "state_of s \<noteq> TEXT" using s(2) at_event_state(1) by force
    then show ?thesis using Cons.prems s(1) XStart by (simp add: text_loop.simps [of s] exI [of _ r])
  next
    case (XEnd l c)
    then have "state_of s \<noteq> TEXT" using s(2) at_event_state(2) by force
    then show ?thesis using Cons.prems s(1) XEnd by (simp add: text_loop.simps [of s] exI [of _ r])
  qed
qed

lemma text_and_next_arrives:
  assumes "at_event s (XText t l c)" and "pending s evs fin"
  shows "\<exists>r. arrived r (dropWhile is_text evs) fin \<and>
    text_and_next s = Some (bind r (\<lambda>s'. return (t @ concat (map text_data (takeWhile is_text evs)), s')))"
  using text_loop_arrives [of "Inr s" "XText t l c # evs" fin "[]"] assms at_event_state(3) [OF assms(1)]
  by (auto simp: arrived_at text_and_next_def check_state_def)

fun is_txt :: "xtree \<Rightarrow> bool" where
  "is_txt (XTxt _ _ _) = True"
| "is_txt _ = False"

lemma dropWhile_flattens:
  "dropWhile is_text (flattens ts @ XEnd l c # evs) = flattens (dropWhile is_txt ts) @ XEnd l c # evs"
proof (induction ts)
  case (Cons t ts)
  then show ?case by (cases t) simp_all
qed simp

text \<open>\<open>skip\<close> inside an element passes a run of text or a whole child.\<close>

lemma skip_child:
  assumes "arrived (Inr s) (flattens (t # ts) @ XEnd l c # evs) fin"
  obtains r us where "skip s = Some r" "arrived r (flattens us @ XEnd l c # evs) fin" "length us \<le> length ts"
proof (cases t)
  case (XTxt x l1 c1)
  then have s: "at_event s (XText x l1 c1)" "pending s (flattens ts @ XEnd l c # evs) fin"
    using assms by (simp_all add: arrived_at)
  obtain r where "skip_text s = Some r" "arrived r (flattens (dropWhile is_txt ts) @ XEnd l c # evs) fin"
    using skip_text_arrives [OF s(2)] dropWhile_flattens by metis
  then show ?thesis
    using that [of r "dropWhile is_txt ts"] at_event_state(3) [OF s(1)]
    by (simp add: skip_def length_dropWhile_le)
next
  case (XElem n as l1 c1 kids l2 c2)
  then show ?thesis
    using assms skip_element [of s n "as" l1 c1 kids l2 c2 "flattens ts @ XEnd l c # evs" fin] that [of _ ts]
    by (auto simp: arrived_at)
qed

lemma arrived_state: "arrived r (xs @ ev # evs) fin \<Longrightarrow> \<exists>s. r = Inr s"
  by (cases xs) (auto simp: arrived_def)

lemma unnest_loop_arrives:
  "arrived (Inr s) (flattens ts @ XEnd l c # evs) fin \<Longrightarrow> \<exists>r. unnest_loop s = Some r \<and> arrived r evs fin"
proof (induction "length ts" arbitrary: ts s rule: less_induct)
  case less
  show ?case
  proof (cases ts)
    case Nil
    then have "at_event s (XEnd l c)" "pending s evs fin" using less.prems by (simp_all add: arrived_at)
    then show ?thesis using at_event_state(2) advance_arrives by (subst unnest_loop.simps) simp
  next
    case (Cons t us)
    have "state_of s \<noteq> END"
      using less.prems Cons by (cases t) (auto simp: arrived_at at_event_def)
    moreover obtain r vs where r: "skip s = Some r" "arrived r (flattens vs @ XEnd l c # evs) fin"
      "length vs \<le> length us"
      using skip_child [of s t us l c evs fin] less.prems Cons by blast
    moreover obtain s1 where "r = Inr s1" using arrived_state [OF r(2)] by blast
    ultimately show ?thesis
      using less.hyps [of vs s1] Cons by (subst unnest_loop.simps) simp
  qed
qed

lemma unnest_arrives:
  assumes "arrived (Inr s) (flattens ts @ XEnd l c # evs) fin"
  shows "\<exists>r. unnest s = Some r \<and> arrived r evs fin"
proof -
  have "state_of s \<noteq> EOD"
    using assms at_event_state(4) [of s] by (auto simp: arrived_def split: list.splits)
  then show ?thesis using unnest_loop_arrives [OF assms] by (simp add: unnest_def)
qed


definition lands :: "expat result \<Rightarrow> xevent list \<Rightarrow> exn option \<Rightarrow> bool" where
  "lands r evs fin \<longleftrightarrow>
     (case evs of
        ev # _ \<Rightarrow> (\<exists>s. r = return s \<and> observed s ev)
      | [] \<Rightarrow> (case fin of None \<Rightarrow> (\<exists>s. r = return s \<and> state_of s = EOD) | Some e \<Rightarrow> r = throw e))"

lemma arrived_lands: "arrived r evs fin \<Longrightarrow> lands r evs fin"
  using at_event_observed by (cases evs) (auto simp: arrived_def lands_def)

text \<open>
  C23. At a start tag, \<open>skip\<close> returns and stands behind the matching end tag, however deeply
  the content is nested; after entering the element, \<open>unnest\<close> returns and stands at the same
  place. If the input fails behind the element, both report the failure.
\<close>

theorem expat_skip_unnest:
  assumes "list_all nul_free_chunk (fin # cs)"
    and "document cs fin 0 = (before @ XStart n as l c # flattens kids @ XEnd l' c' # after, f)"
    and "nexts (Suc (length before)) (expat_source cs fin) = return s"
  shows "(\<exists>r. skip s = Some r \<and> lands r after f) \<and>
    (\<exists>s1 r. advance_event s = return s1 \<and> unnest s1 = Some r \<and> lands r after f)"
proof -
  have p: "pending (expat_source cs fin) (before @ XStart n as l c # flattens kids @ XEnd l' c' # after) f"
    using pending_initial [OF assms(1)] assms(2) by simp
  have s: "at_event s (XStart n as l c)" "pending s (flattens kids @ XEnd l' c' # after) f"
    using nexts_pending [OF _ p, of "length before"] assms(3) by (simp_all del: nexts.simps)
  obtain s1 where s1: "advance_event s = Inr s1" "arrived (Inr s1) (flattens kids @ XEnd l' c' # after) f"
    using advance_arrives [OF s(2)] arrived_state by fastforce
  show ?thesis
    using skip_element [OF s] unnest_arrives [OF s1(2)] s1(1) arrived_lands by blast
qed

theorem expat_skip_unnest_witness:
  "\<exists>s1. nexts 1 (expat_source [] \<lparr>read_failure = None, buf = ''<a><b/></a>'',
        calls = [(StartElement ''a'' [], 1, 0), (StartElement ''b'' [], 1, 3), (EndElement, 1, 3), (EndElement, 1, 7)],
        status_ok = True, err_line = 0, err_column = 0, err_message = [], err_index = 0\<rparr>) = return s1 \<and>
     (\<exists>r. skip s1 = Some r \<and> lands r [] None)"
proof -
  let ?d = "\<lparr>read_failure = None, buf = ''<a><b/></a>'',
        calls = [(StartElement ''a'' [], 1, 0), (StartElement ''b'' [], 1, 3), (EndElement, 1, 3), (EndElement, 1, 7)],
        status_ok = True, err_line = 0, err_column = 0, err_message = [], err_index = 0\<rparr>"
  have nf: "list_all nul_free_chunk (?d # [])" by (simp add: nul_free_chunk_def)
  have doc: "document [] ?d 0 = ([] @ XStart ''a'' [] 1 0 # flattens [XElem ''b'' [] 1 3 [] 1 3] @ XEnd 1 7 # [], None)"
    by (simp add: chunk_failure_def parse_chunk_def chunk_events_def expat_source_def check_error_def Let_def
        StartElementHandler_def EndElementHandler_def append_cstr_def push_position_def)
  obtain s where s: "nexts (Suc (length ([] :: xevent list))) (expat_source [] ?d) = return s"
    using nexts_pending [of 0 _ "expat_source [] ?d"] pending_initial [OF nf] doc by fastforce
  then have "nexts 1 (expat_source [] ?d) = return s" by simp
  then show ?thesis using expat_skip_unnest [OF nf doc s] by blast
qed

text \<open>
  The loop of \<open>unnest\<close> has no exit at the end of the document: called at the start tag of the
  root element, or anywhere behind the last end tag that is still open, it never returns.
\<close>

lemma unnest_loop_at_end_diverges: "state_of s = EOD \<Longrightarrow> unnest_loop s = None"
proof -
  have "unnest_loop s = Some r \<Longrightarrow> state_of s \<noteq> EOD" for r
    by (erule unnest_loop.raw_induct [rotated]) (auto simp: skip_def split: if_splits)
  then show "state_of s = EOD \<Longrightarrow> unnest_loop s = None" by (cases "unnest_loop s") auto
qed

lemma unnest_at_root_diverges:
  assumes "at_event s (XStart n as l c)" and "pending s (flattens kids @ [XEnd l' c']) None"
  shows "unnest s = None"
proof -
  obtain s1 where "skip s = Some (Inr s1)" "state_of s1 = EOD"
    using skip_element [OF assms] by (auto simp: arrived_def)
  then show ?thesis
    using at_event_state(1) [OF assms(1)] unnest_loop_at_end_diverges [of s1]
    by (subst unnest_def, subst unnest_loop.simps) simp
qed

end
