(* ===== verification/Minidom.thy ===== *)
theory Minidom
  imports Expat
begin

text \<open>
  The element tree of \<open>expat_minidom.cpp\<close>: the parser that builds a tree from the events of a
  source with an explicit stack, and the two accessors. The code links a child to its parent
  when the child is opened; the model links it when the child is closed, which gives the same
  tree once the parser returns, the only moment at which the tree can be seen.
\<close>

section \<open>Nodes\<close>

datatype node =
    Text string
  | Element string "(string \<times> string) list" "node list"

fun push_child :: "node \<Rightarrow> node \<Rightarrow> node" where
  "push_child n (Element nm as children) = Element nm as (children @ [n])"
| "push_child n (Text d) = Text d"

fun first_child_loop :: "string \<Rightarrow> node list \<Rightarrow> node option" where
  "first_child_loop nm [] = None"
| "first_child_loop nm (Element n as children # ps) =
     (if n = cstr nm then Some (Element n as children) else first_child_loop nm ps)"
| "first_child_loop nm (Text d # ps) = first_child_loop nm ps"

fun first_child :: "string \<Rightarrow> node \<Rightarrow> node option" where
  "first_child nm (Element _ _ children) = first_child_loop nm children"
| "first_child nm (Text _) = None"

fun element_text_loop :: "node list \<Rightarrow> string \<Rightarrow> string" where
  "element_text_loop [] r = r"
| "element_text_loop (Text d # ps) r = element_text_loop ps (r @ d)"
| "element_text_loop (Element _ _ _ # ps) r = element_text_loop ps r"

fun element_text :: "node \<Rightarrow> string" where
  "element_text (Element _ _ children) = element_text_loop children []"
| "element_text (Text _) = []"

section \<open>Parsing\<close>

partial_function (option) dom_text_loop :: "expat \<Rightarrow> string \<Rightarrow> (string \<times> expat) run" where
  "dom_text_loop s d =
     (if state_of s = TEXT then
        andthen (Some (text_ptr s)) (\<lambda>t.
        andthen (Some (advance_event s)) (\<lambda>s'. dom_text_loop s' (d @ t)))
      else Some (return (d, s)))"

text \<open>
  The loop of \<open>parse\<close>; the head of the list is the back of the stack. An access to the back of
  an empty stack is undefined.
\<close>

partial_function (option) dom_loop :: "node list \<Rightarrow> expat \<Rightarrow> (node \<times> expat) run" where
  "dom_loop stack s =
     (if state_of s = START then
        andthen (Some (name_ptr s)) (\<lambda>n.
        andthen (Some (attributes [] s)) (\<lambda>as.
        andthen (Some (advance_event s)) (\<lambda>s'. dom_loop (Element n as [] # stack) s')))
      else if state_of s = END then
        andthen (Some (advance_event s)) (\<lambda>s'.
          (case stack of
             [] \<Rightarrow> Some (throw (Undefined_behaviour ''pop of an empty stack''))
           | e # parents \<Rightarrow>
               (case parents of
                  [] \<Rightarrow> Some (return (e, s'))
                | p # rest \<Rightarrow> dom_loop (push_child e p # rest) s')))
      else
        (case stack of
           [] \<Rightarrow> Some (throw (Undefined_behaviour ''back of an empty stack''))
         | e # parents \<Rightarrow>
             andthen (dom_text_loop s []) (\<lambda>r. dom_loop (push_child (Text (fst r)) e # parents) (snd r))))"

definition parse_dom :: "expat \<Rightarrow> (node \<times> expat) run" where
  "parse_dom s =
     andthen (if state_of s = INIT then Some (advance_event s) else Some (return s)) (\<lambda>s.
     andthen (Some (name_of s)) (\<lambda>_. dom_loop [] s))"

section \<open>The tree of an element\<close>

text \<open>
  What the tree of an element should be: its children in order, with neighbouring pieces of
  text joined, since the parser may report a text in several pieces.
\<close>

fun join_text :: "node list \<Rightarrow> node list" where
  "join_text (Text a # Text b # ns) = join_text (Text (a @ b) # ns)"
| "join_text (n # ns) = n # join_text ns"
| "join_text [] = []"

definition attributes_of :: "(string \<times> string) list \<Rightarrow> (string \<times> string) list" where
  "attributes_of as = foldl (\<lambda>m (k, v). map_insert k v m) [] as"

primrec dom :: "xtree \<Rightarrow> node" where
  "dom (XElem n as l c kids l' c') = Element n (attributes_of as) (join_text (map dom kids))"
| "dom (XTxt t l c) = Text t"

fun txt_data :: "xtree \<Rightarrow> string" where
  "txt_data (XTxt t _ _) = t"
| "txt_data (XElem _ _ _ _ _ _ _) = []"

lemma join_text_run:
  "join_text (Text a # map dom ts) =
     Text (a @ concat (map txt_data (takeWhile is_txt ts))) # join_text (map dom (dropWhile is_txt ts))"
proof (induction ts arbitrary: a)
  case (Cons t ts)
  then show ?case by (cases t) simp_all
qed simp

lemma text_run_flattens:
  "concat (map text_data (takeWhile is_text (flattens ts @ XEnd l c # es)))
     = concat (map txt_data (takeWhile is_txt ts))"
proof (induction ts)
  case (Cons t ts)
  then show ?case by (cases t) simp_all
qed simp

lemma dom_text_loop_eq:
  "arrived r evs fin \<Longrightarrow>
   \<exists>r'. arrived r' (dropWhile is_text evs) fin \<and>
     andthen (Some r) (\<lambda>s. dom_text_loop s d)
       = Some (bind r' (\<lambda>s'. return (d @ concat (map text_data (takeWhile is_text evs)), s')))"
proof (induction evs arbitrary: r d)
  case Nil
  then have "state_of s \<noteq> TEXT" if "r = Inr s" for s using arrived_not_text [of s "[]" fin] that by simp
  then show ?case using Nil by (intro exI [of _ r], cases r) (simp_all, subst dom_text_loop.simps, simp)
next
  case (Cons ev evs)
  then obtain s where s: "r = Inr s" "at_event s ev" "pending s evs fin" using arrived_Cons by blast
  show ?case
  proof (cases "is_text ev")
    case True
    then obtain t l c where ev: "ev = XText t l c" by (cases ev) auto
    then have "state_of s = TEXT" "text_ptr s = return t"
      using s(2) at_event_observed [OF s(2)] by (auto simp: observed_def)
    then show ?thesis
      using Cons.IH [OF advance_arrives [OF s(3)], of "d @ t"] s(1) ev
      by (simp add: dom_text_loop.simps [of s])
  next
    case False
    then have "state_of s \<noteq> TEXT" using arrived_not_text [of s "ev # evs" fin] Cons.prems s(1) by simp
    then show ?thesis using Cons.prems s(1) False by (simp add: dom_text_loop.simps [of s] exI [of _ r])
  qed
qed

text \<open>Reading the text at the start of an element and leaving the element.\<close>

fun leading_text :: "xtree list \<Rightarrow> string option" where
  "leading_text (XTxt t l c # ts) = Some (t @ concat (map txt_data (takeWhile is_txt ts)))"
| "leading_text _ = None"

lemma enter_element:
  assumes "at_event s (XStart n as l c)" and "pending s (flattens kids @ XEnd l' c' # evs) fin"
  shows "\<exists>s1. advance_event s = Inr s1 \<and>
    (case leading_text kids of
       None \<Rightarrow> state_of s1 \<noteq> TEXT \<and> (\<exists>r. unnest s1 = Some r \<and> arrived r evs fin)
     | Some t \<Rightarrow> state_of s1 = TEXT \<and>
         (\<exists>s2 r. text_and_next s1 = Some (Inr (t, s2)) \<and> unnest s2 = Some r \<and> arrived r evs fin))"
proof -
  obtain s1 where s1: "advance_event s = Inr s1" "arrived (Inr s1) (flattens kids @ XEnd l' c' # evs) fin"
    using advance_arrives [OF assms(2)] arrived_state by fastforce
  show ?thesis
  proof (cases "leading_text kids")
    case None
    then have "state_of s1 \<noteq> TEXT"
      using s1(2) arrived_not_text by (cases kids rule: leading_text.cases) fastforce+
    then show ?thesis using unnest_arrives [OF s1(2)] s1(1) None by auto
  next
    case (Some t)
    then obtain x l1 c1 ts where kids: "kids = XTxt x l1 c1 # ts"
      "t = x @ concat (map txt_data (takeWhile is_txt ts))" by (cases kids rule: leading_text.cases) auto
    then have at: "at_event s1 (XText x l1 c1)" "pending s1 (flattens ts @ XEnd l' c' # evs) fin"
      using s1(2) by (simp_all add: arrived_at)
    obtain r where r: "arrived r (flattens (dropWhile is_txt ts) @ XEnd l' c' # evs) fin"
      "text_and_next s1 = Some (bind r (\<lambda>s'. return (t, s')))"
      using text_and_next_arrives [OF at] dropWhile_flattens text_run_flattens kids(2) by metis
    then obtain s2 where s2: "r = Inr s2" using arrived_state by blast
    obtain r' where "unnest s2 = Some r'" "arrived r' evs fin" using unnest_arrives r(1) s2 by blast
    then show ?thesis using r s2 s1(1) at_event_state(3) [OF at(1)] Some by auto
  qed
qed

text \<open>The content of an element is appended to the element on top of the stack.\<close>

abbreviation dom_from :: "node list \<Rightarrow> expat result \<Rightarrow> (node \<times> expat) run" where
  "dom_from stack r \<equiv> andthen (Some r) (dom_loop stack)"

lemma dom_from_text:
  assumes "arrived r (flattens (XTxt t l1 c1 # ts) @ XEnd l c # es) fin"
  shows "\<exists>r'. arrived r' (flattens (dropWhile is_txt ts) @ XEnd l c # es) fin \<and>
    dom_from (e # stack) r
      = dom_from (push_child (Text (t @ concat (map txt_data (takeWhile is_txt ts)))) e # stack) r'"
proof -
  obtain s where s: "r = Inr s" "at_event s (XText t l1 c1)" using assms arrived_Cons by fastforce
  have "state_of s = TEXT" using at_event_state(3) [OF s(2)] .
  moreover obtain r' where "arrived r' (flattens (dropWhile is_txt ts) @ XEnd l c # es) fin"
    "dom_text_loop s [] = Some (bind r' (\<lambda>s'. return (t @ concat (map txt_data (takeWhile is_txt ts)), s')))"
    using dom_text_loop_eq [OF assms, of "[]"] s(1) dropWhile_flattens [of "XTxt t l1 c1 # ts" l c es]
      text_run_flattens [of "XTxt t l1 c1 # ts" l c es] by auto
  ultimately show ?thesis
    using s(1) by (intro exI [of _ r'], cases r') (simp_all add: dom_loop.simps [of _ s])
qed

lemma dom_from_start:
  assumes "at_event s (XStart n as l c)"
  shows "dom_from stack (Inr s) = dom_from (Element n (attributes_of as) [] # stack) (advance_event s)"
  using at_event_observed [OF assms]
  by (simp add: dom_loop.simps [of _ s] observed_def attributes_of_def)

lemma dom_from_end:
  assumes "at_event s (XEnd l c)"
  shows "dom_from (e # p # stack) (Inr s) = dom_from (push_child e p # stack) (advance_event s)"
    and "dom_from [e] (Inr s) = Some (bind (advance_event s) (\<lambda>s'. return (e, s')))"
  using at_event_state(2) [OF assms]
  by (cases "advance_event s"; simp add: dom_loop.simps [of _ s])+

lemma dom_from_content:
  "arrived r (flattens ts @ XEnd l c # es) fin \<Longrightarrow>
   \<exists>r'. arrived r' (XEnd l c # es) fin \<and>
     dom_from (Element n as cs # stack) r = dom_from (Element n as (cs @ join_text (map dom ts)) # stack) r'"
proof (induction "length (flattens ts)" arbitrary: ts l c es r n "as" cs stack rule: less_induct)
  case less
  show ?case
  proof (cases ts)
    case Nil
    then show ?thesis using less.prems by auto
  next
    case (Cons t us)
    show ?thesis
    proof (cases t)
      case (XTxt x l1 c1)
      let ?vs = "dropWhile is_txt us" and ?x = "x @ concat (map txt_data (takeWhile is_txt us))"
      obtain r1 where r1: "arrived r1 (flattens ?vs @ XEnd l c # es) fin"
        "dom_from (Element n as cs # stack) r = dom_from (Element n as (cs @ [Text ?x]) # stack) r1"
        using dom_from_text less.prems Cons XTxt by (metis push_child.simps(1))
      have "flattens us = flattens (takeWhile is_txt us) @ flattens ?vs" by (metis flattens_simps(3) takeWhile_dropWhile_id)
      then have "length (flattens ?vs) < length (flattens ts)" using Cons XTxt by simp
      then show ?thesis
        using less.hyps [OF _ r1(1), of n "as" "cs @ [Text ?x]" stack] r1(2) Cons XTxt join_text_run [of x us] by simp
    next
      case (XElem nm ats l1 c1 kids l2 c2)
      then obtain s where s: "r = Inr s" "at_event s (XStart nm ats l1 c1)"
        "pending s (flattens kids @ XEnd l2 c2 # flattens us @ XEnd l c # es) fin"
        using less.prems Cons arrived_Cons by fastforce
      let ?parent = "Element n as cs" and ?e = "Element nm (attributes_of ats) (join_text (map dom kids))"
      obtain r1 where r1: "arrived r1 (XEnd l2 c2 # flattens us @ XEnd l c # es) fin"
        "dom_from (Element nm (attributes_of ats) [] # ?parent # stack) (advance_event s) = dom_from (?e # ?parent # stack) r1"
        using less.hyps [OF _ advance_arrives [OF s(3)], of nm "attributes_of ats" "[]" "?parent # stack"] Cons XElem
        by auto
      then obtain s2 where s2: "r1 = Inr s2" "at_event s2 (XEnd l2 c2)" "pending s2 (flattens us @ XEnd l c # es) fin"
        using arrived_Cons by blast
      have "dom_from (?parent # stack) r = dom_from (Element n as (cs @ [?e]) # stack) (advance_event s2)"
        using s(1) dom_from_start [OF s(2)] r1(2) s2(1) dom_from_end(1) [OF s2(2)] by simp
      then show ?thesis
        using less.hyps [OF _ advance_arrives [OF s2(3)], of n "as" "cs @ [?e]" stack] Cons XElem by simp
    qed
  qed
qed

lemma dom_loop_element:
  assumes "at_event s (XStart n as l c)" and "pending s (flattens kids @ XEnd l' c' # evs) fin"
  shows "\<exists>r. dom_loop [] s = Some (bind r (\<lambda>s'. return (dom (XElem n as l c kids l' c'), s'))) \<and>
    arrived r evs fin"
proof -
  obtain r where r: "arrived r (XEnd l' c' # evs) fin" "dom_from [] (Inr s) = dom_from [dom (XElem n as l c kids l' c')] r"
    using dom_from_content [OF advance_arrives [OF assms(2)], of n "attributes_of as" "[]" "[]"]
      dom_from_start [OF assms(1), of "[]"] by auto
  then obtain s1 where s1: "r = Inr s1" "at_event s1 (XEnd l' c')" "pending s1 evs fin"
    using arrived_Cons by blast
  then show ?thesis
    using r(2) dom_from_end(2) [OF s1(2)] advance_arrives [OF s1(3)] by auto
qed

lemma element_text_loop_eq: "element_text_loop ns r = r @ concat (map (\<lambda>n. case n of Text d \<Rightarrow> d | _ \<Rightarrow> []) ns)"
  by (induction ns r rule: element_text_loop.induct) simp_all

lemma element_text_join: "element_text_loop (join_text ns) [] = element_text_loop ns []"
  by (induction ns rule: join_text.induct) (simp_all add: element_text_loop_eq)

lemma element_text_dom: "element_text (dom (XElem n as l c kids l' c')) = concat (map txt_data kids)"
proof -
  have "(case dom k of Text d \<Rightarrow> d | _ \<Rightarrow> []) = txt_data k" for k by (cases k) simp_all
  then show ?thesis by (simp add: element_text_join) (simp add: element_text_loop_eq comp_def)
qed

definition is_named :: "string \<Rightarrow> node \<Rightarrow> bool" where
  "is_named nm n = (case n of Element m _ _ \<Rightarrow> m = cstr nm | Text _ \<Rightarrow> False)"

lemma first_child_find: "first_child_loop nm ns = List.find (is_named nm) ns"
  by (induction nm ns rule: first_child_loop.induct) (simp_all add: is_named_def)

lemma parse_dom_document:
  assumes "list_all nul_free_chunk (fin # cs)"
    and "document cs fin 0 = (flatten (XElem n as l c kids l' c') @ after, f)"
  shows "\<exists>r. lands r after f \<and>
    parse_dom (expat_source cs fin) = Some (bind r (\<lambda>s. return (dom (XElem n as l c kids l' c'), s)))"
proof -
  let ?s = "expat_source cs fin"
  have "pending ?s (XStart n as l c # flattens kids @ XEnd l' c' # after) f"
    using pending_initial [OF assms(1)] assms(2) by simp
  then obtain s where s: "advance_event ?s = Inr s" "at_event s (XStart n as l c)"
    "pending s (flattens kids @ XEnd l' c' # after) f"
    using advance_arrives arrived_Cons by blast
  have "state_of ?s = INIT" by (simp add: expat_source_def)
  moreover have "name_of s = return n" using at_event_observed [OF s(2)] by (simp add: observed_def)
  ultimately show ?thesis
    using dom_loop_element [OF s(2,3)] s(1) arrived_lands by (auto simp: parse_dom_def)
qed

lemma parse_dom_root:
  assumes "list_all nul_free_chunk (fin # cs)"
    and "document cs fin 0 = (flatten (XElem n as l c kids l' c'), f)"
  shows "case f of
      None \<Rightarrow> \<exists>s. parse_dom (expat_source cs fin) = Some (return (dom (XElem n as l c kids l' c'), s))
    | Some e \<Rightarrow> parse_dom (expat_source cs fin) = Some (throw e)"
  using parse_dom_document [OF assms(1), of n "as" l c kids l' c' "[]" f] assms(2)
  by (auto simp: lands_def split: option.split)

text \<open>
  C20. On a document whose content is one element (a well-formed document without what comes
  after the root), the parser returns the tree of that element: its name, its attributes and
  its children in order with neighbouring text joined, and the source stands behind the
  element. If the read behind the element fails, its exception is thrown instead.
\<close>

theorem minidom_parse:
  assumes "list_all nul_free_chunk (fin # cs)"
    and "document cs fin 0 = (flatten (XElem n as l c kids l' c') @ after, f)"
  shows "\<exists>r. lands r after f \<and>
    parse_dom (expat_source cs fin) = Some (bind r (\<lambda>s. return (dom (XElem n as l c kids l' c'), s)))"
  using assms by (rule parse_dom_document)

theorem minidom_parse_witness:
  "\<exists>r. lands r [] None \<and> parse_dom (expat_source [] \<lparr>read_failure = None, buf = ''<a>xy</a>'',
        calls = [(StartElement ''a'' [(''k'', ''v'')], 1, 0), (CharacterData ''x'', 1, 3), (CharacterData ''y'', 1, 4),
          (EndElement, 1, 5)],
        status_ok = True, err_line = 0, err_column = 0, err_message = [], err_index = 0\<rparr>)
     = Some (bind r (\<lambda>s. return (Element ''a'' [(''k'', ''v'')] [Text ''xy''], s)))"
proof -
  let ?d = "\<lparr>read_failure = None, buf = ''<a>xy</a>'',
        calls = [(StartElement ''a'' [(''k'', ''v'')], 1, 0), (CharacterData ''x'', 1, 3), (CharacterData ''y'', 1, 4),
          (EndElement, 1, 5)],
        status_ok = True, err_line = 0, err_column = 0, err_message = [], err_index = 0\<rparr>"
  let ?e = "XElem ''a'' [(''k'', ''v'')] 1 0 [XTxt ''x'' 1 3, XTxt ''y'' 1 4] 1 5"
  have nf: "list_all nul_free_chunk (?d # [])" by (simp add: nul_free_chunk_def)
  have doc: "document [] ?d 0 = (flatten ?e @ [], None)"
    by (simp add: chunk_failure_def parse_chunk_def chunk_events_def expat_source_def check_error_def Let_def
        StartElementHandler_def EndElementHandler_def CharacterDataHandler_def append_cstr_def push_position_def)
  have "dom ?e = Element ''a'' [(''k'', ''v'')] [Text ''xy'']"
    by (simp add: attributes_of_def map_insert_def)
  then show ?thesis using minidom_parse [OF nf doc] by simp
qed

end
