(* ===== verification/Maven_url.thy ===== *)
theory Maven_url
  imports Minidom
begin

text \<open>
  The extraction of URLs from Maven project files in \<open>maven_url.cpp\<close>. The URLs found are kept
  when the document turns out to be malformed later: the operations return the list of URLs
  together with the outcome.
\<close>

section \<open>Model\<close>

datatype kind =
    other | repository | pluginRepository | snapshotRepository | distributionManagement
  | downloadUrl | site | scm | connection | developerConnection

record maven_url =
  url :: string
  url_type :: kind

text \<open>The exception of \<open>to_string\<close> is for values outside the enumeration.\<close>

fun to_string :: "kind \<Rightarrow> string" where
  "to_string other = ''other''"
| "to_string repository = ''repository''"
| "to_string pluginRepository = ''pluginRepository''"
| "to_string snapshotRepository = ''snapshotRepository''"
| "to_string distributionManagement = ''distributionManagement''"
| "to_string scm = ''scm''"
| "to_string downloadUrl = ''downloadUrl''"
| "to_string site = ''site''"
| "to_string connection = ''connection''"
| "to_string developerConnection = ''developerConnection''"

definition classify :: "string \<Rightarrow> kind" where
  "classify str =
     (if str = ''repository'' then repository
      else if str = ''pluginRepository'' then pluginRepository
      else if str = ''snapshotRepository'' then snapshotRepository
      else if str = ''distributionManagement'' then distributionManagement
      else if str = ''scm'' then scm
      else other)"

definition leave_url :: "maven_url list \<Rightarrow> expat \<Rightarrow> (maven_url list \<times> expat result) option" where
  "leave_url res s = (case unnest s of None \<Rightarrow> None | Some r \<Rightarrow> Some (res, r))"

definition extract_as :: "kind \<Rightarrow> expat \<Rightarrow> maven_url list \<Rightarrow> (maven_url list \<times> expat result) option" where
  "extract_as type s res =
     (case advance_event s of
        Inl e \<Rightarrow> Some (res, Inl e)
      | Inr s1 \<Rightarrow>
          if state_of s1 = TEXT then
            (case text_and_next s1 of
               None \<Rightarrow> None
             | Some (Inl e) \<Rightarrow> Some (res, Inl e)
             | Some (Inr (t, s2)) \<Rightarrow> leave_url (res @ [\<lparr>url = strip t, url_type = type\<rparr>]) s2)
          else leave_url res s1)"

fun enclosing_kind :: "string list \<Rightarrow> kind" where
  "enclosing_kind [] = other"
| "enclosing_kind (t # ts) = (if classify (cstr t) \<noteq> other then classify (cstr t) else enclosing_kind ts)"

text \<open>Which kind of URL the element holds, if any, given the elements around it.\<close>

definition text_kind :: "string \<Rightarrow> string list \<Rightarrow> kind option" where
  "text_kind tg tags =
     (if tg = ''downloadUrl'' then Some downloadUrl
      else if tg = ''connection'' then Some connection
      else if tg = ''developerConnection'' then Some developerConnection
      else if tg = ''url'' then
        if tags \<noteq> [] \<and> List.last tags = ''site'' then Some site else Some (enclosing_kind tags)
      else None)"

definition extract_text_contents ::
    "expat \<Rightarrow> string list \<Rightarrow> maven_url list \<Rightarrow> (maven_url list \<times> (bool \<times> expat) result) option" where
  "extract_text_contents s tags res =
     (case name_ptr s of
        Inl e \<Rightarrow> Some (res, Inl e)
      | Inr tg \<Rightarrow>
          (case text_kind tg tags of
             None \<Rightarrow> Some (res, Inr (False, s))
           | Some k \<Rightarrow>
               (case extract_as k s res of
                  None \<Rightarrow> None
                | Some (res', r) \<Rightarrow> Some (res', bind r (\<lambda>s'. return (True, s'))))))"

text \<open>The main loop; \<open>tags\<close> are the open elements, the innermost last.\<close>

partial_function (option) extract_loop ::
    "expat \<Rightarrow> string list \<Rightarrow> maven_url list \<Rightarrow> (maven_url list \<times> unit result) option" where
  "extract_loop s tags res =
     (case
        (case state_of s of
           START \<Rightarrow>
             (case extract_text_contents s tags res of
                None \<Rightarrow> None
              | Some (res', Inl e) \<Rightarrow> Some (res', Inl e)
              | Some (res', Inr (True, s')) \<Rightarrow> Some (res', Inr (False, s', tags))
              | Some (res', Inr (False, s')) \<Rightarrow>
                  Some (res', bind (name_of s') (\<lambda>n. return (True, s', tags @ [n]))))
         | END \<Rightarrow>
             Some (res, if tags = [] then throw Assertion_failure else return (True, s, butlast tags))
         | _ \<Rightarrow> Some (res, return (True, s, tags))) of
        None \<Rightarrow> None
      | Some (res', Inl e) \<Rightarrow> Some (res', Inl e)
      | Some (res', Inr (go, s', tags')) \<Rightarrow>
          if go then
            (case next_event s' of
               Inl e \<Rightarrow> Some (res', Inl e)
             | Inr (has_next, s'') \<Rightarrow>
                 if has_next then extract_loop s'' tags' res'
                 else Some (res', if tags' = [] then return () else throw Assertion_failure))
          else extract_loop s' tags' res')"

fun is_malformed :: "exn \<Rightarrow> bool" where
  "is_malformed (Xml_malformed _ _) = True"
| "is_malformed _ = False"

definition maven_extract :: "expat \<Rightarrow> maven_url list \<Rightarrow> (maven_url list \<times> unit result) option" where
  "maven_extract s res =
     (case bind (next_event s) (\<lambda>(has_next, s1).
             if \<not> has_next then return (False, s1)
             else bind (name_of s1) (\<lambda>n. return (n = ''project'', s1))) of
        Inl e \<Rightarrow> Some (res, if is_malformed e then return () else throw e)
      | Inr (pom, s1) \<Rightarrow>
          if \<not> pom then Some (res, return ())
          else (case advance_event s1 of
                  Inl e \<Rightarrow> Some (res, throw e)
                | Inr s2 \<Rightarrow> extract_loop s2 [[]] res))"

section \<open>The URLs of a project\<close>

definition url_entry :: "kind \<Rightarrow> xtree list \<Rightarrow> maven_url list" where
  "url_entry k kids = (case leading_text kids of None \<Rightarrow> [] | Some t \<Rightarrow> [\<lparr>url = strip t, url_type = k\<rparr>])"

fun urls :: "string list \<Rightarrow> xtree \<Rightarrow> maven_url list" where
  "urls tags (XTxt t l c) = []"
| "urls tags (XElem n as l c kids l' c') =
     (case text_kind n tags of
        Some k \<Rightarrow> url_entry k kids
      | None \<Rightarrow> concat (map (urls (tags @ [n])) kids))"

lemma extract_as_element:
  assumes "at_event s (XStart n as l c)" and "pending s (flattens kids @ XEnd l' c' # evs) fin"
  shows "\<exists>r. extract_as k s res = Some (res @ url_entry k kids, r) \<and> arrived r evs fin"
  using enter_element [OF assms]
  by (cases "leading_text kids") (auto simp: extract_as_def leave_url_def url_entry_def)

fun loop_from :: "string list \<Rightarrow> maven_url list \<Rightarrow> expat result \<Rightarrow> (maven_url list \<times> unit result) option" where
  "loop_from tags res (Inl e) = Some (res, Inl e)"
| "loop_from tags res (Inr s) = extract_loop s tags res"

text \<open>While an element is open there is a next event: the loop goes on behind what it has read.\<close>

lemma extract_loop_next:
  assumes "pending s evs fin" and "evs \<noteq> []"
  shows "(case next_event s of
       Inl e \<Rightarrow> Some (res, Inl e)
     | Inr (has_next, s'') \<Rightarrow> if has_next then extract_loop s'' tags res else d) = loop_from tags res (advance_event s)"
  using next_law [OF assms(1)] assms(2) by (cases evs) (auto simp: advance_event_def)

lemma extract_loop_text:
  assumes "at_event s (XText t l c)" and "pending s evs fin" and "evs \<noteq> []"
  shows "loop_from tags res (Inr s) = loop_from tags res (advance_event s)"
  using at_event_state(3) [OF assms(1)] extract_loop_next [OF assms(2,3)]
  by (simp add: extract_loop.simps [of s])

lemma extract_loop_end:
  assumes "at_event s (XEnd l c)" and "pending s evs fin" and "evs \<noteq> []"
  shows "loop_from (tags @ [n]) res (Inr s) = loop_from tags res (advance_event s)"
  using at_event_state(2) [OF assms(1)] extract_loop_next [OF assms(2,3)]
  by (simp add: extract_loop.simps [of s])

lemma extract_loop_start:
  assumes "at_event s (XStart n as l c)" and "pending s evs fin" and "evs \<noteq> []" and "text_kind n tags = None"
  shows "loop_from tags res (Inr s) = loop_from (tags @ [n]) res (advance_event s)"
proof -
  have "name_ptr s = return n" "name_of s = return n" "state_of s = START"
    using at_event_observed [OF assms(1)] by (simp_all add: observed_def)
  then show ?thesis
    using assms(4) extract_loop_next [OF assms(2,3)]
    by (simp add: extract_loop.simps [of s] extract_text_contents_def)
qed

lemma extract_loop_url:
  assumes "at_event s (XStart n as l c)" and "pending s (flattens kids @ XEnd l' c' # evs) fin"
    and "text_kind n tags = Some k"
  shows "\<exists>r. loop_from tags res (Inr s) = loop_from tags (res @ url_entry k kids) r \<and> arrived r evs fin"
proof -
  obtain r where r: "extract_as k s res = Some (res @ url_entry k kids, r)" "arrived r evs fin"
    using extract_as_element [OF assms(1,2)] by blast
  have "name_ptr s = return n" "state_of s = START"
    using at_event_observed [OF assms(1)] by (simp_all add: observed_def)
  then show ?thesis
    using r assms(3) by (intro exI [of _ r], cases r) (simp_all add: extract_loop.simps [of s] extract_text_contents_def)
qed

lemma extract_loop_forest:
  "arrived r (flattens ts @ XEnd l c # es) fin \<Longrightarrow>
   \<exists>r'. arrived r' (XEnd l c # es) fin \<and>
     loop_from tags res r = loop_from tags (res @ concat (map (urls tags) ts)) r'"
proof (induction "length (flattens ts)" arbitrary: ts l c es r tags res rule: less_induct)
  case less
  show ?case
  proof (cases ts)
    case Nil
    then show ?thesis using less.prems by auto
  next
    case (Cons t us)
    show ?thesis
    proof (cases t)
      case (XTxt x l1 c1)
      then obtain s where s: "r = Inr s" "at_event s (XText x l1 c1)" "pending s (flattens us @ XEnd l c # es) fin"
        using less.prems Cons arrived_Cons by fastforce
      show ?thesis
        using less.hyps [OF _ advance_arrives [OF s(3)], of tags res] extract_loop_text [OF s(2,3)] s(1) Cons XTxt
        by simp
    next
      case (XElem n as l1 c1 kids l2 c2)
      then obtain s where s: "r = Inr s" "at_event s (XStart n as l1 c1)"
        "pending s (flattens kids @ XEnd l2 c2 # flattens us @ XEnd l c # es) fin"
        using less.prems Cons arrived_Cons by fastforce
      have "\<exists>r1. arrived r1 (flattens us @ XEnd l c # es) fin \<and>
          loop_from tags res r = loop_from tags (res @ urls tags t) r1"
      proof (cases "text_kind n tags")
        case None
        obtain r1 where r1: "arrived r1 (XEnd l2 c2 # flattens us @ XEnd l c # es) fin"
          "loop_from (tags @ [n]) res (advance_event s)
             = loop_from (tags @ [n]) (res @ concat (map (urls (tags @ [n])) kids)) r1"
          using less.hyps [OF _ advance_arrives [OF s(3)], of "tags @ [n]" res] Cons XElem by auto
        then obtain s2 where s2: "r1 = Inr s2" "at_event s2 (XEnd l2 c2)" "pending s2 (flattens us @ XEnd l c # es) fin"
          using arrived_Cons by blast
        then show ?thesis
          using s(1) extract_loop_start [OF s(2,3) _ None] r1(2) extract_loop_end [OF s2(2,3)]
            advance_arrives [OF s2(3)] XElem None by auto
      next
        case (Some k)
        then show ?thesis using extract_loop_url [OF s(2,3) Some, of res] s(1) XElem by auto
      qed
      then obtain r1 where r1: "arrived r1 (flattens us @ XEnd l c # es) fin"
          "loop_from tags res r = loop_from tags (res @ urls tags t) r1" by blast
      then show ?thesis using less.hyps [OF _ r1(1), of tags "res @ urls tags t"] Cons XElem by simp
    qed
  qed
qed

lemma extract_loop_root_end:
  assumes "at_event s (XEnd l c)" and "pending s [] fin"
  shows "extract_loop s [t] res = Some (res, case fin of None \<Rightarrow> return () | Some e \<Rightarrow> throw e)"
  using at_event_state(2) [OF assms(1)] next_law [OF assms(2)]
  by (auto simp: extract_loop.simps [of s] split: option.splits)

lemma maven_extract_document:
  assumes "list_all nul_free_chunk (fin # cs)"
  shows "document cs fin 0 = (flatten (XElem n as l c kids l' c'), f) \<Longrightarrow>
      maven_extract (expat_source cs fin) res =
        (if n = ''project'' then
           Some (res @ concat (map (urls [[]]) kids), case f of None \<Rightarrow> return () | Some e \<Rightarrow> throw e)
         else Some (res, return ()))"
    and "document cs fin 0 = ([], f) \<Longrightarrow>
      maven_extract (expat_source cs fin) res =
        Some (res, case f of Some e \<Rightarrow> if is_malformed e then return () else throw e | None \<Rightarrow> return ())"
proof -
  let ?s = "expat_source cs fin"
  assume "document cs fin 0 = (flatten (XElem n as l c kids l' c'), f)"
  then have "pending ?s (XStart n as l c # flattens kids @ XEnd l' c' # []) f"
    using pending_initial [OF assms] by simp
  then obtain s where s: "next_event ?s = return (True, s)" "at_event s (XStart n as l c)"
    "pending s (flattens kids @ XEnd l' c' # []) f"
    using next_law by fastforce
  have "name_of s = return n" using at_event_observed [OF s(2)] by (simp add: observed_def)
  moreover have "loop_from [[]] res (advance_event s)
      = Some (res @ concat (map (urls [[]]) kids), case f of None \<Rightarrow> return () | Some e \<Rightarrow> throw e)"
    using extract_loop_forest [OF advance_arrives [OF s(3)], where tags = "[[]]" and res = res] arrived_Cons extract_loop_root_end
    by fastforce
  ultimately show "maven_extract ?s res = (if n = ''project'' then
           Some (res @ concat (map (urls [[]]) kids), case f of None \<Rightarrow> return () | Some e \<Rightarrow> throw e)
         else Some (res, return ()))"
    using s(1) by (cases "advance_event s") (simp_all add: maven_extract_def)
next
  let ?s = "expat_source cs fin"
  assume "document cs fin 0 = ([], f)"
  then have "pending ?s [] f" using pending_initial [OF assms] by simp
  then show "maven_extract ?s res =
      Some (res, case f of Some e \<Rightarrow> if is_malformed e then return () else throw e | None \<Rightarrow> return ())"
    using next_law [of ?s "[]" f] by (auto simp: maven_extract_def split: option.splits)
qed



end
