(* ===== verification/Repomd.thy ===== *)
theory Repomd
  imports Minidom Hash
begin

text \<open>
  The index of a package repository: \<open>repomd.cpp\<close>. The document is read into an element tree;
  an entry is made from each \<open>data\<close> element. Problems of the XML and of the checksums are
  exceptions, other problems a message with which the parser returns.
\<close>

section \<open>Model\<close>

record entry =
  entry_type :: string
  compressed :: bool
  entry_checksum :: checksum
  open_checksum :: checksum
  entry_href :: string

record repomd =
  base_url :: string
  revision :: string
  entries :: "entry list"

definition entry_new :: entry where
  "entry_new = \<lparr>entry_type = [], compressed = False, entry_checksum = checksum_new,
     open_checksum = checksum_new, entry_href = []\<rparr>"

text \<open>
  \<open>attributes[key]\<close>: a missing attribute reads as the empty string. (That it is added to the
  tree cannot be seen, as the tree is not looked at again.)
\<close>

fun attr :: "node \<Rightarrow> string \<Rightarrow> string" where
  "attr (Element n as children) k = (case map_find as k of None \<Rightarrow> [] | Some v \<Rightarrow> v)"
| "attr (Text d) k = []"

definition number_text :: "node \<Rightarrow> u64 option" where
  "number_text n = parse_unsigned_long_long (strip (element_text n))"

text \<open>The second half of the loop body, from \<open>entries.push_back\<close> on.\<close>

definition push_entry ::
    "node \<Rightarrow> node \<Rightarrow> node \<Rightarrow> u64 \<Rightarrow> node option \<Rightarrow> u64 \<Rightarrow> entry list \<Rightarrow> (entry list \<times> string option) result" where
  "push_entry e loc csum nsize open_csum nopen_size ens =
     (let en = entry_new\<lparr>entry_type := attr e ''type''\<rparr>
      in if entry_type en = [] then return (ens @ [en], Some ''type attribute missing from data element'')
         else
           bind (set_hexadecimal (cstr (attr csum ''type'')) nsize (cstr (strip (element_text csum)))
                   (entry_checksum en)) (\<lambda>cs.
           bind (case open_csum of
                   Some o_csum \<Rightarrow> set_hexadecimal (cstr (attr o_csum ''type'')) nopen_size
                     (cstr (strip (element_text o_csum))) (open_checksum en)
                 | None \<Rightarrow> return cs) (\<lambda>ocs.
           return (ens @ [en\<lparr>compressed := open_csum \<noteq> None, entry_checksum := cs, open_checksum := ocs,
                      entry_href := attr loc ''href''\<rparr>],
                   if attr loc ''href'' = [] then Some ''malformed location element'' else None))))"

text \<open>The size of the uncompressed data. Without \<open>open-checksum\<close> it is not set and not read.\<close>

definition open_size_of :: "node option \<Rightarrow> node option \<Rightarrow> string + u64" where
  "open_size_of open_csum open_size =
     (case open_csum of
        Some _ \<Rightarrow>
          (case open_size of
             None \<Rightarrow> Inr no_length
           | Some n \<Rightarrow> (case number_text n of None \<Rightarrow> Inl ''open-size element malformed'' | Some v \<Rightarrow> Inr v))
      | None \<Rightarrow>
          (case open_size of
             Some _ \<Rightarrow> Inl ''open-size element without open-checksum element''
           | None \<Rightarrow> Inr 0))"

definition parse_data :: "node \<Rightarrow> entry list \<Rightarrow> (entry list \<times> string option) result" where
  "parse_data e ens =
     (case first_child ''location'' e of
        None \<Rightarrow> return (ens, Some ''location element missing from data element'')
      | Some loc \<Rightarrow>
     (case first_child ''checksum'' e of
        None \<Rightarrow> return (ens, Some ''checksum element missing from data element'')
      | Some csum \<Rightarrow>
     (case (case first_child ''size'' e of None \<Rightarrow> Some no_length | Some n \<Rightarrow> number_text n) of
        None \<Rightarrow> return (ens, Some ''size element malformed'')
      | Some nsize \<Rightarrow>
     (case open_size_of (first_child ''open-checksum'' e) (first_child ''open-size'' e) of
        Inl msg \<Rightarrow> return (ens, Some msg)
      | Inr nopen_size \<Rightarrow>
          push_entry e loc csum nsize (first_child ''open-checksum'' e) nopen_size ens))))"

fun entries_loop :: "node list \<Rightarrow> entry list \<Rightarrow> (entry list \<times> string option) result" where
  "entries_loop [] ens = return (ens, None)"
| "entries_loop (Text d # ps) ens = entries_loop ps ens"
| "entries_loop (Element n as children # ps) ens =
     (if n = ''data'' then
        bind (parse_data (Element n as children) ens) (\<lambda>(ens', err).
          case err of None \<Rightarrow> entries_loop ps ens' | Some msg \<Rightarrow> return (ens', Some msg))
      else entries_loop ps ens)"

fun parse_root :: "node \<Rightarrow> repomd \<Rightarrow> (repomd \<times> string option) result" where
  "parse_root (Text d) rp = return (rp, Some ''invalid root element'')"
| "parse_root (Element n as children) rp =
     (if n \<noteq> ''repomd'' then return (rp, Some ''invalid root element'')
      else
        (let revn = (case first_child ''revision'' (Element n as children) of
                      None \<Rightarrow> [] | Some r \<Rightarrow> element_text r)
         in bind (entries_loop children []) (\<lambda>(ens, err). return (rp\<lparr>revision := revn, entries := ens\<rparr>, err))))"

definition repomd_parse :: "expat \<Rightarrow> repomd \<Rightarrow> (repomd \<times> string option) run" where
  "repomd_parse src rp = andthen (parse_dom src) (\<lambda>(root, s). Some (parse_root root rp))"

definition repomd_acquire :: "(string \<Rightarrow> expat result) \<Rightarrow> string \<Rightarrow> repomd \<Rightarrow> repomd run" where
  "repomd_acquire download url rp =
     (let base_canon = (if url \<noteq> [] \<and> List.last url \<noteq> CHR ''/'' then url @ ''/'' else url)
      in andthen (Some (download (base_canon @ ''repodata/repomd.xml''))) (\<lambda>src.
         andthen (repomd_parse src rp) (\<lambda>(rp', err).
           case err of
             Some msg \<Rightarrow> Some (throw (Curl_exception msg))
           | None \<Rightarrow> Some (return (rp'\<lparr>base_url := base_canon\<rparr>)))))"

section \<open>Round trip\<close>

text \<open>The document for an index.\<close>

abbreviation elem :: "string \<Rightarrow> (string \<times> string) list \<Rightarrow> xtree list \<Rightarrow> xtree" where
  "elem n as kids \<equiv> XElem n as 0 0 kids 0 0"

abbreviation txt_node :: "string \<Rightarrow> xtree" where
  "txt_node t \<equiv> XTxt t 0 0"

definition size_xml :: "string \<Rightarrow> u64 \<Rightarrow> xtree list" where
  "size_xml n len = (if len = no_length then [] else [elem n [] [txt_node (dec (unat len))]])"

definition checksum_xml :: "string \<Rightarrow> string \<Rightarrow> checksum \<Rightarrow> xtree list" where
  "checksum_xml n sz cs =
     elem n [(''type'', hash_name (csum_type cs))] [txt_node (base16_encode (csum_value cs))] # size_xml sz (csum_length cs)"

definition entry_xml :: "entry \<Rightarrow> xtree" where
  "entry_xml en =
     elem ''data'' [(''type'', entry_type en)]
       (elem ''location'' [(''href'', entry_href en)] [] #
        checksum_xml ''checksum'' ''size'' (entry_checksum en) @
        (if compressed en then checksum_xml ''open-checksum'' ''open-size'' (open_checksum en) else []))"

definition repomd_xml :: "string \<Rightarrow> entry list \<Rightarrow> xtree" where
  "repomd_xml revn ens = elem ''repomd'' [] (elem ''revision'' [] [txt_node revn] # map entry_xml ens)"

definition valid_entry :: "entry \<Rightarrow> bool" where
  "valid_entry en \<longleftrightarrow> entry_type en \<noteq> [] \<and> entry_href en \<noteq> [] \<and>
     (\<not> compressed en \<longrightarrow> open_checksum en = entry_checksum en)"

lemma strip_plain:
  assumes "\<And>c. c \<in> set s \<Longrightarrow> \<not> whitespace c"
  shows "strip s = s"
proof -
  have "dropWhile whitespace t = t" if "set t \<subseteq> set s" for t
    using assms that by (cases t) auto
  then show ?thesis by (simp add: strip_eq)
qed

lemma hex_value_plain: "hex_value c \<noteq> None \<Longrightarrow> \<not> whitespace c \<and> c \<noteq> NUL"
  by (auto simp: hex_value_def whitespace_iff split: if_splits)

lemma encode_plain: "c \<in> set (base16_encode bs) \<Longrightarrow> \<not> whitespace c \<and> c \<noteq> NUL"
  using hex_values_encode [of bs] hex_value_plain by (auto simp: list_all_iff)

lemma strip_encode: "cstr (strip (base16_encode bs)) = base16_encode bs"
proof -
  have "strip (base16_encode bs) = base16_encode bs" using encode_plain strip_plain by blast
  moreover have "NUL \<notin> set (base16_encode bs)" using encode_plain by blast
  ultimately show ?thesis by simp
qed

lemma number_dec: "parse_unsigned_long_long (strip (dec (unat len))) = Some len" for len :: u64
proof -
  have "strip (dec (unat len)) = dec (unat len)"
    using isdigit_dec isdigit_not_space(1) by (intro strip_plain) blast
  then show ?thesis using parse_dec [of "[]" "[]" "unat len"] unsigned_less [of len, where ?'a = nat] by simp
qed

lemma cstr_hash_name [simp]: "cstr (hash_name t) = hash_name t"
  by (cases t) (simp_all add: cstr_def)

lemma attributes_of_one [simp]: "attributes_of [] = []" "attributes_of [(k, v)] = [(k, v)]"
  by (simp_all add: attributes_of_def map_insert_def)

lemma set_hexadecimal_encode:
  "set_hexadecimal (hash_name (csum_type cs)) (csum_length cs) (base16_encode (csum_value cs)) c = return cs"
  by (cases cs) (simp add: set_hexadecimal_def base16_decode_def decode_from_encode from_string_hash_name)

lemma parse_data_entry:
  assumes "valid_entry en"
  shows "parse_data (dom (entry_xml en)) ens = return (ens @ [en], None)"
proof -
  have names: "cstr ''location'' = ''location''" "cstr ''checksum'' = ''checksum''" "cstr ''size'' = ''size''"
    "cstr ''open-checksum'' = ''open-checksum''" "cstr ''open-size'' = ''open-size''"
    by (simp_all add: cstr_def)
  have no: "csum_length cs = no_length \<Longrightarrow> set_hexadecimal (hash_name (csum_type cs)) no_length (base16_encode (csum_value cs)) c = return cs" for cs c
    using set_hexadecimal_encode [of cs c] by simp
  show ?thesis
    using assms
    by (cases en)
      (auto simp: parse_data_def entry_xml_def checksum_xml_def size_xml_def names valid_entry_def open_size_of_def
        number_text_def number_dec push_entry_def entry_new_def strip_encode set_hexadecimal_encode no Let_def)
qed

lemma dom_entry: "\<exists>as cs. dom (entry_xml en) = Element ''data'' as cs"
  by (simp add: entry_xml_def)

lemma join_entries: "join_text (map dom (map entry_xml ens)) = map dom (map entry_xml ens)"
proof (induction ens)
  case (Cons en ens)
  obtain as' cs where "dom (entry_xml en) = Element ''data'' as' cs" using dom_entry by blast
  then show ?case using Cons by simp
qed simp

lemma entries_loop_entries:
  "list_all valid_entry ens \<Longrightarrow> entries_loop (map dom (map entry_xml ens)) acc = return (acc @ ens, None)"
proof (induction ens arbitrary: acc)
  case (Cons en ens)
  obtain as' cs where d: "dom (entry_xml en) = Element ''data'' as' cs" using dom_entry by blast
  then show ?case using Cons parse_data_entry [of en acc] by simp
qed simp

lemma repomd_parse_document:
  assumes "list_all nul_free_chunk (fin # cs)" and "document cs fin 0 = (flatten (repomd_xml revn ens), None)"
    and "list_all valid_entry ens"
  shows "repomd_parse (expat_source cs fin) rp = Some (return (rp\<lparr>revision := revn, entries := ens\<rparr>, None))"
proof -
  obtain root where root: "root = dom (repomd_xml revn ens)" by blast
  obtain kids where x: "repomd_xml revn ens = XElem ''repomd'' [] 0 0 kids 0 0"
    and kids: "kids = elem ''revision'' [] [txt_node revn] # map entry_xml ens" by (simp add: repomd_xml_def)
  obtain s where "parse_dom (expat_source cs fin) = Some (return (root, s))"
    using parse_dom_root [OF assms(1), of "''repomd''" "[]" 0 0 kids 0 0 None] assms(2) x root by auto
  moreover have "parse_root root rp = return (rp\<lparr>revision := revn, entries := ens\<rparr>, None)"
    using entries_loop_entries [OF assms(3), of "[]"] unfolding root x kids
    by (simp add: join_entries cstr_def del: map_map)
  ultimately show ?thesis by (simp add: repomd_parse_def)
qed




end
