(* ===== verification/Primary.thy ===== *)
theory Primary
  imports Repomd Package_set
begin

text \<open>
  The list of the packages of a repository: \<open>repomd_primary.cpp\<close>, an iterator over the
  \<open>package\<close> elements of \<open>primary.xml\<close>, and \<open>repomd_primary_xml.cpp\<close>, the source that provides
  that file. The member \<open>source_\<close> of the iterator is passed beside the record of the others.
\<close>

section \<open>The iterator\<close>

record primary =
  primary_base :: string
  info :: rpm_package_info
  href :: string
  csum :: checksum

definition rpm_package_info_new :: rpm_package_info where
  "rpm_package_info_new =
     \<lparr>name = [], version = [], release = [], arch = [], source_rpm = [], hash = [], build_host = [],
      summary = [], description = [], license = [], group = [], build_time = 0, epoch = -1,
      kind = Binary, normalized = False\<rparr>"

definition primary_new :: "expat \<Rightarrow> string \<Rightarrow> (expat \<times> primary) result" where
  "primary_new src base =
     bind (advance_event src) (\<lambda>s.
     bind (name_of s) (\<lambda>n.
     if n \<noteq> ''metadata'' then throw (Runtime_error (''invalid root element: '' @ n))
     else bind (advance_event s) (\<lambda>s.
       return (s, \<lparr>primary_base = base, info = rpm_package_info_new, href = [], csum = checksum_new\<rparr>))))"

definition clear :: "primary \<Rightarrow> primary" where
  "clear p =
     p\<lparr>info := (info p)\<lparr>name := [], version := [], release := [], arch := [], source_rpm := [], hash := [],
                   epoch := -1\<rparr>,
       href := [],
       csum := \<lparr>csum_value = [], csum_length = no_length, csum_type = sha256\<rparr>\<rparr>"

definition check_attr :: "string \<Rightarrow> string \<Rightarrow> primary \<Rightarrow> unit result" where
  "check_attr nm v p =
     (if v = [] then throw (Runtime_error (''missing '' @ nm @ '' element in package: '' @ name (info p)))
      else return ())"

definition validate :: "primary \<Rightarrow> unit result" where
  "validate p =
     (if name (info p) = [] then throw (Runtime_error ''missing <name> element'')
      else
        bind (check_attr ''<version>'' (version (info p)) p) (\<lambda>_.
        bind (check_attr ''<arch>'' (arch (info p)) p) (\<lambda>_.
        bind (check_attr ''<location>/href'' (href p) p) (\<lambda>_.
        if csum_value (csum p) = [] then throw (Runtime_error ''missing <checksum> element'')
        else if csum_length (csum p) = no_length then throw (Runtime_error ''missing <size> element'')
        else return ()))))"

text \<open>The cast to \<open>int\<close> keeps the low 32 bits, the one back to \<open>unsigned long long\<close> extends the sign.\<close>

definition set_version :: "string \<Rightarrow> string \<Rightarrow> string \<Rightarrow> primary \<Rightarrow> primary" where
  "set_version ver rel epochstr p =
     (let i = (info p)\<lparr>version := strip ver, release := strip rel\<rparr>
      in case parse_unsigned_long_long (strip epochstr) of
           None \<Rightarrow> p\<lparr>info := i\<lparr>version := []\<rparr>\<rparr>
         | Some e \<Rightarrow>
             if e \<noteq> scast (ucast e :: u32) then p\<lparr>info := i\<lparr>version := []\<rparr>\<rparr>
             else p\<lparr>info := i\<lparr>epoch := sint (ucast e :: u32)\<rparr>\<rparr>)"

definition process_version :: "expat \<Rightarrow> primary \<Rightarrow> (expat \<times> primary) run" where
  "process_version s p =
     andthen (Some (attribute ''ver'' s)) (\<lambda>ver.
     andthen (Some (attribute ''rel'' s)) (\<lambda>rel.
     andthen (Some (attribute ''epoch'' s)) (\<lambda>epochstr.
     andthen (skip s) (\<lambda>s'. Some (return (s', set_version ver rel epochstr p))))))"

text \<open>Entering an element, taking its text, leaving it.\<close>

definition element_contents :: "expat \<Rightarrow> (string \<times> expat) run" where
  "element_contents s =
     andthen (Some (advance_event s)) (\<lambda>s1.
     andthen (text_and_next s1) (\<lambda>(t, s2).
     andthen (unnest s2) (\<lambda>s3. Some (return (t, s3)))))"

definition source_rpm_element :: "expat \<Rightarrow> primary \<Rightarrow> (expat \<times> primary) run" where
  "source_rpm_element s p =
     andthen (Some (advance_event s)) (\<lambda>s1.
     if state_of s1 = TEXT then
       andthen (text_and_next s1) (\<lambda>(t, s2).
       andthen (unnest s2) (\<lambda>s3. Some (return (s3, p\<lparr>info := (info p)\<lparr>source_rpm := t\<rparr>\<rparr>))))
     else andthen (unnest s1) (\<lambda>s2. Some (return (s2, p))))"

definition format_child :: "expat \<Rightarrow> primary \<Rightarrow> (expat \<times> primary) run" where
  "format_child s p =
     andthen (Some (name_of s)) (\<lambda>tg.
     if tg = ''rpm:sourcerpm'' then source_rpm_element s p
     else andthen (skip s) (\<lambda>s'. Some (return (s', p))))"

partial_function (option) format_loop :: "expat \<Rightarrow> primary \<Rightarrow> (expat \<times> primary) run" where
  "format_loop s p =
     (if state_of s = END then Some (return (s, p))
      else if state_of s = TEXT then andthen (skip s) (\<lambda>s'. format_loop s' p)
      else andthen (format_child s p) (\<lambda>sp. format_loop (fst sp) (snd sp)))"

definition process_format :: "expat \<Rightarrow> primary \<Rightarrow> (expat \<times> primary) run" where
  "process_format s p =
     andthen (Some (advance_event s)) (\<lambda>s1.
     andthen (format_loop s1 p) (\<lambda>(s2, p').
     andthen (Some (advance_event s2)) (\<lambda>s3. Some (return (s3, p')))))"

definition location_element :: "expat \<Rightarrow> primary \<Rightarrow> (expat \<times> primary) run" where
  "location_element s p =
     andthen (Some (attribute ''xml:base'' s)) (\<lambda>xmlbase.
     andthen (Some (attribute ''href'' s)) (\<lambda>h.
     andthen (skip s) (\<lambda>s'.
       Some (return (s', p\<lparr>href := url_combine_yum (cstr (if xmlbase = [] then primary_base p else xmlbase)) (cstr h)\<rparr>)))))"

text \<open>
  The size is read into the checksum: text that is not a number leaves it unchanged, as the
  result of the parser is not looked at.
\<close>

definition set_size :: "string \<Rightarrow> primary \<Rightarrow> primary" where
  "set_size t p =
     (case parse_unsigned_long_long t of
        None \<Rightarrow> p
      | Some n \<Rightarrow> p\<lparr>csum := (csum p)\<lparr>csum_length := n\<rparr>\<rparr>)"

definition set_checksum :: "string \<Rightarrow> string \<Rightarrow> primary \<Rightarrow> primary result" where
  "set_checksum typ t p =
     bind (set_hexadecimal (cstr typ) (csum_length (csum p)) (cstr t) (csum p)) (\<lambda>cs.
     return (p\<lparr>csum := cs\<rparr>))"

text \<open>
  One element inside \<open>package\<close>. In the branch for \<open>checksum\<close> the value is set before the element
  is left.
\<close>

definition package_child :: "expat \<Rightarrow> primary \<Rightarrow> (expat \<times> primary) run" where
  "package_child s p =
     andthen (Some (name_of s)) (\<lambda>tg.
     if tg = ''name'' then
       andthen (element_contents s) (\<lambda>(t, s'). Some (return (s', p\<lparr>info := (info p)\<lparr>name := t\<rparr>\<rparr>)))
     else if tg = ''arch'' then
       andthen (element_contents s) (\<lambda>(t, s'). Some (return (s', p\<lparr>info := (info p)\<lparr>arch := t\<rparr>\<rparr>)))
     else if tg = ''version'' then process_version s p
     else if tg = ''checksum'' then
       andthen (Some (attribute ''type'' s)) (\<lambda>typ.
       andthen (Some (advance_event s)) (\<lambda>s1.
       andthen (text_and_next s1) (\<lambda>(t, s2).
       andthen (Some (set_checksum typ t p)) (\<lambda>p'.
       andthen (unnest s2) (\<lambda>s3. Some (return (s3, p')))))))
     else if tg = ''size'' then
       andthen (Some (attribute ''package'' s)) (\<lambda>t.
       andthen (skip s) (\<lambda>s'. Some (return (s', set_size t p))))
     else if tg = ''location'' then location_element s p
     else if tg = ''format'' then process_format s p
     else andthen (skip s) (\<lambda>s'. Some (return (s', p))))"

partial_function (option) package_loop :: "expat \<Rightarrow> primary \<Rightarrow> (expat \<times> primary) run" where
  "package_loop s p =
     (if state_of s = END then Some (return (s, p))
      else if state_of s = TEXT then andthen (skip s) (\<lambda>s'. package_loop s' p)
      else andthen (package_child s p) (\<lambda>sp. package_loop (fst sp) (snd sp)))"

text \<open>The first loop of \<open>next\<close>: \<open>True\<close> at a package, \<open>False\<close> at the end of the list.\<close>

partial_function (option) find_package :: "expat \<Rightarrow> (bool \<times> expat) run" where
  "find_package s =
     (if state_of s = END then Some (return (False, s))
      else andthen (if state_of s = START then Some (bind (name_of s) (\<lambda>n. return (n = ''package'')))
                    else Some (return False)) (\<lambda>found.
        if found then Some (return (True, s)) else andthen (skip s) (\<lambda>s'. find_package s')))"

definition primary_next :: "expat \<Rightarrow> primary \<Rightarrow> (bool \<times> expat \<times> primary) run" where
  "primary_next s p =
     (let p = clear p
      in andthen (find_package s) (\<lambda>(found, s).
         if \<not> found then Some (return (False, s, p))
         else
           andthen (Some (attribute ''type'' s)) (\<lambda>typ.
           if typ \<noteq> ''rpm'' then Some (throw (Runtime_error (''invalid package type: '' @ typ)))
           else
             andthen (Some (advance_event s)) (\<lambda>s.
             andthen (package_loop s p) (\<lambda>(s, p).
             andthen (Some (advance_event s)) (\<lambda>s.
             andthen (Some (validate p)) (\<lambda>_. Some (return (True, s, p)))))))))"

text \<open>The loop in which the iterator is used, collecting what the accessors return.\<close>

partial_function (option) packages :: "expat \<Rightarrow> primary \<Rightarrow> (rpm_package_info \<times> string \<times> checksum) list \<Rightarrow>
    (rpm_package_info \<times> string \<times> checksum) list run" where
  "packages s p acc =
     andthen (primary_next s p) (\<lambda>r.
       if fst r then
         packages (fst (snd r)) (snd (snd r))
           (acc @ [(info (snd (snd r)), href (snd (snd r)), csum (snd (snd r)))])
       else Some (return acc))"

section \<open>Loops over the content of an element\<close>

text \<open>
  Two loops of the iterator have the same shape: they skip text, hand each element to a handler
  and stop at the end tag. What the handler makes of an element is \<open>effect\<close>.
\<close>

fun effects :: "(xtree \<Rightarrow> 'p \<Rightarrow> 'p result) \<Rightarrow> xtree list \<Rightarrow> 'p \<Rightarrow> 'p result" where
  "effects eff [] p = return p"
| "effects eff (t # ts) p = bind (eff t p) (effects eff ts)"

lemma skip_text_run:
  assumes "at_event s (XText x l1 c1)" and "pending s (flattens ts @ XEnd l c # es) fin"
  shows "\<exists>s'. skip s = Some (Inr s') \<and> arrived (Inr s') (flattens (dropWhile is_txt ts) @ XEnd l c # es) fin"
proof -
  obtain r where r: "skip_text s = Some r" "arrived r (flattens (dropWhile is_txt ts) @ XEnd l c # es) fin"
    using skip_text_arrives [OF assms(2)] dropWhile_flattens by metis
  then obtain s' where "r = Inr s'" using arrived_state by blast
  then show ?thesis using r at_event_state(3) [OF assms(1)] by (simp add: skip_def)
qed

locale element_loop =
  fixes lp :: "expat \<Rightarrow> 'p \<Rightarrow> (expat \<times> 'p) run"
    and handler :: "expat \<Rightarrow> 'p \<Rightarrow> (expat \<times> 'p) run"
    and eff :: "xtree \<Rightarrow> 'p \<Rightarrow> 'p result"
    and good :: "xtree \<Rightarrow> bool"
  assumes unfold: "lp s p =
      (if state_of s = END then Some (return (s, p))
       else if state_of s = TEXT then andthen (skip s) (\<lambda>s'. lp s' p)
       else andthen (handler s p) (\<lambda>sp. lp (fst sp) (snd sp)))"
    and text_effect: "eff (XTxt x l c) p = return p"
    and handler_law: "good (XElem n as l c kids l' c') \<Longrightarrow> at_event s (XStart n as l c) \<Longrightarrow>
      pending s (flattens kids @ XEnd l' c' # xs @ ev # evs) fin \<Longrightarrow>
      \<exists>s'. handler s p = Some (bind (eff (XElem n as l c kids l' c') p) (\<lambda>p'. return (s', p'))) \<and>
        arrived (Inr s') (xs @ ev # evs) fin"
begin

lemma effects_text: "effects eff (dropWhile is_txt ts) p = effects eff ts p"
proof (induction ts)
  case (Cons t ts)
  then show ?case by (cases t) (simp_all add: text_effect)
qed simp

lemma content:
  "arrived (Inr s) (flattens ts @ XEnd l c # es) fin \<Longrightarrow> list_all good ts \<Longrightarrow>
   \<exists>s'. lp s p = Some (bind (effects eff ts p) (\<lambda>p'. return (s', p'))) \<and>
     (effects eff ts p \<in> range Inr \<longrightarrow> arrived (Inr s') (XEnd l c # es) fin)"
proof (induction "length ts" arbitrary: ts s p rule: less_induct)
  case less
  show ?case
  proof (cases ts)
    case Nil
    then have "state_of s = END" using less.prems(1) at_event_state(2) [of s l c] by (simp add: arrived_at)
    then show ?thesis using less.prems Nil unfold [of s p] by auto
  next
    case (Cons t us)
    show ?thesis
    proof (cases t)
      case (XTxt x l1 c1)
      then have at: "at_event s (XText x l1 c1)" "pending s (flattens us @ XEnd l c # es) fin"
        using less.prems(1) Cons by (simp_all add: arrived_at)
      obtain s1 where s1: "skip s = Some (Inr s1)" "arrived (Inr s1) (flattens (dropWhile is_txt us) @ XEnd l c # es) fin"
        using skip_text_run [OF at] by blast
      have "lp s p = lp s1 p" using unfold [of s p] at_event_state(3) [OF at(1)] s1(1) by simp
      moreover have "list_all good (dropWhile is_txt us)" using less.prems(2) Cons
        by (auto simp: list_all_iff dest: set_dropWhileD)
      moreover have "length (dropWhile is_txt us) < length ts"
        using Cons length_dropWhile_le [of is_txt us] by simp
      ultimately show ?thesis
        using less.hyps [of "dropWhile is_txt us" s1 p] s1(2) Cons XTxt by (simp add: effects_text text_effect)
    next
      case (XElem n as l1 c1 kids l2 c2)
      then have at: "at_event s (XStart n as l1 c1)"
        "pending s (flattens kids @ XEnd l2 c2 # flattens us @ XEnd l c # es) fin"
        using less.prems(1) Cons by (simp_all add: arrived_at)
      obtain s1 where s1: "handler s p = Some (bind (eff t p) (\<lambda>p'. return (s1, p')))"
        "arrived (Inr s1) (flattens us @ XEnd l c # es) fin"
        using handler_law [OF _ at, of p] less.prems(2) Cons XElem by auto
      have lp: "lp s p = andthen (Some (eff t p)) (lp s1)"
        using unfold [of s p] at_event_state(1) [OF at(1)] s1(1) by (cases "eff t p") simp_all
      show ?thesis
      proof (cases "eff t p")
        case (Inl e)
        then show ?thesis using lp Cons by auto
      next
        case (Inr p')
        then show ?thesis using less.hyps [of us s1 p'] s1(2) less.prems(2) Cons lp by auto
      qed
    qed
  qed
qed

end

section \<open>What the iterator returns\<close>

definition xattr :: "(string \<times> string) list \<Rightarrow> string \<Rightarrow> string" where
  "xattr as k = (case map_of as k of None \<Rightarrow> [] | Some v \<Rightarrow> v)"

fun format_effect :: "xtree \<Rightarrow> primary \<Rightarrow> primary result" where
  "format_effect (XTxt t l c) p = return p"
| "format_effect (XElem n as l c kids l' c') p =
     return (case leading_text kids of
        Some t \<Rightarrow> if n = ''rpm:sourcerpm'' then p\<lparr>info := (info p)\<lparr>source_rpm := t\<rparr>\<rparr> else p
      | None \<Rightarrow> p)"

text \<open>The elements that set the name, the architecture and the checksum hold text.\<close>

fun has_text :: "xtree \<Rightarrow> bool" where
  "has_text (XTxt t l c) = True"
| "has_text (XElem n as l c kids l' c') \<longleftrightarrow> n \<in> {''name'', ''arch'', ''checksum''} \<longrightarrow> leading_text kids \<noteq> None"

abbreviation text_of_element :: "xtree list \<Rightarrow> string" where
  "text_of_element kids \<equiv> the (leading_text kids)"

fun package_effect :: "xtree \<Rightarrow> primary \<Rightarrow> primary result" where
  "package_effect (XTxt t l c) p = return p"
| "package_effect (XElem n as l c kids l' c') p =
     (if n = ''name'' then return (p\<lparr>info := (info p)\<lparr>name := text_of_element kids\<rparr>\<rparr>)
      else if n = ''arch'' then return (p\<lparr>info := (info p)\<lparr>arch := text_of_element kids\<rparr>\<rparr>)
      else if n = ''version'' then return (set_version (xattr as ''ver'') (xattr as ''rel'') (xattr as ''epoch'') p)
      else if n = ''checksum'' then set_checksum (xattr as ''type'') (text_of_element kids) p
      else if n = ''size'' then return (set_size (xattr as ''package'') p)
      else if n = ''location'' then
        return (p\<lparr>href := url_combine_yum
          (cstr (if xattr as ''xml:base'' = [] then primary_base p else xattr as ''xml:base''))
          (cstr (xattr as ''href''))\<rparr>)
      else if n = ''format'' then effects format_effect kids p
      else return p)"

lemma at_start:
  assumes "at_event s (XStart n as l c)"
  shows "state_of s = START" "name_of s = return n" "nul_free k \<Longrightarrow> attribute k s = return (xattr as k)"
  using at_event_observed [OF assms] by (simp_all add: observed_def xattr_def)

lemma skip_in_content:
  assumes "at_event s (XStart n as l c)" and "pending s (flattens kids @ XEnd l' c' # xs @ ev # evs) fin"
  shows "\<exists>s'. skip s = Some (Inr s') \<and> arrived (Inr s') (xs @ ev # evs) fin"
  using skip_element [OF assms] arrived_state by blast

lemma enter_in_content:
  assumes "at_event s (XStart n as l c)" and "pending s (flattens kids @ XEnd l' c' # xs @ ev # evs) fin"
  shows "\<exists>s1. advance_event s = Inr s1 \<and>
    (case leading_text kids of
       None \<Rightarrow> state_of s1 \<noteq> TEXT \<and> (\<exists>s3. unnest s1 = Some (Inr s3) \<and> arrived (Inr s3) (xs @ ev # evs) fin)
     | Some t \<Rightarrow> state_of s1 = TEXT \<and>
         (\<exists>s2 s3. text_and_next s1 = Some (Inr (t, s2)) \<and> unnest s2 = Some (Inr s3) \<and>
           arrived (Inr s3) (xs @ ev # evs) fin))"
proof -
  obtain s1 where "advance_event s = Inr s1"
    "case leading_text kids of
       None \<Rightarrow> state_of s1 \<noteq> TEXT \<and> (\<exists>r. unnest s1 = Some r \<and> arrived r (xs @ ev # evs) fin)
     | Some t \<Rightarrow> state_of s1 = TEXT \<and>
         (\<exists>s2 r. text_and_next s1 = Some (Inr (t, s2)) \<and> unnest s2 = Some r \<and> arrived r (xs @ ev # evs) fin)"
    using enter_element [OF assms] by blast
  then show ?thesis using arrived_state [of _ xs ev evs fin] by (cases "leading_text kids") fastforce+
qed

interpretation formats: element_loop format_loop format_child format_effect "\<lambda>_. True"
proof
  fix s p
  show "format_loop s p = (if state_of s = END then Some (return (s, p))
       else if state_of s = TEXT then andthen (skip s) (\<lambda>s'. format_loop s' p)
       else andthen (format_child s p) (\<lambda>sp. format_loop (fst sp) (snd sp)))"
    by (rule format_loop.simps)
next
  fix n l c l' c' s fin ev and "as" :: "(string \<times> string) list" and kids :: "xtree list" and xs evs :: "xevent list" and p
  assume at: "at_event s (XStart n as l c)" "pending s (flattens kids @ XEnd l' c' # xs @ ev # evs) fin"
  show "\<exists>s'. format_child s p = Some (bind (format_effect (XElem n as l c kids l' c') p) (\<lambda>p'. return (s', p'))) \<and>
        arrived (Inr s') (xs @ ev # evs) fin"
    using enter_in_content [OF at] skip_in_content [OF at] at_start(2) [OF at(1)]
    by (cases "leading_text kids") (auto simp: format_child_def source_rpm_element_def)
qed simp


lemma format_effects: "\<exists>p'. effects format_effect ts p = Inr p'"
proof (induction ts arbitrary: p)
  case (Cons t ts)
  then show ?case by (cases t) simp_all
qed simp

lemma process_format_element:
  assumes "at_event s (XStart n as l c)" and "pending s (flattens kids @ XEnd l' c' # xs @ ev # evs) fin"
  shows "\<exists>s'. process_format s p = Some (bind (effects format_effect kids p) (\<lambda>p'. return (s', p'))) \<and>
    arrived (Inr s') (xs @ ev # evs) fin"
proof -
  obtain p' where p': "effects format_effect kids p = Inr p'" using format_effects by blast
  obtain s1 where s1: "advance_event s = Inr s1" "arrived (Inr s1) (flattens kids @ XEnd l' c' # xs @ ev # evs) fin"
    using advance_arrives [OF assms(2)] arrived_state by fastforce
  obtain s2 where s2: "format_loop s1 p = Some (return (s2, p'))" "arrived (Inr s2) (XEnd l' c' # xs @ ev # evs) fin"
    using formats.content [OF s1(2), of p] p' by (auto simp: list_all_iff)
  then have "arrived (advance_event s2) (xs @ ev # evs) fin" using advance_arrives by (simp add: arrived_at)
  then show ?thesis using s1(1) s2(1) p' arrived_state by (fastforce simp: process_format_def)
qed

lemma package_child_element:
  assumes "has_text (XElem n as l c kids l' c')" and at: "at_event s (XStart n as l c)"
    "pending s (flattens kids @ XEnd l' c' # xs @ ev # evs) fin"
  shows "\<exists>s'. package_child s p = Some (bind (package_effect (XElem n as l c kids l' c') p) (\<lambda>p'. return (s', p'))) \<and>
    arrived (Inr s') (xs @ ev # evs) fin"
proof -
  note start = at_start [OF at(1)]
  obtain s1 where s1: "skip s = Some (Inr s1)" "arrived (Inr s1) (xs @ ev # evs) fin"
    using skip_in_content [OF at] by blast
  consider "n \<in> {''name'', ''arch'', ''checksum''}" | "n = ''format''" | "n \<notin> {''name'', ''arch'', ''checksum'', ''format''}"
    by blast
  then show ?thesis
  proof cases
    case 1
    then obtain t where t: "leading_text kids = Some t" using assms(1) by auto
    then obtain s2 s3 s4 where f: "advance_event s = Inr s2" "text_and_next s2 = Some (Inr (t, s3))"
      "unnest s3 = Some (Inr s4)" "arrived (Inr s4) (xs @ ev # evs) fin"
      using enter_in_content [OF at] by auto
    have ty: "attribute ''type'' s = return (xattr as ''type'')" by (rule start(3)) simp
    have "package_child s p = Some (bind (package_effect (XElem n as l c kids l' c') p) (\<lambda>p'. return (s4, p')))"
      using 1 by (cases "set_checksum (xattr as ''type'') t p"; elim insertE)
        (simp_all add: package_child_def element_contents_def f(1-3) t ty start(2))
    then show ?thesis using f(4) by blast
  next
    case 2
    then show ?thesis using process_format_element [OF at, of p] start(2) by (simp add: package_child_def)
  next
    case 3
    then show ?thesis
      using s1 start(2) start(3) [of "''ver''"] start(3) [of "''rel''"] start(3) [of "''epoch''"]
        start(3) [of "''package''"] start(3) [of "''xml:base''"] start(3) [of "''href''"]
      by (auto simp: package_child_def process_version_def location_element_def)
  qed
qed

interpretation package: element_loop package_loop package_child package_effect has_text
proof
  fix s p
  show "package_loop s p = (if state_of s = END then Some (return (s, p))
       else if state_of s = TEXT then andthen (skip s) (\<lambda>s'. package_loop s' p)
       else andthen (package_child s p) (\<lambda>sp. package_loop (fst sp) (snd sp)))"
    by (rule package_loop.simps)
qed (simp, rule package_child_element)

text \<open>The search for the next package.\<close>

fun is_package :: "xtree \<Rightarrow> bool" where
  "is_package (XElem n as l c kids l' c') \<longleftrightarrow> n = ''package''"
| "is_package (XTxt t l c) \<longleftrightarrow> False"

lemma find_package_content:
  "arrived (Inr s) (flattens ts @ XEnd l c # es) fin \<Longrightarrow>
   \<exists>s'. find_package s = Some (return (dropWhile (\<lambda>t. \<not> is_package t) ts \<noteq> [], s')) \<and>
     arrived (Inr s') (flattens (dropWhile (\<lambda>t. \<not> is_package t) ts) @ XEnd l c # es) fin"
proof (induction "length ts" arbitrary: ts s rule: less_induct)
  case less
  show ?case
  proof (cases ts)
    case Nil
    then have "state_of s = END" using less.prems at_event_state(2) [of s l c] by (simp add: arrived_at)
    then show ?thesis using less.prems Nil by (subst find_package.simps) simp
  next
    case (Cons t us)
    show ?thesis
    proof (cases t)
      case (XTxt x l1 c1)
      then have at: "at_event s (XText x l1 c1)" "pending s (flattens us @ XEnd l c # es) fin"
        using less.prems Cons by (simp_all add: arrived_at)
      obtain s1 where s1: "skip s = Some (Inr s1)" "arrived (Inr s1) (flattens (dropWhile is_txt us) @ XEnd l c # es) fin"
        using skip_text_run [OF at] by blast
      have "dropWhile (\<lambda>t. \<not> is_package t) (dropWhile is_txt vs) = dropWhile (\<lambda>t. \<not> is_package t) vs" for vs
      proof (induction vs)
        case (Cons v vs)
        then show ?case by (cases v) simp_all
      qed simp
      moreover have "length (dropWhile is_txt us) < length ts"
        using Cons length_dropWhile_le [of is_txt us] by simp
      ultimately show ?thesis
        using less.hyps [of "dropWhile is_txt us" s1] s1 at_event_state(3) [OF at(1)] Cons XTxt
        by (subst find_package.simps) simp
    next
      case (XElem n as l1 c1 kids l2 c2)
      then have at: "at_event s (XStart n as l1 c1)"
        "pending s (flattens kids @ XEnd l2 c2 # flattens us @ XEnd l c # es) fin"
        using less.prems Cons by (simp_all add: arrived_at)
      show ?thesis
      proof (cases "n = ''package''")
        case True
        then show ?thesis
          using less.prems at_start [OF at(1)] Cons XElem by (subst find_package.simps) simp
      next
        case False
        obtain s1 where "skip s = Some (Inr s1)" "arrived (Inr s1) (flattens us @ XEnd l c # es) fin"
          using skip_in_content [OF at] by blast
        then show ?thesis
          using less.hyps [of us s1] at_start [OF at(1)] False Cons XElem by (subst find_package.simps) simp
      qed
    qed
  qed
qed


text \<open>
  The packages that a list of elements describes, each from a cleared record: nothing of one
  package shows in the next.
\<close>

fun package_list :: "xtree list \<Rightarrow> primary \<Rightarrow> (rpm_package_info \<times> string \<times> checksum) list result" where
  "package_list [] p = return []"
| "package_list (XTxt t l c # ts) p = package_list ts p"
| "package_list (XElem n as l c kids l' c' # ts) p =
     (if n \<noteq> ''package'' then package_list ts p
      else if xattr as ''type'' \<noteq> ''rpm'' then
        throw (Runtime_error (''invalid package type: '' @ xattr as ''type''))
      else
        bind (effects package_effect kids (clear p)) (\<lambda>p'.
        bind (validate p') (\<lambda>_.
        bind (package_list ts p) (\<lambda>rest. return ((info p', href p', csum p') # rest)))))"

fun good_package :: "xtree \<Rightarrow> bool" where
  "good_package (XElem n as l c kids l' c') \<longleftrightarrow> n = ''package'' \<longrightarrow> list_all has_text kids"
| "good_package (XTxt t l c) \<longleftrightarrow> True"

lemma clear_effects:
  "format_effect t p = Inr p1 \<Longrightarrow> clear p1 = clear p"
  "effects format_effect ts p = Inr p2 \<Longrightarrow> clear p2 = clear p"
  "package_effect t p = Inr p3 \<Longrightarrow> clear p3 = clear p"
  "effects package_effect ts p = Inr p4 \<Longrightarrow> clear p4 = clear p"
proof -
  have f: "format_effect t p = Inr p' \<Longrightarrow> clear p' = clear p" for t p p'
    by (cases t) (auto simp: clear_def split: option.splits)
  have fs: "effects format_effect ts p = Inr p' \<Longrightarrow> clear p' = clear p" for ts p p'
    by (induction ts arbitrary: p) (auto dest: f)
  have g: "package_effect t p = Inr p' \<Longrightarrow> clear p' = clear p" for t p p'
    by (cases t) (auto simp: clear_def set_version_def set_checksum_def set_size_def Let_def
        dest: fs [unfolded clear_def] split: if_splits option.splits)
  have "effects package_effect ts p = Inr p' \<Longrightarrow> clear p' = clear p" for ts p p'
    by (induction ts arbitrary: p) (auto dest: g)
  then show "format_effect t p = Inr p1 \<Longrightarrow> clear p1 = clear p"
    "effects format_effect ts p = Inr p2 \<Longrightarrow> clear p2 = clear p"
    "package_effect t p = Inr p3 \<Longrightarrow> clear p3 = clear p"
    "effects package_effect ts p = Inr p4 \<Longrightarrow> clear p4 = clear p"
    using f fs g by blast+
qed

lemma package_list_search: "package_list (dropWhile (\<lambda>t. \<not> is_package t) ts) p = package_list ts p"
proof (induction ts)
  case (Cons t ts)
  then show ?case by (cases t) simp_all
qed simp

lemma primary_next_package:
  assumes "arrived (Inr s) (flattens ts @ XEnd l0 c0 # es) fin"
    and ts: "dropWhile (\<lambda>t. \<not> is_package t) ts = XElem n as l c kids l' c' # us"
    and "list_all has_text kids" and rpm: "xattr as ''type'' = ''rpm''"
  shows "\<exists>s'. primary_next s p = Some (bind (effects package_effect kids (clear p)) (\<lambda>p'.
      bind (validate p') (\<lambda>_. return (True, s', p')))) \<and>
    (effects package_effect kids (clear p) \<in> range Inr \<longrightarrow> arrived (Inr s') (flattens us @ XEnd l0 c0 # es) fin)"
proof -
  obtain s1 where s1: "find_package s = Some (return (True, s1))" "at_event s1 (XStart n as l c)"
    "pending s1 (flattens kids @ XEnd l' c' # flattens us @ XEnd l0 c0 # es) fin"
    using find_package_content [OF assms(1)] ts by (auto simp: arrived_at)
  have ty: "attribute ''type'' s1 = return (xattr as ''type'')" by (rule at_start(3) [OF s1(2)]) simp
  obtain s2 where s2: "advance_event s1 = Inr s2"
    "arrived (Inr s2) (flattens kids @ XEnd l' c' # flattens us @ XEnd l0 c0 # es) fin"
    using advance_arrives [OF s1(3)] arrived_state by fastforce
  obtain s3 where s3: "package_loop s2 (clear p) = Some (bind (effects package_effect kids (clear p)) (\<lambda>p'. return (s3, p')))"
    "effects package_effect kids (clear p) \<in> range Inr \<longrightarrow>
      arrived (Inr s3) (XEnd l' c' # flattens us @ XEnd l0 c0 # es) fin"
    using package.content [OF s2(2) assms(3)] by blast
  show ?thesis
  proof (cases "effects package_effect kids (clear p)")
    case (Inl e)
    then show ?thesis using s1(1) ty rpm s2(1) s3(1) by (auto simp: primary_next_def)
  next
    case (Inr p')
    then have "arrived (advance_event s3) (flattens us @ XEnd l0 c0 # es) fin"
      using s3(2) advance_arrives by (simp add: arrived_at)
    then obtain s4 where "advance_event s3 = Inr s4" "arrived (Inr s4) (flattens us @ XEnd l0 c0 # es) fin"
      using arrived_state by fastforce
    then show ?thesis
      using s1(1) ty rpm s2(1) s3(1) Inr by (cases "validate p'") (auto simp: primary_next_def)
  qed
qed


lemma packages_content:
  "arrived (Inr s) (flattens ts @ XEnd l0 c0 # es) fin \<Longrightarrow> list_all good_package ts \<Longrightarrow> clear p = clear p0 \<Longrightarrow>
   packages s p acc = Some (bind (package_list ts p0) (\<lambda>rest. return (acc @ rest)))"
proof (induction "length ts" arbitrary: ts s p acc rule: less_induct)
  case less
  let ?ts = "dropWhile (\<lambda>t. \<not> is_package t) ts"
  obtain s1 where s1: "find_package s = Some (return (?ts \<noteq> [], s1))" "arrived (Inr s1) (flattens ?ts @ XEnd l0 c0 # es) fin"
    using find_package_content [OF less.prems(1)] by blast
  show ?case
  proof (cases ?ts)
    case Nil
    have "package_list ts p0 = return []" using package_list_search [of ts p0] unfolding Nil by simp
    then show ?thesis using s1(1) Nil by (subst packages.simps) (simp add: primary_next_def)
  next
    case (Cons t us)
    then have "is_package t" using hd_dropWhile [of "\<lambda>t. \<not> is_package t" ts] by fastforce
    then obtain "as" l c kids l' c' where t: "t = XElem ''package'' as l c kids l' c'" by (cases t) auto
    have "list_all good_package ?ts" using less.prems(2) by (auto simp: list_all_iff dest: set_dropWhileD)
    then have good: "list_all has_text kids" "list_all good_package us" unfolding Cons t by simp_all
    have list: "package_list ts p0 = package_list (t # us) p0" using package_list_search [of ts p0] Cons by simp
    have len: "length us < length ts" using Cons length_dropWhile_le [of "\<lambda>t. \<not> is_package t" ts] by simp
    have ty: "attribute ''type'' s1 = return (xattr as ''type'')"
      using s1(2) Cons t by (intro at_start(3) [of s1 "''package''" _ l c]) (simp_all add: arrived_at)
    show ?thesis
    proof (cases "xattr as ''type'' = ''rpm''")
      case False
      then show ?thesis
        using s1(1) Cons ty list t by (subst packages.simps) (simp add: primary_next_def)
    next
      case True
      obtain s2 where s2: "primary_next s p = Some (bind (effects package_effect kids (clear p)) (\<lambda>p'.
          bind (validate p') (\<lambda>_. return (True, s2, p'))))"
        "effects package_effect kids (clear p) \<in> range Inr \<longrightarrow> arrived (Inr s2) (flattens us @ XEnd l0 c0 # es) fin"
        using primary_next_package [OF less.prems(1) _ good(1) True, of _ l c l' c' us p] Cons t by blast
      show ?thesis
      proof (cases "effects package_effect kids (clear p)")
        case (Inl e)
        then show ?thesis using s2(1) True less.prems(3) list t by (subst packages.simps) simp
      next
        case (Inr p')
        have "clear p' = clear p0"
          using clear_effects(4) [OF Inr] less.prems(3) by (simp add: clear_def)
        then show ?thesis
          using s2 Inr less.hyps [OF len _ good(2), of s2 p'] True less.prems(3) list t
          by (subst packages.simps) (cases "validate p'"; cases "package_list us p0"; simp)
      qed
    qed
  qed
qed

lemma primary_document:
  assumes "list_all nul_free_chunk (fin # cs)"
    and "document cs fin 0 = (flatten (XElem ''metadata'' as l c kids l' c') @ after, f)"
    and "list_all good_package kids"
  shows "andthen (Some (primary_new (expat_source cs fin) base)) (\<lambda>(s, p). packages s p []) =
    Some (package_list kids
      \<lparr>primary_base = base, info = rpm_package_info_new, href = [], csum = checksum_new\<rparr>)"
proof -
  let ?p = "\<lparr>primary_base = base, info = rpm_package_info_new, href = [], csum = checksum_new\<rparr>"
  have "pending (expat_source cs fin) (XStart ''metadata'' as l c # flattens kids @ XEnd l' c' # after) f"
    using pending_initial [OF assms(1)] assms(2) by simp
  then obtain s where s: "advance_event (expat_source cs fin) = Inr s" "at_event s (XStart ''metadata'' as l c)"
    "pending s (flattens kids @ XEnd l' c' # after) f"
    using advance_arrives arrived_Cons by blast
  obtain s1 where s1: "advance_event s = Inr s1" "arrived (Inr s1) (flattens kids @ XEnd l' c' # after) f"
    using advance_arrives [OF s(3)] arrived_state by fastforce
  have "primary_new (expat_source cs fin) base = return (s1, ?p)"
    using s(1) s1(1) at_start(2) [OF s(2)] by (simp add: primary_new_def)
  then show ?thesis using packages_content [OF s1(2) assms(3) refl, of ?p "[]"] by simp
qed

text \<open>
  C13. Iterating over \<open>primary.xml\<close> returns, and yields the packages of the document in order,
  whatever other elements and white space lie between: each with the fields that its own elements
  set and defaults for the others. The first package that is not an RPM package, has a bad
  checksum or misses a required field ends the iteration with an exception.
\<close>

theorem primary_packages:
  assumes "list_all nul_free_chunk (fin # cs)"
    and "document cs fin 0 = (flatten (XElem ''metadata'' as l c kids l' c') @ after, f)"
    and "list_all good_package kids"
  shows "andthen (Some (primary_new (expat_source cs fin) base)) (\<lambda>(s, p). packages s p []) =
    Some (package_list kids
      \<lparr>primary_base = base, info = rpm_package_info_new, href = [], csum = checksum_new\<rparr>)"
  using assms by (rule primary_document)

theorem primary_packages_witness:
  "andthen (Some (primary_new (expat_source [] \<lparr>read_failure = None, buf = ''...'',
        calls = [(StartElement ''metadata'' [], 0, 0), (StartElement ''package'' [(''type'', ''rpm'')], 0, 0),
          (StartElement ''name'' [], 0, 0), (CharacterData ''bash'', 0, 0), (EndElement, 0, 0),
          (EndElement, 0, 0), (EndElement, 0, 0)],
        status_ok = True, err_line = 0, err_column = 0, err_message = [], err_index = 0\<rparr>) ''http://x/''))
     (\<lambda>(s, p). packages s p []) = Some (throw (Runtime_error ''missing <version> element in package: bash''))"
proof -
  let ?d = "\<lparr>read_failure = None, buf = ''...'',
        calls = [(StartElement ''metadata'' [], 0, 0), (StartElement ''package'' [(''type'', ''rpm'')], 0, 0),
          (StartElement ''name'' [], 0, 0), (CharacterData ''bash'', 0, 0), (EndElement, 0, 0),
          (EndElement, 0, 0), (EndElement, 0, 0)],
        status_ok = True, err_line = 0, err_column = 0, err_message = [], err_index = 0\<rparr>"
  let ?k = "elem ''package'' [(''type'', ''rpm'')] [elem ''name'' [] [txt_node ''bash'']]"
  have nf: "list_all nul_free_chunk (?d # [])" by (simp add: nul_free_chunk_def)
  have doc: "document [] ?d 0 = (flatten (elem ''metadata'' [] [?k]) @ [], None)"
    by (simp add: chunk_failure_def parse_chunk_def chunk_events_def expat_source_def check_error_def Let_def
        StartElementHandler_def EndElementHandler_def CharacterDataHandler_def append_cstr_def push_position_def)
  have good: "list_all good_package [?k]" by simp
  show ?thesis
    using primary_packages [OF nf doc good, of "''http://x/''"]
    by (simp add: xattr_def clear_def rpm_package_info_new_def validate_def check_attr_def)
qed

end
