(* ===== verification/Primary_xml.thy ===== *)
theory Primary_xml
  imports Repomd
begin

text \<open>
  The source for \<open>primary.xml\<close> in \<open>repomd_primary_xml.cpp\<close>: which entry of the index is
  downloaded and how, and the check of the digest at the end of the data. Downloading and
  decompression are parameters: \<open>download\<close> yields the reads of the decompressed data.
\<close>

datatype cache_mode = no_cache | check_cache | always_cache | only_cache

record 'c primary_xml =
  px_url :: string
  gz_reads :: "u8 list result list"
  px_hash :: "'c hash_sink"
  px_expected :: checksum

text \<open>\<open>std::string::find\<close> as a test\<close>

definition contains :: "string \<Rightarrow> string \<Rightarrow> bool" where
  "contains s t \<longleftrightarrow> list_ex (\<lambda>i. take (length t) (drop i s) = t) [0..<Suc (length s)]"

definition entry_cache_mode :: "cache_mode \<Rightarrow> entry \<Rightarrow> cache_mode" where
  "entry_cache_mode mode en =
     (let digest = base16_encode (csum_value (entry_checksum en))
      in if (digest = [] \<or> \<not> contains (entry_href en) digest) \<and> mode = always_cache then check_cache else mode)"

definition is_primary :: "entry \<Rightarrow> bool" where
  "is_primary en \<longleftrightarrow> entry_type en = ''primary'' \<and> ends_with (entry_href en) ''.xml.gz''"

fun primary_xml_loop ::
    "'c nss \<Rightarrow> (cache_mode \<Rightarrow> string \<Rightarrow> u8 list result list result) \<Rightarrow> cache_mode \<Rightarrow> string \<Rightarrow> entry list \<Rightarrow>
     'c primary_xml result" where
  "primary_xml_loop nss download mode base [] = throw (Runtime_error (base @ '': could not find primary.xml''))"
| "primary_xml_loop nss download mode base (en # ens) =
     (if is_primary en then
        let entry_url = url_combine_yum (cstr base) (cstr (entry_href en))
        in bind (download (entry_cache_mode mode en) entry_url) (\<lambda>reads.
           bind (hash_sink_new nss (csum_type (entry_checksum en))) (\<lambda>sink.
           return \<lparr>px_url = entry_url, gz_reads = reads, px_hash = sink, px_expected = entry_checksum en\<rparr>))
      else primary_xml_loop nss download mode base ens)"

definition primary_xml_new ::
    "'c nss \<Rightarrow> (cache_mode \<Rightarrow> string \<Rightarrow> u8 list result list result) \<Rightarrow> repomd \<Rightarrow> cache_mode \<Rightarrow> 'c primary_xml result" where
  "primary_xml_new nss download rp mode = primary_xml_loop nss download mode (base_url rp) (entries rp)"

definition mismatch_message :: "checksum \<Rightarrow> u8 list \<Rightarrow> string" where
  "mismatch_message ex d =
     ''compressed data does not match '' @ hash_name (csum_type ex) @ '' checksum (actual '' @ base16_encode d @
     '', expected '' @ base16_encode (csum_value ex) @ '')''"

definition check_digest :: "'c nss \<Rightarrow> 'c primary_xml \<Rightarrow> unit result" where
  "check_digest nss px =
     bind (digest nss (px_hash px)) (\<lambda>d.
       if d \<noteq> csum_value (px_expected px) then throw (Curl_exception (mismatch_message (px_expected px) d))
       else return ())"

text \<open>One read: no bytes at the end of the data, where the digest is checked.\<close>

definition primary_xml_read :: "'c nss \<Rightarrow> 'c primary_xml \<Rightarrow> (u8 list \<times> 'c primary_xml) result" where
  "primary_xml_read nss px =
     (case gz_reads px of
        [] \<Rightarrow> bind (check_digest nss px) (\<lambda>_. return ([], px))
      | r # rs \<Rightarrow>
          bind r (\<lambda>buf.
            if buf = [] then bind (check_digest nss px) (\<lambda>_. return ([], px\<lparr>gz_reads := rs\<rparr>))
            else bind (write_hash nss buf (px_hash px)) (\<lambda>sink.
              return (buf, px\<lparr>gz_reads := rs, px_hash := sink\<rparr>))))"

text \<open>Reading until no bytes are returned.\<close>

function read_to_end :: "'c nss \<Rightarrow> 'c primary_xml \<Rightarrow> u8 list result" where
  "read_to_end nss px =
     bind (primary_xml_read nss px) (\<lambda>(buf, px').
       if buf = [] then return [] else bind (read_to_end nss px') (\<lambda>rest. return (buf @ rest)))"
  by pat_completeness auto
termination
  by (relation "measure (\<lambda>(nss, px). length (gz_reads px))")
    (auto simp: primary_xml_read_def bind_def split: list.splits sum.splits if_splits)

declare read_to_end.simps [simp del]

lemma read_to_end_holds:
  assumes "nss_digests nss H collected"
  shows "sink_holds collected (px_hash px) t d \<Longrightarrow>
    read_to_end nss px = bind (contents (gz_reads px)) (\<lambda>bs.
      if H t (d @ bs) = csum_value (px_expected px) then return bs
      else throw (Curl_exception (mismatch_message (px_expected px) (H t (d @ bs)))))"
proof (induction "gz_reads px" arbitrary: px d)
  case Nil
  then show ?case
    using digest_holds [OF assms Nil.prems]
    by (subst read_to_end.simps) (auto simp: primary_xml_read_def check_digest_def)
next
  case (Cons r rs)
  show ?case
  proof (cases r)
    case (Inl e)
    then show ?thesis using Cons.hyps(2) [symmetric] by (subst read_to_end.simps) (simp add: primary_xml_read_def)
  next
    case (Inr buf)
    show ?thesis
    proof (cases "buf = []")
      case True
      then show ?thesis
        using digest_holds [OF assms Cons.prems] Cons.hyps(2) [symmetric] Inr
        by (subst read_to_end.simps) (auto simp: primary_xml_read_def check_digest_def)
    next
      case False
      obtain sink where sink: "write_hash nss buf (px_hash px) = return sink" "sink_holds collected sink t (d @ buf)"
        using write_hash_holds [OF assms Cons.prems] by blast
      let ?px = "px\<lparr>gz_reads := rs, px_hash := sink\<rparr>"
      have "read_to_end nss px = bind (read_to_end nss ?px) (\<lambda>rest. return (buf @ rest))"
        using Cons.hyps(2) [symmetric] Inr False sink(1)
        by (subst read_to_end.simps) (simp add: primary_xml_read_def)
      then show ?thesis
        using Cons.hyps(1) [of ?px "d @ buf"] sink(2) Cons.hyps(2) [symmetric] Inr False
        by (cases "contents rs") simp_all
    qed
  qed
qed

text \<open>
  C39. The source reads the first entry for \<open>primary.xml\<close> of the index. Reading it to the end
  yields the decompressed data if their digest is the checksum of the entry, and a
  \<open>curl_exception\<close> otherwise. (The checksum of an entry is that of the compressed file, as its
  message says; the one of the decompressed data is \<open>open_checksum\<close>.)
\<close>

theorem primary_xml_digest:
  assumes "nss_digests nss H collected"
    and "\<forall>en \<in> set before. \<not> is_primary en" and "is_primary en"
    and "entries rp = before @ en # after"
    and "download (entry_cache_mode mode en) (url_combine_yum (cstr (base_url rp)) (cstr (entry_href en))) = return reads"
  shows "bind (primary_xml_new nss download rp mode) (read_to_end nss) =
    bind (contents reads) (\<lambda>bs.
      let d = H (csum_type (entry_checksum en)) bs
      in if d = csum_value (entry_checksum en) then return bs
         else throw (Curl_exception (mismatch_message (entry_checksum en) d)))"
proof -
  have find: "primary_xml_loop nss download mode base (before @ ens) = primary_xml_loop nss download mode base ens"
    for base ens using assms(2) by (induction before) auto
  obtain sink where sink: "hash_sink_new nss (csum_type (entry_checksum en)) = return sink"
    "sink_holds collected sink (csum_type (entry_checksum en)) []"
    using hash_sink_holds [OF assms(1)] by blast
  show ?thesis
    using assms(3-5) sink read_to_end_holds [OF assms(1), of _ "csum_type (entry_checksum en)" "[]"]
    by (simp add: primary_xml_new_def find Let_def cong: if_cong)
qed

theorem primary_xml_digest_witness:
  "bind (primary_xml_new pad_nss (\<lambda>mode url. return [return [1], return [2, 3]])
      \<lparr>base_url = ''b/'', revision = [], entries =
        [entry_new, \<lparr>entry_type = ''primary'', compressed = True, entry_checksum =
           \<lparr>csum_value = [1, 2, 3] @ replicate 13 0, csum_length = no_length, csum_type = md5\<rparr>,
           open_checksum = checksum_new, entry_href = ''p.xml.gz''\<rparr>]\<rparr> always_cache) (read_to_end pad_nss)
    = return [1, 2, 3]"
proof -
  let ?en = "\<lparr>entry_type = ''primary'', compressed = True, entry_checksum =
      \<lparr>csum_value = [1, 2, 3] @ replicate 13 0, csum_length = no_length, csum_type = md5\<rparr>,
      open_checksum = checksum_new, entry_href = ''p.xml.gz''\<rparr>"
  let ?rp = "\<lparr>base_url = ''b/'', revision = [], entries = [entry_new, ?en]\<rparr>"
  have nss: "nss_digests pad_nss pad_digest (\<lambda>c t d. c = (t, d))" by (rule pad_nss_digests)
  have a: "\<forall>en \<in> set [entry_new]. \<not> is_primary en" by (simp add: is_primary_def entry_new_def)
  have b: "is_primary ?en" by (simp add: is_primary_def ends_with_def)
  have c: "entries ?rp = [entry_new] @ ?en # []" by simp
  show ?thesis
    using primary_xml_digest [OF nss a b c, where download = "\<lambda>mode url. return [return [1], return [2, 3]]"
      and mode = always_cache and reads = "[return [1], return [2, 3]]"]
    by (simp add: pad_digest_def)
qed

end
