(* ===== verification/File_cache.thy ===== *)
theory File_cache
  imports Hash
begin

text \<open>
  The cache of downloaded files, named by their digests: \<open>file_cache.cpp\<close>, with the sinks it
  writes to (\<open>fd_sink.cpp\<close>, \<open>tee_sink.cpp\<close>). The directory is part of the state, so that what an
  interrupted addition leaves behind can be stated. Which system calls fail is a parameter. The
  model is of one writer at a time (the code has no locking) and has no symbolic links in the
  directory.
\<close>

section \<open>The directory and the system calls\<close>

datatype fnode = Regular "u8 list" | Other

text \<open>The outcomes of the calls in one addition; \<open>kwrites\<close> are the results of successive writes.\<close>

record kernel =
  k_open :: "exn option"
  k_fsync :: "exn option"
  k_close :: "exn option"
  k_rename :: "exn option"
  k_unlink :: "exn option"

record world =
  cdir :: "string \<rightharpoonup> fnode"
  kwrites :: "int list"

text \<open>
  The loop of \<open>fd_sink::write\<close>: what is left of the outcomes, the bytes that reached the file, and
  the exception. A result of zero counts as an error. When no outcome is given for a write it
  takes all bytes.
\<close>

fun fd_write :: "int list \<Rightarrow> u8 list \<Rightarrow> int list \<times> u8 list \<times> exn option" where
  "fd_write rets buf =
     (if buf = [] then (rets, [], None)
      else case rets of
          [] \<Rightarrow> ([], buf, None)
        | ret # rest \<Rightarrow>
            if ret \<le> 0 then (rest, [], Some (Os_exception ''write''))
            else let n = min (nat ret) (length buf);
                     (rets', out, err) = fd_write rest (drop n buf)
                 in (rets', take n buf @ out, err))"

declare fd_write.simps [simp del]

definition append_file :: "string \<Rightarrow> u8 list \<Rightarrow> (string \<rightharpoonup> fnode) \<Rightarrow> (string \<rightharpoonup> fnode)" where
  "append_file nm bs d = (case d nm of Some (Regular old) \<Rightarrow> d(nm \<mapsto> Regular (old @ bs)) | _ \<Rightarrow> d)"

section \<open>The cache\<close>

record file_cache =
  cache_root :: string
  do_fsync :: bool

definition file_cache_new :: "string \<Rightarrow> file_cache" where
  "file_cache_new path =
     \<lparr>cache_root = (if path \<noteq> [] \<and> List.last path \<noteq> CHR ''/'' then path @ ''/'' else path), do_fsync = True\<rparr>"

definition enable_fsync :: "bool \<Rightarrow> file_cache \<Rightarrow> file_cache" where
  "enable_fsync on c = c\<lparr>do_fsync := on\<rparr>"

text \<open>An empty name is not found by \<open>fstatat\<close>.\<close>

definition lookup_path :: "file_cache \<Rightarrow> checksum \<Rightarrow> world \<Rightarrow> string option" where
  "lookup_path c cs w =
     (let hex = base16_encode (csum_value cs)
      in if hex = [] then None
         else case cdir w hex of
             Some (Regular dat) \<Rightarrow>
               if csum_length cs = no_length \<or> csum_length cs = of_nat (length dat) then Some (cache_root c @ hex)
               else None
           | _ \<Rightarrow> None)"

fun digests :: "string list \<Rightarrow> u8 list list \<Rightarrow> u8 list list" where
  "digests [] acc = acc"
| "digests (nm # nms) acc =
     (case base16_decode nm of
        (decoded, None) \<Rightarrow> digests nms (acc @ [decoded])
      | (decoded, Some e) \<Rightarrow> digests nms acc)"

record 'c add_sink =
  add_csum :: checksum
  add_hex :: string
  temp_file :: string
  add_hash :: "'c hash_sink"
  add_length :: u64

text \<open>The destructor: exceptions are swallowed.\<close>

definition add_impl_destroy :: "kernel \<Rightarrow> string \<Rightarrow> world \<Rightarrow> world" where
  "add_impl_destroy k tmp w =
     (if tmp = [] then w
      else case k_unlink k of
          Some e \<Rightarrow> w
        | None \<Rightarrow> (case cdir w tmp of Some (Regular _) \<Rightarrow> w\<lparr>cdir := (cdir w)(tmp := None)\<rparr> | _ \<Rightarrow> w))"

definition add_sink_new :: "kernel \<Rightarrow> 'c nss \<Rightarrow> checksum \<Rightarrow> world \<Rightarrow> world \<times> 'c add_sink result" where
  "add_sink_new k nss cs w =
     (case hash_sink_new nss (csum_type cs) of
        Inl e \<Rightarrow> (w, Inl e)
      | Inr h \<Rightarrow>
          let hex = base16_encode (csum_value cs);
              a = \<lparr>add_csum = cs, add_hex = hex, temp_file = hex @ ''.tmp'', add_hash = h, add_length = 0\<rparr>
          in case k_open k of
               Some e \<Rightarrow> (add_impl_destroy k (temp_file a) w, Inl e)
             | None \<Rightarrow>
                 if cdir w (temp_file a) = Some Other then
                   (add_impl_destroy k (temp_file a) w, Inl (Os_exception ''openat''))
                 else (w\<lparr>cdir := (cdir w)(temp_file a \<mapsto> Regular [])\<rparr>, Inr a))"

text \<open>The tee passes the bytes to the file first, then to the digest.\<close>

definition add_sink_write :: "'c nss \<Rightarrow> u8 list \<Rightarrow> 'c add_sink \<Rightarrow> world \<Rightarrow> world \<times> 'c add_sink result" where
  "add_sink_write nss buf a w =
     (case fd_write (kwrites w) buf of
        (rets, out, err) \<Rightarrow>
          let w' = w\<lparr>kwrites := rets, cdir := append_file (temp_file a) out (cdir w)\<rparr>
          in case err of
               Some e \<Rightarrow> (w', Inl e)
             | None \<Rightarrow>
                 (w', bind (write_hash nss buf (add_hash a)) (\<lambda>h.
                    return (a\<lparr>add_hash := h, add_length := add_length a + of_nat (length buf)\<rparr>))))"

definition rename_file :: "string \<Rightarrow> string \<Rightarrow> (string \<rightharpoonup> fnode) \<Rightarrow> (string \<rightharpoonup> fnode)" where
  "rename_file src dst d = (d(dst := d src))(src := None)"

text \<open>The result is the path and the name of the temporary file, which is cleared on success.\<close>

definition add_sink_finish :: "file_cache \<Rightarrow> kernel \<Rightarrow> 'c nss \<Rightarrow> 'c add_sink \<Rightarrow> world \<Rightarrow> world \<times> string result" where
  "add_sink_finish c k nss a w =
     (if csum_length (add_csum a) \<noteq> no_length \<and> csum_length (add_csum a) \<noteq> add_length a then
        (w, Inl (Checksum_mismatch ''length''))
      else case digest nss (add_hash a) of
          Inl e \<Rightarrow> (w, Inl e)
        | Inr d \<Rightarrow>
            if d \<noteq> csum_value (add_csum a) then (w, Inl (Checksum_mismatch ''digest''))
            else case (if do_fsync c then k_fsync k else None) of
                Some e \<Rightarrow> (w, Inl e)
              | None \<Rightarrow>
            (case k_close k of
                Some e \<Rightarrow> (w, Inl e)
              | None \<Rightarrow>
            (case k_rename k of
                Some e \<Rightarrow> (w, Inl e)
              | None \<Rightarrow>
                  if cdir w (add_hex a) = Some Other then (w, Inl (Os_exception ''renameat''))
                  else (w\<lparr>cdir := rename_file (temp_file a) (add_hex a) (cdir w)\<rparr>, Inr (cache_root c @ add_hex a)))))"

fun add_writes :: "'c nss \<Rightarrow> u8 list list \<Rightarrow> 'c add_sink \<Rightarrow> world \<Rightarrow> world \<times> 'c add_sink result" where
  "add_writes nss [] a w = (w, Inr a)"
| "add_writes nss (buf # bufs) a w =
     (case add_sink_write nss buf a w of
        (w', Inl e) \<Rightarrow> (w', Inl e)
      | (w', Inr a') \<Rightarrow> add_writes nss bufs a' w')"

text \<open>A whole addition: the sink is made, written to and finished, and destroyed on every path.\<close>

definition add_stream ::
    "file_cache \<Rightarrow> kernel \<Rightarrow> 'c nss \<Rightarrow> checksum \<Rightarrow> u8 list list \<Rightarrow> world \<Rightarrow> world \<times> string result" where
  "add_stream c k nss cs bufs w =
     (case add_sink_new k nss cs w of
        (w1, Inl e) \<Rightarrow> (w1, Inl e)
      | (w1, Inr a) \<Rightarrow>
          (case add_writes nss bufs a w1 of
             (w2, Inl e) \<Rightarrow> (add_impl_destroy k (temp_file a) w2, Inl e)
           | (w2, Inr a') \<Rightarrow>
               (case add_sink_finish c k nss a' w2 of
                  (w3, Inl e) \<Rightarrow> (add_impl_destroy k (temp_file a') w3, Inl e)
                | (w3, Inr path) \<Rightarrow> (add_impl_destroy k [] w3, Inr path))))"

definition file_cache_add :: "file_cache \<Rightarrow> kernel \<Rightarrow> 'c nss \<Rightarrow> checksum \<Rightarrow> u8 list \<Rightarrow> world \<Rightarrow> world \<times> string result" where
  "file_cache_add c k nss cs dat w = add_stream c k nss cs [dat] w"

section \<open>An addition stores the data or changes nothing\<close>

definition same_but :: "string \<Rightarrow> (string \<rightharpoonup> fnode) \<Rightarrow> (string \<rightharpoonup> fnode) \<Rightarrow> bool" where
  "same_but nm d d' \<longleftrightarrow> (\<forall>n. n \<noteq> nm \<longrightarrow> d' n = d n)"

lemma same_but_simps [simp]:
  "same_but nm d d"
  "same_but nm d (d'(nm := x)) \<longleftrightarrow> same_but nm d d'"
  by (auto simp: same_but_def)

lemma same_but_trans: "same_but nm d d' \<Longrightarrow> same_but nm d' d'' \<Longrightarrow> same_but nm d d''"
  by (simp add: same_but_def)

lemma same_but_append [simp]: "same_but nm d (append_file nm bs d)"
  by (simp add: append_file_def split: option.split fnode.split)

lemma same_but_destroy [simp]: "same_but nm (cdir w) (cdir (add_impl_destroy k nm w))"
  by (simp add: add_impl_destroy_def split: option.split fnode.split)

lemma fd_write_all: "fd_write rets buf = (rets', out, None) \<Longrightarrow> out = buf"
proof (induction rets buf arbitrary: rets' out rule: fd_write.induct)
  case (1 rets buf)
  show ?case
  proof (cases "buf = [] \<or> rets = []")
    case True
    then show ?thesis using "1.prems" by (auto simp: fd_write.simps [of rets buf] split: if_splits)
  next
    case False
    then obtain ret rest where rets: "rets = ret # rest" by (cases rets) auto
    let ?n = "min (nat ret) (length buf)"
    obtain r o' e where rec: "fd_write rest (drop ?n buf) = (r, o', e)" by (cases "fd_write rest (drop ?n buf)")
    then have "\<not> ret \<le> 0" "e = None" "out = take ?n buf @ o'"
      using "1.prems" False rets by (auto simp: fd_write.simps [of "ret # rest" buf] Let_def split: if_splits)
    then show ?thesis using "1.IH" [OF _ rets] rec False by auto
  qed
qed

text \<open>What is known of a sink that has taken the bytes \<open>d\<close>.\<close>

definition filling ::
    "('c \<Rightarrow> hash_type \<Rightarrow> u8 list \<Rightarrow> bool) \<Rightarrow> checksum \<Rightarrow> (string \<rightharpoonup> fnode) \<Rightarrow> u8 list \<Rightarrow> 'c add_sink \<Rightarrow> world \<Rightarrow> bool" where
  "filling collected cs dir d a w \<longleftrightarrow>
     add_csum a = cs \<and> add_hex a = base16_encode (csum_value cs) \<and> temp_file a = add_hex a @ ''.tmp'' \<and>
     sink_holds collected (add_hash a) (csum_type cs) d \<and> add_length a = of_nat (length d) \<and>
     cdir w = dir(temp_file a \<mapsto> Regular d)"

lemma add_sink_write_fills:
  assumes "nss_digests nss H collected" and fill: "filling collected cs dir d a w"
  shows "case add_sink_write nss buf a w of
      (w', Inl e) \<Rightarrow> same_but (temp_file a) dir (cdir w')
    | (w', Inr a') \<Rightarrow> filling collected cs dir (d @ buf) a' w'"
proof -
  obtain rets out err where fd: "fd_write (kwrites w) buf = (rets, out, err)" by (cases "fd_write (kwrites w) buf")
  obtain h where h: "write_hash nss buf (add_hash a) = return h" "sink_holds collected h (csum_type cs) (d @ buf)"
    using write_hash_holds [OF assms(1)] fill unfolding filling_def by blast
  have dir: "cdir w = dir(temp_file a \<mapsto> Regular d)" using fill by (simp add: filling_def)
  show ?thesis
  proof (cases err)
    case None
    then have "out = buf" using fd_write_all fd by blast
    then show ?thesis
      using fill fd None h by (simp add: add_sink_write_def filling_def append_file_def)
  next
    case (Some e)
    then show ?thesis using fd dir by (simp add: add_sink_write_def append_file_def)
  qed
qed

lemma add_writes_fills:
  assumes "nss_digests nss H collected"
  shows "filling collected cs dir d a w \<Longrightarrow>
    case add_writes nss bufs a w of
      (w', Inl e) \<Rightarrow> same_but (temp_file a) dir (cdir w')
    | (w', Inr a') \<Rightarrow> filling collected cs dir (d @ concat bufs) a' w'"
proof (induction bufs arbitrary: a w d)
  case (Cons buf bufs)
  obtain w1 r where step: "add_sink_write nss buf a w = (w1, r)" by (cases "add_sink_write nss buf a w")
  show ?case
  proof (cases r)
    case (Inl e)
    then show ?thesis using add_sink_write_fills [OF assms Cons.prems, of buf] step by simp
  next
    case (Inr a1)
    then have f: "filling collected cs dir (d @ buf) a1 w1"
      using add_sink_write_fills [OF assms Cons.prems, of buf] step by simp
    moreover have "temp_file a1 = temp_file a" using f Cons.prems by (simp add: filling_def)
    ultimately show ?thesis using Cons.IH [OF f] step Inr by (simp split: prod.splits sum.splits)
  qed
qed simp

lemma add_sink_new_fills:
  assumes "nss_digests nss H collected"
  shows "case add_sink_new k nss cs w of
      (w', Inl e) \<Rightarrow> same_but (base16_encode (csum_value cs) @ ''.tmp'') (cdir w) (cdir w')
    | (w', Inr a) \<Rightarrow> filling collected cs (cdir w) [] a w'"
proof -
  obtain h where h: "hash_sink_new nss (csum_type cs) = return h" "sink_holds collected h (csum_type cs) []"
    using hash_sink_holds [OF assms] by blast
  then show ?thesis by (simp add: add_sink_new_def filling_def Let_def split: option.split)
qed

definition accepts :: "(hash_type \<Rightarrow> u8 list \<Rightarrow> u8 list) \<Rightarrow> checksum \<Rightarrow> u8 list \<Rightarrow> bool" where
  "accepts H cs dat \<longleftrightarrow>
     H (csum_type cs) dat = csum_value cs \<and>
     (csum_length cs = no_length \<or> csum_length cs = of_nat (length dat))"

definition stored :: "checksum \<Rightarrow> u8 list \<Rightarrow> (string \<rightharpoonup> fnode) \<Rightarrow> (string \<rightharpoonup> fnode)" where
  "stored cs dat d =
     d(base16_encode (csum_value cs) \<mapsto> Regular dat, base16_encode (csum_value cs) @ ''.tmp'' := None)"

lemma add_sink_finish_outcome:
  assumes "nss_digests nss H collected" and "filling collected cs dir d a w"
  shows "case add_sink_finish c k nss a w of
      (w', Inl e) \<Rightarrow> w' = w
    | (w', Inr path) \<Rightarrow> path = cache_root c @ base16_encode (csum_value cs) \<and> accepts H cs d \<and> cdir w' = stored cs d dir"
proof -
  have dig: "digest nss (add_hash a) = return (H (csum_type cs) d)"
    using digest_holds [OF assms(1)] assms(2) by (simp add: filling_def)
  show ?thesis
    using assms(2) dig
    by (auto simp: add_sink_finish_def filling_def accepts_def stored_def rename_file_def fun_upd_twist split: option.splits)
qed

lemma add_stream_outcome:
  assumes "nss_digests nss H collected"
  shows "case add_stream c k nss cs bufs w of
      (w', Inl e) \<Rightarrow> same_but (base16_encode (csum_value cs) @ ''.tmp'') (cdir w) (cdir w')
    | (w', Inr path) \<Rightarrow> path = cache_root c @ base16_encode (csum_value cs) \<and> accepts H cs (concat bufs) \<and>
        cdir w' = stored cs (concat bufs) (cdir w)"
proof -
  let ?tmp = "base16_encode (csum_value cs) @ ''.tmp''"
  obtain w1 r where new: "add_sink_new k nss cs w = (w1, r)" by (cases "add_sink_new k nss cs w")
  show ?thesis
  proof (cases r)
    case (Inl e)
    then show ?thesis using add_sink_new_fills [OF assms, where k = k and cs = cs and w = w] new by (simp add: add_stream_def)
  next
    case (Inr a)
    then have f1: "filling collected cs (cdir w) [] a w1" using add_sink_new_fills [OF assms, where k = k and cs = cs and w = w] new by simp
    obtain w2 q where wr: "add_writes nss bufs a w1 = (w2, q)" by (cases "add_writes nss bufs a w1")
    have tmp: "temp_file a = ?tmp" using f1 by (simp add: filling_def)
    show ?thesis
    proof (cases q)
      case Inl2: (Inl e)
      then have "same_but ?tmp (cdir w) (cdir w2)" using add_writes_fills [OF assms f1, of bufs] wr tmp by simp
      then show ?thesis using new Inr wr Inl2 tmp same_but_trans by (fastforce simp: add_stream_def)
    next
      case Inr2: (Inr a')
      then have f2: "filling collected cs (cdir w) (concat bufs) a' w2" using add_writes_fills [OF assms f1, of bufs] wr by simp
      obtain w3 p where fin: "add_sink_finish c k nss a' w2 = (w3, p)" by (cases "add_sink_finish c k nss a' w2")
      have "temp_file a' = ?tmp" "same_but ?tmp (cdir w) (cdir w2)" using f2 by (simp_all add: filling_def)
      then show ?thesis
        using add_sink_finish_outcome [OF assms f2, where c = c and k = k] new Inr wr Inr2 fin same_but_trans
        by (cases p) (fastforce simp: add_stream_def add_impl_destroy_def [of _ "[]"])+
    qed
  qed
qed


lemma fd_write_fair:
  "list_all (\<lambda>r. r > 0) rets \<Longrightarrow> \<exists>rets'. fd_write rets buf = (rets', buf, None) \<and> list_all (\<lambda>r. r > 0) rets'"
proof (induction rets buf rule: fd_write.induct)
  case (1 rets buf)
  show ?case
  proof (cases "buf = [] \<or> rets = []")
    case True
    then show ?thesis using "1.prems" by (subst fd_write.simps) auto
  next
    case False
    then obtain ret rest where rets: "rets = ret # rest" by (cases rets) auto
    let ?n = "min (nat ret) (length buf)"
    have "\<exists>rets'. fd_write rest (drop ?n buf) = (rets', drop ?n buf, None) \<and> list_all (\<lambda>r. r > 0) rets'"
      using "1.IH" [OF _ rets] "1.prems" False rets by simp
    then show ?thesis using "1.prems" False unfolding rets by (subst fd_write.simps) (auto simp: Let_def)
  qed
qed

lemma add_writes_fair:
  assumes "nss_digests nss H collected"
  shows "filling collected cs dir d a w \<Longrightarrow> list_all (\<lambda>r. r > 0) (kwrites w) \<Longrightarrow>
    \<exists>w' a'. add_writes nss bufs a w = (w', Inr a') \<and> filling collected cs dir (d @ concat bufs) a' w'"
proof (induction bufs arbitrary: a w d)
  case (Cons buf bufs)
  obtain rets where rets: "fd_write (kwrites w) buf = (rets, buf, None)" "list_all (\<lambda>r. r > 0) rets"
    using fd_write_fair [OF Cons.prems(2)] by blast
  obtain h where "write_hash nss buf (add_hash a) = return h"
    using write_hash_holds [OF assms] Cons.prems(1) unfolding filling_def by blast
  then obtain w1 a1 where s: "add_sink_write nss buf a w = (w1, Inr a1)" "kwrites w1 = rets"
    using rets(1) by (simp add: add_sink_write_def)
  then have "filling collected cs dir (d @ buf) a1 w1" using add_sink_write_fills [OF assms Cons.prems(1), of buf] by simp
  then show ?case using Cons.IH [of "d @ buf" a1 w1] rets(2) s by simp
qed simp

lemma lookup_stored:
  assumes "nss_digests nss H collected" and "accepts H cs d" and "cdir w' = stored cs d dir"
  shows "lookup_path c cs w' = Some (cache_root c @ base16_encode (csum_value cs))"
proof -
  have "length (H (csum_type cs) d) = digest_size (csum_type cs)" using assms(1) by (simp add: nss_digests_def)
  then have "csum_value cs \<noteq> []" using assms(2) by (cases "csum_type cs") (auto simp: accepts_def)
  then have "base16_encode (csum_value cs) \<noteq> []" by (cases "csum_value cs") (simp_all add: Let_def)
  then show ?thesis using assms by (simp add: lookup_path_def stored_def accepts_def Let_def)
qed

abbreviation no_faults :: kernel where
  "no_faults \<equiv> \<lparr>k_open = None, k_fsync = None, k_close = None, k_rename = None, k_unlink = None\<rparr>"

lemma add_stream_succeeds:
  assumes "nss_digests nss H collected" and k: "k = no_faults"
    and fair: "list_all (\<lambda>r. r > 0) (kwrites w)" and acc: "accepts H cs (concat bufs)" and reg: "Other \<notin> ran (cdir w)"
  shows "\<exists>w' path. add_stream c k nss cs bufs w = (w', Inr path)"
proof -
  have no: "cdir w nm \<noteq> Some Other" for nm using reg by (auto simp: ran_def)
  obtain h where "hash_sink_new nss (csum_type cs) = return h" using hash_sink_holds [OF assms(1)] by blast
  then obtain w1 a where new: "add_sink_new k nss cs w = (w1, Inr a)" "kwrites w1 = kwrites w"
    using k no by (simp add: add_sink_new_def Let_def)
  then have f1: "filling collected cs (cdir w) [] a w1"
    using add_sink_new_fills [OF assms(1), where k = k and cs = cs and w = w] by simp
  obtain w2 a2 where wr: "add_writes nss bufs a w1 = (w2, Inr a2)" "filling collected cs (cdir w) (concat bufs) a2 w2"
    using add_writes_fair [OF assms(1) f1, of bufs] fair new(2) by auto
  have dig: "digest nss (add_hash a2) = return (H (csum_type cs) (concat bufs))"
    using digest_holds [OF assms(1)] wr(2) by (simp add: filling_def)
  have "cdir w2 (add_hex a2) \<noteq> Some Other" using wr(2) no by (simp add: filling_def)
  then have "\<exists>w3 path. add_sink_finish c k nss a2 w2 = (w3, Inr path)"
    using wr(2) dig acc k by (auto simp: add_sink_finish_def filling_def accepts_def)
  then show ?thesis using new(1) wr(1) by (auto simp: add_stream_def)
qed

lemma add_stream_finds:
  assumes "nss_digests nss H collected" and "k = no_faults" and "list_all (\<lambda>r. r > 0) (kwrites w)"
    and "accepts H cs (concat bufs)" and "Other \<notin> ran (cdir w)"
  shows "\<exists>w' path. add_stream c k nss cs bufs w = (w', Inr path) \<and> lookup_path c cs w' = Some path"
proof -
  obtain w' path where s: "add_stream c k nss cs bufs w = (w', Inr path)" using add_stream_succeeds [OF assms] by blast
  then show ?thesis
    using add_stream_outcome [OF assms(1), where c = c and k = k and cs = cs and bufs = bufs and w = w]
      lookup_stored [OF assms(1,4), where c = c and w' = w'] by auto
qed

text \<open>
  C27. Adding data to the cache either stores them under the name of their checksum, after the
  length and the digest have been compared, and then looks them up again, or throws and leaves
  every file but the temporary one as it was, wherever a system call failed. When no call fails
  and the data match the checksum they are stored.
\<close>

theorem file_cache_add_outcome:
  assumes "nss_digests nss H collected"
  shows "(case add_stream c k nss cs bufs w of
        (w', Inl e) \<Rightarrow> \<forall>nm. nm \<noteq> base16_encode (csum_value cs) @ ''.tmp'' \<longrightarrow> cdir w' nm = cdir w nm
      | (w', Inr path) \<Rightarrow>
          accepts H cs (concat bufs) \<and> cdir w' = stored cs (concat bufs) (cdir w) \<and>
          lookup_path c cs w' = Some path) \<and>
    (k = no_faults \<and> list_all (\<lambda>r. r > 0) (kwrites w) \<and> accepts H cs (concat bufs) \<and> Other \<notin> ran (cdir w) \<longrightarrow>
       (\<exists>w' path. add_stream c k nss cs bufs w = (w', Inr path)))"
  using add_stream_outcome [OF assms, where c = c and k = k and cs = cs and bufs = bufs and w = w]
    add_stream_succeeds [OF assms, where c = c and k = k and cs = cs and bufs = bufs and w = w]
    lookup_stored [OF assms, where c = c and cs = cs]
  by (auto simp: same_but_def split: prod.splits sum.splits)

theorem file_cache_add_outcome_witness:
  "\<exists>w' path. add_stream (file_cache_new ''c'') no_faults
     pad_nss \<lparr>csum_value = 7 # replicate 15 0, csum_length = 1, csum_type = md5\<rparr> [[7]]
     \<lparr>cdir = Map.empty, kwrites = [1]\<rparr> = (w', Inr path)"
proof -
  have "accepts pad_digest \<lparr>csum_value = 7 # replicate 15 0, csum_length = 1, csum_type = md5\<rparr> (concat [[7]])"
    by (simp add: accepts_def pad_digest_def)
  then show ?thesis
    using file_cache_add_outcome [OF pad_nss_digests, where c = "file_cache_new ''c''" and k = no_faults
      and cs = "\<lparr>csum_value = 7 # replicate 15 0, csum_length = 1, csum_type = md5\<rparr>" and bufs = "[[7]]"
      and w = "\<lparr>cdir = Map.empty, kwrites = [1]\<rparr>"]
    by simp
qed

section \<open>What the cache holds\<close>

text \<open>A sequence of additions, each with its own system call outcomes.\<close>

fun adds :: "file_cache \<Rightarrow> 'c nss \<Rightarrow> (kernel \<times> checksum \<times> u8 list list \<times> int list) list \<Rightarrow> world \<Rightarrow> world" where
  "adds c nss [] w = w"
| "adds c nss ((k, cs, bufs, rets) # ops) w = adds c nss ops (fst (add_stream c k nss cs bufs (w\<lparr>kwrites := rets\<rparr>)))"

definition cache_ok :: "(hash_type \<Rightarrow> u8 list \<Rightarrow> u8 list) \<Rightarrow> (string \<rightharpoonup> fnode) \<Rightarrow> bool" where
  "cache_ok H d \<longleftrightarrow>
     (\<forall>v dat. d (base16_encode v) = Some (Regular dat) \<longrightarrow> (\<exists>t. H t dat = v))"

lemma temp_name_no_digest: "base16_encode u @ ''.tmp'' \<noteq> base16_encode v"
proof
  assume "base16_encode u @ ''.tmp'' = base16_encode v"
  then have "set ''.tmp'' \<subseteq> set (base16_encode v)" by (metis set_append sup_ge2)
  then have "CHR ''.'' \<in> set (base16_encode v)" by simp
  then show False using hex_values_encode [of v] by (auto simp: list_all_iff hex_value_def)
qed

lemma base16_encode_inj: "base16_encode u = base16_encode v \<longleftrightarrow> u = v"
  by (metis decode_from_encode prod.inject)

lemma adds_cache_ok:
  assumes "nss_digests nss H collected"
  shows "cache_ok H (cdir w) \<Longrightarrow> cache_ok H (cdir (adds c nss ops w))"
proof (induction ops arbitrary: w)
  case (Cons op ops)
  obtain k cs bufs rets where op: "op = (k, cs, bufs, rets)" by (cases op)
  obtain w1 r where s: "add_stream c k nss cs bufs (w\<lparr>kwrites := rets\<rparr>) = (w1, r)"
    by (cases "add_stream c k nss cs bufs (w\<lparr>kwrites := rets\<rparr>)")
  have "cache_ok H (cdir w1)"
  proof (cases r)
    case (Inl e)
    then have "same_but (base16_encode (csum_value cs) @ ''.tmp'') (cdir w) (cdir w1)"
      using add_stream_outcome [OF assms, where c = c and k = k and cs = cs and bufs = bufs and w = "w\<lparr>kwrites := rets\<rparr>"] s
      by simp
    then have "cdir w1 (base16_encode v) = cdir w (base16_encode v)" for v
      using temp_name_no_digest [of "csum_value cs" v] by (simp add: same_but_def)
    then show ?thesis using Cons.prems by (simp add: cache_ok_def)
  next
    case (Inr path)
    then have "accepts H cs (concat bufs)" "cdir w1 = stored cs (concat bufs) (cdir w)"
      using add_stream_outcome [OF assms, where c = c and k = k and cs = cs and bufs = bufs and w = "w\<lparr>kwrites := rets\<rparr>"] s
      by simp_all
    then show ?thesis
      using Cons.prems temp_name_no_digest [of "csum_value cs"]
      by (auto simp: cache_ok_def stored_def accepts_def base16_encode_inj)
  qed
  then show ?case using Cons.IH op s by simp
qed simp

text \<open>
  C8. However often data are added, with whatever data, checksums and failures, a path that the
  cache returns names a file whose contents have the digest and, where it is known, the length
  that was asked for. (The name does not tell the kind of digest.)
\<close>

theorem file_cache_lookup_safe:
  assumes "nss_digests nss H collected"
    and "lookup_path c cs (adds c nss ops \<lparr>cdir = Map.empty, kwrites = []\<rparr>) = Some path"
  shows "\<exists>dat t. path = cache_root c @ base16_encode (csum_value cs) \<and>
    cdir (adds c nss ops \<lparr>cdir = Map.empty, kwrites = []\<rparr>) (base16_encode (csum_value cs)) = Some (Regular dat) \<and>
    H t dat = csum_value cs \<and> (csum_length cs = no_length \<or> csum_length cs = of_nat (length dat))"
proof -
  let ?w = "adds c nss ops \<lparr>cdir = Map.empty, kwrites = []\<rparr>"
  have ok: "cache_ok H (cdir ?w)" by (rule adds_cache_ok [OF assms(1)]) (simp add: cache_ok_def)
  obtain dat where "cdir ?w (base16_encode (csum_value cs)) = Some (Regular dat)"
    "path = cache_root c @ base16_encode (csum_value cs)"
    "csum_length cs = no_length \<or> csum_length cs = of_nat (length dat)"
    using assms(2) by (auto simp: lookup_path_def Let_def split: if_splits option.splits fnode.splits)
  with ok show ?thesis unfolding cache_ok_def by blast
qed

theorem file_cache_lookup_safe_witness:
  "\<exists>ops path. lookup_path (file_cache_new ''c'') \<lparr>csum_value = 7 # replicate 15 0, csum_length = 1, csum_type = md5\<rparr>
      (adds (file_cache_new ''c'') pad_nss ops \<lparr>cdir = Map.empty, kwrites = []\<rparr>) = Some path \<and>
    (\<exists>dat t. pad_digest t dat = 7 # replicate 15 0)"
proof -
  let ?k = no_faults
  let ?cs = "\<lparr>csum_value = 7 # replicate 15 0, csum_length = 1, csum_type = md5\<rparr>"
  let ?c = "file_cache_new ''c''" and ?w = "\<lparr>cdir = Map.empty, kwrites = []\<rparr>"
  have acc: "accepts pad_digest ?cs (concat [[7]])" by (simp add: accepts_def pad_digest_def)
  obtain w path where s: "add_stream ?c ?k pad_nss ?cs [[7]] ?w = (w, Inr path)"
    "lookup_path ?c ?cs w = Some path"
    using add_stream_finds [OF pad_nss_digests refl _ acc, of ?w ?c] by auto
  then have l: "lookup_path ?c ?cs (adds ?c pad_nss [(?k, ?cs, [[7]], [])] ?w) = Some path" by simp
  moreover have "\<exists>dat t. pad_digest t dat = csum_value ?cs" using file_cache_lookup_safe [OF pad_nss_digests l] by blast
  ultimately show ?thesis unfolding checksum.select_convs by blast
qed

end
