(* ===== verification/Source.thy ===== *)
theory Source
  imports Prelude
begin

text \<open>
  Reading from a pipe: \<open>fd_source.cpp\<close> and \<open>read_exactly\<close> of \<open>source.cpp\<close>. The pipe holds the bytes that
  the writer will still send before it closes its end; how much each \<open>read\<close> returns is an
  argument: a negative number is an error, any other number an upper bound (at least one byte is
  returned while there are any). When no number is given, \<open>read\<close> returns all it can.
\<close>

record pipe =
  avail :: "u8 list"
  rets :: "int list"

definition read_size :: "nat \<Rightarrow> pipe \<Rightarrow> nat" where
  "read_size len p =
     min len (min (length (avail p)) (case rets p of [] \<Rightarrow> len | r # _ \<Rightarrow> max 1 (nat r)))"

definition fd_read :: "nat \<Rightarrow> pipe \<Rightarrow> u8 list result \<times> pipe" where
  "fd_read len p =
     (if rets p \<noteq> [] \<and> hd (rets p) < 0 then (throw (Os_exception ''read''), p\<lparr>rets := tl (rets p)\<rparr>)
      else (return (take (read_size len p) (avail p)),
            p\<lparr>avail := drop (read_size len p) (avail p), rets := tl (rets p)\<rparr>))"

function read_exactly :: "nat \<Rightarrow> pipe \<Rightarrow> u8 list result \<times> pipe" where
  "read_exactly count p =
     (if count = 0 then (return [], p)
      else case fd_read count p of
          (Inl e, p') \<Rightarrow> (throw e, p')
        | (Inr buf, p') \<Rightarrow>
            if buf = [] then (throw Eof_exception, p')
            else case read_exactly (count - length buf) p' of
                (r, p'') \<Rightarrow> (bind r (\<lambda>rest. return (buf @ rest)), p''))"
  by pat_completeness auto
termination by (relation "measure fst") auto

declare read_exactly.simps [simp del]

text \<open>A computation on the pipe that may fail; the pipe is kept on failure.\<close>

definition pbind :: "'a result \<times> pipe \<Rightarrow> ('a \<Rightarrow> pipe \<Rightarrow> 'b result \<times> pipe) \<Rightarrow> 'b result \<times> pipe" where
  "pbind m f = (case m of (Inl e, p) \<Rightarrow> (Inl e, p) | (Inr x, p) \<Rightarrow> f x p)"

lemma pbind_simps [simp, result_simps]:
  "pbind (Inl e, p) f = (Inl e, p)"
  "pbind (Inr x, p) f = f x p"
  by (simp_all add: pbind_def)

abbreviation no_read_error :: "pipe \<Rightarrow> bool" where
  "no_read_error p \<equiv> list_all (\<lambda>r. r \<ge> 0) (rets p)"

text \<open>However the bytes arrive, exactly the bytes asked for are read; too few are the end of the file.\<close>

lemma read_exactly_spec:
  "no_read_error p \<Longrightarrow> \<exists>rs. list_all (\<lambda>r. r \<ge> 0) rs \<and>
    read_exactly count p =
      (if count \<le> length (avail p) then (return (take count (avail p)), \<lparr>avail = drop count (avail p), rets = rs\<rparr>)
       else (throw Eof_exception, \<lparr>avail = [], rets = rs\<rparr>))"
proof (induction count arbitrary: p rule: less_induct)
  case (less count)
  show ?case
  proof (cases "count = 0")
    case True
    then show ?thesis using less.prems by (intro exI [of _ "rets p"]) (simp add: read_exactly.simps)
  next
    case False
    let ?n = "read_size count p" and ?p = "\<lparr>avail = drop (read_size count p) (avail p), rets = tl (rets p)\<rparr>"
    have tl: "list_all (\<lambda>r. r \<ge> 0) (tl (rets p))" using less.prems by (cases "rets p") simp_all
    have rd: "fd_read count p = (return (take ?n (avail p)), ?p)"
      using less.prems by (cases "rets p") (simp_all add: fd_read_def)
    have n: "?n \<le> count" "?n \<le> length (avail p)" "?n = 0 \<longleftrightarrow> avail p = []"
      using False by (auto simp: read_size_def min_def max_def split: list.splits if_splits)
    show ?thesis
    proof (cases "avail p = []")
      case True
      then show ?thesis using False rd tl by (intro exI [of _ "tl (rets p)"]) (simp add: read_exactly.simps [of count])
    next
      case nonempty: False
      then have pos: "0 < ?n" "take ?n (avail p) \<noteq> []" using n by auto
      obtain rs where rs: "list_all (\<lambda>r. r \<ge> 0) rs"
        "read_exactly (count - ?n) ?p =
          (if count - ?n \<le> length (avail ?p) then (return (take (count - ?n) (avail ?p)), \<lparr>avail = drop (count - ?n) (avail ?p), rets = rs\<rparr>)
           else (throw Eof_exception, \<lparr>avail = [], rets = rs\<rparr>))"
        using less.IH [of "count - ?n" ?p] pos False tl by fastforce
      have "length (take ?n (avail p)) = ?n" using n by simp
      moreover have "take ?n (avail p) @ take (count - ?n) (drop ?n (avail p)) = take count (avail p)"
        using n(1) by (metis le_add_diff_inverse take_add)
      moreover have "drop (count - ?n) (drop ?n (avail p)) = drop count (avail p)" using n(1) by simp
      moreover have "count - ?n \<le> length (drop ?n (avail p)) \<longleftrightarrow> count \<le> length (avail p)" using n by auto
      ultimately show ?thesis
        using False rd pos rs by (intro exI [of _ rs]) (simp add: read_exactly.simps [of count])
    qed
  qed
qed
end
