(* ===== verification/Python_analyzer.thy ===== *)
theory Python_analyzer
  imports Endian Source
begin

text \<open>
  The dialogue with the Python helper processes in \<open>python_analyzer.cpp\<close>: the protocol, and the
  choice between the two versions of Python. What the processes do is a parameter, as are the
  system calls around them.
\<close>

section \<open>The protocol\<close>

text \<open>Strings are sequences of bytes here. \<open>little\<close> is the byte order of the machine.\<close>

type_synonym bytes = "u8 list"

record analysis =
  an_error :: bytes
  an_error_line :: u32
  an_imports :: "bytes list"
  an_attributes :: "bytes list"
  an_functions :: "bytes list"
  an_classes :: "bytes list"

definition send_string :: "bool \<Rightarrow> bytes \<Rightarrow> bytes" where
  "send_string little str = store32 little (cpu_to_be_32 little (of_nat (length str))) @ str"

definition read_number :: "bool \<Rightarrow> pipe \<Rightarrow> u32 result \<times> pipe" where
  "read_number little p =
     pbind (read_exactly 4 p) (\<lambda>buf p. (return (be_to_cpu_32 little (load32 little buf)), p))"

function read_string_loop :: "nat \<Rightarrow> bytes \<Rightarrow> pipe \<Rightarrow> bytes result \<times> pipe" where
  "read_string_loop sz res p =
     (if sz > 0 then
        let to_read = min 4096 sz
        in pbind (read_exactly to_read p) (\<lambda>buf p. read_string_loop (sz - to_read) (res @ buf) p)
      else (return res, p))"
  by pat_completeness auto
termination by (relation "measure (\<lambda>(sz, res, p). sz)") auto

declare read_string_loop.simps [simp del]

definition read_string :: "bool \<Rightarrow> pipe \<Rightarrow> bytes result \<times> pipe" where
  "read_string little p = pbind (read_number little p) (\<lambda>sz p. read_string_loop (unat sz) [] p)"

text \<open>The elements that were read before a failure stay in the array.\<close>

fun read_array_loop :: "bool \<Rightarrow> nat \<Rightarrow> bytes list \<Rightarrow> pipe \<Rightarrow> (bytes list \<times> unit result) \<times> pipe" where
  "read_array_loop little 0 res p = ((res, return ()), p)"
| "read_array_loop little (Suc n) res p =
     (case read_string little p of
        (Inl e, p') \<Rightarrow> ((res, throw e), p')
      | (Inr s, p') \<Rightarrow> read_array_loop little n (res @ [s]) p')"

definition read_array :: "bool \<Rightarrow> pipe \<Rightarrow> (bytes list \<times> unit result) \<times> pipe" where
  "read_array little p =
     (case read_number little p of
        (Inl e, p') \<Rightarrow> (([], throw e), p')
      | (Inr n, p') \<Rightarrow> read_array_loop little (unat n) [] p')"

section \<open>The interpreters\<close>

text \<open>
  \<open>running\<close> tells whether the process of a version is alive, \<open>start\<close> and \<open>send\<close> whether starting it and
  writing to it succeed, \<open>reply\<close> what it writes after a request. When a dialogue is broken off, the
  bytes that were not read stay in the pipe.
\<close>

record python_env =
  running :: "nat \<Rightarrow> bool"
  start :: "nat \<Rightarrow> unit result"
  send :: "nat \<Rightarrow> unit result"
  reply :: "nat \<Rightarrow> bytes \<Rightarrow> bytes"
  read_rets :: "nat \<Rightarrow> int list"

record interpreter =
  interp_out :: bytes
  interp_result :: analysis
  interp_version :: nat

text \<open>The line number of a fresh interpreter is not set by the code; it is written before it is read.\<close>

definition interpreter_new :: "nat \<Rightarrow> interpreter" where
  "interpreter_new v =
     \<lparr>interp_out = [],
      interp_result = \<lparr>an_error = [], an_error_line = 0, an_imports = [], an_attributes = [], an_functions = [],
        an_classes = []\<rparr>,
      interp_version = v\<rparr>"

text \<open>The fields are set one after the other: those before a failed read are new, the others old.\<close>

definition read_result :: "bool \<Rightarrow> analysis \<Rightarrow> pipe \<Rightarrow> (analysis \<times> unit result) \<times> pipe" where
  "read_result little a p =
     (case read_string little p of (Inl e, p) \<Rightarrow> ((a, throw e), p) | (Inr err, p) \<Rightarrow>
     (case read_number little p of (Inl e, p) \<Rightarrow> ((a\<lparr>an_error := err\<rparr>, throw e), p) | (Inr ln, p) \<Rightarrow>
     let a = a\<lparr>an_error := err, an_error_line := ln\<rparr> in
     (case read_array little p of ((imps, r), p) \<Rightarrow> let a = a\<lparr>an_imports := imps\<rparr> in if isl r then ((a, r), p) else
     (case read_array little p of ((ats, r), p) \<Rightarrow> let a = a\<lparr>an_attributes := ats\<rparr> in if isl r then ((a, r), p) else
     (case read_array little p of ((funs, r), p) \<Rightarrow> let a = a\<lparr>an_functions := funs\<rparr> in if isl r then ((a, r), p) else
     (case read_array little p of ((cls, r), p) \<Rightarrow> ((a\<lparr>an_classes := cls\<rparr>, r), p)))))))"

definition interpreter_parse :: "bool \<Rightarrow> python_env \<Rightarrow> bytes \<Rightarrow> interpreter \<Rightarrow> bool result \<times> interpreter" where
  "interpreter_parse little env source i =
     (case send env (interp_version i) of
        Inl e \<Rightarrow> (throw e, i)
      | Inr _ \<Rightarrow>
          (case read_result little (interp_result i)
                  \<lparr>avail = interp_out i @ reply env (interp_version i) (send_string little source),
                   rets = read_rets env (interp_version i)\<rparr> of
             ((a, r), p) \<Rightarrow>
               (bind r (\<lambda>_. return (an_error_line a = 0)), i\<lparr>interp_result := a, interp_out := avail p\<rparr>)))"

section \<open>The analyzer\<close>

text \<open>The member \<open>active_\<close> points to one of the two interpreters or is null.\<close>

datatype active = Null | Python2 | Python3

record analyzer =
  python2 :: "interpreter option"
  python3 :: "interpreter option"
  active :: active

definition analyzer_new :: analyzer where
  "analyzer_new = \<lparr>python2 = None, python3 = None, active = Null\<rparr>"

definition maybe_start :: "python_env \<Rightarrow> nat \<Rightarrow> interpreter option \<Rightarrow> interpreter result" where
  "maybe_start env v interp =
     (case interp of
        Some i \<Rightarrow> if running env v then return i else bind (start env v) (\<lambda>_. return (interpreter_new v))
      | None \<Rightarrow> bind (start env v) (\<lambda>_. return (interpreter_new v)))"

definition bad_string :: "bytes \<Rightarrow> interpreter \<Rightarrow> interpreter option" where
  "bad_string source i =
     (if 0 \<in> set source then
        Some (i\<lparr>interp_result := (interp_result i)\<lparr>
          an_error := map byte_of_char ''source code contains NUL character'',
          an_error_line := 1 + of_nat (count_list (takeWhile (\<lambda>b. b \<noteq> 0) source) 10),
          an_imports := [], an_attributes := []\<rparr>\<rparr>)
      else None)"

definition analyzer_parse :: "bool \<Rightarrow> python_env \<Rightarrow> bytes \<Rightarrow> analyzer \<Rightarrow> bool result \<times> analyzer" where
  "analyzer_parse little env source a =
     (let a = a\<lparr>active := Null\<rparr>
      in case maybe_start env 2 (python2 a) of
           Inl e \<Rightarrow> (throw e, a)
         | Inr i2 \<Rightarrow>
     (case bad_string source i2 of
        Some i2' \<Rightarrow> (return False, a\<lparr>python2 := Some i2', active := Python2\<rparr>)
      | None \<Rightarrow>
     (case interpreter_parse little env source i2 of (r2, i2) \<Rightarrow>
      let a = a\<lparr>python2 := Some i2\<rparr>
      in case r2 of
           Inl e \<Rightarrow> (throw e, a)
         | Inr ok2 \<Rightarrow>
             if ok2 then (return True, a\<lparr>active := Python2\<rparr>)
             else case maybe_start env 3 (python3 a) of
                 Inl e \<Rightarrow> (throw e, a)
               | Inr i3 \<Rightarrow>
     (case interpreter_parse little env source i3 of (r3, i3) \<Rightarrow>
      let a = a\<lparr>python3 := Some i3\<rparr>
      in case r3 of
           Inl e \<Rightarrow> (throw e, a)
         | Inr ok3 \<Rightarrow>
             if ok3 then (return True, a\<lparr>active := Python3\<rparr>)
             else if an_error_line (interp_result i3) > an_error_line (interp_result i2)
               then (return False, a\<lparr>active := Python3\<rparr>)
               else (return False, a\<lparr>active := Python2\<rparr>)))))"

definition active_interpreter :: "analyzer \<Rightarrow> interpreter option" where
  "active_interpreter a = (case active a of Null \<Rightarrow> None | Python2 \<Rightarrow> python2 a | Python3 \<Rightarrow> python3 a)"

definition good :: "analyzer \<Rightarrow> bool" where
  "good a = (case active_interpreter a of None \<Rightarrow> False | Some i \<Rightarrow> an_error_line (interp_result i) = 0)"

definition python_version :: "analyzer \<Rightarrow> nat" where
  "python_version a = (case active_interpreter a of None \<Rightarrow> 0 | Some i \<Rightarrow> interp_version i)"

definition python_imports :: "analyzer \<Rightarrow> bytes list" where
  "python_imports a = (case active_interpreter a of None \<Rightarrow> [] | Some i \<Rightarrow> an_imports (interp_result i))"

definition python_attributes :: "analyzer \<Rightarrow> bytes list" where
  "python_attributes a = (case active_interpreter a of None \<Rightarrow> [] | Some i \<Rightarrow> an_attributes (interp_result i))"

definition python_functions :: "analyzer \<Rightarrow> bytes list" where
  "python_functions a = (case active_interpreter a of None \<Rightarrow> [] | Some i \<Rightarrow> an_functions (interp_result i))"

definition python_classes :: "analyzer \<Rightarrow> bytes list" where
  "python_classes a = (case active_interpreter a of None \<Rightarrow> [] | Some i \<Rightarrow> an_classes (interp_result i))"

definition error_message :: "analyzer \<Rightarrow> bytes" where
  "error_message a = (case active_interpreter a of None \<Rightarrow> [] | Some i \<Rightarrow> an_error (interp_result i))"

definition error_line :: "analyzer \<Rightarrow> u32" where
  "error_line a = (case active_interpreter a of None \<Rightarrow> 0 | Some i \<Rightarrow> an_error_line (interp_result i))"

section \<open>The protocol is read back\<close>

text \<open>What the helper writes: numbers in network order, strings and arrays after their length.\<close>

definition enc_number :: "nat \<Rightarrow> bytes" where
  "enc_number n = rev (le_bytes (of_nat n))"

definition enc_string :: "bytes \<Rightarrow> bytes" where
  "enc_string s = enc_number (length s) @ s"

definition enc_array :: "bytes list \<Rightarrow> bytes" where
  "enc_array xs = enc_number (length xs) @ concat (map enc_string xs)"

definition enc_analysis :: "analysis \<Rightarrow> bytes" where
  "enc_analysis a =
     enc_string (an_error a) @ enc_number (unat (an_error_line a)) @ enc_array (an_imports a) @
     enc_array (an_attributes a) @ enc_array (an_functions a) @ enc_array (an_classes a)"

definition short :: "'a list \<Rightarrow> bool" where
  "short xs \<longleftrightarrow> length xs < 2 ^ 32"

definition sendable :: "analysis \<Rightarrow> bool" where
  "sendable a \<longleftrightarrow> short (an_error a) \<and>
     (\<forall>xs \<in> {an_imports a, an_attributes a, an_functions a, an_classes a}. short xs \<and> (\<forall>s \<in> set xs. short s))"

text \<open>A reader takes an encoded value off the front of the pipe, however the bytes arrive.\<close>

definition takes :: "(pipe \<Rightarrow> 'a \<times> pipe) \<Rightarrow> bytes \<Rightarrow> 'a \<Rightarrow> bool" where
  "takes rd enc x \<longleftrightarrow>
     (\<forall>p rest. no_read_error p \<and> avail p = enc @ rest \<longrightarrow>
        (\<exists>p'. rd p = (x, p') \<and> avail p' = rest \<and> no_read_error p'))"

lemma takesE:
  assumes "takes rd enc x" and "no_read_error p" and "avail p = enc @ rest"
  obtains p' where "rd p = (x, p')" "avail p' = rest" "no_read_error p'"
  using assms unfolding takes_def by blast

lemma takes_read_exactly: "takes (read_exactly (length bs)) bs (return bs)"
  unfolding takes_def
proof (intro allI impI, elim conjE)
  fix p rest
  assume p: "no_read_error p" "avail p = bs @ rest"
  then obtain rs where "list_all (\<lambda>r. r \<ge> 0) rs"
    "read_exactly (length bs) p = (return bs, \<lparr>avail = rest, rets = rs\<rparr>)"
    using read_exactly_spec [OF p(1), of "length bs"] by auto
  then show "\<exists>p'. read_exactly (length bs) p = (return bs, p') \<and> avail p' = rest \<and> no_read_error p'" by auto
qed

lemma length_le_bytes [simp]: "length (le_bytes v) = 4"
  by (simp add: le_bytes_def)

lemma takes_read_number: "n < 2 ^ 32 \<Longrightarrow> takes (read_number little) (enc_number n) (return (of_nat n))"
  unfolding takes_def
proof (intro allI impI, elim conjE)
  fix p rest
  assume n: "n < 2 ^ 32" and p: "no_read_error p" "avail p = enc_number n @ rest"
  obtain p' where "read_exactly 4 p = (return (enc_number n), p')" "avail p' = rest" "no_read_error p'"
    using takesE [OF takes_read_exactly p] by (auto simp: enc_number_def)
  then show "\<exists>p'. read_number little p = (return (of_nat n), p') \<and> avail p' = rest \<and> no_read_error p'"
    by (auto simp: read_number_def enc_number_def load_be_to_cpu_32)
qed

lemma takes_read_string_loop: "takes (read_string_loop (length s) acc) s (return (acc @ s))"
proof (induction "length s" arbitrary: s acc rule: less_induct)
  case less
  show ?case
  proof (cases "s = []")
    case True
    then show ?thesis by (auto simp: takes_def read_string_loop.simps)
  next
    case False
    let ?n = "min 4096 (length s)"
    show ?thesis
      unfolding takes_def
    proof (intro allI impI, elim conjE)
      fix p rest
      assume p: "no_read_error p" "avail p = s @ rest"
      then have eq: "avail p = take ?n s @ (drop ?n s @ rest)" by (metis append_assoc append_take_drop_id)
      have len: "length (take ?n s) = ?n" by simp
      obtain p1 where p1: "read_exactly ?n p = (return (take ?n s), p1)" "avail p1 = drop ?n s @ rest" "no_read_error p1"
        by (rule takesE [OF takes_read_exactly p(1) eq, unfolded len])
      have "length (drop ?n s) < length s" using False by simp
      then have "takes (read_string_loop (length (drop ?n s)) (acc @ take ?n s)) (drop ?n s) (return ((acc @ take ?n s) @ drop ?n s))"
        by (rule less)
      then obtain p2 where "read_string_loop (length (drop ?n s)) (acc @ take ?n s) p1 = (return ((acc @ take ?n s) @ drop ?n s), p2)"
        "avail p2 = rest" "no_read_error p2"
        using p1(3,2) by (rule takesE)
      then show "\<exists>p'. read_string_loop (length s) acc p = (return (acc @ s), p') \<and> avail p' = rest \<and> no_read_error p'"
        using False p1(1) by (subst read_string_loop.simps) (auto simp: Let_def)
    qed
  qed
qed

lemma takes_read_string: "short s \<Longrightarrow> takes (read_string little) (enc_string s) (return s)"
  unfolding takes_def
proof (intro allI impI, elim conjE)
  fix p rest
  assume s: "short s" and p: "no_read_error p" "avail p = enc_string s @ rest"
  have a: "avail p = enc_number (length s) @ (s @ rest)" using p(2) by (simp add: enc_string_def)
  have n: "takes (read_number little) (enc_number (length s)) (return (of_nat (length s)))"
    using s by (intro takes_read_number) (simp add: short_def)
  obtain p1 where p1: "read_number little p = (return (of_nat (length s)), p1)" "avail p1 = s @ rest" "no_read_error p1"
    by (rule takesE [OF n p(1) a])
  obtain p2 where p2: "read_string_loop (length s) [] p1 = (return ([] @ s), p2)" "avail p2 = rest" "no_read_error p2"
    by (rule takesE [OF takes_read_string_loop p1(3,2)])
  have "unat (word_of_nat (length s) :: u32) = length s"
    using s by (simp add: short_def unsigned_of_nat take_bit_nat_eq_self)
  then show "\<exists>p'. read_string little p = (return s, p') \<and> avail p' = rest \<and> no_read_error p'"
    using p1(1) p2 by (simp add: read_string_def)
qed


lemma takes_read_array_loop:
  "\<forall>s \<in> set xs. short s \<Longrightarrow>
   takes (read_array_loop little (length xs) acc) (concat (map enc_string xs)) (acc @ xs, return ())"
proof (induction xs arbitrary: acc)
  case Nil
  then show ?case by (auto simp: takes_def)
next
  case (Cons s xs)
  show ?case
    unfolding takes_def
  proof (intro allI impI, elim conjE)
    fix p rest
    assume p: "no_read_error p" "avail p = concat (map enc_string (s # xs)) @ rest"
    then have a: "avail p = enc_string s @ (concat (map enc_string xs) @ rest)" by simp
    have s: "takes (read_string little) (enc_string s) (return s)" using Cons.prems by (intro takes_read_string) simp
    obtain p1 where p1: "read_string little p = (return s, p1)" "avail p1 = concat (map enc_string xs) @ rest" "no_read_error p1"
      by (rule takesE [OF s p(1) a])
    have "takes (read_array_loop little (length xs) (acc @ [s])) (concat (map enc_string xs)) ((acc @ [s]) @ xs, return ())"
      using Cons.IH [of "acc @ [s]"] Cons.prems by simp
    then obtain p2 where "read_array_loop little (length xs) (acc @ [s]) p1 = (((acc @ [s]) @ xs, return ()), p2)"
      "avail p2 = rest" "no_read_error p2"
      using p1(3,2) by (rule takesE)
    then show "\<exists>p'. read_array_loop little (length (s # xs)) acc p = ((acc @ s # xs, return ()), p') \<and> avail p' = rest \<and> no_read_error p'"
      using p1(1) by simp
  qed
qed

lemma takes_read_array:
  assumes "short xs \<and> (\<forall>s \<in> set xs. short s)"
  shows "takes (read_array little) (enc_array xs) (xs, return ())"
  unfolding takes_def
proof (intro allI impI, elim conjE)
  fix p rest
  assume p: "no_read_error p" "avail p = enc_array xs @ rest"
  have a: "avail p = enc_number (length xs) @ (concat (map enc_string xs) @ rest)" using p(2) by (simp add: enc_array_def)
  have n: "takes (read_number little) (enc_number (length xs)) (return (of_nat (length xs)))"
    using assms by (intro takes_read_number) (simp add: short_def)
  obtain p1 where p1: "read_number little p = (return (of_nat (length xs)), p1)"
    "avail p1 = concat (map enc_string xs) @ rest" "no_read_error p1"
    by (rule takesE [OF n p(1) a])
  have l: "takes (read_array_loop little (length xs) []) (concat (map enc_string xs)) ([] @ xs, return ())"
    using assms by (intro takes_read_array_loop) simp
  obtain p2 where p2: "read_array_loop little (length xs) [] p1 = (([] @ xs, return ()), p2)" "avail p2 = rest" "no_read_error p2"
    by (rule takesE [OF l p1(3,2)])
  have "unat (word_of_nat (length xs) :: u32) = length xs"
    using assms by (simp add: short_def unsigned_of_nat take_bit_nat_eq_self)
  then show "\<exists>p'. read_array little p = ((xs, return ()), p') \<and> avail p' = rest \<and> no_read_error p'"
    using p1(1) p2 by (simp add: read_array_def)
qed

lemma takes_read_result:
  assumes "sendable b"
  shows "takes (read_result little a) (enc_analysis b) (b, return ())"
  unfolding takes_def
proof (intro allI impI, elim conjE)
  fix p rest
  assume p: "no_read_error p" "avail p = enc_analysis b @ rest"
  note arr = takes_read_array [of _ little]
  have sh: "short (an_error b)" "\<And>xs. xs \<in> {an_imports b, an_attributes b, an_functions b, an_classes b} \<Longrightarrow> short xs \<and> (\<forall>s \<in> set xs. short s)"
    using assms by (auto simp: sendable_def)
  have ln: "takes (read_number little) (enc_number (unat (an_error_line b))) (return (an_error_line b))"
    using takes_read_number [of "unat (an_error_line b)" little] unsigned_less [of "an_error_line b", where ?'a = nat] by simp
  obtain p1 where p1: "read_string little p = (return (an_error b), p1)"
    "avail p1 = enc_number (unat (an_error_line b)) @ (enc_array (an_imports b) @ enc_array (an_attributes b) @
      enc_array (an_functions b) @ enc_array (an_classes b) @ rest)" "no_read_error p1"
    by (rule takesE [OF takes_read_string [OF sh(1)] p(1)]) (use p(2) in \<open>simp_all add: enc_analysis_def\<close>)
  obtain p2 where p2: "read_number little p1 = (return (an_error_line b), p2)"
    "avail p2 = enc_array (an_imports b) @ (enc_array (an_attributes b) @
      enc_array (an_functions b) @ enc_array (an_classes b) @ rest)" "no_read_error p2"
    by (rule takesE [OF ln p1(3,2)])
  obtain p3 where p3: "read_array little p2 = ((an_imports b, return ()), p3)"
    "avail p3 = enc_array (an_attributes b) @ (enc_array (an_functions b) @ enc_array (an_classes b) @ rest)" "no_read_error p3"
    by (rule takesE [OF arr p2(3,2)]) (use sh(2) in auto)
  obtain p4 where p4: "read_array little p3 = ((an_attributes b, return ()), p4)"
    "avail p4 = enc_array (an_functions b) @ (enc_array (an_classes b) @ rest)" "no_read_error p4"
    by (rule takesE [OF arr p3(3,2)]) (use sh(2) in auto)
  obtain p5 where p5: "read_array little p4 = ((an_functions b, return ()), p5)"
    "avail p5 = enc_array (an_classes b) @ rest" "no_read_error p5"
    by (rule takesE [OF arr p4(3,2)]) (use sh(2) in auto)
  obtain p6 where p6: "read_array little p5 = ((an_classes b, return ()), p6)" "avail p6 = rest" "no_read_error p6"
    by (rule takesE [OF arr p5(3,2)]) (use sh(2) in auto)
  show "\<exists>p'. read_result little a p = ((b, return ()), p') \<and> avail p' = rest \<and> no_read_error p'"
    using p1(1) p2(1) p3(1) p4(1) p5(1) p6 by (cases a, cases b) (simp add: read_result_def Let_def)
qed


section \<open>The choice of the version\<close>

text \<open>Helpers that can be started and written to and answer every request with an analysis.\<close>

definition answers :: "bool \<Rightarrow> python_env \<Rightarrow> (nat \<Rightarrow> bytes \<Rightarrow> analysis) \<Rightarrow> bool" where
  "answers little env answer \<longleftrightarrow>
     (\<forall>v. start env v = return () \<and> send env v = return () \<and> list_all (\<lambda>r. r \<ge> 0) (read_rets env v) \<and>
        (\<forall>src. sendable (answer v src) \<and> reply env v (send_string little src) = enc_analysis (answer v src)))"

text \<open>Between calls no bytes are left in the pipes.\<close>

definition idle :: "nat \<Rightarrow> interpreter \<Rightarrow> bool" where
  "idle v i \<longleftrightarrow> interp_out i = [] \<and> interp_version i = v"

definition clean :: "analyzer \<Rightarrow> bool" where
  "clean a \<longleftrightarrow> pred_option (idle 2) (python2 a) \<and> pred_option (idle 3) (python3 a)"

lemma maybe_start_idle:
  assumes "answers little env answer" and "pred_option (idle v) io"
  shows "\<exists>i. maybe_start env v io = return i \<and> idle v i"
  using assms by (auto simp: maybe_start_def answers_def idle_def interpreter_new_def split: option.splits)

lemma interpreter_parse_answer:
  assumes "answers little env answer" and "idle v i"
  shows "\<exists>i'. interpreter_parse little env src i = (return (an_error_line (answer v src) = 0), i') \<and>
    idle v i' \<and> interp_result i' = answer v src"
proof -
  let ?p = "\<lparr>avail = interp_out i @ reply env v (send_string little src), rets = read_rets env v\<rparr>"
  have h: "sendable (answer v src)" "avail ?p = enc_analysis (answer v src) @ []" "no_read_error ?p" "send env v = return ()"
    using assms by (simp_all add: answers_def idle_def)
  obtain p' where "read_result little (interp_result i) ?p = ((answer v src, return ()), p')" "avail p' = []"
    by (rule takesE [OF takes_read_result [OF h(1)] h(3,2)])
  then show ?thesis using assms(2) h(4) by (simp add: interpreter_parse_def idle_def)
qed


definition sample_answer :: "nat \<Rightarrow> bytes \<Rightarrow> analysis" where
  "sample_answer v src =
     \<lparr>an_error = [], an_error_line = (if v = 2 then 1 else 0), an_imports = [[111, 115]], an_attributes = [],
      an_functions = [], an_classes = []\<rparr>"


text \<open>
  The early return for NUL characters clears the imports and the attributes but not the functions
  and classes: they are those of the source before.
\<close>

lemma bad_string_keeps_functions:
  assumes "0 \<in> set src" and "python2 a = Some i" and "running env 2"
  shows "python_functions (snd (analyzer_parse little env src a)) = an_functions (interp_result i)"
    and "python_classes (snd (analyzer_parse little env src a)) = an_classes (interp_result i)"
    and "python_version (snd (analyzer_parse little env src a)) = interp_version i"
  using assms
  by (simp_all add: analyzer_parse_def maybe_start_def bad_string_def python_functions_def python_classes_def
      python_version_def active_interpreter_def)

end
