(* ===== verification/Downloader.thy ===== *)
theory Downloader
  imports Queue File_cache Package_set
begin

text \<open>
  The downloads of \<open>download_repo.cpp\<close>: the work on one URL, the helper tasks that take URLs from a
  shared list and pass files through the queue to the loader, and the rounds in which failed URLs
  are tried again. The tasks are a step relation. A task that waits in the queue has no step; the
  work on one URL is one step, since an advisory lock on its digest keeps others away from its
  files. Database, network and system calls are arguments of the steps. Exceptions that are not
  caught end the program (the thread function must not throw) and are not steps.
\<close>

section \<open>One URL\<close>

record rpm_url =
  ru_name :: string
  ru_href :: string
  ru_csum :: checksum

record load_info =
  li_url :: string
  li_path :: string
  li_csum :: checksum
  li_download :: bool

text \<open>\<open>copy_source_to_sink\<close>: the reads of the source go to the sink until one is empty.\<close>

fun copy_source_to_sink :: "'c nss \<Rightarrow> u8 list result list \<Rightarrow> 'c add_sink \<Rightarrow> world \<Rightarrow> world \<times> 'c add_sink result" where
  "copy_source_to_sink nss [] a w = (w, Inr a)"
| "copy_source_to_sink nss (r # rs) a w =
     (case r of
        Inl e \<Rightarrow> (w, Inl e)
      | Inr buf \<Rightarrow>
          if buf = [] then (w, Inr a)
          else case add_sink_write nss buf a w of
              (w', Inl e) \<Rightarrow> (w', Inl e)
            | (w', Inr a') \<Rightarrow> copy_source_to_sink nss rs a' w')"

text \<open>The block that is guarded by the handlers; \<open>src\<close> is what \<open>download\<close> returns.\<close>

definition fetch ::
    "file_cache \<Rightarrow> kernel \<Rightarrow> 'c nss \<Rightarrow> u8 list result list result \<Rightarrow> checksum \<Rightarrow> world \<Rightarrow> world \<times> string result" where
  "fetch c k nss src cs w =
     (case add_sink_new k nss cs w of
        (w1, Inl e) \<Rightarrow> (w1, Inl e)
      | (w1, Inr a) \<Rightarrow>
          (case src of
             Inl e \<Rightarrow> (add_impl_destroy k (temp_file a) w1, Inl e)
           | Inr reads \<Rightarrow>
               (case copy_source_to_sink nss reads a w1 of
                  (w2, Inl e) \<Rightarrow> (add_impl_destroy k (temp_file a) w2, Inl e)
                | (w2, Inr a') \<Rightarrow>
                    (case add_sink_finish c k nss a' w2 of
                       (w3, Inl e) \<Rightarrow> (add_impl_destroy k (temp_file a') w3, Inl e)
                     | (w3, Inr path) \<Rightarrow> (w3, Inr path)))))"

datatype outcome =
    Fast_track nat
  | Queued load_info
  | Failed
  | Escapes exn

fun caught :: "exn \<Rightarrow> bool" where
  "caught (Curl_exception _) = True"
| "caught (Unsupported_hash _) = True"
| "caught (Checksum_mismatch _) = True"
| "caught _ = False"

text \<open>\<open>pid\<close> is the package that the database has for the digest, if any.\<close>

definition download_url ::
    "file_cache \<Rightarrow> kernel \<Rightarrow> 'c nss \<Rightarrow> nat option \<Rightarrow> u8 list result list result \<Rightarrow> rpm_url \<Rightarrow> world \<Rightarrow> world \<times> outcome" where
  "download_url c k nss pid src url w =
     (case pid of
        Some p \<Rightarrow> (w, Fast_track p)
      | None \<Rightarrow>
          (case lookup_path c (ru_csum url) w of
             Some path \<Rightarrow>
               (w, Queued \<lparr>li_url = ru_href url, li_path = path, li_csum = ru_csum url, li_download = False\<rparr>)
           | None \<Rightarrow>
               (case fetch c k nss src (ru_csum url) w of
                  (w', Inr path) \<Rightarrow>
                    (w', Queued \<lparr>li_url = ru_href url, li_path = path, li_csum = ru_csum url, li_download = True\<rparr>)
                | (w', Inl e) \<Rightarrow> (w', if caught e then Failed else Escapes e))))"

section \<open>The tasks of one round\<close>

datatype task =
    Ready
  | Holding rpm_url
  | Pushing rpm_url load_info
  | Exited

text \<open>
  \<open>tracked\<close> and \<open>loaded\<close> record what became of the URLs that left the system: those whose package was
  in the database, and those whose file was popped by the loader. The key and the value in the
  queue are the name and the load information; the URL is kept beside them for the records.
\<close>

record round =
  work_urls :: "rpm_url list"
  failed_urls :: "rpm_url list"
  dqueue :: "(string, rpm_url \<times> load_info) queue"
  tasks :: "task list"
  disk :: world
  pids :: "nat set"
  dcount :: nat
  tracked :: "rpm_url list"
  loaded :: "(rpm_url \<times> load_info) list"

text \<open>A file that came from the network is removed after loading when that is asked for.\<close>

definition after_load :: "bool \<Rightarrow> bool \<Rightarrow> load_info \<Rightarrow> world \<Rightarrow> world" where
  "after_load load transient li w =
     (if li_download li \<and> load \<and> transient
      then w\<lparr>cdir := (cdir w)(base16_encode (csum_value (li_csum li)) := None)\<rparr> else w)"

inductive dstep :: "file_cache \<Rightarrow> 'c nss \<Rightarrow> bool \<Rightarrow> bool \<Rightarrow> round \<Rightarrow> round \<Rightarrow> bool"
  for c :: file_cache and nss :: "'c nss" and load :: bool and transient :: bool where
  take_url: "i < length (tasks s) \<Longrightarrow> tasks s ! i = Ready \<Longrightarrow> work_urls s \<noteq> [] \<Longrightarrow>
    dstep c nss load transient s
      (s\<lparr>tasks := (tasks s)[i := Holding (List.last (work_urls s))], work_urls := butlast (work_urls s)\<rparr>)"
| exit_task: "i < length (tasks s) \<Longrightarrow> tasks s ! i = Ready \<Longrightarrow> work_urls s = [] \<Longrightarrow>
    remove_producer (dqueue s) = (return b, q') \<Longrightarrow>
    dstep c nss load transient s (s\<lparr>tasks := (tasks s)[i := Exited], dqueue := q'\<rparr>)"
| fast_track: "i < length (tasks s) \<Longrightarrow> tasks s ! i = Holding url \<Longrightarrow>
    download_url c k nss pid src url ((disk s)\<lparr>kwrites := rets\<rparr>) = (w', Fast_track p) \<Longrightarrow>
    dstep c nss load transient s
      (s\<lparr>tasks := (tasks s)[i := Ready], disk := w', pids := insert p (pids s), tracked := tracked s @ [url]\<rparr>)"
| fetched: "i < length (tasks s) \<Longrightarrow> tasks s ! i = Holding url \<Longrightarrow>
    download_url c k nss pid src url ((disk s)\<lparr>kwrites := rets\<rparr>) = (w', Queued li) \<Longrightarrow>
    dstep c nss load transient s (s\<lparr>tasks := (tasks s)[i := Pushing url li], disk := w'\<rparr>)"
| failed: "i < length (tasks s) \<Longrightarrow> tasks s ! i = Holding url \<Longrightarrow>
    download_url c k nss pid src url ((disk s)\<lparr>kwrites := rets\<rparr>) = (w', Failed) \<Longrightarrow>
    dstep c nss load transient s
      (s\<lparr>tasks := (tasks s)[i := Ready], disk := w', failed_urls := failed_urls s @ [url]\<rparr>)"
| push_info: "i < length (tasks s) \<Longrightarrow> tasks s ! i = Pushing url li \<Longrightarrow>
    push (ru_name url) (url, li) (dqueue s) = return (Some q') \<Longrightarrow>
    dstep c nss load transient s (s\<lparr>tasks := (tasks s)[i := Ready], dqueue := q'\<rparr>)"
| pop_info: "pop (dqueue s) = Popped nm (url, li) q' \<Longrightarrow>
    dstep c nss load transient s
      (s\<lparr>dqueue := q', dcount := dcount s + 1, disk := after_load load transient li (disk s),
         pids := (if load then insert p (pids s) else pids s), loaded := loaded s @ [(url, li)]\<rparr>)"

inductive_cases dstepE: "dstep c nss load transient s s'"

section \<open>The rounds\<close>

fun add_producers :: "nat \<Rightarrow> ('k, 'v) queue \<Rightarrow> ('k, 'v) queue result" where
  "add_producers 0 dq = return dq"
| "add_producers (Suc n) dq =
     (case add_producer dq of (Inl e, _) \<Rightarrow> throw e | (Inr _, q') \<Rightarrow> add_producers n q')"

text \<open>Starting the tasks of a round: one producer each.\<close>

definition begin_round :: "u32 \<Rightarrow> round \<Rightarrow> round result" where
  "begin_round threads s =
     bind (add_producers (unat threads) (dqueue s)) (\<lambda>dq.
     return (s\<lparr>dqueue := dq, tasks := replicate (unat threads) Ready\<rparr>))"

text \<open>
  From round \<open>n\<close> on: the loader pops until the queue is closed; the two assertions; another round
  with the failed URLs if there are any, up to three in all.
\<close>

inductive rounds :: "file_cache \<Rightarrow> 'c nss \<Rightarrow> bool \<Rightarrow> bool \<Rightarrow> u32 \<Rightarrow> nat \<Rightarrow> round \<Rightarrow> round result \<Rightarrow> bool"
  for c :: file_cache and nss :: "'c nss" and load :: bool and transient :: bool and threads :: u32 where
  no_more: "n \<ge> 3 \<Longrightarrow> rounds c nss load transient threads n s (return s)"
| asserts: "n < 3 \<Longrightarrow> begin_round threads s = return s0 \<Longrightarrow> (dstep c nss load transient)\<^sup>*\<^sup>* s0 s1 \<Longrightarrow>
    pop (dqueue s1) = Pop_closed \<Longrightarrow> producers (dqueue s1) \<noteq> 0 \<or> work_urls s1 \<noteq> [] \<Longrightarrow>
    rounds c nss load transient threads n s (throw Assertion_failure)"
| all_done: "n < 3 \<Longrightarrow> begin_round threads s = return s0 \<Longrightarrow> (dstep c nss load transient)\<^sup>*\<^sup>* s0 s1 \<Longrightarrow>
    pop (dqueue s1) = Pop_closed \<Longrightarrow> producers (dqueue s1) = 0 \<Longrightarrow> work_urls s1 = [] \<Longrightarrow> failed_urls s1 = [] \<Longrightarrow>
    rounds c nss load transient threads n s (return s1)"
| retry: "n < 3 \<Longrightarrow> begin_round threads s = return s0 \<Longrightarrow> (dstep c nss load transient)\<^sup>*\<^sup>* s0 s1 \<Longrightarrow>
    pop (dqueue s1) = Pop_closed \<Longrightarrow> producers (dqueue s1) = 0 \<Longrightarrow> work_urls s1 = [] \<Longrightarrow> failed_urls s1 \<noteq> [] \<Longrightarrow>
    rounds c nss load transient threads (n + 1) (s1\<lparr>work_urls := failed_urls s1, failed_urls := work_urls s1\<rparr>) r \<Longrightarrow>
    rounds c nss load transient threads n s r"

text \<open>\<open>process\<close>, started by the constructor of the downloader.\<close>

definition downloader_new :: "u32 \<Rightarrow> rpm_url list \<Rightarrow> world \<Rightarrow> round result" where
  "downloader_new threads urls w =
     bind (bounded_ordered_queue threads 0) (\<lambda>dq.
     return \<lparr>work_urls = urls, failed_urls = [], dqueue = dq, tasks = [], disk = w, pids = {}, dcount = 0,
       tracked = [], loaded = []\<rparr>)"

definition process :: "file_cache \<Rightarrow> 'c nss \<Rightarrow> bool \<Rightarrow> bool \<Rightarrow> u32 \<Rightarrow> round \<Rightarrow> round result \<Rightarrow> bool" where
  "process c nss load transient threads s r \<longleftrightarrow>
     rounds c nss load transient threads 0 (s\<lparr>work_urls := rev (work_urls s)\<rparr>) r"

section \<open>No URL is lost\<close>

fun task_urls :: "task \<Rightarrow> rpm_url list" where
  "task_urls (Holding u) = [u]"
| "task_urls (Pushing u li) = [u]"
| "task_urls _ = []"

definition in_hand :: "task list \<Rightarrow> rpm_url multiset" where
  "in_hand ts = sum_list (map (\<lambda>t. mset (task_urls t)) ts)"

fun live :: "task \<Rightarrow> nat" where
  "live Exited = 0"
| "live _ = 1"

definition alive :: "task list \<Rightarrow> nat" where
  "alive ts = sum_list (map live ts)"

lemma in_hand_update:
  "i < length ts \<Longrightarrow> in_hand (ts[i := t]) + mset (task_urls (ts ! i)) = in_hand ts + mset (task_urls t)"
  unfolding in_hand_def by (rule sum_list_map_update)

lemma in_hand_exited: "set ts \<subseteq> {Exited} \<Longrightarrow> in_hand ts = {#}"
  unfolding in_hand_def by (induction ts) auto

lemma alive_update: "i < length ts \<Longrightarrow> alive (ts[i := t]) + live (ts ! i) = alive ts + live t"
  unfolding alive_def by (rule sum_list_map_update)

text \<open>All URLs of the downloads, wherever they are.\<close>

definition everything :: "round \<Rightarrow> rpm_url multiset" where
  "everything s =
     mset (work_urls s) + mset (failed_urls s) + in_hand (tasks s) + mset (map (fst \<circ> snd) (items (dqueue s))) +
     mset (tracked s) + mset (map fst (loaded s))"

definition round_inv :: "u32 \<Rightarrow> round \<Rightarrow> bool" where
  "round_inv threads s \<longleftrightarrow>
     length (tasks s) = unat threads \<and> threads \<noteq> 0 \<and> capacity (dqueue s) = threads \<and>
     unat (producers (dqueue s)) = alive (tasks s) \<and> (Exited \<in> set (tasks s) \<longrightarrow> work_urls s = [])"


lemma mset_butlast_last: "xs \<noteq> [] \<Longrightarrow> mset xs = add_mset (List.last xs) (mset (butlast xs))"
proof -
  assume "xs \<noteq> []"
  then have "mset xs = mset (butlast xs @ [List.last xs])" by simp
  then show ?thesis by simp
qed

lemma dstep_everything: "dstep c nss load transient s s' \<Longrightarrow> everything s' = everything s"
proof (induction rule: dstep.induct)
  case (take_url i s)
  then show ?case
    using in_hand_update [of i "tasks s" "Holding (List.last (work_urls s))"] mset_butlast_last [of "work_urls s"]
    by (simp add: everything_def)
next
  case (exit_task i s b q')
  then show ?case
    using in_hand_update [of i "tasks s" Exited]
    by (auto simp: everything_def remove_producer_def Let_def split: if_splits)
next
  case (fast_track i s url k pid src rets w' p)
  then show ?case using in_hand_update [of i "tasks s" Ready] by (simp add: everything_def)
next
  case (fetched i s url k pid src rets w' li)
  then show ?case using in_hand_update [of i "tasks s" "Pushing url li"] by (simp add: everything_def)
next
  case (failed i s url k pid src rets w')
  then show ?case using in_hand_update [of i "tasks s" Ready] by (simp add: everything_def)
next
  case (push_info i s url li q')
  then have "items q' = multimap_insert (ru_name url) (url, li) (items (dqueue s))"
    by (auto simp: push_def push_loop_def split: if_splits)
  then have "mset (map (fst \<circ> snd) (items q')) = add_mset url (mset (map (fst \<circ> snd) (items (dqueue s))))"
    by (simp only: mset_map multimap_insert_mset) simp
  then show ?case using push_info in_hand_update [of i "tasks s" Ready] by (simp add: everything_def)
next
  case (pop_info s nm url li q' p)
  then have "items (dqueue s) = (nm, url, li) # items q'"
    by (auto simp: pop_def split: list.splits if_splits)
  then show ?case by (simp add: everything_def)
qed

lemma dstep_inv:
  assumes "dstep c nss load transient s s'" and "round_inv threads s"
  shows "round_inv threads s'"
  using assms
proof (induction rule: dstep.induct)
  case (exit_task i s b q')
  then have "producers (dqueue s) \<noteq> 0" "q' = (dqueue s)\<lparr>producers := producers (dqueue s) - 1\<rparr>"
    by (auto simp: remove_producer_def Let_def split: if_splits)
  moreover then have "unat (producers (dqueue s) - 1) = unat (producers (dqueue s)) - 1" by (simp add: unat_minus_one)
  ultimately show ?case
    using exit_task alive_update [of i "tasks s" Exited] by (simp add: round_inv_def)
next
  case (take_url i s)
  then have "Exited \<notin> set (tasks s)" by (auto simp: round_inv_def)
  then have "Exited \<notin> set ((tasks s)[i := Holding (List.last (work_urls s))])" using set_update_subset_insert by fastforce
  then show ?case using take_url alive_update [of i "tasks s" "Holding (List.last (work_urls s))"] by (simp add: round_inv_def)
next
  case (fast_track i s url k pid src rets w' p)
  then show ?case using alive_update [of i "tasks s" Ready] set_update_subset_insert [of "tasks s" i Ready] by (auto simp: round_inv_def)
next
  case (fetched i s url k pid src rets w' li)
  then show ?case
    using alive_update [of i "tasks s" "Pushing url li"] set_update_subset_insert [of "tasks s" i "Pushing url li"]
    by (auto simp: round_inv_def)
next
  case (failed i s url k pid src rets w')
  then show ?case using alive_update [of i "tasks s" Ready] set_update_subset_insert [of "tasks s" i Ready] by (auto simp: round_inv_def)
next
  case (push_info i s url li q')
  then show ?case
    using alive_update [of i "tasks s" Ready] set_update_subset_insert [of "tasks s" i Ready]
    by (auto simp: round_inv_def push_def push_loop_def split: if_splits)
next
  case (pop_info s nm url li q' p)
  then show ?case by (auto simp: round_inv_def pop_def split: list.splits if_splits)
qed


section \<open>Every round ends\<close>

fun task_work :: "task \<Rightarrow> nat" where
  "task_work Ready = 1"
| "task_work (Holding u) = 4"
| "task_work (Pushing u li) = 3"
| "task_work Exited = 0"

text \<open>The work that is left: an upper bound of the number of steps.\<close>

definition work :: "round \<Rightarrow> nat" where
  "work s = 4 * length (work_urls s) + sum_list (map task_work (tasks s)) + length (items (dqueue s))"

lemma task_work_update:
  "i < length ts \<Longrightarrow>
   sum_list (map task_work (ts[i := t])) + task_work (ts ! i) = sum_list (map task_work ts) + task_work t"
  by (rule sum_list_map_update)

lemma dstep_work: "dstep c nss load transient s s' \<Longrightarrow> work s' < work s"
proof (induction rule: dstep.induct)
  case (take_url i s)
  then obtain n where "length (work_urls s) = Suc n" by (cases "work_urls s") auto
  then show ?case using take_url task_work_update [of i "tasks s" "Holding (List.last (work_urls s))"] by (simp add: work_def)
next
  case (exit_task i s b q')
  then show ?case using task_work_update [of i "tasks s" Exited]
    by (auto simp: work_def remove_producer_def Let_def split: if_splits)
next
  case (fast_track i s url k pid src rets w' p)
  then show ?case using task_work_update [of i "tasks s" Ready] by (simp add: work_def)
next
  case (fetched i s url k pid src rets w' li)
  then show ?case using task_work_update [of i "tasks s" "Pushing url li"] by (simp add: work_def)
next
  case (failed i s url k pid src rets w')
  then show ?case using task_work_update [of i "tasks s" Ready] by (simp add: work_def)
next
  case (push_info i s url li q')
  then show ?case using task_work_update [of i "tasks s" Ready]
    by (auto simp: work_def push_def push_loop_def split: if_splits)
next
  case (pop_info s nm url li q' p)
  then show ?case by (auto simp: work_def pop_def split: list.splits if_splits)
qed

lemma alive_0: "alive ts = 0 \<longleftrightarrow> set ts \<subseteq> {Exited}"
proof -
  have "live t = 0 \<longleftrightarrow> t = Exited" for t by (cases t) simp_all
  then show ?thesis by (auto simp: alive_def sum_list_eq_0_iff)
qed

lemma closed_no_alive:
  assumes "round_inv threads s" and "pop (dqueue s) = Pop_closed"
  shows "items (dqueue s) = []" "producers (dqueue s) = 0" "set (tasks s) \<subseteq> {Exited}" "work_urls s = []"
proof -
  show i: "items (dqueue s) = []" and p: "producers (dqueue s) = 0"
    using assms(2) by (auto simp: pop_def split: list.splits if_splits simp: word_gt_0)
  show t: "set (tasks s) \<subseteq> {Exited}" using assms(1) p alive_0 by (simp add: round_inv_def)
  have "tasks s \<noteq> []" using assms(1) by (auto simp: round_inv_def unat_eq_zero)
  then have "Exited \<in> set (tasks s)" using t by (cases "tasks s") auto
  then show "work_urls s = []" using assms(1) by (simp add: round_inv_def)
qed

text \<open>
  While the queue is not closed some thread can go on: the loader if there is a file, otherwise a
  task, which finds room in the queue. What the environment answers to a task that holds a URL does
  not matter, as long as no exception escapes.
\<close>

lemma round_progress:
  assumes inv: "round_inv threads s" and "pop (dqueue s) \<noteq> Pop_closed"
    and answer: "\<And>url w. \<exists>k pid src rets. \<forall>e. snd (download_url c k nss pid src url (w\<lparr>kwrites := rets\<rparr>)) \<noteq> Escapes e"
  shows "\<exists>s'. dstep c nss load transient s s'"
proof (cases "items (dqueue s)")
  case (Cons x xs)
  then obtain nm url li where "pop (dqueue s) = Popped nm (url, li) ((dqueue s)\<lparr>items := xs\<rparr>)"
    by (cases x) (auto simp: pop_def)
  then show ?thesis using dstep.pop_info by blast
next
  case Nil
  then have "producers (dqueue s) \<noteq> 0" using assms(2) by (auto simp: pop_def)
  then have "unat (producers (dqueue s)) \<noteq> 0" by (simp add: unat_eq_zero)
  then have "alive (tasks s) \<noteq> 0" using inv by (simp add: round_inv_def)
  then obtain t where "t \<in> set (tasks s)" "t \<noteq> Exited" using alive_0 by auto
  then obtain i where i: "i < length (tasks s)" "tasks s ! i = t" by (auto simp: in_set_conv_nth)
  show ?thesis
  proof (cases t)
    case Ready
    show ?thesis
    proof (cases "work_urls s = []")
      case True
      obtain b q' where "remove_producer (dqueue s) = (return b, q')"
        using \<open>producers (dqueue s) \<noteq> 0\<close> by (simp add: remove_producer_def Let_def)
      then show ?thesis using dstep.exit_task [of i s b q'] i Ready True by blast
    next
      case False
      then show ?thesis using dstep.take_url [of i s] i Ready by blast
    qed
  next
    case (Holding url)
    obtain k pid src rets where a: "\<forall>e. snd (download_url c k nss pid src url ((disk s)\<lparr>kwrites := rets\<rparr>)) \<noteq> Escapes e"
      using answer by blast
    obtain w' r where r: "download_url c k nss pid src url ((disk s)\<lparr>kwrites := rets\<rparr>) = (w', r)"
      by (cases "download_url c k nss pid src url ((disk s)\<lparr>kwrites := rets\<rparr>)")
    have h: "tasks s ! i = Holding url" using i(2) Holding by simp
    show ?thesis
    proof (cases r)
      case (Escapes e)
      then show ?thesis using a r by simp
    qed (use r h i(1) in \<open>blast intro: dstep.fast_track dstep.fetched dstep.failed\<close>)+
  next
    case (Pushing url li)
    have "capacity (dqueue s) \<noteq> 0" using inv by (auto simp: round_inv_def)
    then have "push (ru_name url) (url, li) (dqueue s) = return (Some ((dqueue s)\<lparr>items := multimap_insert (ru_name url) (url, li) (items (dqueue s))\<rparr>))"
      using \<open>producers (dqueue s) \<noteq> 0\<close> Nil by (simp add: push_def push_loop_def unat_eq_zero)
    then show ?thesis using dstep.push_info [of i s url li] i Pushing by blast
  qed (use \<open>t \<noteq> Exited\<close> in simp)
qed

lemma closed_no_step:
  assumes "round_inv threads s" and "pop (dqueue s) = Pop_closed"
  shows "\<not> dstep c nss load transient s s'"
proof
  assume "dstep c nss load transient s s'"
  moreover have "i < length (tasks s) \<Longrightarrow> tasks s ! i = Exited" for i
    using closed_no_alive(3) [OF assms] nth_mem by blast
  ultimately show False using assms(2) by (elim dstepE) fastforce+
qed


lemma add_producers_eq:
  "unat (producers dq) + m < 2 ^ 32 \<Longrightarrow> add_producers m dq = return (dq\<lparr>producers := producers dq + of_nat m\<rparr>)"
proof (induction m arbitrary: dq)
  case (Suc m)
  have u: "unat (producers dq + 1) = unat (producers dq) + 1"
    using Suc.prems by (simp add: unat_plus_if')
  then have "producers dq + 1 \<noteq> 0" by (metis add_is_0 one_neq_zero unat_0)
  moreover have "add_producers m (dq\<lparr>producers := producers dq + 1\<rparr>)
      = return ((dq\<lparr>producers := producers dq + 1\<rparr>)\<lparr>producers := producers dq + 1 + of_nat m\<rparr>)"
    using Suc.IH [of "dq\<lparr>producers := producers dq + 1\<rparr>"] Suc.prems u by simp
  ultimately show ?case by (simp add: add_producer_def Let_def add_ac)
qed simp

text \<open>A state between rounds: no task is left.\<close>

definition between :: "u32 \<Rightarrow> round \<Rightarrow> bool" where
  "between threads s \<longleftrightarrow> threads \<noteq> 0 \<and> capacity (dqueue s) = threads \<and> producers (dqueue s) = 0 \<and>
     items (dqueue s) = [] \<and> set (tasks s) \<subseteq> {Exited}"

lemma begin_round_inv:
  assumes "between threads s"
  shows "\<exists>s0. begin_round threads s = return s0 \<and> round_inv threads s0 \<and> everything s0 = everything s \<and>
    work_urls s0 = work_urls s"
proof -
  have none: "in_hand (tasks s) = {#}" using assms in_hand_exited by (simp add: between_def)
  have "add_producers (unat threads) (dqueue s) = return ((dqueue s)\<lparr>producers := threads\<rparr>)"
    using add_producers_eq [of "dqueue s" "unat threads"] assms unsigned_less [of threads, where ?'a = nat]
    by (simp add: between_def)
  moreover have "in_hand (replicate n Ready) = {#}" "alive (replicate n Ready) = n" for n
    by (induction n) (simp_all add: in_hand_def alive_def)
  ultimately show ?thesis
    using assms none by (simp add: begin_round_def round_inv_def between_def everything_def)
qed

lemma dsteps_keep:
  assumes "(dstep c nss load transient)\<^sup>*\<^sup>* s0 s" and "round_inv threads s0"
  shows "round_inv threads s \<and> everything s = everything s0"
  using assms by (induction rule: rtranclp_induct) (auto intro: dstep_inv simp: dstep_everything)

lemma closed_everything:
  assumes "round_inv threads s" and "pop (dqueue s) = Pop_closed"
  shows "everything s = mset (failed_urls s) + mset (tracked s) + mset (map fst (loaded s))" "between threads s"
proof -
  note c = closed_no_alive [OF assms]
  show "everything s = mset (failed_urls s) + mset (tracked s) + mset (map fst (loaded s))"
    using c in_hand_exited [OF c(3)] by (simp add: everything_def)
  show "between threads s" using assms(1) c by (simp add: between_def round_inv_def)
qed

text \<open>
  C2. A round of downloads never deadlocks and always ends: every step reduces the work that is
  left, and a thread can go on exactly as long as the loader has not been told that the queue is
  closed (provided no exception escapes from a task). At the end no URL is left, no producer is
  left, and each URL of the round has failed, was found in the database or was loaded, exactly once.
\<close>

theorem download_round_ends:
  assumes "between threads s" and "failed_urls s = []" and "tracked s = []" and "loaded s = []"
    and "begin_round threads s = return s0" and "(dstep c nss load transient)\<^sup>*\<^sup>* s0 s1"
    and "\<And>url w. \<exists>k pid src rets. \<forall>e. snd (download_url c k nss pid src url (w\<lparr>kwrites := rets\<rparr>)) \<noteq> Escapes e"
  shows "(\<forall>s2. dstep c nss load transient s1 s2 \<longrightarrow> work s2 < work s1) \<and>
    ((\<exists>s2. dstep c nss load transient s1 s2) \<longleftrightarrow> pop (dqueue s1) \<noteq> Pop_closed) \<and>
    (pop (dqueue s1) = Pop_closed \<longrightarrow>
      producers (dqueue s1) = 0 \<and> work_urls s1 = [] \<and>
      mset (work_urls s) = mset (failed_urls s1) + mset (tracked s1) + mset (map fst (loaded s1)))"
proof -
  have s0: "round_inv threads s0" "everything s0 = everything s" using begin_round_inv [OF assms(1)] assms(5) by auto
  have s1: "round_inv threads s1" "everything s1 = everything s"
    using dsteps_keep [OF assms(6) s0(1)] s0(2) by auto
  have "everything s = mset (work_urls s)"
    using assms(1-4) in_hand_exited [of "tasks s"] by (simp add: everything_def between_def)
  then show ?thesis
    using dstep_work [of c nss load transient s1] round_progress [OF s1(1) _ assms(7), of load transient]
      closed_no_step [OF s1(1), of c nss load transient]
      closed_everything(1) [OF s1(1)] closed_no_alive [OF s1(1)] s1(2) by auto
qed


text \<open>The step relation can always go on in the sense of the theorem: the database may know the package.\<close>

lemma some_answer: "\<exists>k pid src rets. \<forall>e. snd (download_url c k nss pid src url (w\<lparr>kwrites := rets\<rparr>)) \<noteq> Escapes e"
  by (intro exI [of _ no_faults] exI [of _ "Some 1"] exI) (simp add: download_url_def)

theorem download_round_ends_witness:
  "pop (dqueue \<lparr>work_urls = [], failed_urls = [], dqueue = \<lparr>items = [], capacity = 1, producers = 1\<rparr>, tasks = [Ready],
      disk = \<lparr>cdir = Map.empty, kwrites = []\<rparr>, pids = {}, dcount = 0, tracked = [], loaded = []\<rparr>) \<noteq> Pop_closed \<and>
   (\<exists>s2. dstep (file_cache_new ''c'') pad_nss True False
     \<lparr>work_urls = [], failed_urls = [], dqueue = \<lparr>items = [], capacity = 1, producers = 1\<rparr>, tasks = [Ready],
      disk = \<lparr>cdir = Map.empty, kwrites = []\<rparr>, pids = {}, dcount = 0, tracked = [], loaded = []\<rparr> s2)"
proof -
  let ?s = "\<lparr>work_urls = [], failed_urls = [], dqueue = \<lparr>items = [], capacity = 1, producers = 0\<rparr>, tasks = [],
      disk = \<lparr>cdir = Map.empty, kwrites = []\<rparr>, pids = {}, dcount = 0, tracked = [], loaded = []\<rparr>"
  let ?begun = "\<lparr>work_urls = [], failed_urls = [], dqueue = \<lparr>items = [], capacity = 1, producers = 1\<rparr>, tasks = [Ready],
      disk = \<lparr>cdir = Map.empty, kwrites = []\<rparr>, pids = {}, dcount = 0, tracked = [], loaded = []\<rparr>"
  have b: "between 1 ?s" by (simp add: between_def)
  have r: "begin_round 1 ?s = return ?begun" by (simp add: begin_round_def add_producers_eq del: add_producers.simps)
  have "pop (dqueue ?begun) \<noteq> Pop_closed" by (simp add: pop_def)
  moreover have "(\<exists>s2. dstep (file_cache_new ''c'') pad_nss True False ?begun s2) \<longleftrightarrow> pop (dqueue ?begun) \<noteq> Pop_closed"
    using download_round_ends [OF b _ _ _ r rtranclp.rtrancl_refl some_answer, of "file_cache_new ''c''" pad_nss True False] by simp
  ultimately show ?thesis by blast
qed

lemma rounds_keep:
  assumes "rounds c nss load transient threads n s r" and "between threads s" and "failed_urls s = []"
  shows "\<exists>s'. r = return s' \<and> failed_urls s' = [] \<and>
    everything s = mset (work_urls s') + mset (tracked s') + mset (map fst (loaded s'))"
  using assms
proof (induction rule: rounds.induct)
  case (no_more n s)
  then show ?case using in_hand_exited [of "tasks s"] by (simp add: everything_def between_def)
next
  case (asserts n s s0 s1)
  then have "round_inv threads s0" using begin_round_inv [OF asserts.prems(1)] by auto
  then have "round_inv threads s1" using dsteps_keep asserts.hyps(3) by blast
  then show ?case using closed_no_alive asserts.hyps(4,5) by blast
next
  case (all_done n s s0 s1)
  then have s0: "round_inv threads s0" "everything s0 = everything s" using begin_round_inv [OF all_done.prems(1)] by auto
  then have "round_inv threads s1" "everything s1 = everything s" using dsteps_keep [OF all_done.hyps(3) s0(1)] s0(2) by auto
  then show ?case using closed_everything(1) all_done.hyps by fastforce
next
  case (retry n s s0 s1 r)
  then have s0: "round_inv threads s0" "everything s0 = everything s" using begin_round_inv [OF retry.prems(1)] by auto
  then have s1: "round_inv threads s1" "everything s1 = everything s" using dsteps_keep [OF retry.hyps(3) s0(1)] s0(2) by auto
  let ?s = "s1\<lparr>work_urls := failed_urls s1, failed_urls := work_urls s1\<rparr>"
  have "between threads ?s" using closed_everything(2) [OF s1(1) retry.hyps(4)] by (simp add: between_def)
  moreover have "everything ?s = everything s" using s1(2) by (simp add: everything_def add_ac)
  ultimately show ?case using retry.IH retry.hyps(6) by simp
qed

text \<open>
  C21. Whatever the tasks and the network do, the assertions between the rounds hold, and at the end
  of the downloads the list that is left to the caller holds, with their multiplicity, exactly the
  URLs that were neither found in the database nor loaded.
\<close>

theorem download_process_keeps_urls:
  assumes "downloader_new threads urls w = return s" and "process c nss load transient threads s r"
  shows "\<exists>s'. r = return s' \<and>
    mset urls = mset (work_urls s') + mset (tracked s') + mset (map fst (loaded s'))"
proof -
  have s: "s = \<lparr>work_urls = urls, failed_urls = [], dqueue = \<lparr>items = [], capacity = threads, producers = 0\<rparr>, tasks = [],
      disk = w, pids = {}, dcount = 0, tracked = [], loaded = []\<rparr>" "threads \<noteq> 0"
    using assms(1) by (auto simp: downloader_new_def bounded_ordered_queue_def split: if_splits)
  let ?s = "s\<lparr>work_urls := rev (work_urls s)\<rparr>"
  have "between threads ?s" "failed_urls ?s = []" using s by (simp_all add: between_def)
  moreover have "everything ?s = mset urls" using s(1) by (simp add: everything_def in_hand_def)
  ultimately show ?thesis
    using rounds_keep [of c nss load transient threads 0 ?s r] assms(2) by (auto simp: process_def)
qed

theorem download_process_keeps_urls_witness:
  "\<exists>s'. process (file_cache_new ''c'') pad_nss True False 1
      \<lparr>work_urls = [], failed_urls = [], dqueue = \<lparr>items = [], capacity = 1, producers = 0\<rparr>, tasks = [],
       disk = \<lparr>cdir = Map.empty, kwrites = []\<rparr>, pids = {}, dcount = 0, tracked = [], loaded = []\<rparr> (return s') \<and>
    mset [] = mset (work_urls s') + mset (tracked s') + mset (map fst (loaded s'))"
proof -
  let ?s = "\<lparr>work_urls = [], failed_urls = [], dqueue = \<lparr>items = [], capacity = 1, producers = 0\<rparr>, tasks = [],
      disk = \<lparr>cdir = Map.empty, kwrites = []\<rparr>, pids = {}, dcount = 0, tracked = [], loaded = []\<rparr>"
  let ?begun = "?s\<lparr>dqueue := \<lparr>items = [], capacity = 1, producers = 1\<rparr>, tasks := [Ready]\<rparr>"
  let ?ended = "?s\<lparr>tasks := [Exited]\<rparr>"
  have new: "downloader_new 1 [] \<lparr>cdir = Map.empty, kwrites = []\<rparr> = return ?s"
    by (simp add: downloader_new_def bounded_ordered_queue_def)
  have "dstep (file_cache_new ''c'') pad_nss True False ?begun ?ended"
    using dstep.exit_task [of 0 ?begun True "\<lparr>items = [], capacity = 1, producers = 0\<rparr>" "file_cache_new ''c''" pad_nss True False]
    by (simp add: remove_producer_def Let_def)
  then have "rounds (file_cache_new ''c'') pad_nss True False 1 0 ?s (return ?ended)"
    by (intro rounds.all_done [of _ _ _ ?begun]) (simp_all add: begin_round_def add_producers_eq pop_def del: add_producers.simps)
  then have p: "process (file_cache_new ''c'') pad_nss True False 1 ?s (return ?ended)" by (simp add: process_def)
  show ?thesis using download_process_keeps_urls [OF new p] p by auto
qed


section \<open>Files passed to the loader\<close>

lemma copy_fills:
  assumes "nss_digests nss H collected"
  shows "filling collected cs dir d a w \<Longrightarrow>
    case copy_source_to_sink nss reads a w of
      (w', Inl e) \<Rightarrow> same_but (temp_file a) dir (cdir w')
    | (w', Inr a') \<Rightarrow> \<exists>d'. filling collected cs dir d' a' w'"
proof (induction reads arbitrary: a w d)
  case (Cons r reads)
  have same: "same_but (temp_file a) dir (cdir w)" using Cons.prems by (simp add: filling_def)
  show ?case
  proof (cases r)
    case (Inr buf)
    show ?thesis
    proof (cases "buf = []")
      case False
      obtain w1 q where step: "add_sink_write nss buf a w = (w1, q)" by (cases "add_sink_write nss buf a w")
      note f = add_sink_write_fills [OF assms Cons.prems, of buf]
      show ?thesis
      proof (cases q)
        case Inl2: (Inl e)
        then show ?thesis using f step Inr False by simp
      next
        case Inr2: (Inr a1)
        then have f1: "filling collected cs dir (d @ buf) a1 w1" using f step by simp
        moreover have "temp_file a1 = temp_file a" using f1 Cons.prems by (simp add: filling_def)
        ultimately show ?thesis using Cons.IH [OF f1] step Inr Inr2 False by (simp split: prod.splits sum.splits)
      qed
    qed (use Cons.prems Inr in auto)
  qed (use same in simp)
qed auto

lemma fetch_outcome:
  assumes "nss_digests nss H collected"
  shows "case fetch c k nss src cs w of
      (w', Inl e) \<Rightarrow> same_but (base16_encode (csum_value cs) @ ''.tmp'') (cdir w) (cdir w')
    | (w', Inr path) \<Rightarrow> \<exists>dat. path = cache_root c @ base16_encode (csum_value cs) \<and> accepts H cs dat \<and>
        cdir w' = stored cs dat (cdir w)"
proof -
  let ?tmp = "base16_encode (csum_value cs) @ ''.tmp''"
  obtain w1 r where new: "add_sink_new k nss cs w = (w1, r)" by (cases "add_sink_new k nss cs w")
  show ?thesis
  proof (cases r)
    case (Inl e)
    then show ?thesis
      using add_sink_new_fills [OF assms, where k = k and cs = cs and w = w] new by (simp add: fetch_def)
  next
    case (Inr a)
    then have f1: "filling collected cs (cdir w) [] a w1"
      using add_sink_new_fills [OF assms, where k = k and cs = cs and w = w] new by simp
    then have tmp: "temp_file a = ?tmp" "same_but ?tmp (cdir w) (cdir w1)" by (simp_all add: filling_def)
    show ?thesis
    proof (cases src)
      case src: (Inl e)
      then show ?thesis using new Inr tmp same_but_trans by (fastforce simp: fetch_def)
    next
      case src: (Inr reads)
      obtain w2 q where cp: "copy_source_to_sink nss reads a w1 = (w2, q)" by (cases "copy_source_to_sink nss reads a w1")
      note f = copy_fills [OF assms f1, of reads]
      show ?thesis
      proof (cases q)
        case Inl2: (Inl e)
        then have "same_but ?tmp (cdir w) (cdir w2)" using f cp tmp by simp
        then show ?thesis using new Inr src cp Inl2 tmp same_but_trans by (fastforce simp: fetch_def)
      next
        case Inr2: (Inr a')
        then obtain d where f2: "filling collected cs (cdir w) d a' w2" using f cp by auto
        obtain w3 p where fin: "add_sink_finish c k nss a' w2 = (w3, p)" by (cases "add_sink_finish c k nss a' w2")
        have "temp_file a' = ?tmp" "same_but ?tmp (cdir w) (cdir w2)" using f2 by (simp_all add: filling_def)
        then show ?thesis
          using add_sink_finish_outcome [OF assms f2, where c = c and k = k] new Inr src cp Inr2 fin same_but_trans
          by (cases p) (fastforce simp: fetch_def)+
      qed
    qed
  qed
qed

lemma cache_ok_same_but:
  "same_but (base16_encode v @ ''.tmp'') d d' \<Longrightarrow> cache_ok H d \<Longrightarrow> cache_ok H d'"
proof -
  assume "same_but (base16_encode v @ ''.tmp'') d d'"
  then have "d' (base16_encode u) = d (base16_encode u)" for u
    using temp_name_no_digest [of v u] unfolding same_but_def by metis
  then show "cache_ok H d \<Longrightarrow> cache_ok H d'" by (simp add: cache_ok_def)
qed

lemma cache_ok_stored: "accepts H cs dat \<Longrightarrow> cache_ok H d \<Longrightarrow> cache_ok H (stored cs dat d)"
  using temp_name_no_digest [of "csum_value cs"] by (auto simp: cache_ok_def stored_def accepts_def base16_encode_inj)

text \<open>
  C22. A file is passed to the loader only under the path of its checksum in a cache whose contents
  match their names: it is there and its digest is the one that the repository lists. Whatever the
  work on a URL ends in, the cache stays that way.
\<close>

theorem download_url_verified:
  assumes "nss_digests nss H collected" and "cache_ok H (cdir w)"
    and "download_url c k nss pid src url w = (w', r)"
  shows "cache_ok H (cdir w') \<and>
    (\<forall>li. r = Queued li \<longrightarrow>
      li_url li = ru_href url \<and> li_csum li = ru_csum url \<and>
      li_path li = cache_root c @ base16_encode (csum_value (ru_csum url)) \<and>
      (\<exists>dat t. cdir w' (base16_encode (csum_value (ru_csum url))) = Some (Regular dat) \<and> H t dat = csum_value (ru_csum url)))"
proof (cases "pid = None \<and> lookup_path c (ru_csum url) w = None")
  case True
  obtain w1 p where f: "fetch c k nss src (ru_csum url) w = (w1, p)" by (cases "fetch c k nss src (ru_csum url) w")
  note o = fetch_outcome [OF assms(1), where c = c and k = k and src = src and cs = "ru_csum url" and w = w]
  show ?thesis
  proof (cases p)
    case (Inl e)
    then show ?thesis using o f assms(2,3) True cache_ok_same_but by (auto simp: download_url_def split: if_splits)
  next
    case (Inr path)
    then obtain dat where d: "path = cache_root c @ base16_encode (csum_value (ru_csum url))" "accepts H (ru_csum url) dat"
      "cdir w1 = stored (ru_csum url) dat (cdir w)" using o f by auto
    have "cache_ok H (cdir w1)" using d cache_ok_stored [OF d(2) assms(2)] by simp
    moreover have "cdir w1 (base16_encode (csum_value (ru_csum url))) = Some (Regular dat)" using d(3) by (simp add: stored_def)
    moreover have "H (csum_type (ru_csum url)) dat = csum_value (ru_csum url)" using d(2) by (simp add: accepts_def)
    ultimately show ?thesis using assms(3) True f Inr d(1) by (auto simp: download_url_def)
  qed
next
  case False
  then show ?thesis
    using assms(2,3)
    by (auto simp: download_url_def lookup_path_def Let_def cache_ok_def split: option.splits if_splits fnode.splits)
qed

theorem download_url_verified_witness:
  "cache_ok pad_digest (cdir (fst (download_url (file_cache_new ''c'') no_faults pad_nss None (return [return [1], throw (Curl_exception ''reset'')])
     \<lparr>ru_name = ''p'', ru_href = ''u'', ru_csum = checksum_new\<rparr> \<lparr>cdir = Map.empty, kwrites = []\<rparr>)))"
proof -
  let ?w = "\<lparr>cdir = Map.empty, kwrites = []\<rparr>"
  have "cache_ok pad_digest (cdir ?w)" by (simp add: cache_ok_def)
  from download_url_verified [OF pad_nss_digests this prod.collapse [symmetric]] show ?thesis by blast
qed

end
