(* ===== verification/Download_repo.thy ===== *)
theory Download_repo
  imports Downloader Primary Primary_xml
begin

text \<open>
  The command that downloads repositories, \<open>symboldb_download_repo\<close> in \<open>download_repo.cpp\<close>: the packages
  of all repositories are consolidated, filtered by name and given to the downloader; the package
  set is updated with what was loaded. Messages are left out. The network is an argument, as is
  Expat: \<open>open_index\<close> yields the parser on a downloaded index, \<open>open_list\<close> the one on \<open>primary.xml\<close>.
\<close>

record 'c repo_env =
  env_nss :: "'c nss"
  env_vercmp :: vercmp
  open_index :: "string \<Rightarrow> expat result"
  open_reads :: "cache_mode \<Rightarrow> string \<Rightarrow> u8 list result list result"
  open_list :: "'c primary_xml \<Rightarrow> expat"

definition rpm_url_of :: "rpm_package_info \<times> string \<times> checksum \<Rightarrow> rpm_url" where
  "rpm_url_of x = \<lparr>ru_name = name (fst x), ru_href = fst (snd x), ru_csum = snd (snd x)\<rparr>"

text \<open>The loop over the packages of one repository. What was added before an exception does not matter.\<close>

definition add_packages ::
    "vercmp \<Rightarrow> (rpm_package_info \<times> string \<times> checksum) list \<Rightarrow> rpm_url arch_map \<Rightarrow> rpm_url arch_map" where
  "add_packages vercmp xs m = foldl (add vercmp) m (map (\<lambda>x. (fst x, rpm_url_of x)) xs)"

definition read_repository :: "'c repo_env \<Rightarrow> string \<Rightarrow> (rpm_package_info \<times> string \<times> checksum) list run" where
  "read_repository env url =
     andthen (repomd_acquire (open_index env) url \<lparr>base_url = [], revision = [], entries = []\<rparr>) (\<lambda>rp.
     andthen (Some (primary_xml_new (env_nss env) (open_reads env) rp always_cache)) (\<lambda>px.
     andthen (Some (primary_new (open_list env px) (cstr (base_url rp)))) (\<lambda>(s, p). packages s p [])))"

fun read_repositories :: "'c repo_env \<Rightarrow> string list \<Rightarrow> rpm_url arch_map \<Rightarrow> rpm_url arch_map run" where
  "read_repositories env [] m = Some (return m)"
| "read_repositories env (url # argv) m =
     andthen (read_repository env url) (\<lambda>xs. read_repositories env argv (add_packages (env_vercmp env) xs m))"

text \<open>\<open>std::remove_if\<close> with the filter, which counts what it removes.\<close>

fun name_filter :: "(string \<Rightarrow> bool) \<Rightarrow> rpm_url list \<Rightarrow> rpm_url list \<times> nat" where
  "name_filter rx [] = ([], 0)"
| "name_filter rx (u # us) =
     (let (kept, n) = name_filter rx us in if rx (cstr (ru_name u)) then (kept, n + 1) else (u # kept, n))"

definition download_set ::
    "'c repo_env \<Rightarrow> (string \<Rightarrow> bool) option \<Rightarrow> string list \<Rightarrow> rpm_url list run" where
  "download_set env exclude argv =
     andthen (read_repositories env argv []) (\<lambda>m.
       let urls = consolidated m
       in Some (return (case exclude of None \<Rightarrow> urls | Some rx \<Rightarrow> fst (name_filter rx urls))))"

text \<open>
  The end of the command: the exit status, and the packages with which the set is updated, if it is.
  \<open>set_known\<close> says that a package set was named (and found).
\<close>

definition finish_download :: "bool \<Rightarrow> bool \<Rightarrow> bool \<Rightarrow> rpm_url list \<Rightarrow> nat set \<Rightarrow> int \<times> nat set option" where
  "finish_download load set_known ignore_download_errors urls ps =
     (let do_pset_update = load \<and> set_known
      in if urls \<noteq> [] \<and> \<not> (ignore_download_errors \<and> do_pset_update) then (1, None)
         else (0, if do_pset_update then Some ps else None))"

section \<open>The choice of the packages\<close>

lemma name_filter_eq: "fst (name_filter rx us) = filter (\<lambda>u. \<not> rx (cstr (ru_name u))) us"
  by (induction us) (auto simp: Let_def split: prod.splits)

lemma read_repositories_eq:
  "list_all2 (\<lambda>url xs. read_repository env url = Some (return xs)) argv xss \<Longrightarrow>
   read_repositories env argv m = Some (return (add_packages (env_vercmp env) (concat xss) m))"
  by (induction argv xss arbitrary: m rule: list_all2_induct) (simp_all add: add_packages_def)

text \<open>
  With download errors ignored the set is updated even if nothing at all could be loaded: the set
  becomes empty, after the message that no packages are left, and the command succeeds.
\<close>

lemma empty_set_after_errors: "finish_download True True True (u # urls) {} = (0, Some {})"
  by (simp add: finish_download_def)

section \<open>Reading a repository\<close>

text \<open>The parser on a document that arrives in one read.\<close>

definition holds_document :: "expat \<Rightarrow> xtree \<Rightarrow> bool" where
  "holds_document s t \<longleftrightarrow>
     (\<exists>cs fin. s = expat_source cs fin \<and> list_all nul_free_chunk (fin # cs) \<and> document cs fin 0 = (flatten t, None))"

text \<open>The two documents of a repository and the packages that are read from them.\<close>

lemma read_repository_documents:
  assumes base: "base = (if url \<noteq> [] \<and> List.last url \<noteq> CHR ''/'' then url @ ''/'' else url)"
    and index: "open_index env (base @ ''repodata/repomd.xml'') = return si" "holds_document si (repomd_xml revn ens)"
      "list_all valid_entry ens"
    and px: "primary_xml_new (env_nss env) (open_reads env) \<lparr>base_url = base, revision = revn, entries = ens\<rparr> always_cache = return px"
    and list: "holds_document (open_list env px) (XElem ''metadata'' as l c kids l' c')" "list_all good_package kids"
  shows "read_repository env url = Some (package_list kids
    \<lparr>primary_base = cstr base, info = rpm_package_info_new, href = [], csum = checksum_new\<rparr>)"
proof -
  let ?rp = "\<lparr>base_url = [], revision = [], entries = []\<rparr>"
  have parsed: "repomd_parse si ?rp = Some (return (?rp\<lparr>revision := revn, entries := ens\<rparr>, None))"
  proof -
    obtain cs fin where "si = expat_source cs fin" "list_all nul_free_chunk (fin # cs)"
      "document cs fin 0 = (flatten (repomd_xml revn ens), None)"
      using index(2) unfolding holds_document_def by blast
    then show ?thesis using repomd_parse_document [OF _ _ index(3)] by blast
  qed
  have "repomd_acquire (open_index env) url ?rp = Some (return \<lparr>base_url = base, revision = revn, entries = ens\<rparr>)"
    using index(1) parsed unfolding base by (simp add: repomd_acquire_def Let_def)
  moreover have "andthen (Some (primary_new (open_list env px) (cstr base))) (\<lambda>(s, p). packages s p []) =
      Some (package_list kids \<lparr>primary_base = cstr base, info = rpm_package_info_new, href = [], csum = checksum_new\<rparr>)"
  proof -
    obtain cs fin where "open_list env px = expat_source cs fin" "list_all nul_free_chunk (fin # cs)"
      "document cs fin 0 = (flatten (XElem ''metadata'' as l c kids l' c') @ [], None)"
      using list(1) unfolding holds_document_def append_Nil2 by blast
    then show ?thesis using primary_document [OF _ _ list(2)] by metis
  qed
  ultimately show ?thesis using px by (simp add: read_repository_def)
qed


text \<open>A parser that gets a whole document in one read.\<close>

fun call_of :: "xevent \<Rightarrow> callback \<times> u32 \<times> u32" where
  "call_of (XStart n as l c) = (StartElement n as, l, c)"
| "call_of (XEnd l c) = (EndElement, l, c)"
| "call_of (XText t l c) = (CharacterData t, l, c)"

definition one_read :: "xtree \<Rightarrow> expat" where
  "one_read t = expat_source [] \<lparr>read_failure = None, buf = [], calls = map call_of (flatten t), status_ok = True,
     err_line = 0, err_column = 0, err_message = [], err_index = 0\<rparr>"

lemma call_of_simps [simp]:
  "event_of (call_of ev) = ev" "ok_call (call_of ev) = ok_event ev" "ok_event ev \<Longrightarrow> nul_free_call (call_of ev)"
  by (cases ev; simp)+

lemma one_read_holds:
  assumes "list_all ok_event (flatten t)"
  shows "holds_document (one_read t) t"
proof -
  let ?c = "\<lparr>read_failure = None, buf = [], calls = map call_of (flatten t), status_ok = True,
     err_line = 0, err_column = 0, err_message = [], err_index = 0\<rparr>"
  have ok: "list_all ok_call (map call_of (flatten t))" using assms by (simp add: list_all_iff)
  have "list_all nul_free_chunk [?c]" using assms by (simp add: nul_free_chunk_def list_all_iff)
  moreover have "document [] ?c 0 = (flatten t, None)"
    by (simp add: chunk_failure_def parse_chunk_def chunk_events_def expat_source_def check_error_def Let_def
        run_calls_eq [OF ok] comp_def)
  ultimately show ?thesis unfolding holds_document_def one_read_def by blast
qed


definition sample_entry :: entry where
  "sample_entry = \<lparr>entry_type = ''primary'', compressed = False, entry_checksum = checksum_new,
     open_checksum = checksum_new, entry_href = ''p.xml.gz''\<rparr>"

definition sample_list :: "xtree list" where
  "sample_list = [elem ''package'' [(''type'', ''rpm'')]
     [elem ''name'' [] [txt_node ''bash''], elem ''arch'' [] [txt_node ''i386''],
      elem ''version'' [(''ver'', ''4''), (''rel'', ''1''), (''epoch'', ''0'')] [],
      elem ''size'' [(''package'', ''5'')] [], elem ''checksum'' [(''type'', ''md5'')] [txt_node ''0f''],
      elem ''location'' [(''href'', ''b.rpm'')] []]]"

definition sample_env :: "(hash_type \<times> u8 list) repo_env" where
  "sample_env = \<lparr>env_nss = pad_nss, env_vercmp = by_length,
     open_index = \<lambda>_. return (one_read (repomd_xml ''1'' [sample_entry])),
     open_reads = \<lambda>_ _. return [], open_list = \<lambda>_. one_read (elem ''metadata'' [] sample_list)\<rparr>"

lemma sample_numbers:
  "parse_unsigned_long_long (strip ''0'') = Some 0" "parse_unsigned_long_long ''5'' = Some 5"
  "strip ''4'' = ''4''" "strip ''1'' = ''1''"
proof -
  have "dec 0 = ''0''" "dec 5 = ''5''" by code_simp+
  then show "parse_unsigned_long_long (strip ''0'') = Some 0" "parse_unsigned_long_long ''5'' = Some 5"
    using number_dec [of 0] parse_dec [of "[]" "[]" 5] by simp_all
  show "strip ''4'' = ''4''" "strip ''1'' = ''1''" by (rule strip_plain; simp add: whitespace_iff)+
qed

lemma sample_repository:
  "read_repository sample_env ''http://r/'' = Some (return
     [(rpm_package_info_new\<lparr>name := ''bash'', version := ''4'', release := ''1'', arch := ''i386'', epoch := 0\<rparr>,
       ''http://r/b.rpm'', \<lparr>csum_value = [15], csum_length = 5, csum_type = md5\<rparr>)])"
proof -
  have "list_all ok_event (flatten (repomd_xml ''1'' [sample_entry]))"
    by (simp add: repomd_xml_def entry_xml_def sample_entry_def checksum_xml_def size_xml_def checksum_new_def)
  then have index: "holds_document (one_read (repomd_xml ''1'' [sample_entry])) (repomd_xml ''1'' [sample_entry])"
    by (rule one_read_holds)
  have "list_all ok_event (flatten (elem ''metadata'' [] sample_list))" by (simp add: sample_list_def)
  then have list: "holds_document (one_read (elem ''metadata'' [] sample_list)) (elem ''metadata'' [] sample_list)"
    by (rule one_read_holds)
  have sum: "set_hexadecimal ''md5'' 5 ''0f'' cs = return (cs\<lparr>csum_value := [15], csum_length := 5, csum_type := md5\<rparr>)" for cs
  proof -
    have "base16_encode [15] = ''0f''" by code_simp
    then have "base16_decode ''0f'' = ([15], None)" using decode_from_encode [of 0 "[15]"] unfolding base16_decode_def by simp
    then show ?thesis by (simp add: set_hexadecimal_def from_string_def)
  qed
  obtain px where px: "primary_xml_new (env_nss sample_env) (open_reads sample_env)
      \<lparr>base_url = ''http://r/'', revision = ''1'', entries = [sample_entry]\<rparr> always_cache = return px"
    by (simp add: primary_xml_new_def sample_env_def is_primary_def sample_entry_def ends_with_def Let_def hash_sink_new_def
        hash_sink_impl_def pad_nss_def)
  have "read_repository sample_env ''http://r/'' = Some (package_list sample_list
      \<lparr>primary_base = cstr ''http://r/'', info = rpm_package_info_new, href = [], csum = checksum_new\<rparr>)"
    by (rule read_repository_documents [OF _ _ index _ px])
      (use list in \<open>simp_all add: sample_env_def valid_entry_def sample_entry_def sample_list_def\<close>)
  also have "package_list sample_list
      \<lparr>primary_base = cstr ''http://r/'', info = rpm_package_info_new, href = [], csum = checksum_new\<rparr> = return
     [(rpm_package_info_new\<lparr>name := ''bash'', version := ''4'', release := ''1'', arch := ''i386'', epoch := 0\<rparr>,
       ''http://r/b.rpm'', \<lparr>csum_value = [15], csum_length = 5, csum_type = md5\<rparr>)]"
    by (simp add: sample_list_def xattr_def clear_def rpm_package_info_new_def set_version_def set_size_def set_checksum_def
        sample_numbers sum validate_def check_attr_def url_combine_yum_def no_length_def Let_def)
  finally show ?thesis .
qed



end
