(* ===== verification/Elf_image.thy ===== *)
theory Elf_image
  imports Prelude
begin

text \<open>
  ELF images: \<open>lib/cxxll/elf_image.cpp\<close>, \<open>elf_symbol.cpp\<close>, \<open>elf_symbol_definition.cpp\<close> and
  \<open>elf_symbol_reference.cpp\<close>. The library libelf is a parameter: the record \<open>elf\<close> holds what its
  functions return for one image, with \<open>None\<close> for the null pointer; the descriptors of section data
  are of an arbitrary type. Errors that the code reports with \<open>elf_errmsg(-1)\<close> carry that message.
  The loops that follow the links between version records need not end, so their results are
  options.
\<close>

section \<open>What libelf returns\<close>

record ehdr =
  ehdr_class :: u8
  ehdr_data :: u8
  ehdr_type :: u16
  ehdr_machine :: u16

record phdr =
  p_type :: u32
  p_flags :: u32
  p_offset :: u64
  p_vaddr :: u64
  p_paddr :: u64
  p_filesz :: u64
  p_memsz :: u64
  p_align :: u64

record shdr =
  sh_type :: u32
  sh_flags :: u64
  sh_link :: u32
  sh_size :: u64
  sh_entsize :: u64

record sym =
  st_name :: u32
  st_info :: u8
  st_other :: u8
  st_shndx :: u16

record verneed =
  vn_aux :: u32
  vn_next :: u32

record vernaux =
  vna_other :: u16
  vna_name :: u32
  vna_next :: u32

record verdef =
  vd_ndx :: u16
  vd_aux :: u32
  vd_next :: u32

record dyn =
  d_tag :: int
  d_val :: u64

record nhdr =
  note_next :: nat
  n_type :: u32
  n_descsz :: u32
  name_offset :: nat
  desc_offset :: nat

text \<open>
  \<open>sections\<close> are the indexes of the sections in the order in which \<open>elf_nextscn\<close> goes through them;
  \<open>getnote\<close> is \<open>None\<close> where \<open>gelf_getnote\<close> returns 0.
  Offsets are passed to the functions for version records as \<open>int\<close>.
\<close>

record 'd elf =
  getehdr :: "string + ehdr"
  getclass :: nat
  getshdrnum :: "string + nat"
  getphdrnum :: "string + nat"
  getphdr :: "nat \<Rightarrow> phdr option"
  rawfile :: "string + u8 list"
  errmsg :: string
  sections :: "nat list"
  getshdr :: "nat \<Rightarrow> shdr option"
  getdata :: "nat \<Rightarrow> 'd option"
  getdata_rawchunk :: "u64 \<Rightarrow> u64 \<Rightarrow> 'd option"
  d_buf :: "'d \<Rightarrow> u8 list"
  getnote :: "'d \<Rightarrow> nat \<Rightarrow> nhdr option"
  has_shdrstrndx :: bool
  strptr :: "u32 \<Rightarrow> u64 \<Rightarrow> string option"
  getsymshndx :: "'d \<Rightarrow> 'd option \<Rightarrow> nat \<Rightarrow> (sym \<times> u32) option"
  getversym :: "'d \<Rightarrow> nat \<Rightarrow> u16 option"
  getverneed :: "'d option \<Rightarrow> int \<Rightarrow> verneed option"
  getvernaux :: "'d option \<Rightarrow> int \<Rightarrow> vernaux option"
  getverdef :: "'d option \<Rightarrow> int \<Rightarrow> verdef option"
  getverdaux :: "'d option \<Rightarrow> int \<Rightarrow> u32 option"
  offscn :: "u64 \<Rightarrow> nat option"
  getdyn :: "'d \<Rightarrow> nat \<Rightarrow> dyn option"

text \<open>The parameter that turns the bytes of a file into an image: \<open>elf_memory\<close>.\<close>

type_synonym 'd libelf = "u8 list \<Rightarrow> string + 'd elf"

text \<open>A \<open>size_t\<close> passed as an \<open>int\<close> keeps its low 32 bits, read as a signed number.\<close>

definition int_arg :: "u64 \<Rightarrow> int" where
  "int_arg off = (let n = unat off mod 2 ^ 32 in if n < 2 ^ 31 then int n else int n - 2 ^ 32)"

text \<open>Assigning what \<open>elf_strptr\<close> returns to a \<open>std::string\<close>.\<close>

definition get_strptr :: "'d elf \<Rightarrow> u32 \<Rightarrow> u64 \<Rightarrow> string result" where
  "get_strptr e stridx off =
     (case strptr e stridx off of Some s \<Rightarrow> return s | None \<Rightarrow> throw (Undefined_behaviour ''null string''))"

section \<open>The header of an image\<close>

definition ELFCLASS32 :: nat where "ELFCLASS32 = 1"
definition ELFCLASS64 :: nat where "ELFCLASS64 = 2"
definition PT_DYNAMIC :: u32 where "PT_DYNAMIC = 2"
definition PT_INTERP :: u32 where "PT_INTERP = 3"
definition PT_NOTE :: u32 where "PT_NOTE = 4"
definition SHT_SYMTAB :: u32 where "SHT_SYMTAB = 2"
definition SHT_DYNAMIC :: u32 where "SHT_DYNAMIC = 6"
definition SHT_NOTE :: u32 where "SHT_NOTE = 7"
definition SHT_NOBITS :: u32 where "SHT_NOBITS = 8"
definition SHT_DYNSYM :: u32 where "SHT_DYNSYM = 11"
definition SHT_SYMTAB_SHNDX :: u32 where "SHT_SYMTAB_SHNDX = 18"
definition SHT_GNU_verdef :: u32 where "SHT_GNU_verdef = 0x6ffffffd"
definition SHT_GNU_verneed :: u32 where "SHT_GNU_verneed = 0x6ffffffe"
definition SHT_GNU_versym :: u32 where "SHT_GNU_versym = 0x6fffffff"
definition SHF_ALLOC :: u64 where "SHF_ALLOC = 2"
definition SHN_UNDEF :: u32 where "SHN_UNDEF = 0"
definition SHN_LORESERVE :: u32 where "SHN_LORESERVE = 0xff00"
definition SHN_XINDEX :: u16 where "SHN_XINDEX = 0xffff"

lemmas elf_constants = ELFCLASS32_def ELFCLASS64_def PT_DYNAMIC_def PT_INTERP_def PT_NOTE_def
  SHT_SYMTAB_def SHT_DYNAMIC_def SHT_NOTE_def SHT_NOBITS_def SHT_DYNSYM_def SHT_SYMTAB_SHNDX_def
  SHT_GNU_verdef_def SHT_GNU_verneed_def SHT_GNU_versym_def SHF_ALLOC_def SHN_UNDEF_def
  SHN_LORESERVE_def SHN_XINDEX_def

definition archlist :: "(u16 \<times> string option \<times> string option) list" where
  "archlist =
    [(3, Some ''i386'', None),
     (2, Some ''sparc'', None),
     (43, None, Some ''sparc64''),
     (20, Some ''ppc'', None),
     (21, None, Some ''ppc64''),
     (22, Some ''s390'', Some ''s390x''),
     (62, None, Some ''x86_64''),
     (40, Some ''arm'', None),
     (183, None, Some ''aarch64'')]"

fun find_arch :: "(u16 \<times> string option \<times> string option) list \<Rightarrow> u8 \<Rightarrow> u16 \<Rightarrow> string option" where
  "find_arch [] c m = None"
| "find_arch ((machine, name_32, name_64) # rest) c m =
     (if m = machine then
        (if unat c = ELFCLASS32 then name_32 else if unat c = ELFCLASS64 then name_64 else None)
      else find_arch rest c m)"

definition get_arch :: "u8 \<Rightarrow> u16 \<Rightarrow> string option" where
  "get_arch ei_class e_machine = find_arch archlist ei_class e_machine"

record 'd elf_image =
  image_elf :: "'d elf"
  phnum :: nat
  shnum :: nat
  ei_class :: u8
  ei_data :: u8
  e_type :: u16
  e_machine :: u16
  arch :: "string option"
  interp :: string
  build_id :: "u8 list"

text \<open>A C string inside a file in memory: undefined when no NUL follows.\<close>

definition file_string :: "u8 list \<Rightarrow> nat \<Rightarrow> string result" where
  "file_string file off =
     (if 0 \<in> set (drop off file) then return (map char_of_byte (takeWhile (\<lambda>b. b \<noteq> 0) (drop off file)))
      else throw (Undefined_behaviour ''read past the end''))"

fun set_interp_loop :: "'d elf \<Rightarrow> nat list \<Rightarrow> string result" where
  "set_interp_loop e [] = return []"
| "set_interp_loop e (i # is) =
     (case getphdr e i of
        Some ph \<Rightarrow>
          if p_type ph = PT_INTERP then
            (case rawfile e of
               Inl msg \<Rightarrow> throw (Elf_exception msg)
             | Inr file \<Rightarrow>
                 if unat (p_offset ph) \<ge> length file then throw (Elf_exception (errmsg e))
                 else file_string file (unat (p_offset ph)))
          else set_interp_loop e is
      | None \<Rightarrow> set_interp_loop e is)"

definition set_interp :: "'d elf_image \<Rightarrow> 'd elf_image result" where
  "set_interp im =
     bind (set_interp_loop (image_elf im) [0..<phnum im]) (\<lambda>s. return (im\<lparr>interp := s\<rparr>))"

text \<open>\<open>strcmp(name, s) == 0\<close>, reading the name byte by byte.\<close>

fun strcmp_eq :: "u8 list \<Rightarrow> string \<Rightarrow> bool result" where
  "strcmp_eq [] s = throw (Undefined_behaviour ''read past the end'')"
| "strcmp_eq (b # bs) [] = return (b = 0)"
| "strcmp_eq (b # bs) (c # cs) = (if b = byte_of_char c then strcmp_eq bs cs else return False)"

definition note_desc :: "u8 list \<Rightarrow> nhdr \<Rightarrow> u8 list result" where
  "note_desc buf n =
     (if desc_offset n + unat (n_descsz n) \<le> length buf
      then return (take (unat (n_descsz n)) (drop (desc_offset n) buf))
      else throw (Undefined_behaviour ''read past the end''))"

partial_function (option) note_loop :: "'d elf \<Rightarrow> 'd \<Rightarrow> nat \<Rightarrow> u8 list option run" where
  "note_loop e d offset =
     (if offset < length (d_buf e d) then
        (case getnote e d offset of
           None \<Rightarrow> Some (return None)
         | Some n \<Rightarrow>
             andthen (Some (strcmp_eq (drop (name_offset n) (d_buf e d)) ''GNU'')) (\<lambda>eq.
               if eq \<and> n_type n = 3 then Some (bind (note_desc (d_buf e d) n) (\<lambda>bs. return (Some bs)))
               else note_loop e d (note_next n)))
      else Some (return None))"

definition set_build_id_from_section :: "'d elf_image \<Rightarrow> 'd \<Rightarrow> 'd elf_image run" where
  "set_build_id_from_section im d =
     andthen (note_loop (image_elf im) d 0) (\<lambda>found.
       Some (return (case found of None \<Rightarrow> im | Some bs \<Rightarrow> im\<lparr>build_id := bs\<rparr>)))"

fun build_id_sections :: "'d elf_image \<Rightarrow> nat list \<Rightarrow> 'd elf_image run" where
  "build_id_sections im [] = Some (return im)"
| "build_id_sections im (scn # scns) =
     (case getshdr (image_elf im) scn of
        Some sh \<Rightarrow>
          if sh_type sh \<noteq> SHT_NOTE \<or> sh_flags sh AND SHF_ALLOC = 0 then build_id_sections im scns
          else (case getdata (image_elf im) scn of
                  Some d \<Rightarrow> set_build_id_from_section im d
                | None \<Rightarrow> build_id_sections im scns)
      | None \<Rightarrow> build_id_sections im scns)"

fun build_id_segments :: "'d elf_image \<Rightarrow> nat list \<Rightarrow> 'd elf_image run" where
  "build_id_segments im [] = Some (return im)"
| "build_id_segments im (i # is) =
     (case getphdr (image_elf im) i of
        Some ph \<Rightarrow>
          if p_type ph \<noteq> PT_NOTE then build_id_segments im is
          else (case getdata_rawchunk (image_elf im) (p_offset ph) (p_filesz ph) of
                  Some d \<Rightarrow> set_build_id_from_section im d
                | None \<Rightarrow> build_id_segments im is)
      | None \<Rightarrow> build_id_segments im is)"

definition set_build_id :: "'d elf_image \<Rightarrow> 'd elf_image run" where
  "set_build_id im =
     (if shnum im = 0 then build_id_sections im (sections (image_elf im))
      else build_id_segments im [0..<phnum im])"

definition elf_image_new :: "'d libelf \<Rightarrow> u8 list \<Rightarrow> 'd elf_image run" where
  "elf_image_new elf_memory file =
     (case elf_memory file of
        Inl msg \<Rightarrow> Some (throw (Elf_exception msg))
      | Inr e \<Rightarrow>
     (case getehdr e of
        Inl msg \<Rightarrow> Some (throw (Elf_exception (''cannot read ELF header: '' @ msg)))
      | Inr h \<Rightarrow>
     (case getshdrnum e of
        Inl msg \<Rightarrow> Some (throw (Elf_exception msg))
      | Inr sn \<Rightarrow>
     (case getphdrnum e of
        Inl msg \<Rightarrow> Some (throw (Elf_exception msg))
      | Inr pn \<Rightarrow>
          andthen (Some (set_interp
            \<lparr>image_elf = e, phnum = pn, shnum = sn, ei_class = ehdr_class h, ei_data = ehdr_data h,
             e_type = ehdr_type h, e_machine = ehdr_machine h,
             arch = get_arch (ehdr_class h) (ehdr_machine h), interp = [], build_id = []\<rparr>))
            set_build_id))))"

section \<open>Program headers\<close>

record 'd program_header_range =
  ph_image :: "'d elf_image"
  ph_cnt :: nat
  ph_mem :: phdr

definition zero_phdr :: phdr where
  "zero_phdr = \<lparr>p_type = 0, p_flags = 0, p_offset = 0, p_vaddr = 0, p_paddr = 0, p_filesz = 0, p_memsz = 0, p_align = 0\<rparr>"

definition program_header_range_new :: "'d elf_image \<Rightarrow> 'd program_header_range" where
  "program_header_range_new im = \<lparr>ph_image = im, ph_cnt = 0, ph_mem = zero_phdr\<rparr>"

definition ph_next :: "'d program_header_range \<Rightarrow> bool \<times> 'd program_header_range" where
  "ph_next r =
     (if ph_cnt r \<ge> phnum (ph_image r) then (False, r)
      else case getphdr (image_elf (ph_image r)) (ph_cnt r) of
          None \<Rightarrow> (False, r\<lparr>ph_cnt := ph_cnt r + 1\<rparr>)
        | Some ph \<Rightarrow> (True, r\<lparr>ph_cnt := ph_cnt r + 1, ph_mem := ph\<rparr>))"

definition ph_align :: "'d program_header_range \<Rightarrow> u32" where
  "ph_align r = ucast (p_align (ph_mem r))"

definition ph_readable :: "'d program_header_range \<Rightarrow> bool" where
  "ph_readable r \<longleftrightarrow> p_flags (ph_mem r) AND 4 \<noteq> 0"

definition ph_writable :: "'d program_header_range \<Rightarrow> bool" where
  "ph_writable r \<longleftrightarrow> p_flags (ph_mem r) AND 2 \<noteq> 0"

definition ph_executable :: "'d program_header_range \<Rightarrow> bool" where
  "ph_executable r \<longleftrightarrow> p_flags (ph_mem r) AND 1 \<noteq> 0"

section \<open>Symbols\<close>

record elf_symbol =
  symbol_name :: string
  symbol_type :: u8
  symbol_binding :: u8
  symbol_other :: u8

record elf_symbol_definition = elf_symbol +
  vda_name :: string
  symbol_value :: u64
  section_index :: u16
  xsection :: u32
  default_version :: bool

record elf_symbol_reference = elf_symbol +
  vna_name_text :: string
  vna_other_index :: u32

definition elf_symbol_definition_new :: elf_symbol_definition where
  "elf_symbol_definition_new =
     \<lparr>symbol_name = [], symbol_type = 0, symbol_binding = 0, symbol_other = 0,
      vda_name = [], symbol_value = 0, section_index = 0, xsection = 0, default_version = False\<rparr>"

definition elf_symbol_reference_new :: elf_symbol_reference where
  "elf_symbol_reference_new =
     \<lparr>symbol_name = [], symbol_type = 0, symbol_binding = 0, symbol_other = 0,
      vna_name_text = [], vna_other_index = 0\<rparr>"

definition visibility :: "u8 \<Rightarrow> string result" where
  "visibility other =
     (let v = other AND 3 in
      if v = 0 then return ''default''
      else if v = 1 then return ''internal''
      else if v = 2 then return ''hidden''
      else if v = 3 then return ''protected''
      else throw (Logic_error ''invalid visibility value''))"

definition has_xsection :: "elf_symbol_definition \<Rightarrow> bool" where
  "has_xsection d \<longleftrightarrow> section_index d = SHN_XINDEX"

section \<open>Iteration over the symbol tables\<close>

text \<open>
  The state of a \<open>symbol_range\<close>: the fields that \<open>init_section\<close> sets up for the current symbol
  table are the record \<open>symtab\<close>, which does not exist before the first section (the constructor
  leaves them unset, with \<open>nsyms\<close> zero). \<open>todo\<close> are the sections that \<open>elf_nextscn\<close> has not
  returned yet.
\<close>

record 'd symtab =
  scn :: nat
  scn_link :: u32
  nsyms :: u32
  sym_data :: 'd
  xndx_data :: "'d option"
  versym_data :: "'d option"
  verneed_data :: "'d option"
  verdef_data :: "'d option"
  verneed_stridx :: u32
  verdef_stridx :: u32

record 'd symbol_range =
  eof :: bool
  todo :: "nat list"
  tab :: "'d symtab option"
  cnt :: u32
  sym_def :: "elf_symbol_definition option"
  sym_ref :: "elf_symbol_reference option"

definition symbol_range_new :: "'d elf_image \<Rightarrow> 'd symbol_range" where
  "symbol_range_new im =
     \<lparr>eof = False, todo = sections (image_elf im), tab = None, cnt = 0, sym_def = None, sym_ref = None\<rparr>"

definition range_nsyms :: "'d symbol_range \<Rightarrow> u32" where
  "range_nsyms s = (case tab s of None \<Rightarrow> 0 | Some t \<Rightarrow> nsyms t)"

text \<open>The loop over all sections that looks for the ones that belong to the symbol table.\<close>

definition find_companion :: "'d elf \<Rightarrow> 'd symtab \<Rightarrow> nat \<Rightarrow> 'd symtab" where
  "find_companion e t runscn =
     (case getshdr e runscn of
        None \<Rightarrow> t
      | Some sh \<Rightarrow>
          if sh_type sh = SHT_GNU_versym \<and> unat (sh_link sh) = scn t then t\<lparr>versym_data := getdata e runscn\<rparr>
          else if sh_type sh = SHT_GNU_verneed then
            t\<lparr>verneed_data := getdata e runscn, verneed_stridx := sh_link sh\<rparr>
          else if sh_type sh = SHT_GNU_verdef then
            t\<lparr>verdef_data := getdata e runscn, verdef_stridx := sh_link sh\<rparr>
          else if sh_type sh = SHT_SYMTAB_SHNDX \<and> unat (sh_link sh) = scn t then
            t\<lparr>xndx_data := getdata e runscn\<rparr>
          else t)"

definition count_symbols :: "'d elf \<Rightarrow> 'd \<Rightarrow> u32" where
  "count_symbols e d = of_nat (length (d_buf e d) div (if getclass e = ELFCLASS32 then 16 else 24))"

definition init_section :: "'d elf \<Rightarrow> nat \<Rightarrow> u32 \<Rightarrow> 'd symtab option result" where
  "init_section e n link =
     (case getdata e n of
        None \<Rightarrow> return None
      | Some d \<Rightarrow>
          if \<not> has_shdrstrndx e then throw (Elf_exception ''cannot get section header string table index'')
          else case getshdr e (unat link) of
              None \<Rightarrow> throw (Elf_exception (''invalid sh_link value in section '' @ dec n))
            | Some glink \<Rightarrow>
                return (Some (foldl (find_companion e)
                  \<lparr>scn = n, scn_link = link, nsyms = count_symbols e d, sym_data = d, xndx_data = None,
                   versym_data = None, verneed_data = None, verdef_data = None,
                   verneed_stridx = 0, verdef_stridx = 0\<rparr> (sections e))))"

definition is_symbol_table :: "shdr \<Rightarrow> bool" where
  "is_symbol_table sh \<longleftrightarrow> sh_type sh = SHT_DYNSYM \<or> sh_type sh = SHT_SYMTAB"

fun next_section_loop :: "'d elf \<Rightarrow> nat list \<Rightarrow> 'd symbol_range \<Rightarrow> (bool \<times> 'd symbol_range) result" where
  "next_section_loop e [] s = return (False, s\<lparr>todo := [], eof := True\<rparr>)"
| "next_section_loop e (n # ns) s =
     (case getshdr e n of
        Some sh \<Rightarrow>
          if is_symbol_table sh then
            bind (init_section e n (sh_link sh)) (\<lambda>t.
              if t \<noteq> None then return (True, s\<lparr>todo := ns, tab := t, cnt := 0\<rparr>) else next_section_loop e ns s)
          else next_section_loop e ns s
      | None \<Rightarrow> next_section_loop e ns s)"

definition next_section :: "'d elf \<Rightarrow> 'd symbol_range \<Rightarrow> (bool \<times> 'd symbol_range) result" where
  "next_section e s = (if eof s then return (False, s) else next_section_loop e (todo s) s)"

section \<open>Version records\<close>

partial_function (option) vernaux_loop ::
    "'d elf \<Rightarrow> 'd option \<Rightarrow> u16 \<Rightarrow> u64 \<Rightarrow> vernaux option \<Rightarrow> vernaux option option" where
  "vernaux_loop e d versym vna_offset aux =
     (case aux of
        None \<Rightarrow> Some None
      | Some a \<Rightarrow>
          if vna_other a \<noteq> versym \<and> vna_next a \<noteq> 0 then
            vernaux_loop e d versym (vna_offset + ucast (vna_next a))
              (getvernaux e d (int_arg (vna_offset + ucast (vna_next a))))
          else Some (Some a))"

text \<open>The loop over the needed files; its result is the last auxiliary record looked at.\<close>

partial_function (option) verneed_loop ::
    "'d elf \<Rightarrow> 'd option \<Rightarrow> u16 \<Rightarrow> u64 \<Rightarrow> verneed option \<Rightarrow> vernaux option \<Rightarrow> vernaux option option" where
  "verneed_loop e d versym vn_offset need aux =
     (case need of
        None \<Rightarrow> Some aux
      | Some n \<Rightarrow>
          Option.bind (vernaux_loop e d versym (vn_offset + ucast (vn_aux n))
                         (getvernaux e d (int_arg (vn_offset + ucast (vn_aux n))))) (\<lambda>aux'.
            if aux' \<noteq> None \<and> vna_other (the aux') = versym then Some aux'
            else verneed_loop e d versym (vn_offset + ucast (vn_next n))
                   (if vn_next n = 0 then None else getverneed e d (int_arg (vn_offset + ucast (vn_next n)))) aux'))"

partial_function (option) verdef_loop ::
    "'d elf \<Rightarrow> 'd option \<Rightarrow> u16 \<Rightarrow> u64 \<Rightarrow> verdef option \<Rightarrow> (u64 \<times> verdef) option option" where
  "verdef_loop e d versym vd_offset def =
     (case def of
        None \<Rightarrow> Some None
      | Some v \<Rightarrow>
          if vd_ndx v = versym AND 0x7fff then Some (Some (vd_offset, v))
          else verdef_loop e d versym (vd_offset + ucast (vd_next v))
                 (if vd_next v = 0 then None else getverdef e d (int_arg (vd_offset + ucast (vd_next v)))))"

text \<open>
  What the version of a symbol contributes: whether the symbol is a definition, and the two
  records with the names of the version filled in.
\<close>

type_synonym versions = "bool \<times> elf_symbol_definition \<times> elf_symbol_reference"

definition check_needed ::
    "'d elf \<Rightarrow> 'd symtab \<Rightarrow> u32 \<Rightarrow> u16 \<Rightarrow> bool \<Rightarrow> versions \<Rightarrow> versions run" where
  "check_needed e t i versym is_nobits vs =
     (case vs of (check_def, d, r) \<Rightarrow>
       (case verneed_loop e (verneed_data t) versym 0 (getverneed e (verneed_data t) 0) None of
          None \<Rightarrow> None
        | Some aux \<Rightarrow>
            if aux \<noteq> None \<and> vna_other (the aux) = versym then
              Some (bind (get_strptr e (verneed_stridx t) (ucast (vna_name (the aux)))) (\<lambda>nm.
                return (False, d, r\<lparr>vna_name_text := nm, vna_other_index := ucast (vna_other (the aux))\<rparr>)))
            else if \<not> is_nobits then Some (throw (Elf_exception (''bad dynamic symbol '' @ dec (unat i))))
            else Some (return (True, d, r))))"

definition check_defined :: "'d elf \<Rightarrow> 'd symtab \<Rightarrow> u16 \<Rightarrow> versions \<Rightarrow> versions run" where
  "check_defined e t versym vs =
     (case vs of (check_def, d, r) \<Rightarrow>
       if check_def \<and> versym \<noteq> 0x8001 then
         (case verdef_loop e (verdef_data t) versym 0 (getverdef e (verdef_data t) 0) of
            None \<Rightarrow> None
          | Some None \<Rightarrow> Some (return vs)
          | Some (Some (vd_offset, v)) \<Rightarrow>
              andthen
                (case getverdaux e (verdef_data t) (int_arg (vd_offset + ucast (vd_aux v))) of
                   None \<Rightarrow> Some (return d)
                 | Some nm \<Rightarrow> Some (bind (get_strptr e (verdef_stridx t) (ucast nm)) (\<lambda>w. return (d\<lparr>vda_name := w\<rparr>))))
                (\<lambda>d. Some (return (check_def, if versym AND 0x8000 \<noteq> 0 then d\<lparr>default_version := True\<rparr> else d, r))))
       else Some (return vs))"

definition symbol_is_nobits :: "'d elf \<Rightarrow> sym \<Rightarrow> u32 \<Rightarrow> bool" where
  "symbol_is_nobits e sm xndx \<longleftrightarrow>
     (xndx < SHN_LORESERVE \<or> st_shndx sm = SHN_XINDEX) \<and>
     (case getshdr e (unat xndx) of Some sh \<Rightarrow> sh_type sh = SHT_NOBITS | None \<Rightarrow> False)"

definition symbol_version :: "'d elf \<Rightarrow> 'd symtab \<Rightarrow> u32 \<Rightarrow> sym \<Rightarrow> u32 \<Rightarrow> versions \<Rightarrow> versions run" where
  "symbol_version e t i sm xndx vs =
     (case versym_data t of
        None \<Rightarrow> Some (return vs)
      | Some vd \<Rightarrow>
     (case getversym e vd (unat i) of
        None \<Rightarrow> Some (return vs)
      | Some versym \<Rightarrow>
          if versym AND 0x8000 \<noteq> 0 \<or> versym > 1 then
            andthen
              (if symbol_is_nobits e sm xndx \<or> \<not> fst vs
               then check_needed e t i versym (symbol_is_nobits e sm xndx) vs else Some (return vs))
              (check_defined e t versym)
          else Some (return vs)))"

text \<open>The symbol with index \<open>i\<close>: the second half of \<open>next\<close>.\<close>

type_synonym symbol = "elf_symbol_definition + elf_symbol_reference"

definition symbol_fields :: "'d elf \<Rightarrow> 'd symtab \<Rightarrow> sym \<Rightarrow> 'r elf_symbol_scheme \<Rightarrow> 'r elf_symbol_scheme result" where
  "symbol_fields e t sm r =
     bind (get_strptr e (scn_link t) (ucast (st_name sm))) (\<lambda>nm.
       return (r\<lparr>symbol_type := st_info sm AND 0xf, symbol_binding := drop_bit 4 (st_info sm),
                 symbol_name := nm, symbol_other := st_other sm\<rparr>))"

definition read_symbol :: "'d elf \<Rightarrow> 'd symtab \<Rightarrow> u32 \<Rightarrow> sym \<times> u32 \<Rightarrow> symbol run" where
  "read_symbol e t i x =
     (case x of (sm, xndx0) \<Rightarrow>
      let xndx = (if st_shndx sm \<noteq> SHN_XINDEX then ucast (st_shndx sm) else xndx0) in
      andthen (symbol_version e t i sm xndx (xndx \<noteq> SHN_UNDEF, elf_symbol_definition_new, elf_symbol_reference_new))
        (\<lambda>(check_def, d, r).
          if check_def then
            Some (bind (symbol_fields e t sm (d\<lparr>section_index := st_shndx sm, xsection := xndx\<rparr>)) (\<lambda>d. return (Inl d)))
          else
            Some (bind (symbol_fields e t sm r) (\<lambda>r. return (Inr r)))))"

text \<open>
  The loop of \<open>next\<close> that looks for a symbol, and \<open>next\<close> itself. Each turn of the loop either
  passes to another section or to another symbol of the section.
\<close>

partial_function (option) find_symbol ::
    "'d elf \<Rightarrow> 'd symbol_range \<Rightarrow> (('d symtab \<times> sym \<times> u32) option \<times> 'd symbol_range) run" where
  "find_symbol e s =
     andthen (Some (if cnt s \<ge> range_nsyms s then next_section e s else return (True, s))) (\<lambda>(ok, s).
       if \<not> ok then Some (return (None, s))
       else case tab s of
           None \<Rightarrow> Some (throw (Undefined_behaviour ''no section''))
         | Some t \<Rightarrow>
             (case getsymshndx e (sym_data t) (xndx_data t) (unat (cnt s)) of
                Some x \<Rightarrow> Some (return (Some (t, x), s))
              | None \<Rightarrow> find_symbol e (s\<lparr>cnt := cnt s + 1\<rparr>)))"

definition store_symbol :: "symbol \<Rightarrow> 'd symbol_range \<Rightarrow> 'd symbol_range" where
  "store_symbol y s =
     (case y of Inl d \<Rightarrow> s\<lparr>sym_def := Some d, cnt := cnt s + 1\<rparr> | Inr r \<Rightarrow> s\<lparr>sym_ref := Some r, cnt := cnt s + 1\<rparr>)"

definition sym_next :: "'d elf \<Rightarrow> 'd symbol_range \<Rightarrow> (bool \<times> 'd symbol_range) run" where
  "sym_next e s =
     andthen (find_symbol e (s\<lparr>sym_def := None, sym_ref := None\<rparr>)) (\<lambda>(found, s).
       case found of
         None \<Rightarrow> Some (return (False, s))
       | Some (t, x) \<Rightarrow> andthen (read_symbol e t (cnt s) x) (\<lambda>y. Some (return (True, store_symbol y s))))"

section \<open>The dynamic section\<close>

datatype dyn_kind = needed | soname | rpath | runpath | other

record 'd dynamic_section_range =
  dyn_image :: "'d elf_image"
  dyn_shdr :: "shdr option"
  dyn_data :: "'d option"
  dyn_cnt :: nat
  dyn_entries :: nat
  dyn_tag :: u64
  dyn_text :: string
  dyn_number :: u64
  dyn_type :: dyn_kind

fun find_dynamic :: "'d elf \<Rightarrow> nat list \<Rightarrow> 'd dynamic_section_range \<Rightarrow> 'd dynamic_section_range result" where
  "find_dynamic e [] r = return r"
| "find_dynamic e (i # is) r =
     (case getphdr e i of
        Some ph \<Rightarrow>
          if p_type ph = PT_DYNAMIC then
            (case Option.bind (offscn e (p_offset ph)) (\<lambda>n. map_option (Pair n) (getshdr e n)) of
               Some (n, sh) \<Rightarrow>
                 if sh_type sh = SHT_DYNAMIC then
                   (case getdata e n of
                      Some d \<Rightarrow>
                        if sh_entsize sh = 0 then throw (Undefined_behaviour ''division by zero'')
                        else return (r\<lparr>dyn_shdr := Some sh, dyn_data := Some d,
                                       dyn_entries := unat (sh_size sh) div unat (sh_entsize sh)\<rparr>)
                    | None \<Rightarrow> return (r\<lparr>dyn_shdr := Some sh, dyn_data := None\<rparr>))
                 else find_dynamic e is (r\<lparr>dyn_shdr := None\<rparr>)
             | None \<Rightarrow> find_dynamic e is (r\<lparr>dyn_shdr := None\<rparr>))
          else find_dynamic e is r
      | None \<Rightarrow> find_dynamic e is r)"

definition dynamic_section_range_new :: "'d elf_image \<Rightarrow> 'd dynamic_section_range result" where
  "dynamic_section_range_new im =
     find_dynamic (image_elf im) [0..<phnum im]
       \<lparr>dyn_image = im, dyn_shdr = None, dyn_data = None, dyn_cnt = 0, dyn_entries = 0, dyn_tag = 0,
        dyn_text = [], dyn_number = 0, dyn_type = other\<rparr>"

definition dyn_string :: "'d dynamic_section_range \<Rightarrow> dyn \<Rightarrow> dyn_kind \<Rightarrow> (bool \<times> 'd dynamic_section_range) result" where
  "dyn_string r dn k =
     (case dyn_shdr r of
        None \<Rightarrow> throw (Undefined_behaviour ''null section header'')
      | Some sh \<Rightarrow>
          bind (get_strptr (image_elf (dyn_image r)) (sh_link sh) (d_val dn)) (\<lambda>s.
            return (True, r\<lparr>dyn_type := k, dyn_text := s\<rparr>)))"

definition dyn_next :: "'d dynamic_section_range \<Rightarrow> (bool \<times> 'd dynamic_section_range) result" where
  "dyn_next r0 =
     (let r = r0\<lparr>dyn_tag := 0, dyn_text := [], dyn_number := 0\<rparr> in
      if dyn_cnt r < dyn_entries r then
        (case Option.bind (dyn_data r) (\<lambda>d. getdyn (image_elf (dyn_image r)) d (dyn_cnt r)) of
           None \<Rightarrow> throw (Undefined_behaviour ''null entry'')
         | Some dn \<Rightarrow>
             (let r = r\<lparr>dyn_cnt := dyn_cnt r + 1, dyn_tag := of_int (d_tag dn)\<rparr> in
              if d_tag dn = 1 then dyn_string r dn needed
              else if d_tag dn = 14 then dyn_string r dn soname
              else if d_tag dn = 15 then dyn_string r dn rpath
              else if d_tag dn = 29 then dyn_string r dn runpath
              else return (True, r\<lparr>dyn_type := other, dyn_number := d_val dn\<rparr>)))
      else return (False, r))"

section \<open>Following the links between version records\<close>

text \<open>
  The offsets are \<open>size_t\<close>, and libelf takes \<open>int\<close>: an offset of \<open>2\<^sup>3\<^sup>1\<close> or more is negative, and one
  of \<open>2\<^sup>3\<^sup>2\<close> or more wraps around.
\<close>

lemma int_arg_small: "unat off < 2 ^ 31 \<Longrightarrow> int_arg off = int (unat off)"
  by (simp add: int_arg_def)

lemma int_arg_negative: "2 ^ 31 \<le> unat off \<Longrightarrow> unat off < 2 ^ 32 \<Longrightarrow> int_arg off < 0"
  by (simp add: int_arg_def del: of_nat_unat)

lemma unat_ucast_u64 [simp]: "unat (ucast link :: u64) = unat link" for link :: u32
proof -
  have "unat link < 2 ^ 32" using unsigned_less [of link, where ?'a = nat] by simp
  then show ?thesis by (simp add: unsigned_ucast_eq take_bit_nat_eq_self)
qed

text \<open>
  What libelf promises of the version records in data of a given size (offsets outside the data
  give the null pointer), and links that are as small as they have to be in a valid file.
\<close>

definition version_data :: "'d elf \<Rightarrow> 'd option \<Rightarrow> nat \<Rightarrow> bool" where
  "version_data e d n \<longleftrightarrow> n \<le> 2 ^ 31 \<and>
     (\<forall>off. off < 0 \<or> int n \<le> off \<longrightarrow> getverneed e d off = None \<and> getvernaux e d off = None \<and> getverdef e d off = None)"

definition small_links :: "'d elf \<Rightarrow> 'd option \<Rightarrow> bool" where
  "small_links e d \<longleftrightarrow>
     (\<forall>off x. getverneed e d off = Some x \<longrightarrow> vn_next x < 2 ^ 31 \<and> vn_aux x < 2 ^ 31) \<and>
     (\<forall>off x. getvernaux e d off = Some x \<longrightarrow> vna_next x < 2 ^ 31) \<and>
     (\<forall>off x. getverdef e d off = Some x \<longrightarrow> vd_next x < 2 ^ 31)"

lemma link_advances:
  fixes off :: u64 and link :: u32
  assumes off: "unat off < n" "n \<le> 2 ^ 31" and link: "link < 2 ^ 31" "link \<noteq> 0"
    and arg: "0 \<le> int_arg (off + ucast link)" "int_arg (off + ucast link) < int n"
  shows "unat off < unat (off + ucast link)" and "unat (off + ucast link) < n"
proof -
  have l: "unat link < 2 ^ 31" "0 < unat link" using link by (simp_all add: word_less_nat_alt unat_gt_0)
  have u: "unat (off + ucast link) = unat off + unat link"
    using off l by (simp add: unat_word_ariths)
  then have "unat (off + ucast link) < 2 ^ 32" using off l by simp
  then have "unat (off + ucast link) < 2 ^ 31" using arg(1) int_arg_negative by (meson leI leD)
  with u l arg show "unat off < unat (off + ucast link)" "unat (off + ucast link) < n"
    by (simp_all add: int_arg_small del: of_nat_unat)
qed

lemma version_data_range:
  assumes "version_data e d n"
  shows "getverneed e d off \<noteq> None \<Longrightarrow> 0 \<le> off \<and> off < int n"
    and "getvernaux e d off \<noteq> None \<Longrightarrow> 0 \<le> off \<and> off < int n"
    and "getverdef e d off \<noteq> None \<Longrightarrow> 0 \<le> off \<and> off < int n"
  using assms by (meson version_data_def not_le)+

text \<open>One induction serves the three chains: the offset grows and stays inside the data.\<close>

lemma chain_induct [consumes 2, case_names step]:
  fixes off :: u64
  assumes "version_data e d n" and "unat off < n"
    and "\<And>off. unat off < n \<Longrightarrow>
       (\<And>link :: u32. link < 2 ^ 31 \<Longrightarrow> link \<noteq> 0 \<Longrightarrow> 0 \<le> int_arg (off + ucast link) \<Longrightarrow>
          int_arg (off + ucast link) < int n \<Longrightarrow> P (off + ucast link)) \<Longrightarrow> P off"
  shows "P off"
  using assms(2)
proof (induction "n - unat off" arbitrary: off rule: less_induct)
  case less
  have n: "n \<le> 2 ^ 31" using assms(1) by (simp add: version_data_def)
  show ?case
  proof (rule assms(3) [OF less.prems])
    fix link :: u32
    assume l: "link < 2 ^ 31" "link \<noteq> 0" "0 \<le> int_arg (off + ucast link)" "int_arg (off + ucast link) < int n"
    note adv = link_advances [OF less.prems n l]
    show "P (off + ucast link)" by (rule less.hyps) (use adv in auto)
  qed
qed

lemma start_in_range:
  fixes off :: u64 and link :: u32
  assumes "unat off < n" and "n \<le> 2 ^ 31" and "link < 2 ^ 31" and "0 \<le> int_arg (off + ucast link)"
    and "int_arg (off + ucast link) < int n"
  shows "unat (off + ucast link) < n"
  using link_advances(2) [OF assms(1,2,3) _ assms(4,5)] assms(1) by (cases "link = 0") auto

lemma vernaux_loop_ends:
  assumes v: "version_data e d n" and l: "small_links e d" and "aux \<noteq> None \<Longrightarrow> unat off < n"
    and "aux = None \<or> (\<exists>o'. getvernaux e d o' = aux)"
  shows "\<exists>r. vernaux_loop e d versym off aux = Some r"
proof (cases aux)
  case (Some a)
  with assms(3) have "unat off < n" by simp
  with v show ?thesis using assms(4) Some
  proof (induction off arbitrary: a aux rule: chain_induct)
    case (step off)
    let ?aux = "getvernaux e d (int_arg (off + ucast (vna_next a)))"
    have small: "vna_next a < 2 ^ 31" using step.prems l by (auto simp: small_links_def)
    have rec: "vna_next a \<noteq> 0 \<Longrightarrow> \<exists>r. vernaux_loop e d versym (off + ucast (vna_next a)) ?aux = Some r"
    proof (cases ?aux)
      case (Some b)
      assume "vna_next a \<noteq> 0"
      moreover have "0 \<le> int_arg (off + ucast (vna_next a)) \<and> int_arg (off + ucast (vna_next a)) < int n"
        using version_data_range(2) [OF v] Some by blast
      ultimately show ?thesis using step.IH [OF small _ _ _ _ Some] by blast
    qed (simp add: vernaux_loop.simps)
    with step.prems show ?case by (subst vernaux_loop.simps) auto
  qed
qed (simp add: vernaux_loop.simps)

lemma verdef_loop_ends:
  assumes v: "version_data e d n" and l: "small_links e d" and "def \<noteq> None \<Longrightarrow> unat off < n"
    and "def = None \<or> (\<exists>o'. getverdef e d o' = def)"
  shows "\<exists>r. verdef_loop e d versym off def = Some r"
proof (cases "def")
  case (Some a)
  with assms(3) have "unat off < n" by simp
  with v show ?thesis using assms(4) Some
  proof (induction off arbitrary: a "def" rule: chain_induct)
    case (step off)
    let ?def = "getverdef e d (int_arg (off + ucast (vd_next a)))"
    have small: "vd_next a < 2 ^ 31" using step.prems l by (auto simp: small_links_def)
    have rec: "vd_next a \<noteq> 0 \<Longrightarrow> \<exists>r. verdef_loop e d versym (off + ucast (vd_next a)) ?def = Some r"
    proof (cases ?def)
      case (Some b)
      assume "vd_next a \<noteq> 0"
      moreover have "0 \<le> int_arg (off + ucast (vd_next a)) \<and> int_arg (off + ucast (vd_next a)) < int n"
        using version_data_range(3) [OF v] Some by blast
      ultimately show ?thesis using step.IH [OF small _ _ _ _ Some] by blast
    qed (simp add: verdef_loop.simps)
    with step.prems show ?case
      by (subst verdef_loop.simps) (auto simp: verdef_loop.simps [of _ _ _ _ None])
  qed
qed (simp add: verdef_loop.simps)

lemma verneed_loop_ends:
  assumes v: "version_data e d n" and l: "small_links e d" and "need \<noteq> None \<Longrightarrow> unat off < n"
    and "need = None \<or> (\<exists>o'. getverneed e d o' = need)"
  shows "\<exists>r. verneed_loop e d versym off need aux = Some r"
proof (cases need)
  case (Some a)
  with assms(3) have "unat off < n" by simp
  with v show ?thesis using assms(4) Some
  proof (induction off arbitrary: a need aux rule: chain_induct)
    case (step off)
    let ?need = "getverneed e d (int_arg (off + ucast (vn_next a)))"
    let ?aux = "getvernaux e d (int_arg (off + ucast (vn_aux a)))"
    have small: "vn_next a < 2 ^ 31" "vn_aux a < 2 ^ 31" using step.prems l by (auto simp: small_links_def)
    have n: "n \<le> 2 ^ 31" using v by (simp add: version_data_def)
    have "?aux \<noteq> None \<Longrightarrow> unat (off + ucast (vn_aux a)) < n"
      using version_data_range(2) [OF v] start_in_range [OF step.hyps n small(2)] by blast
    then obtain aux' where aux: "vernaux_loop e d versym (off + ucast (vn_aux a)) ?aux = Some aux'"
      using vernaux_loop_ends [OF v l] by blast
    have rec: "vn_next a \<noteq> 0 \<Longrightarrow> \<exists>r. verneed_loop e d versym (off + ucast (vn_next a)) ?need aux1 = Some r" for aux1
    proof (cases ?need)
      case (Some b)
      assume "vn_next a \<noteq> 0"
      moreover have "0 \<le> int_arg (off + ucast (vn_next a)) \<and> int_arg (off + ucast (vn_next a)) < int n"
        using version_data_range(1) [OF v] Some by blast
      ultimately show ?thesis using step.IH [OF small(1) _ _ _ _ Some] by blast
    qed (simp add: verneed_loop.simps)
    with step.prems aux show ?case
      by (subst verneed_loop.simps) (auto simp: verneed_loop.simps [of _ _ _ _ None])
  qed
qed (simp add: verneed_loop.simps)
definition versions_ok :: "'d elf \<Rightarrow> bool" where
  "versions_ok e \<longleftrightarrow> (\<forall>d. (\<exists>n. 0 < n \<and> version_data e d n) \<and> small_links e d)"

lemma check_needed_returns: "versions_ok e \<Longrightarrow> \<exists>r. check_needed e t i versym nobits vs = Some r"
proof -
  assume "versions_ok e"
  then obtain n where "0 < n" "version_data e (verneed_data t) n" "small_links e (verneed_data t)"
    by (auto simp: versions_ok_def)
  then obtain r where "verneed_loop e (verneed_data t) versym 0 (getverneed e (verneed_data t) 0) None = Some r"
    using verneed_loop_ends [of e "verneed_data t" n "getverneed e (verneed_data t) 0" 0] by auto
  then show ?thesis by (auto simp: check_needed_def split: prod.split)
qed

lemma check_defined_returns: "versions_ok e \<Longrightarrow> \<exists>r. check_defined e t versym vs = Some r"
proof -
  assume "versions_ok e"
  then obtain n where "0 < n" "version_data e (verdef_data t) n" "small_links e (verdef_data t)"
    by (auto simp: versions_ok_def)
  then obtain r where "verdef_loop e (verdef_data t) versym 0 (getverdef e (verdef_data t) 0) = Some r"
    using verdef_loop_ends [of e "verdef_data t" n "getverdef e (verdef_data t) 0" 0] by auto
  then show ?thesis
    by (auto simp: check_defined_def split: prod.split option.split intro!: andthen_returns)
qed

lemma read_symbol_returns: "versions_ok e \<Longrightarrow> \<exists>r. read_symbol e t i x = Some r"
  by (auto simp: read_symbol_def symbol_version_def Let_def
      intro!: andthen_returns check_needed_returns check_defined_returns
      split: prod.split option.split)

text \<open>
  With other links the loop need not end: the record at offset 16 whose link is \<open>2\<^sup>3\<^sup>2 - 16\<close> leads
  back to the record at offset 0, because the sum of offset and link loses its upper half on the
  way to libelf.
\<close>

definition cyclic_need :: "int \<Rightarrow> verneed option" where
  "cyclic_need off =
     (if off = 0 then Some \<lparr>vn_aux = 0, vn_next = 16\<rparr>
      else if off = 16 then Some \<lparr>vn_aux = 0, vn_next = 0xfffffff0\<rparr>
      else None)"

lemma cyclic_need_turns:
  fixes off :: u64
  assumes "cyclic_need (int_arg off) = Some n"
  shows "vn_next n \<noteq> 0" and "cyclic_need (int_arg (off + ucast (vn_next n))) \<noteq> None"
proof -
  have arg: "int_arg off = 0 \<or> int_arg off = 16" using assms by (auto simp: cyclic_need_def split: if_splits)
  show "vn_next n \<noteq> 0" using assms by (auto simp: cyclic_need_def split: if_splits)
  have sum: "unat (off + w) mod 2 ^ 32 = (unat off mod 2 ^ 32 + unat w) mod 2 ^ 32" for w :: u64
    by (simp add: unat_word_ariths mod_mod_cancel mod_add_left_eq)
  have low: "unat off mod 2 ^ 32 = nat (int_arg off)"
    using arg by (auto simp: int_arg_def Let_def simp del: of_nat_unat split: if_splits)
  show "cyclic_need (int_arg (off + ucast (vn_next n))) \<noteq> None"
  proof (cases "int_arg off = 0")
    case True
    with assms have "n = \<lparr>vn_aux = 0, vn_next = 16\<rparr>" by (simp add: cyclic_need_def)
    with True low sum [of "ucast (vn_next n)"] show ?thesis by (simp add: int_arg_def cyclic_need_def)
  next
    case False
    with arg have sixteen: "int_arg off = 16" by blast
    with assms have "n = \<lparr>vn_aux = 0, vn_next = 0xfffffff0\<rparr>" by (simp add: cyclic_need_def)
    with sixteen low sum [of "ucast (vn_next n)"] show ?thesis by (simp add: int_arg_def cyclic_need_def)
  qed
qed

lemma verneed_loop_cyclic:
  assumes "\<And>off. getverneed e d off = cyclic_need off" and "\<And>off. getvernaux e d off = None"
  shows "verneed_loop e d versym off need aux = Some r \<Longrightarrow> need = cyclic_need (int_arg off) \<Longrightarrow> need = None"
proof -
  let ?cyc = "\<lambda>e d. (\<forall>off. getverneed e d off = cyclic_need off) \<and> (\<forall>off. getvernaux e d off = None)"
  assume "verneed_loop e d versym off need aux = Some r" and need: "need = cyclic_need (int_arg off)"
  from this(1) have "?cyc e d \<longrightarrow> need = cyclic_need (int_arg off) \<longrightarrow> need = None"
  proof (rule verneed_loop.raw_induct [where P = "\<lambda>e d versym off need aux r. ?cyc e d \<longrightarrow> need = cyclic_need (int_arg off) \<longrightarrow> need = None", rotated], goal_cases)
    case (1 loop e d versym off need aux r)
    note IH = "1"(1) and body = "1"(2)
    show ?case
    proof (intro impI, rule ccontr)
      assume cyc: "?cyc e d" and "need = cyclic_need (int_arg off)" "need \<noteq> None"
      then obtain n where n: "need = Some n" "cyclic_need (int_arg off) = Some n" by auto
      note turns = cyclic_need_turns [OF n(2)]
      have "vernaux_loop e d versym v None = Some None" for v by (simp add: vernaux_loop.simps)
      then have "loop e d versym (off + ucast (vn_next n)) (cyclic_need (int_arg (off + ucast (vn_next n)))) None = Some r"
        using body n turns(1) cyc by simp
      from IH [OF this] cyc turns(2) show False by blast
    qed
  qed
  with assms need show ?thesis by simp
qed
definition empty_elf :: "nat elf" where
  "empty_elf =
     \<lparr>getehdr = Inr \<lparr>ehdr_class = 2, ehdr_data = 1, ehdr_type = 3, ehdr_machine = 62\<rparr>, getclass = 2,
      getshdrnum = Inr 0, getphdrnum = Inr 0, getphdr = (\<lambda>i. None), rawfile = Inr [], errmsg = ''no error'',
      sections = [], getshdr = (\<lambda>n. None), getdata = (\<lambda>n. None), getdata_rawchunk = (\<lambda>off n. None),
      d_buf = (\<lambda>d. []), getnote = (\<lambda>d off. None), has_shdrstrndx = True, strptr = (\<lambda>i off. None),
      getsymshndx = (\<lambda>d x i. None), getversym = (\<lambda>d i. None), getverneed = (\<lambda>d off. None),
      getvernaux = (\<lambda>d off. None), getverdef = (\<lambda>d off. None), getverdaux = (\<lambda>d off. None),
      offscn = (\<lambda>off. None), getdyn = (\<lambda>d i. None)\<rparr>"

text \<open>An image with one symbol table, the table of its versions, and the cyclic needed versions.\<close>

fun hostile_shdr :: "nat \<Rightarrow> shdr option" where
  "hostile_shdr n =
     (if n = 1 then Some \<lparr>sh_type = SHT_DYNSYM, sh_flags = 0, sh_link = 2, sh_size = 24, sh_entsize = 24\<rparr>
      else if n = 2 then Some \<lparr>sh_type = SHT_GNU_versym, sh_flags = 0, sh_link = 1, sh_size = 2, sh_entsize = 2\<rparr>
      else if n = 3 then Some \<lparr>sh_type = SHT_GNU_verneed, sh_flags = 0, sh_link = 2, sh_size = 32, sh_entsize = 0\<rparr>
      else None)"

definition hostile_elf :: "nat elf" where
  "hostile_elf = empty_elf
     \<lparr>sections := [1, 2, 3], getshdr := hostile_shdr, getdata := Some,
      d_buf := (\<lambda>d. replicate 24 0), strptr := (\<lambda>i off. Some ''f''),
      getsymshndx := (\<lambda>d x i. if i = 0 then Some (\<lparr>st_name = 0, st_info = 0, st_other = 0, st_shndx = 0\<rparr>, 0) else None),
      getversym := (\<lambda>d i. Some 2), getverneed := (\<lambda>d off. cyclic_need off)\<rparr>"

definition hostile_image :: "nat elf_image" where
  "hostile_image =
     \<lparr>image_elf = hostile_elf, phnum = 0, shnum = 4, ei_class = 2, ei_data = 1, e_type = 3, e_machine = 62,
      arch = Some ''x86_64'', interp = [], build_id = []\<rparr>"

lemma hostile_verneed: "verneed_loop hostile_elf d versym 0 (getverneed hostile_elf d 0) None = None"
proof -
  have cyc: "getverneed hostile_elf d off = cyclic_need off" "getvernaux hostile_elf d off = None" for off
    by (simp_all add: hostile_elf_def empty_elf_def)
  have start: "getverneed hostile_elf d 0 = cyclic_need (int_arg 0)" "getverneed hostile_elf d 0 \<noteq> None"
    by (simp_all add: cyc cyclic_need_def int_arg_def)
  show ?thesis
    using verneed_loop_cyclic [OF cyc, of versym 0 "getverneed hostile_elf d 0" None] start
    by (cases "verneed_loop hostile_elf d versym 0 (getverneed hostile_elf d 0) None") simp_all
qed

text \<open>
  A crafted ELF file makes the loader loop forever: with two needed-version records whose links
  form a cycle modulo \<open>2\<^sup>3\<^sup>2\<close>, \<open>symbol_range::next\<close> never returns.
\<close>

theorem symbol_iteration_may_diverge: "sym_next hostile_elf (symbol_range_new hostile_image) = None"
proof -
  let ?t = "\<lparr>scn = 1, scn_link = 2, nsyms = 1, sym_data = 1, xndx_data = None, versym_data = Some 2,
    verneed_data = Some 3, verdef_data = None, verneed_stridx = 2, verdef_stridx = 0\<rparr>"
  let ?x = "(\<lparr>st_name = 0, st_info = 0, st_other = 0, st_shndx = 0\<rparr>, 0)"
  let ?s = "\<lparr>eof = False, todo = [2, 3], tab = Some ?t, cnt = 0, sym_def = None, sym_ref = None\<rparr>"
  have init: "init_section hostile_elf 1 2 = Inr (Some ?t)"
    by (simp add: init_section_def hostile_elf_def empty_elf_def find_companion_def count_symbols_def elf_constants)
  have "next_section hostile_elf (symbol_range_new hostile_image) = Inr (True, ?s)"
    using init by (simp add: next_section_def symbol_range_new_def hostile_image_def hostile_elf_def empty_elf_def
        is_symbol_table_def elf_constants)
  then have "find_symbol hostile_elf (symbol_range_new hostile_image) = Some (Inr (Some (?t, ?x), ?s))"
    by (subst find_symbol.simps) (simp add: range_nsyms_def symbol_range_new_def hostile_elf_def)
  moreover have "read_symbol hostile_elf ?t 0 ?x = None"
  proof -
    have "check_needed hostile_elf ?t 0 2 nobits vs = None" for nobits vs
      using hostile_verneed [of "Some 3" 2] by (simp add: check_needed_def split: prod.split)
    then show ?thesis
      by (simp add: read_symbol_def symbol_version_def elf_constants hostile_elf_def)
  qed
  moreover have "(symbol_range_new hostile_image)\<lparr>sym_def := None, sym_ref := None\<rparr> = symbol_range_new hostile_image"
    by (simp add: symbol_range_new_def)
  ultimately show ?thesis by (simp add: sym_next_def)
qed

section \<open>The iteration goes through all symbols in order\<close>

text \<open>What a loop over a \<open>symbol_range\<close> sees: the symbol after each call of \<open>next\<close> that returned true.\<close>

definition current_symbol :: "'d symbol_range \<Rightarrow> symbol result" where
  "current_symbol s =
     (case sym_def s of
        Some d \<Rightarrow> return (Inl d)
      | None \<Rightarrow> (case sym_ref s of Some r \<Rightarrow> return (Inr r) | None \<Rightarrow> throw (Logic_error ''unknown elf_symbol type'')))"

partial_function (option) all_symbols :: "'d elf \<Rightarrow> 'd symbol_range \<Rightarrow> symbol list run" where
  "all_symbols e s =
     andthen (sym_next e s) (\<lambda>(ok, s).
       if \<not> ok then Some (return [])
       else andthen (Some (current_symbol s)) (\<lambda>y.
         andthen (all_symbols e s) (\<lambda>ys. Some (return (y # ys)))))"

text \<open>
  The reference: for each section that is a symbol table and has data, the symbols with the indexes
  from 0 that libelf can read.
\<close>

definition symbol_at :: "'d elf \<Rightarrow> 'd symtab \<Rightarrow> nat \<Rightarrow> symbol list run" where
  "symbol_at e t i =
     (case getsymshndx e (sym_data t) (xndx_data t) i of
        None \<Rightarrow> Some (return [])
      | Some x \<Rightarrow> andthen (read_symbol e t (of_nat i) x) (\<lambda>y. Some (return [y])))"

definition table_symbols :: "'d elf \<Rightarrow> nat \<Rightarrow> symbol list run" where
  "table_symbols e n =
     (case getshdr e n of
        Some sh \<Rightarrow>
          if is_symbol_table sh then
            andthen (Some (init_section e n (sh_link sh))) (\<lambda>t.
              case t of
                None \<Rightarrow> Some (return [])
              | Some t \<Rightarrow> run_concat (symbol_at e t) [0..<unat (nsyms t)])
          else Some (return [])
      | None \<Rightarrow> Some (return []))"

text \<open>What libelf promises of symbols: an index past the end of the data gives the null pointer.\<close>

definition symbols_in_data :: "'d elf \<Rightarrow> bool" where
  "symbols_in_data e \<longleftrightarrow>
     (\<forall>d x i. unat (count_symbols e d) \<le> i \<longrightarrow> getsymshndx e d x i = None)"

definition rest_of_table :: "'d elf \<Rightarrow> 'd symbol_range \<Rightarrow> symbol list run" where
  "rest_of_table e s =
     (case tab s of None \<Rightarrow> Some (return []) | Some t \<Rightarrow> run_concat (symbol_at e t) [unat (cnt s)..<unat (nsyms t)])"

definition rest_of_image :: "'d elf \<Rightarrow> 'd symbol_range \<Rightarrow> symbol list run" where
  "rest_of_image e s =
     andthen (rest_of_table e s) (\<lambda>xs. andthen (run_concat (table_symbols e) (todo s)) (\<lambda>ys. Some (return (xs @ ys))))"

definition table_ok :: "'d elf \<Rightarrow> 'd symbol_range \<Rightarrow> bool" where
  "table_ok e s \<longleftrightarrow> (eof s \<longrightarrow> todo s = []) \<and> (\<forall>t. tab s = Some t \<longrightarrow> nsyms t = count_symbols e (sym_data t))"

lemma companions_keep:
  "nsyms (foldl (find_companion e) t ns) = nsyms t \<and> sym_data (foldl (find_companion e) t ns) = sym_data t"
  by (induction ns arbitrary: t) (auto simp: find_companion_def split: option.split)

lemma init_section_nsyms:
  "init_section e n link = Inr (Some t) \<Longrightarrow> nsyms t = count_symbols e (sym_data t)"
  by (auto simp: init_section_def companions_keep split: option.splits if_splits)

text \<open>The search for the next section among \<open>ns\<close>, next to the reference.\<close>

inductive searched :: "'d elf \<Rightarrow> 'd symbol_range \<Rightarrow> nat list \<Rightarrow> (bool \<times> 'd symbol_range) result \<Rightarrow> bool" for e s where
  failed: "run_concat (table_symbols e) ns = Some (Inl x) \<Longrightarrow> searched e s ns (Inl x)"
| exhausted: "run_concat (table_symbols e) ns = Some (Inr []) \<Longrightarrow> searched e s ns (Inr (False, s\<lparr>todo := [], eof := True\<rparr>))"
| found: "length ns' < length ns \<Longrightarrow> nsyms t = count_symbols e (sym_data t) \<Longrightarrow>
    run_concat (table_symbols e) ns =
      andthen (run_concat (symbol_at e t) [0..<unat (nsyms t)]) (\<lambda>xs.
        andthen (run_concat (table_symbols e) ns') (\<lambda>ys. Some (return (xs @ ys)))) \<Longrightarrow>
    searched e s ns (Inr (True, s\<lparr>todo := ns', tab := Some t, cnt := 0\<rparr>))"

lemma searched_skip: "searched e s ns r \<Longrightarrow> table_symbols e n = Some (Inr []) \<Longrightarrow> searched e s (n # ns) r"
  by (induction rule: searched.induct) (auto intro!: searched.intros)

lemma next_section_loop_searched: "searched e s ns (next_section_loop e ns s)"
proof (induction ns)
  case Nil
  then show ?case by (auto intro: searched.intros)
next
  case (Cons n ns)
  show ?case
  proof (cases "\<exists>sh. getshdr e n = Some sh \<and> is_symbol_table sh")
    case False
    then show ?thesis using searched_skip [OF Cons, of n] by (auto simp: table_symbols_def split: option.split)
  next
    case True
    then obtain sh where sh: "getshdr e n = Some sh" "is_symbol_table sh" by blast
    consider x where "init_section e n (sh_link sh) = Inl x" | "init_section e n (sh_link sh) = Inr None"
      | t where "init_section e n (sh_link sh) = Inr (Some t)"
      by (metis option.exhaust sum.exhaust)
    then show ?thesis
    proof cases
      case 1
      with sh show ?thesis by (auto simp: table_symbols_def intro!: searched.intros)
    next
      case 2
      with sh show ?thesis using searched_skip [OF Cons, of n] by (simp add: table_symbols_def)
    next
      case (3 t)
      with sh init_section_nsyms [OF 3] show ?thesis
        by (auto simp: table_symbols_def intro!: searched.intros)
    qed
  qed
qed

lemma next_section_searched:
  assumes "table_ok e s"
  shows "searched e s (todo s) (next_section e s) \<or>
    (eof s \<and> todo s = [] \<and> next_section e s = Inr (False, s))"
  using assms next_section_loop_searched [of e s "todo s"] by (auto simp: next_section_def table_ok_def)
abbreviation cleared :: "'d symbol_range \<Rightarrow> 'd symbol_range" where
  "cleared s \<equiv> s\<lparr>sym_def := None, sym_ref := None\<rparr>"

lemma all_symbols_cong:
  "find_symbol e (cleared s) = find_symbol e (cleared s') \<Longrightarrow> all_symbols e s = all_symbols e s'"
  by (simp add: all_symbols.simps sym_next_def)

lemma current_stored [simp]: "current_symbol (store_symbol y (cleared s)) = Inr y"
  by (cases y) (simp_all add: current_symbol_def store_symbol_def)

lemma stored_fields [simp]:
  "todo (store_symbol y s) = todo s" "tab (store_symbol y s) = tab s" "eof (store_symbol y s) = eof s"
  "cnt (store_symbol y s) = cnt s + 1"
  by (cases y; simp add: store_symbol_def)+

lemma rest_of_image_fields:
  "todo s = todo s' \<Longrightarrow> tab s = tab s' \<Longrightarrow> cnt s = cnt s' \<Longrightarrow> rest_of_image e s = rest_of_image e s'"
  by (simp add: rest_of_image_def rest_of_table_def cong: option.case_cong)

lemma rest_of_image_step:
  assumes "tab s = Some t" and "cnt s < nsyms t"
  shows "rest_of_image e s =
    andthen (symbol_at e t (unat (cnt s))) (\<lambda>xs.
      andthen (rest_of_image e (s\<lparr>cnt := cnt s + 1\<rparr>)) (\<lambda>ys. Some (return (xs @ ys))))"
proof -
  have "unat (cnt s) < unat (nsyms t)" using assms(2) by (simp add: word_less_nat_alt)
  moreover have "unat (nsyms t) < 2 ^ 32" using unsigned_less [of "nsyms t", where ?'a = nat] by simp
  moreover have "unat (cnt s + 1) = Suc (unat (cnt s))"
    using calculation by (simp add: unat_word_ariths)
  ultimately show ?thesis
    using assms(1) by (simp add: rest_of_image_def rest_of_table_def upt_conv_Cons andthen_assoc)
qed

lemma rest_of_image_done: "range_nsyms s \<le> cnt s \<Longrightarrow> rest_of_image e s = run_concat (table_symbols e) (todo s)"
  by (auto simp: rest_of_image_def rest_of_table_def range_nsyms_def word_le_nat_alt split: option.splits)

lemma all_symbols_step:
  assumes "tab s = Some t" and "cnt s < nsyms t"
  shows "all_symbols e s =
    (case getsymshndx e (sym_data t) (xndx_data t) (unat (cnt s)) of
       None \<Rightarrow> all_symbols e (s\<lparr>cnt := cnt s + 1\<rparr>)
     | Some x \<Rightarrow> andthen (read_symbol e t (cnt s) x) (\<lambda>y.
         andthen (all_symbols e (store_symbol y (cleared s))) (\<lambda>ys. Some (return (y # ys)))))"
proof (cases "getsymshndx e (sym_data t) (xndx_data t) (unat (cnt s))")
  have not_done: "\<not> nsyms t \<le> cnt s" using assms(2) by simp
  case None
  have "find_symbol e (cleared s) = find_symbol e (cleared (s\<lparr>cnt := cnt s + 1\<rparr>))"
    using assms(1) not_done None by (subst find_symbol.simps) (cases s, simp add: range_nsyms_def)
  from all_symbols_cong [OF this] None show ?thesis by simp
next
  have not_done: "\<not> nsyms t \<le> cnt s" using assms(2) by simp
  case (Some x)
  have "find_symbol e (cleared s) = Some (Inr (Some (t, x), cleared s))"
    using assms(1) not_done Some by (subst find_symbol.simps) (simp add: range_nsyms_def)
  then show ?thesis using Some by (subst all_symbols.simps) (simp add: sym_next_def andthen_assoc)
qed

text \<open>A section without symbols is passed over, one with symbols is entered at its first symbol.\<close>

lemma all_symbols_enter:
  assumes "symbols_in_data e" and "range_nsyms s \<le> cnt s" and "nsyms t = count_symbols e (sym_data t)"
    and "next_section e (cleared s) = Inr (True, (cleared s)\<lparr>todo := ns, tab := Some t, cnt := 0\<rparr>)"
  shows "all_symbols e s = all_symbols e (s\<lparr>todo := ns, tab := Some t, cnt := if nsyms t = 0 then 1 else 0\<rparr>)"
proof (rule all_symbols_cong)
  have enter: "find_symbol e (cleared s) =
    (case getsymshndx e (sym_data t) (xndx_data t) 0 of
       Some x \<Rightarrow> Some (return (Some (t, x), (cleared s)\<lparr>todo := ns, tab := Some t, cnt := 0\<rparr>))
     | None \<Rightarrow> find_symbol e ((cleared s)\<lparr>todo := ns, tab := Some t, cnt := 1\<rparr>))"
    using assms(2,4) by (subst find_symbol.simps) (cases s, simp add: range_nsyms_def cong: option.case_cong)
  show "find_symbol e (cleared s) =
    find_symbol e (cleared (s\<lparr>todo := ns, tab := Some t, cnt := if nsyms t = 0 then 1 else 0\<rparr>))"
  proof (cases "nsyms t = 0")
    case True
    then have "getsymshndx e (sym_data t) (xndx_data t) 0 = None"
      using assms(1,3) by (simp add: symbols_in_data_def)
    with enter True show ?thesis by (cases s) simp
  next
    case False
    then have "\<not> nsyms t \<le> 0" by (simp add: word_le_nat_alt unat_eq_0)
    with enter False show ?thesis by (subst (2) find_symbol.simps) (cases s, simp add: range_nsyms_def split: option.split)
  qed
qed

lemma all_symbols_rest:
  assumes law: "symbols_in_data e" and "table_ok e s"
  shows "all_symbols e s = rest_of_image e s"
  using assms(2)
proof (induction "(length (todo s), unat (range_nsyms s) - unat (cnt s))" arbitrary: s rule: wf_induct_rule [OF wf_lex_prod [OF wf_less_than wf_less_than]])
  case (1 s)
  note IH = "1.hyps" and ok = "1.prems"
  show ?case
  proof (cases "cnt s < range_nsyms s")
    case True
    then obtain t where t: "tab s = Some t" "cnt s < nsyms t" by (cases "tab s") (auto simp: range_nsyms_def)
    have next_rest: "all_symbols e s' = rest_of_image e (s\<lparr>cnt := cnt s + 1\<rparr>)"
      if "todo s' = todo s" "tab s' = tab s" "eof s' = eof s" "cnt s' = cnt s + 1" for s'
    proof -
      have "unat (cnt s) < unat (nsyms t)" "unat (nsyms t) < 2 ^ 32"
        using t(2) unsigned_less [of "nsyms t", where ?'a = nat] by (simp_all add: word_less_nat_alt)
      then have "unat (nsyms t) - unat (cnt s + 1) < unat (nsyms t) - unat (cnt s)" by (simp add: unat_word_ariths)
      then have "all_symbols e s' = rest_of_image e s'"
        using that t ok by (intro IH) (simp_all add: range_nsyms_def table_ok_def)
      also have "\<dots> = rest_of_image e (s\<lparr>cnt := cnt s + 1\<rparr>)" using that by (intro rest_of_image_fields) simp_all
      finally show ?thesis .
    qed
    show ?thesis
      unfolding all_symbols_step [OF t] rest_of_image_step [OF t]
      by (auto simp: symbol_at_def next_rest andthen_assoc split: option.split)
  next
    case False
    then have passed: "range_nsyms s \<le> cnt s" by simp
    have cl: "todo (cleared s) = todo s" "table_ok e (cleared s)" using ok by (simp_all add: table_ok_def)
    from next_section_searched [OF cl(2)] consider
      "searched e (cleared s) (todo s) (next_section e (cleared s))" |
      "todo s = []" "next_section e (cleared s) = Inr (False, cleared s)" by (auto simp: cl(1))
    then show ?thesis
    proof cases
      case 2
      with passed have "find_symbol e (cleared s) = Some (Inr (None, cleared s))"
        by (subst find_symbol.simps) (simp add: range_nsyms_def)
      then have "all_symbols e s = Some (Inr [])" by (simp add: all_symbols.simps sym_next_def)
      with 2 passed show ?thesis by (simp add: rest_of_image_done)
    next
      case 1
      then show ?thesis
      proof (cases rule: searched.cases)
        case (failed x)
        then have "find_symbol e (cleared s) = Some (Inl x)"
          using passed by (subst find_symbol.simps) (simp add: range_nsyms_def)
        then have "all_symbols e s = Some (Inl x)" by (simp add: all_symbols.simps sym_next_def)
        with failed passed show ?thesis by (simp add: rest_of_image_done)
      next
        case exhausted
        then have "find_symbol e (cleared s) = Some (Inr (None, (cleared s)\<lparr>todo := [], eof := True\<rparr>))"
          using passed by (subst find_symbol.simps) (simp add: range_nsyms_def)
        then have "all_symbols e s = Some (Inr [])" by (simp add: all_symbols.simps sym_next_def)
        with exhausted(2) passed show ?thesis by (simp add: rest_of_image_done)
      next
        case (found ns t)
        let ?s = "s\<lparr>todo := ns, tab := Some t, cnt := if nsyms t = 0 then 1 else 0\<rparr>"
        have "all_symbols e s = all_symbols e ?s"
          using found passed law by (intro all_symbols_enter) simp_all
        also have "\<dots> = rest_of_image e ?s"
          using found ok by (intro IH) (auto simp: table_ok_def)
        also have "\<dots> = run_concat (table_symbols e) (todo s)"
          using found by (simp add: rest_of_image_def rest_of_table_def)
        finally show ?thesis using passed by (simp add: rest_of_image_done)
      qed
    qed
  qed
qed


lemma symbol_range_new_rest:
  "symbols_in_data (image_elf im) \<Longrightarrow>
   all_symbols (image_elf im) (symbol_range_new im) = run_concat (table_symbols (image_elf im)) (sections (image_elf im))"
  by (subst all_symbols_rest) (simp_all add: symbol_range_new_def table_ok_def rest_of_image_done range_nsyms_def)

lemma table_symbols_returns: "versions_ok e \<Longrightarrow> \<exists>r. table_symbols e n = Some r"
  unfolding table_symbols_def symbol_at_def
  by (auto intro!: andthen_returns run_concat_returns read_symbol_returns split: option.split)

text \<open>
  C7. Iterating over the symbols of an ELF image goes through all symbol tables in the order of the
  sections, and through each table in the order of the symbols, passing over symbols that libelf
  cannot read, and stops at the first error; when the links between version records are below
  \<open>2\<^sup>3\<^sup>1\<close>, it ends.
\<close>

theorem symbol_range_complete:
  assumes "symbols_in_data (image_elf im)" and "versions_ok (image_elf im)"
  shows "\<exists>r. all_symbols (image_elf im) (symbol_range_new im) = Some r \<and>
    run_concat (table_symbols (image_elf im)) (sections (image_elf im)) = Some r"
proof -
  have "\<exists>r. run_concat (table_symbols (image_elf im)) (sections (image_elf im)) = Some r"
    using assms(2) by (intro run_concat_returns table_symbols_returns)
  then show ?thesis using symbol_range_new_rest [OF assms(1)] by simp
qed

text \<open>An image with two symbols, one of them defined in a version of the library.\<close>

definition sample_shdr :: "nat \<Rightarrow> shdr option" where
  "sample_shdr n =
     (if n = 1 then Some \<lparr>sh_type = SHT_DYNSYM, sh_flags = 0, sh_link = 2, sh_size = 48, sh_entsize = 24\<rparr>
      else if n = 2 then Some \<lparr>sh_type = SHT_GNU_versym, sh_flags = 0, sh_link = 1, sh_size = 4, sh_entsize = 2\<rparr>
      else if n = 3 then Some \<lparr>sh_type = SHT_GNU_verdef, sh_flags = 0, sh_link = 2, sh_size = 28, sh_entsize = 0\<rparr>
      else None)"

definition sample_elf :: "nat elf" where
  "sample_elf = empty_elf
     \<lparr>sections := [1, 2, 3], getshdr := sample_shdr, getdata := Some,
      d_buf := (\<lambda>d. replicate 48 0),
      strptr := (\<lambda>i off. Some (if off = 0 then ''f'' else if off = 2 then ''g'' else ''V1'')),
      getsymshndx := (\<lambda>d x i.
        if i = 0 then Some (\<lparr>st_name = 0, st_info = 0x12, st_other = 0, st_shndx = 0\<rparr>, 0)
        else if i = 1 then Some (\<lparr>st_name = 2, st_info = 0x12, st_other = 0, st_shndx = 7\<rparr>, 0)
        else None),
      getversym := (\<lambda>d i. Some (if i = 0 then 0 else 2)),
      getverdef := (\<lambda>d off. if off = 0 then Some \<lparr>vd_ndx = 2, vd_aux = 20, vd_next = 0\<rparr> else None),
      getverdaux := (\<lambda>d off. if off = 20 then Some 4 else None)\<rparr>"

definition sample_image :: "nat elf_image" where
  "sample_image = hostile_image\<lparr>image_elf := sample_elf\<rparr>"

lemma sample_elf_laws: "symbols_in_data sample_elf" "versions_ok sample_elf"
proof -
  show "symbols_in_data sample_elf"
    by (simp add: symbols_in_data_def count_symbols_def sample_elf_def empty_elf_def ELFCLASS32_def)
  have "version_data sample_elf d 1" "small_links sample_elf d" for d
    by (auto simp: version_data_def small_links_def sample_elf_def empty_elf_def)
  then show "versions_ok sample_elf" unfolding versions_ok_def by (metis zero_less_one)
qed

theorem symbol_range_complete_witness:
  "\<exists>r. all_symbols sample_elf (symbol_range_new sample_image) = Some r \<and>
    run_concat (table_symbols sample_elf) [1, 2, 3] = Some r"
  using symbol_range_complete [of sample_image] sample_elf_laws
  by (simp add: sample_image_def sample_elf_def)


text \<open>
  The version of a defined symbol: \<open>default_version\<close> is set exactly for the versions with the hidden
  bit. The symbol \<open>g\<close> of the sample has a version without that bit (the default version, written
  \<open>g@@V1\<close> by the linker), and is recorded as not the default.
\<close>

lemma sample_symbols:
  "run_concat (table_symbols sample_elf) [1, 2, 3] =
     Some (Inr [Inr \<lparr>symbol_name = ''f'', symbol_type = 2, symbol_binding = 1, symbol_other = 0,
                     vna_name_text = [], vna_other_index = 0\<rparr>,
                Inl \<lparr>symbol_name = ''g'', symbol_type = 2, symbol_binding = 1, symbol_other = 0,
                     vda_name = ''V1'', symbol_value = 0, section_index = 7, xsection = 7, default_version = False\<rparr>])"
proof -
  let ?t = "\<lparr>scn = 1, scn_link = 2, nsyms = 2, sym_data = 1, xndx_data = None, versym_data = Some 2,
    verneed_data = None, verdef_data = Some 3, verneed_stridx = 0, verdef_stridx = 2\<rparr>"
  have init: "init_section sample_elf 1 2 = Inr (Some ?t)"
    by (simp add: init_section_def sample_elf_def empty_elf_def sample_shdr_def find_companion_def count_symbols_def elf_constants)
  have f: "symbol_at sample_elf ?t 0 =
      Some (Inr [Inr \<lparr>symbol_name = ''f'', symbol_type = 2, symbol_binding = 1, symbol_other = 0,
                      vna_name_text = [], vna_other_index = 0\<rparr>])"
    by (simp add: symbol_at_def read_symbol_def symbol_version_def sample_elf_def elf_constants symbol_fields_def
        get_strptr_def elf_symbol_reference_new_def drop_bit_eq_div)
  have "verdef_loop sample_elf (Some 3) 2 0 (getverdef sample_elf (Some 3) 0) = Some (Some (0, \<lparr>vd_ndx = 2, vd_aux = 20, vd_next = 0\<rparr>))"
    by (subst verdef_loop.simps) (simp add: sample_elf_def)
  then have "symbol_at sample_elf ?t 1 =
      Some (Inr [Inl \<lparr>symbol_name = ''g'', symbol_type = 2, symbol_binding = 1, symbol_other = 0,
                      vda_name = ''V1'', symbol_value = 0, section_index = 7, xsection = 7, default_version = False\<rparr>])"
    by (simp add: symbol_at_def read_symbol_def symbol_version_def sample_elf_def elf_constants symbol_fields_def
        get_strptr_def elf_symbol_definition_new_def drop_bit_eq_div symbol_is_nobits_def sample_shdr_def
        check_defined_def int_arg_def)
  with f have "run_concat (symbol_at sample_elf ?t) [0, 1] =
     Some (Inr [Inr \<lparr>symbol_name = ''f'', symbol_type = 2, symbol_binding = 1, symbol_other = 0,
                     vna_name_text = [], vna_other_index = 0\<rparr>,
                Inl \<lparr>symbol_name = ''g'', symbol_type = 2, symbol_binding = 1, symbol_other = 0,
                     vda_name = ''V1'', symbol_value = 0, section_index = 7, xsection = 7, default_version = False\<rparr>])"
    by simp
  moreover have "table_symbols sample_elf 1 = run_concat (symbol_at sample_elf ?t) [0, 1]"
    using init by (simp add: table_symbols_def is_symbol_table_def sample_elf_def sample_shdr_def elf_constants upt_conv_Cons)
  moreover have "table_symbols sample_elf 2 = Some (Inr [])" "table_symbols sample_elf 3 = Some (Inr [])"
    by (simp_all add: table_symbols_def is_symbol_table_def sample_elf_def sample_shdr_def elf_constants)
  ultimately show ?thesis by simp
qed

text \<open>
  An image without section headers keeps an empty build ID, whatever notes its program headers
  have: the test for the section headers is the wrong way round.
\<close>

lemma build_id_without_sections:
  "shnum im = 0 \<Longrightarrow> sections (image_elf im) = [] \<Longrightarrow> set_build_id im = Some (return im)"
  by (simp add: set_build_id_def)

text \<open>
  Values in a malformed file that the code passes on unchecked: a name outside its string table, a
  dynamic section with entries of size zero, an interpreter name without a terminating NUL.
\<close>

lemma null_name_undefined:
  "strptr e (scn_link t) (ucast (st_name sm)) = None \<Longrightarrow>
   symbol_fields e t sm r = throw (Undefined_behaviour ''null string'')"
  by (simp add: symbol_fields_def get_strptr_def)

lemma zero_entsize_undefined:
  "getphdr e i = Some ph \<Longrightarrow> p_type ph = PT_DYNAMIC \<Longrightarrow> offscn e (p_offset ph) = Some n \<Longrightarrow>
   getshdr e n = Some sh \<Longrightarrow> sh_type sh = SHT_DYNAMIC \<Longrightarrow> getdata e n = Some d \<Longrightarrow> sh_entsize sh = 0 \<Longrightarrow>
   find_dynamic e (i # is) r = throw (Undefined_behaviour ''division by zero'')"
  by simp

lemma file_string_terminated:
  "file_string file off = Inr s \<longleftrightarrow>
     0 \<in> set (drop off file) \<and> s = map char_of_byte (takeWhile (\<lambda>b. b \<noteq> 0) (drop off file))"
  by (auto simp: file_string_def)

end
