(* ===== verification/Rpm_parser.thy ===== *)
theory Rpm_parser
  imports Package_set Cpio Source
begin

text \<open>
  Reading an RPM package: \<open>lib/cxxll/rpm_parser.cpp\<close>, with \<open>rpm_dependency.cpp\<close>,
  \<open>rpm_script.cpp\<close>, \<open>rpm_trigger.cpp\<close> and \<open>rpmfi_handle.cpp\<close>. The library librpm is a parameter: the
  header of a package is a record with the data of its tags and the list of its files, and the
  payload is a pipe with the decompressed cpio archive, which \<open>Fread\<close> reads in pieces that need not
  be as long as asked for.
\<close>

section \<open>What librpm returns\<close>

datatype rpm_tag =
    RPMTAG_NAME | RPMTAG_VERSION | RPMTAG_RELEASE | RPMTAG_ARCH | RPMTAG_SHA1HEADER
  | RPMTAG_BUILDHOST | RPMTAG_SUMMARY | RPMTAG_DESCRIPTION | RPMTAG_LICENSE | RPMTAG_GROUP
  | RPMTAG_SOURCERPM | RPMTAG_EPOCH | RPMTAG_BUILDTIME | RPMTAG_NEVRA
  | RPMTAG_REQUIRENAME | RPMTAG_REQUIREFLAGS | RPMTAG_REQUIREVERSION
  | RPMTAG_PROVIDENAME | RPMTAG_PROVIDEFLAGS | RPMTAG_PROVIDEVERSION
  | RPMTAG_OBSOLETENAME | RPMTAG_OBSOLETEFLAGS | RPMTAG_OBSOLETEVERSION
  | RPMTAG_CONFLICTNAME | RPMTAG_CONFLICTFLAGS | RPMTAG_CONFLICTVERSION
  | RPMTAG_PRETRANS | RPMTAG_PREIN | RPMTAG_POSTIN | RPMTAG_PREUN | RPMTAG_POSTUN | RPMTAG_POSTTRANS
  | RPMTAG_VERIFYSCRIPT | RPMTAG_PRETRANSPROG | RPMTAG_PREINPROG | RPMTAG_POSTINPROG | RPMTAG_PREUNPROG
  | RPMTAG_POSTUNPROG | RPMTAG_POSTTRANSPROG | RPMTAG_VERIFYSCRIPTPROG
  | RPMTAG_TRIGGERSCRIPTS | RPMTAG_TRIGGERSCRIPTPROG | RPMTAG_TRIGGERINDEX | RPMTAG_TRIGGERNAME
  | RPMTAG_TRIGGERVERSION | RPMTAG_TRIGGERFLAGS | RPMTAG_PAYLOADCOMPRESSOR

text \<open>The data of a tag is an array; the functions for strings return null for other data.\<close>

datatype rpmtd = Strings "string list" | Uint32s "u32 list" | Other_data

fun td_strings :: "rpmtd \<Rightarrow> string list" where
  "td_strings (Strings ss) = ss"
| "td_strings _ = []"

fun td_uint32s :: "rpmtd \<Rightarrow> u32 list" where
  "td_uint32s (Uint32s ns) = ns"
| "td_uint32s _ = []"

record rpm_fi =
  fi_fn :: string
  fi_user :: string
  fi_group :: string
  fi_caps :: string
  fi_mode :: u32
  fi_mtime :: u32
  fi_inode :: u32
  fi_flags :: u32
  fi_link :: string
  fi_size :: u64
  fi_nlink :: u32
  fi_is_reg :: bool
  fi_digest_algo :: int
  fi_digest :: "u8 list"

record rpm_header =
  headerGet :: "rpm_tag \<Rightarrow> rpmtd option"
  headerIsSource :: int
  header_files :: "rpm_fi list option"   \<comment> \<open>\<open>None\<close> when \<open>rpmfiNew\<close> fails\<close>

section \<open>Data of a package\<close>

datatype dependency_kind = require | provide | conflict | obsolete

record rpm_dependency =
  capability :: string
  dep_version :: string
  dep_kind :: dependency_kind
  dep_flags :: int

fun dependency_to_string :: "dependency_kind \<Rightarrow> string" where
  "dependency_to_string require = ''require''"
| "dependency_to_string provide = ''provide''"
| "dependency_to_string conflict = ''conflict''"
| "dependency_to_string obsolete = ''obsolete''"

datatype script_kind = pretrans | prein | postin | preun | postun | posttrans | verify

fun script_to_string :: "script_kind \<Rightarrow> string" where
  "script_to_string pretrans = ''pretrans''"
| "script_to_string prein = ''prein''"
| "script_to_string postin = ''postin''"
| "script_to_string preun = ''preun''"
| "script_to_string postun = ''postun''"
| "script_to_string posttrans = ''posttrans''"
| "script_to_string verify = ''verify''"

record rpm_script =
  script :: string
  script_prog :: "string list"
  script_type :: script_kind
  script_present :: bool

record trigger_condition =
  condition_name :: string
  condition_version :: string
  condition_flags :: int

record rpm_trigger =
  trigger_script :: string
  trigger_prog :: string
  conditions :: "trigger_condition list"

definition get_string :: "rpm_header \<Rightarrow> string \<Rightarrow> rpm_tag \<Rightarrow> string result" where
  "get_string h nm tag =
     (case headerGet h tag of
        Some td \<Rightarrow>
          (case td_strings td of
             s # _ \<Rightarrow> return s
           | [] \<Rightarrow> throw (Rpm_parser_exception (''could not get RPM '' @ nm @ '' header'')))
      | None \<Rightarrow> throw (Rpm_parser_exception (''could not get RPM '' @ nm @ '' header'')))"

definition get_unsigned :: "rpm_header \<Rightarrow> string \<Rightarrow> rpm_tag \<Rightarrow> u32 result" where
  "get_unsigned h nm tag =
     (case headerGet h tag of
        Some td \<Rightarrow>
          (case td_uint32s td of
             n # _ \<Rightarrow> return n
           | [] \<Rightarrow> throw (Rpm_parser_exception (''could not get '' @ nm @ '' header'')))
      | None \<Rightarrow> throw (Rpm_parser_exception (''could not get '' @ nm @ '' header'')))"

definition get_source_rpm :: "rpm_header \<Rightarrow> string result" where
  "get_source_rpm h =
     (case headerGet h RPMTAG_SOURCERPM of
        None \<Rightarrow> return []
      | Some td \<Rightarrow> (case td_strings td of s # _ \<Rightarrow> return s | [] \<Rightarrow> throw (Undefined_behaviour ''null string'')))"

definition get_epoch :: "rpm_header \<Rightarrow> int result" where
  "get_epoch h =
     (case headerGet h RPMTAG_EPOCH of
        None \<Rightarrow> return (- 1)
      | Some td \<Rightarrow>
          (case td_uint32s td of
             [] \<Rightarrow> throw (Rpm_parser_exception ''could not get EPOCH header'')
           | n # _ \<Rightarrow>
               if uint n > int INT_MAX then throw (Rpm_parser_exception ''RPM epoch out of range'')
               else return (uint n)))"

definition get_kind :: "rpm_header \<Rightarrow> package_kind result" where
  "get_kind h =
     (if headerIsSource h = 0 then return Binary
      else if headerIsSource h = 1 then return Package_set.Source
      else throw (Rpm_parser_exception ''package is neither a source nor a binary package''))"

definition get_header :: "rpm_header \<Rightarrow> rpm_package_info result" where
  "get_header h =
     (if headerGet h RPMTAG_NEVRA = None then
        throw (Rpm_parser_exception ''could not get NEVRA header from RPM package'')
      else
        bind (get_kind h) (\<lambda>k.
        bind (get_string h ''NAME'' RPMTAG_NAME) (\<lambda>nm.
        bind (get_string h ''VERSION'' RPMTAG_VERSION) (\<lambda>ver.
        bind (get_string h ''RELEASE'' RPMTAG_RELEASE) (\<lambda>rel.
        bind (get_string h ''ARCH'' RPMTAG_ARCH) (\<lambda>ar.
        bind (get_string h ''SHA1HEADER'' RPMTAG_SHA1HEADER) (\<lambda>sha.
        bind (get_string h ''BUILDHOST'' RPMTAG_BUILDHOST) (\<lambda>bh.
        bind (get_string h ''SUMMARY'' RPMTAG_SUMMARY) (\<lambda>su.
        bind (get_string h ''DESCRIPTION'' RPMTAG_DESCRIPTION) (\<lambda>de.
        bind (get_string h ''LICENSE'' RPMTAG_LICENSE) (\<lambda>li.
        bind (get_string h ''GROUP'' RPMTAG_GROUP) (\<lambda>gr.
        bind (get_source_rpm h) (\<lambda>src.
        bind (get_epoch h) (\<lambda>ep.
        bind (get_unsigned h ''BUILDTIME'' RPMTAG_BUILDTIME) (\<lambda>bt.
        normalize
          \<lparr>name = nm, version = ver, release = rel, arch = ar, source_rpm = src, hash = sha, build_host = bh,
           summary = su, description = de, license = li, group = gr, build_time = uint bt, epoch = ep,
           kind = k, normalized = False\<rparr>)))))))))))))))"

section \<open>Dependencies, scripts and triggers\<close>

fun deps_loop ::
    "dependency_kind \<Rightarrow> string \<Rightarrow> string \<Rightarrow> string list \<Rightarrow> u32 list \<Rightarrow> string list \<Rightarrow> rpm_dependency list result" where
  "deps_loop k fname vname [] fs vs = return []"
| "deps_loop k fname vname (nm # nms) [] vs =
     throw (Rpm_parser_exception (''missing entries in '' @ fname @ '' header''))"
| "deps_loop k fname vname (nm # nms) (f # fs) [] =
     throw (Rpm_parser_exception (''missing entries in '' @ vname @ '' header''))"
| "deps_loop k fname vname (nm # nms) (f # fs) (v # vs) =
     bind (deps_loop k fname vname nms fs vs) (\<lambda>rest.
       return (\<lparr>capability = nm, dep_version = v, dep_kind = k, dep_flags = sint f\<rparr> # rest))"

definition get_deps ::
    "rpm_header \<Rightarrow> dependency_kind \<Rightarrow> bool \<Rightarrow> rpm_tag \<Rightarrow> string \<Rightarrow> rpm_tag \<Rightarrow> string \<Rightarrow> rpm_tag \<Rightarrow> string
     \<Rightarrow> rpm_dependency list result" where
  "get_deps h k optional nametag namename flagstag flagsname versiontag versionname =
     (case headerGet h nametag of
        None \<Rightarrow>
          if optional then return []
          else throw (Rpm_parser_exception (''could not get '' @ namename @ '' header''))
      | Some nms \<Rightarrow>
     (case headerGet h flagstag of
        None \<Rightarrow> throw (Rpm_parser_exception (''could not get '' @ flagsname @ '' header''))
      | Some fs \<Rightarrow>
     (case headerGet h versiontag of
        None \<Rightarrow> throw (Rpm_parser_exception (''could not get '' @ versionname @ '' header''))
      | Some vs \<Rightarrow> deps_loop k flagsname versionname (td_strings nms) (td_uint32s fs) (td_strings vs))))"

definition get_dependencies :: "rpm_header \<Rightarrow> rpm_dependency list result" where
  "get_dependencies h =
     bind (get_deps h require False RPMTAG_REQUIRENAME ''REQUIRENAME'' RPMTAG_REQUIREFLAGS ''REQUIREFLAGS''
             RPMTAG_REQUIREVERSION ''REQUIREVERSION'') (\<lambda>reqs.
     bind (get_deps h provide True RPMTAG_PROVIDENAME ''PROVIDENAME'' RPMTAG_PROVIDEFLAGS ''PROVIDEFLAGS''
             RPMTAG_PROVIDEVERSION ''PROVIDEVERSION'') (\<lambda>provs.
     bind (get_deps h obsolete True RPMTAG_OBSOLETENAME ''OBSOLETENAME'' RPMTAG_OBSOLETEFLAGS ''OBSOLETEFLAGS''
             RPMTAG_OBSOLETEVERSION ''OBSOLETEVERSION'') (\<lambda>obs.
     bind (get_deps h conflict True RPMTAG_CONFLICTNAME ''CONFLICTNAME'' RPMTAG_CONFLICTFLAGS ''CONFLICTFLAGS''
             RPMTAG_CONFLICTVERSION ''CONFLICTVERSION'') (\<lambda>confs.
     return (reqs @ provs @ obs @ confs)))))"

definition get_script :: "rpm_header \<Rightarrow> script_kind \<Rightarrow> rpm_tag \<Rightarrow> rpm_tag \<Rightarrow> rpm_script list" where
  "get_script h k scriptlettag progtag =
     (let text = (case headerGet h scriptlettag of
                    None \<Rightarrow> None
                  | Some td \<Rightarrow> (case td_strings td of [] \<Rightarrow> None | s # _ \<Rightarrow> Some s));
          prog = (case headerGet h progtag of None \<Rightarrow> [] | Some td \<Rightarrow> td_strings td)
      in if text \<noteq> None \<or> prog \<noteq> [] then
           [\<lparr>script = (case text of Some s \<Rightarrow> s | None \<Rightarrow> []), script_prog = prog, script_type = k,
             script_present = (text \<noteq> None)\<rparr>]
         else [])"

definition scripts :: "rpm_header \<Rightarrow> rpm_script list" where
  "scripts h =
     get_script h pretrans RPMTAG_PRETRANS RPMTAG_PRETRANSPROG @
     get_script h prein RPMTAG_PREIN RPMTAG_PREINPROG @
     get_script h postin RPMTAG_POSTIN RPMTAG_POSTINPROG @
     get_script h preun RPMTAG_PREUN RPMTAG_PREUNPROG @
     get_script h postun RPMTAG_POSTUN RPMTAG_POSTUNPROG @
     get_script h posttrans RPMTAG_POSTTRANS RPMTAG_POSTTRANSPROG @
     get_script h verify RPMTAG_VERIFYSCRIPT RPMTAG_VERIFYSCRIPTPROG"

fun trigger_scripts :: "string list \<Rightarrow> string list \<Rightarrow> rpm_trigger list result" where
  "trigger_scripts [] ps = return []"
| "trigger_scripts (s # ss) [] = throw (Rpm_parser_exception ''TRIGGERSCRIPTPROG array too short'')"
| "trigger_scripts (s # ss) (p # ps) =
     bind (trigger_scripts ss ps) (\<lambda>rest.
       return (\<lparr>trigger_script = s, trigger_prog = p, conditions = []\<rparr> # rest))"

fun trigger_conditions ::
    "rpm_trigger list \<Rightarrow> u32 list \<Rightarrow> string list \<Rightarrow> string list \<Rightarrow> u32 list \<Rightarrow> rpm_trigger list result" where
  "trigger_conditions ts [] ns vs fs = return ts"
| "trigger_conditions ts (i # is) ns vs fs =
     (case ns of
        [] \<Rightarrow> throw (Rpm_parser_exception ''TRIGGERNAME array too short'')
      | n # ns' \<Rightarrow>
     (case vs of
        [] \<Rightarrow> throw (Rpm_parser_exception ''TRIGGERVERSION array too short'')
      | v # vs' \<Rightarrow>
     (case fs of
        [] \<Rightarrow> throw (Rpm_parser_exception ''TRIGGERFLAGS array too short'')
      | f # fs' \<Rightarrow>
          if unat i < length ts then
            trigger_conditions
              (ts[unat i := (ts ! unat i)\<lparr>conditions := conditions (ts ! unat i) @
                 [\<lparr>condition_name = n, condition_version = v, condition_flags = sint f\<rparr>]\<rparr>])
              is ns' vs' fs'
          else throw (Out_of_range ''vector::_M_range_check''))))"

definition triggers :: "rpm_header \<Rightarrow> rpm_trigger list result" where
  "triggers h =
     (case headerGet h RPMTAG_TRIGGERSCRIPTS of
        None \<Rightarrow> return []
      | Some ss \<Rightarrow>
     (case headerGet h RPMTAG_TRIGGERSCRIPTPROG of
        None \<Rightarrow> throw (Rpm_parser_exception ''missing TRIGGERSCRIPTPROG header'')
      | Some ps \<Rightarrow>
     bind (trigger_scripts (td_strings ss) (td_strings ps)) (\<lambda>ts.
     (case headerGet h RPMTAG_TRIGGERINDEX of
        None \<Rightarrow> return ts
      | Some is \<Rightarrow>
     (case headerGet h RPMTAG_TRIGGERNAME of
        None \<Rightarrow> throw (Rpm_parser_exception ''missing TRIGGERNAME header'')
      | Some ns \<Rightarrow>
     (case headerGet h RPMTAG_TRIGGERVERSION of
        None \<Rightarrow> throw (Rpm_parser_exception ''missing TRIGGERVERSION header'')
      | Some vs \<Rightarrow>
     (case headerGet h RPMTAG_TRIGGERFLAGS of
        None \<Rightarrow> throw (Rpm_parser_exception ''missing TRIGGERFLAGS header'')
      | Some fs \<Rightarrow>
          trigger_conditions ts (td_uint32s is) (td_strings ns) (td_strings vs) (td_uint32s fs))))))))"

section \<open>The files of the header\<close>

record findex =
  fx :: nat
  seen :: bool

record parser =
  header :: rpm_header
  fi :: "rpm_fi list"
  payload :: pipe
  payload_is_open :: bool
  reached_ghosts :: bool
  files :: "(string \<times> findex) list"
  ghost_files :: "(string \<times> findex) list"
  hardlinks :: "(u32 \<times> nat) list"

record rpm_file_entry =
  infos :: "rpm_file_info list"
  contents :: "u8 list"

definition hardlink_ino :: "rpm_fi \<Rightarrow> u32" where
  "hardlink_ino f =
     (if fi_nlink f > 1 \<and> fi_is_reg f \<and> fi_size f \<noteq> 0 \<and> fi_flags f AND 0x40 = 0 then fi_inode f else 0)"

fun header_loop :: "(nat \<times> rpm_fi) list \<Rightarrow> parser \<Rightarrow> parser" where
  "header_loop [] p = p"
| "header_loop ((i, f) # rest) p =
     (let p = p\<lparr>files := map_assign (fi_fn f) \<lparr>fx = i, seen = False\<rparr> (files p)\<rparr> in
      header_loop rest
        (if hardlink_ino f > 0 then p\<lparr>hardlinks := multimap_insert (hardlink_ino f) i (hardlinks p)\<rparr> else p))"

definition get_files_from_header :: "parser \<Rightarrow> parser result" where
  "get_files_from_header p =
     (case header_files (header p) of
        None \<Rightarrow> throw (Rpm_parser_exception ''rpmfiNew failed'')
      | Some fs \<Rightarrow> return (header_loop (enumerate 0 fs) (p\<lparr>fi := fs\<rparr>)))"

definition seek_fi :: "parser \<Rightarrow> nat \<Rightarrow> rpm_fi result" where
  "seek_fi p i = (if i < length (fi p) then return (fi p ! i) else throw (Rpm_parser_exception ''rpmfiSetFX''))"

definition empty_digest :: string where
  "empty_digest = ''e3b0c44298fc1c149afbf4c8996fb92427ae41e4649b934ca495991b7852b855''"

definition digest_type :: "int \<Rightarrow> hash_type result" where
  "digest_type algo =
     (if algo = 1 then return md5
      else if algo = 2 then return sha1
      else if algo = 8 then return sha256
      else throw (Rpm_parser_exception (''unknown file digest algorithm '' @
             (if algo < 0 then ''-'' @ dec (nat (- algo)) else dec (nat algo)))))"

definition get_file_info :: "rpm_fi \<Rightarrow> rpm_file_info result" where
  "get_file_info f =
     (let info = \<lparr>file_name = fi_fn f, user = fi_user f, file_group = fi_group f, capabilities = fi_caps f,
                  linkto = [], file_digest = checksum_new, file_mode = fi_mode f, file_mtime = fi_mtime f,
                  file_ino = fi_inode f, flags = fi_flags f, file_normalized = False\<rparr>;
          info = (if is_symlink info then info\<lparr>linkto := fi_link f\<rparr> else info)
      in if ghost info then
           bind (set_hexadecimal ''sha256'' 0 empty_digest (file_digest info)) (\<lambda>d.
             return (info\<lparr>file_ino := 0, file_digest := d\<rparr>))
         else
           bind (digest_type (fi_digest_algo f)) (\<lambda>t.
             return (info\<lparr>file_digest := \<lparr>csum_value = fi_digest f, csum_length = fi_size f, csum_type = t\<rparr>\<rparr>)))"

text \<open>
  \<open>Fdopen\<close> on the payload: the message of an error, or nothing. The name of the compressor only
  selects the library that decompresses.
\<close>

definition open_payload :: "exn option \<Rightarrow> parser \<Rightarrow> parser result" where
  "open_payload fdopen p =
     bind (get_files_from_header p) (\<lambda>p.
       case fdopen of
         Some e \<Rightarrow> throw e
       | None \<Rightarrow> return (p\<lparr>payload_is_open := True\<rparr>))"

fun ghost_loop :: "parser \<Rightarrow> (string \<times> findex) list \<Rightarrow> rpm_file_entry \<Rightarrow> (rpm_file_entry option \<times> parser) result" where
  "ghost_loop p [] file = return (None, p\<lparr>ghost_files := []\<rparr>)"
| "ghost_loop p ((nm, ix) # rest) file =
     (if \<not> seen ix then
        bind (seek_fi p (fx ix)) (\<lambda>f.
        bind (get_file_info f) (\<lambda>info.
          if \<not> ghost info then throw (Rpm_parser_exception (''missing non-ghost file: '' @ nm))
          else return (Some (file\<lparr>infos := [info], contents := []\<rparr>), p\<lparr>ghost_files := rest\<rparr>)))
      else ghost_loop p rest file)"

definition read_file_ghost :: "parser \<Rightarrow> rpm_file_entry \<Rightarrow> (rpm_file_entry option \<times> parser) result" where
  "read_file_ghost p file = ghost_loop p (ghost_files p) file"

section \<open>The cpio archive\<close>

text \<open>
  \<open>Fread\<close> into a buffer that holds \<open>old\<close>: nothing read is the end of the stream, and fewer bytes
  than asked for leave the rest of the buffer as it was. A buffer that was never written has
  undefined contents.
\<close>

definition fread :: "string \<Rightarrow> string \<Rightarrow> u8 list option \<Rightarrow> nat \<Rightarrow> pipe \<Rightarrow> u8 list result \<times> pipe" where
  "fread at_end during old n p =
     (case fd_read n p of
        (Inl (Os_exception msg), p') \<Rightarrow> (throw (Rpm_parser_exception (msg @ during)), p')
      | (Inl x, p') \<Rightarrow> (throw x, p')
      | (Inr buf, p') \<Rightarrow>
          if buf = [] then (throw (Rpm_parser_exception at_end), p')
          else if length buf < n then
            (case old of
               Some o' \<Rightarrow> (return (buf @ drop (length buf) o'), p')
             | None \<Rightarrow> (throw (Undefined_behaviour ''uninitialized buffer''), p'))
          else (return buf, p'))"

function read_padding :: "string \<Rightarrow> string \<Rightarrow> nat \<Rightarrow> pipe \<Rightarrow> unit result \<times> pipe" where
  "read_padding at_end during i p =
     (if i mod 4 = 0 then (return (), p)
      else pbind (fread at_end during None 1 p) (\<lambda>_ p. read_padding at_end during (i + 1) p))"
  by pat_completeness auto
termination by (relation "measure (\<lambda>(_, _, i, _). (4 - i mod 4) mod 4)") (auto simp: mod_Suc)

declare read_padding.simps [simp del]

definition resize :: "nat \<Rightarrow> u8 list \<Rightarrow> u8 list" where
  "resize n xs = take n xs @ replicate (n - length xs) 0"

definition trailer :: "u8 list" where
  "trailer = map byte_of_char ''TRAILER!!!''"

datatype cpio_item = Trailer | Item "u8 list" "u8 list"   \<comment> \<open>name, contents\<close>

definition zero_entry :: cpio_entry where
  "zero_entry =
     \<lparr>devmajor = 0, devminor = 0, ino = 0, mode = 0, uid = 0, gid = 0, nlink = 0, rdevmajor = 0,
      rdevminor = 0, mtime = 0, namesize = 0, filesize = 0, check = 0\<rparr>"

definition parse_cpio_header :: "nat \<Rightarrow> u8 list \<Rightarrow> (nat \<times> cpio_entry) result" where
  "parse_cpio_header cpio_len buf =
     bind (parse (map char_of_byte buf) cpio_len zero_entry []) (\<lambda>(ok, hdr, err).
       if \<not> ok then throw (Rpm_parser_exception (''malformed cpio header field: '' @ err))
       else if namesize hdr = 0 then throw (Rpm_parser_exception ''empty file name in cpio header'')
       else return (cpio_len, hdr))"

definition read_cpio_header :: "pipe \<Rightarrow> (nat \<times> cpio_entry) result \<times> pipe" where
  "read_cpio_header p =
     pbind (fread ''end of stream in cpio file header'' '' (in cpio header)'' None 6 p) (\<lambda>magic p.
       let cpio_len = cpio_header_length (map char_of_byte magic) in
       if cpio_len = 0 then (throw (Rpm_parser_exception ''unknown cpio version''), p)
       else
     pbind (fread ''end of stream in cpio file header'' '' (in cpio header)'' None cpio_len p) (\<lambda>buf p.
       (parse_cpio_header cpio_len buf, p)))"

definition read_cpio :: "u8 list \<Rightarrow> pipe \<Rightarrow> cpio_item result \<times> pipe" where
  "read_cpio old p =
     pbind (read_cpio_header p) (\<lambda>(cpio_len, hdr) p.
       let nsize = unat (namesize hdr); fsize = unat (filesize hdr) in
     pbind (fread ''end of stream in cpio file name'' '' (in cpio file name)''
              (Some (replicate nsize 0)) nsize p) (\<lambda>nm p.
     pbind (read_padding ''failed to read padding after name'' '' (in cpio file name padding)''
              (6 + cpio_len + nsize) p) (\<lambda>_ p.
       if nsize = length trailer + 1 \<and> take (length trailer) nm = trailer then (return Trailer, p)
       else
     pbind (if fsize > 0
            then fread ''end of stream in cpio file contents'' '' (in cpio file contents)''
                   (Some (resize fsize old)) fsize p
            else (return [], p)) (\<lambda>data p.
     pbind (read_padding ''failed to read padding after cpio contents'' '' (in cpio file contents padding)''
              fsize p) (\<lambda>_ p.
       (return (Item nm data), p))))))"

text \<open>A C string at the start of a buffer.\<close>

definition buffer_string :: "u8 list \<Rightarrow> string result" where
  "buffer_string buf =
     (if 0 \<in> set buf then return (map char_of_byte (takeWhile (\<lambda>b. b \<noteq> 0) buf))
      else throw (Undefined_behaviour ''read past the end''))"

definition normalized_name :: "u8 list \<Rightarrow> u8 list" where
  "normalized_name nm =
     (if length nm \<ge> 2 \<and> nm ! 0 = byte_of_char (CHR ''.'') \<and> nm ! 1 = byte_of_char (CHR ''/'') then tl nm else nm)"

section \<open>The next file\<close>

definition mark_seen :: "string \<Rightarrow> parser \<Rightarrow> parser" where
  "mark_seen nm p =
     (case map_find (files p) nm of
        None \<Rightarrow> p
      | Some ix \<Rightarrow> p\<lparr>files := map_assign nm (ix\<lparr>seen := True\<rparr>) (files p)\<rparr>)"

text \<open>The loop over the members of a group of hard links.\<close>

fun link_loop :: "parser \<Rightarrow> nat list \<Rightarrow> (rpm_file_info list \<times> parser) result" where
  "link_loop p [] = return ([], p)"
| "link_loop p (i # is) =
     bind (seek_fi p i) (\<lambda>f.
     bind (get_file_info f) (\<lambda>info.
       if ghost info then throw Assertion_failure
       else case map_find (files p) (file_name info) of
           None \<Rightarrow> throw (Undefined_behaviour ''end iterator'')
         | Some ix \<Rightarrow>
             if seen ix then throw (Rpm_parser_exception (''duplicate file in CPIO archive: '' @ file_name info))
             else bind (link_loop (mark_seen (file_name info) p) is) (\<lambda>(rest, p). return (info # rest, p))))"

text \<open>The check of the digests of a group, with the two tests of the source.\<close>

fun check_links :: "u8 list \<Rightarrow> rpm_file_info list \<Rightarrow> unit result" where
  "check_links ref [] = return ()"
| "check_links ref (q # qs) =
     (if csum_value (file_digest q) \<noteq> ref then
        throw (Rpm_parser_exception (''hard link size mismatch: '' @ file_name q))
      else if csum_value (file_digest q) \<noteq> ref then
        throw (Rpm_parser_exception (''hard link hash mismatch: '' @ file_name q))
      else check_links ref qs)"

text \<open>
  What becomes of an entry of the archive: a file to report, or \<open>None\<close> for an additional name of a
  group of hard links that comes without contents.
\<close>

definition single_file ::
    "parser \<Rightarrow> string \<Rightarrow> string \<Rightarrow> findex \<Rightarrow> rpm_fi \<Rightarrow> u8 list \<Rightarrow> (rpm_file_entry option \<times> parser) result" where
  "single_file p cname path ix f data =
     (if seen ix then throw (Rpm_parser_exception (''duplicate file in CPIO archive: '' @ cname))
      else bind (get_file_info f) (\<lambda>info.
        return (Some \<lparr>infos = [info], contents = if ghost info then [] else data\<rparr>, mark_seen path p)))"

definition linked_files ::
    "parser \<Rightarrow> string \<Rightarrow> string \<Rightarrow> nat list \<Rightarrow> rpm_fi \<Rightarrow> u8 list \<Rightarrow> (rpm_file_entry option \<times> parser) result" where
  "linked_files p cname path links f data =
     (if unat (fi_size f) = length data then
        bind (link_loop p links) (\<lambda>(is, p).
          if (case map_find (files p) path of Some ix \<Rightarrow> \<not> seen ix | None \<Rightarrow> True) \<and> fi_flags f AND 0x40 = 0 then
            throw (Rpm_parser_exception (''file not found in hard link group:'' @ cname))
          else
            bind (check_links (csum_value (file_digest (hd is))) (tl is)) (\<lambda>_.
              return (Some \<lparr>infos = is, contents = data\<rparr>, p)))
      else if data = [] then return (None, p)
      else throw (Rpm_parser_exception (''hard link size does not match header: '' @ cname)))"

definition process_entry :: "parser \<Rightarrow> u8 list \<Rightarrow> u8 list \<Rightarrow> (rpm_file_entry option \<times> parser) result" where
  "process_entry p nm data =
     bind (buffer_string (normalized_name nm)) (\<lambda>path.
     bind (buffer_string nm) (\<lambda>cname.
       case map_find (files p) path of
         None \<Rightarrow> throw (Rpm_parser_exception (''cpio file not found in RPM header: '' @ cname))
       | Some ix \<Rightarrow>
           bind (seek_fi p (fx ix)) (\<lambda>f.
             let links = map snd (equal_range (hardlinks p) (fi_inode f)) in
             if links = [] then single_file p cname path ix f data
             else linked_files p cname path links f data)))"

lemma fread_consumes: "fread at_end during old n p = (Inr buf, p') \<Longrightarrow> length (avail p') < length (avail p)"
proof -
  assume fr: "fread at_end during old n p = (Inr buf, p')"
  obtain r q where rd: "fd_read n p = (r, q)" by fastforce
  with fr obtain got where got: "r = Inr got" "got \<noteq> []" "q = p'"
    by (auto simp: fread_def split: sum.splits exn.splits if_splits option.splits)
  then have "got = take (read_size n p) (avail p)" "avail p' = drop (read_size n p) (avail p)"
    using rd by (auto simp: fd_read_def split: if_splits)
  with got(2) show ?thesis by auto
qed

lemma pbind_Inr: "pbind m f = (Inr y, p') \<longleftrightarrow> (\<exists>x p. m = (Inr x, p) \<and> f x p = (Inr y, p'))"
  by (cases m) (auto simp: pbind_def split: sum.split)

lemma read_padding_consumes:
  "read_padding at_end during i p = (Inr u, p') \<Longrightarrow> length (avail p') \<le> length (avail p)"
proof (induction at_end during i p rule: read_padding.induct)
  case (1 at_end during i p)
  show ?case
  proof (cases "i mod 4 = 0")
    case False
    with "1.prems" obtain x q where q: "fread at_end during None 1 p = (Inr x, q)"
      "read_padding at_end during (i + 1) q = (Inr u, p')"
      by (subst (asm) read_padding.simps) (auto simp: pbind_Inr)
    then show ?thesis using "1.IH" [OF False] fread_consumes [OF q(1)] by fastforce
  qed (use "1.prems" in \<open>simp add: read_padding.simps\<close>)
qed

lemma read_cpio_header_consumes:
  "read_cpio_header p = (Inr x, p') \<Longrightarrow> length (avail p') < length (avail p)"
  unfolding read_cpio_header_def
  by (auto simp: pbind_Inr Let_def dest!: fread_consumes split: if_splits sum.splits)

lemma read_cpio_consumes: "read_cpio old p = (Inr x, p') \<Longrightarrow> length (avail p') < length (avail p)"
  unfolding read_cpio_def
  by (auto simp: pbind_Inr Let_def dest!: fread_consumes read_padding_consumes read_cpio_header_consumes split: if_splits)

lemma link_loop_payload: "link_loop p is = Inr (infs, p') \<Longrightarrow> payload p' = payload p"
  by (induction p "is" arbitrary: infs p' rule: link_loop.induct)
     (auto simp: mark_seen_def split: if_splits option.splits)

lemma process_entry_payload: "process_entry p nm data = Inr (r, p') \<Longrightarrow> payload p' = payload p"
  by (auto simp: process_entry_def single_file_def linked_files_def mark_seen_def Let_def dest: link_loop_payload
      split: option.splits if_splits)

text \<open>The loop of \<open>read_file\<close>: each turn consumes part of the payload.\<close>

function read_loop :: "parser \<Rightarrow> rpm_file_entry \<Rightarrow> (rpm_file_entry option \<times> parser) result" where
  "read_loop p file =
     (if reached_ghosts p then read_file_ghost p file
      else case read_cpio (contents file) (payload p) of
          (Inl x, pp) \<Rightarrow> throw x
        | (Inr Trailer, pp) \<Rightarrow>
            read_file_ghost (p\<lparr>payload := pp, reached_ghosts := True, ghost_files := files p\<rparr>) file
        | (Inr (Item nm data), pp) \<Rightarrow>
            (case process_entry (p\<lparr>payload := pp\<rparr>) nm data of
               Inl x \<Rightarrow> throw x
             | Inr (Some out, p) \<Rightarrow> return (Some out, p)
             | Inr (None, p) \<Rightarrow> read_loop p (file\<lparr>contents := data\<rparr>)))"
  by pat_completeness auto
termination
  by (relation "measure (\<lambda>(p, _). length (avail (payload p)))")
     (auto dest!: read_cpio_consumes process_entry_payload simp: eq_commute [of "(_, _)" "read_cpio _ _"])

declare read_loop.simps [simp del]

definition read_file :: "exn option \<Rightarrow> parser \<Rightarrow> rpm_file_entry \<Rightarrow> (rpm_file_entry option \<times> parser) result" where
  "read_file fdopen p file =
     bind (if payload_is_open p then return p else open_payload fdopen p) (\<lambda>p. read_loop p file)"

text \<open>
  The constructor: \<open>fopen\<close> is the error of \<open>Fopen\<close>, if there is one, \<open>rc\<close> and \<open>h\<close> what
  \<open>rpmReadPackageFile\<close> returns, and \<open>rest\<close> the payload.
\<close>

datatype rpmRC = RPMRC_OK | RPMRC_NOTFOUND | RPMRC_FAIL | RPMRC_NOTTRUSTED | RPMRC_NOKEY

definition rpm_parser_new ::
    "string option \<Rightarrow> rpmRC \<Rightarrow> rpm_header \<Rightarrow> pipe \<Rightarrow> (parser \<times> rpm_package_info \<times> rpm_dependency list) result" where
  "rpm_parser_new fopen rc h rest =
     (case fopen of
        Some msg \<Rightarrow> throw (Rpm_parser_exception msg)
      | None \<Rightarrow>
          if rc = RPMRC_NOTFOUND then throw (Rpm_parser_exception ''not an RPM package'')
          else if rc = RPMRC_FAIL then throw (Rpm_parser_exception ''error reading header from RPM package'')
          else
            bind (get_header h) (\<lambda>pkg.
            bind (get_dependencies h) (\<lambda>deps.
              return (\<lparr>header = h, fi = [], payload = rest, payload_is_open = False, reached_ghosts = False,
                       files = [], ghost_files = [], hardlinks = []\<rparr>, pkg, deps))))"

section \<open>Every file is reported exactly once\<close>

text \<open>
  The invariant of an open parser: the names of the map are those of the entries of the header
  they point to.
\<close>

definition parser_ok :: "parser \<Rightarrow> bool" where
  "parser_ok p \<longleftrightarrow> sorted_map (files p) \<and>
     (\<forall>nm ix. map_find (files p) nm = Some ix \<longrightarrow> fx ix < length (fi p) \<and> fi_fn (fi p ! fx ix) = nm)"

definition seen_names :: "parser \<Rightarrow> string set" where
  "seen_names p = {nm. \<exists>ix. map_find (files p) nm = Some ix \<and> seen ix}"

definition known_names :: "parser \<Rightarrow> string set" where
  "known_names p = {nm. map_find (files p) nm \<noteq> None}"

text \<open>What reading an entry changes: the names that it reports become seen.\<close>

definition reports :: "parser \<Rightarrow> string list \<Rightarrow> parser \<Rightarrow> bool" where
  "reports p nms p' \<longleftrightarrow> parser_ok p' \<and> fi p' = fi p \<and> reached_ghosts p' = reached_ghosts p \<and>
     known_names p' = known_names p \<and> length (files p') = length (files p) \<and>
     distinct nms \<and> set nms \<subseteq> known_names p - seen_names p \<and> seen_names p' = seen_names p \<union> set nms"

lemma map_assign_length: "map_find m k \<noteq> None \<Longrightarrow> length (map_assign k v m) = length m"
  by (induction k v m rule: map_assign.induct) (auto split: if_splits)

lemma get_file_info_name: "get_file_info f = Inr info \<Longrightarrow> file_name info = fi_fn f"
  by (auto simp: get_file_info_def Let_def split: if_splits)

lemma reports_refl: "parser_ok p \<Longrightarrow> reports p [] p"
  by (simp add: reports_def)

lemma reports_trans:
  assumes "reports p xs q" and "reports q ys r"
  shows "reports p (xs @ ys) r"
  using assms by (fastforce simp: reports_def)

lemma reports_mark:
  assumes ok: "parser_ok p" and ix: "map_find (files p) nm = Some ix" "\<not> seen ix"
  shows "reports p [nm] (mark_seen nm p)"
proof -
  let ?p = "p\<lparr>files := map_assign nm (ix\<lparr>seen := True\<rparr>) (files p)\<rparr>"
  have s: "sorted_map (files p)" using ok by (simp add: parser_ok_def)
  have find: "map_find (files ?p) k = (if k = nm then Some (ix\<lparr>seen := True\<rparr>) else map_find (files p) k)" for k
    using map_find_assign [OF s] by simp
  have "parser_ok ?p" using ok ix s by (auto simp: parser_ok_def find [simplified])
  moreover have "seen_names ?p = seen_names p \<union> {nm}" by (auto simp: seen_names_def find [simplified])
  moreover have "known_names ?p = known_names p" using ix by (auto simp: known_names_def find [simplified])
  moreover have "length (files ?p) = length (files p)" using ix by (simp add: map_assign_length)
  moreover have "nm \<in> known_names p - seen_names p" using ix by (auto simp: known_names_def seen_names_def)
  ultimately show ?thesis using ix by (simp add: reports_def mark_seen_def)
qed

lemma link_loop_reports:
  "link_loop p is = Inr (infs, p') \<Longrightarrow> parser_ok p \<Longrightarrow> reports p (map file_name infs) p'"
proof (induction p "is" arbitrary: infs p' rule: link_loop.induct)
  case (1 p)
  then show ?case by (auto intro: reports_refl)
next
  case (2 p i "is")
  from "2.prems"(1) obtain f info ix rest where
    *: "seek_fi p i = Inr f" "get_file_info f = Inr info" "\<not> ghost info" "map_find (files p) (file_name info) = Some ix"
      "\<not> seen ix" "link_loop (mark_seen (file_name info) p) is = Inr (rest, p')" "infs = info # rest"
    by (auto split: if_splits option.splits)
  have mark: "reports p [file_name info] (mark_seen (file_name info) p)"
    using reports_mark [OF "2.prems"(2) *(4,5)] .
  then have "reports (mark_seen (file_name info) p) (map file_name rest) p'"
    using * by (intro "2.IH") (auto simp: reports_def)
  from reports_trans [OF mark this] * show ?case by simp
qed

abbreviation entry_names :: "rpm_file_entry \<Rightarrow> string list" where
  "entry_names e \<equiv> map file_name (infos e)"

lemma process_entry_reports:
  assumes "process_entry p nm data = Inr (r, p')" and ok: "parser_ok p"
  shows "reports p (case r of None \<Rightarrow> [] | Some e \<Rightarrow> entry_names e) p'"
proof -
  from assms(1) obtain path cname ix f where
    path: "map_find (files p) path = Some ix" "seek_fi p (fx ix) = Inr f" and
    r: "single_file p cname path ix f data = Inr (r, p') \<or>
        linked_files p cname path (map snd (equal_range (hardlinks p) (fi_inode f))) f data = Inr (r, p')"
    by (auto simp: process_entry_def Let_def split: option.splits if_splits)
  have f: "fi_fn f = path" using path ok by (auto simp: parser_ok_def seek_fi_def split: if_splits)
  from r show ?thesis
  proof
    assume "single_file p cname path ix f data = Inr (r, p')"
    then show ?thesis using path f ok
      by (auto simp: single_file_def get_file_info_name intro!: reports_mark split: if_splits)
  next
    assume "linked_files p cname path (map snd (equal_range (hardlinks p) (fi_inode f))) f data = Inr (r, p')"
    then show ?thesis using ok
      by (auto simp: linked_files_def reports_refl dest!: link_loop_reports split: if_splits)
  qed
qed

text \<open>The ghost phase reports the names that were not seen, in the order of the map.\<close>

definition unseen :: "(string \<times> findex) list \<Rightarrow> string list" where
  "unseen m = map fst (filter (\<lambda>(nm, ix). \<not> seen ix) m)"

definition ghosts_ok :: "parser \<Rightarrow> bool" where
  "ghosts_ok p \<longleftrightarrow> reached_ghosts p \<and>
     (\<forall>(nm, ix) \<in> set (ghost_files p). fx ix < length (fi p) \<and> fi_fn (fi p ! fx ix) = nm)"

lemma ghost_loop_reports:
  "ghost_loop p m f0 = Inr (r, p') \<Longrightarrow>
   \<forall>(nm, ix) \<in> set m. fx ix < length (fi p) \<and> fi_fn (fi p ! fx ix) = nm \<Longrightarrow>
   (case r of
      None \<Rightarrow> unseen m = []
    | Some e \<Rightarrow> \<exists>nm rest. unseen m = nm # unseen rest \<and> entry_names e = [nm] \<and> p' = p\<lparr>ghost_files := rest\<rparr> \<and>
        length rest < length m \<and> set rest \<subseteq> set m)"
proof (induction p m f0 rule: ghost_loop.induct)
  case (2 p nm ix rest f0)
  show ?case
  proof (cases "seen ix")
    case True
    then have un: "unseen ((nm, ix) # rest) = unseen rest" by (simp add: unseen_def)
    have ih: "case r of None \<Rightarrow> unseen rest = [] | Some e \<Rightarrow> \<exists>nm rest'. unseen rest = nm # unseen rest' \<and>
        entry_names e = [nm] \<and> p' = p\<lparr>ghost_files := rest'\<rparr> \<and> length rest' < length rest \<and> set rest' \<subseteq> set rest"
      using 2 True by simp
    show ?thesis
    proof (cases r)
      case None
      with ih un show ?thesis by simp
    next
      case (Some e)
      with ih obtain nm' rest' where "unseen rest = nm' # unseen rest'" "entry_names e = [nm']"
        "p' = p\<lparr>ghost_files := rest'\<rparr>" "length rest' < length rest" "set rest' \<subseteq> set rest" by auto
      with Some un show ?thesis by (auto intro!: exI [of _ rest'])
    qed
  next
    case False
    with "2.prems" show ?thesis
      by (auto simp: unseen_def seek_fi_def dest!: get_file_info_name split: if_splits)
  qed
qed (auto simp: unseen_def)

lemma read_file_ghost_reports:
  assumes "read_file_ghost p f0 = Inr (r, p')" and "ghosts_ok p"
  shows "case r of
      None \<Rightarrow> unseen (ghost_files p) = []
    | Some e \<Rightarrow> \<exists>nm. unseen (ghost_files p) = nm # unseen (ghost_files p') \<and> entry_names e = [nm] \<and>
        ghosts_ok p' \<and> length (ghost_files p') < length (ghost_files p)"
  using ghost_loop_reports [of p "ghost_files p" f0 r p'] assms
  by (auto simp: read_file_ghost_def ghosts_ok_def split: option.splits) blast+

text \<open>A turn before the ghost phase reports unseen names, or the trailer starts that phase.\<close>

inductive read_step :: "parser \<Rightarrow> rpm_file_entry option \<Rightarrow> parser \<Rightarrow> bool" where
  reported: "reports p (entry_names e) p' \<Longrightarrow> length (avail (payload p')) < length (avail (payload p)) \<Longrightarrow>
    read_step p (Some e) p'"
| trailer_read: "reports p [] q \<Longrightarrow> q' = q\<lparr>reached_ghosts := True, ghost_files := files q\<rparr> \<Longrightarrow>
    read_file_ghost q' f0 = Inr (r, p') \<Longrightarrow> read_step p r p'"

lemma reports_payload [simp]: "reports (p\<lparr>payload := pp\<rparr>) nms p' \<longleftrightarrow> reports p nms p'"
  by (simp add: reports_def known_names_def seen_names_def parser_ok_def)

lemma reports_to_payload [simp]: "reports p nms (p'\<lparr>payload := pp\<rparr>) \<longleftrightarrow> reports p nms p'"
  by (simp add: reports_def known_names_def seen_names_def parser_ok_def)

lemma parser_ok_payload [simp]: "parser_ok (p\<lparr>payload := pp\<rparr>) \<longleftrightarrow> parser_ok p"
  by (simp add: parser_ok_def)

lemma read_step_skip:
  assumes "read_step q r p'" and "reports p [] q" and "length (avail (payload q)) < length (avail (payload p))"
  shows "read_step p r p'"
  using assms
proof (induction rule: read_step.induct)
  case (reported q e p')
  then show ?case using reports_trans [of p "[]" q "entry_names e" p'] by (auto intro: read_step.reported)
next
  case (trailer_read q1 q q' f0 r p')
  then show ?case using reports_trans [of p "[]" q1 "[]" q] by (auto intro: read_step.trailer_read)
qed

lemma read_loop_step:
  "read_loop p f0 = Inr (r, p') \<Longrightarrow> parser_ok p \<Longrightarrow> \<not> reached_ghosts p \<Longrightarrow> read_step p r p'"
proof (induction p f0 rule: read_loop.induct)
  case (1 p f0)
  obtain x pp where rc: "read_cpio (contents f0) (payload p) = (x, pp)" by fastforce
  show ?case
  proof (cases x)
    case (Inl e)
    with 1 rc show ?thesis by (simp add: read_loop.simps [of p])
  next
    case (Inr item)
    note cons = read_cpio_consumes [OF rc [unfolded Inr]]
    show ?thesis
    proof (cases item)
      case Trailer
      let ?q = "p\<lparr>payload := pp\<rparr>"
      have "reports p [] ?q" using "1.prems" by (simp add: reports_refl)
      moreover have "read_file_ghost (?q\<lparr>reached_ghosts := True, ghost_files := files ?q\<rparr>) f0 = Inr (r, p')"
        using "1.prems" rc Inr Trailer by (simp add: read_loop.simps [of p])
      ultimately show ?thesis by (rule read_step.trailer_read [OF _ refl])
    next
      case (Item nm data)
      have body: "read_loop p f0 = (case process_entry (p\<lparr>payload := pp\<rparr>) nm data of
          Inl x \<Rightarrow> throw x | Inr (Some out, p) \<Rightarrow> return (Some out, p)
        | Inr (None, p) \<Rightarrow> read_loop p (f0\<lparr>contents := data\<rparr>))"
        using rc Inr Item "1.prems" by (simp add: read_loop.simps [of p])
      then obtain r1 q where pe: "process_entry (p\<lparr>payload := pp\<rparr>) nm data = Inr (r1, q)"
        using "1.prems"(1) by (auto split: sum.splits)
      have rep: "reports p (case r1 of None \<Rightarrow> [] | Some e \<Rightarrow> entry_names e) q"
        using process_entry_reports [OF pe] "1.prems"(2) by simp
      have pay: "payload q = pp" using process_entry_payload [OF pe] by simp
      show ?thesis
      proof (cases r1)
        case (Some e)
        with body pe "1.prems"(1) have "r = Some e" "p' = q" by simp_all
        then show ?thesis using rep Some cons pay by (auto intro: read_step.reported)
      next
        case None
        with rep have "reports p [] q" by simp
        moreover have "read_step q r p'"
          using "1.IH" [of x pp item nm data] rc Inr Item pe None body "1.prems" \<open>reports p [] q\<close>
          by (auto simp: reports_def)
        ultimately show ?thesis using cons pay by (auto intro: read_step_skip)
      qed
    qed
  qed
qed

section \<open>Reading all files\<close>

text \<open>The loop of the caller ends: every call uses up part of the payload or one of the ghosts.\<close>

definition rank :: "parser \<Rightarrow> nat" where
  "rank p = (if reached_ghosts p then length (ghost_files p) else Suc (length (avail (payload p)) + length (files p)))"

lemma mark_seen_keeps [simp]:
  "length (files (mark_seen nm p)) = length (files p)" "reached_ghosts (mark_seen nm p) = reached_ghosts p"
  by (simp_all add: mark_seen_def map_assign_length split: option.split)

lemma link_loop_keeps:
  "link_loop p is = Inr (infs, p') \<Longrightarrow> length (files p') = length (files p) \<and> reached_ghosts p' = reached_ghosts p"
  by (induction p "is" arbitrary: infs p' rule: link_loop.induct) (auto split: if_splits option.splits)

lemma process_entry_keeps:
  "process_entry p nm data = Inr (r, p') \<Longrightarrow> length (files p') = length (files p) \<and> reached_ghosts p' = reached_ghosts p"
  by (auto simp: process_entry_def single_file_def linked_files_def Let_def dest!: link_loop_keeps
      split: option.splits if_splits)

lemma ghost_loop_shorter:
  "ghost_loop p m f0 = Inr (Some e, p') \<Longrightarrow> length (ghost_files p') < length m \<and> reached_ghosts p' = reached_ghosts p"
  by (induction p m f0 rule: ghost_loop.induct) (auto split: if_splits)

lemma read_loop_rank: "read_loop p f0 = Inr (Some e, p') \<Longrightarrow> rank p' < rank p"
proof (induction p f0 rule: read_loop.induct)
  case (1 p f0)
  show ?case
  proof (cases "reached_ghosts p")
    case True
    with "1.prems" show ?thesis
      by (auto simp: read_loop.simps [of p] rank_def read_file_ghost_def dest!: ghost_loop_shorter)
  next
    case False
    obtain item pp where rc: "read_cpio (contents f0) (payload p) = (Inr item, pp)"
      using "1.prems" False by (auto simp: read_loop.simps [of p] split: prod.splits sum.splits)
    note cons = read_cpio_consumes [OF rc]
    show ?thesis
    proof (cases item)
      case Trailer
      with "1.prems" False rc show ?thesis
        by (auto simp: read_loop.simps [of p] rank_def read_file_ghost_def dest!: ghost_loop_shorter)
    next
      case (Item nm data)
      obtain r q where pe: "process_entry (p\<lparr>payload := pp\<rparr>) nm data = Inr (r, q)"
        using "1.prems" False rc Item by (auto simp: read_loop.simps [of p] split: sum.splits)
      have q: "rank q < rank p"
        using process_entry_keeps [OF pe] process_entry_payload [OF pe] cons False by (simp add: rank_def)
      show ?thesis
      proof (cases r)
        case None
        have "rank p' < rank q"
          using "1.IH" [OF False rc [symmetric] refl Item pe] None "1.prems" False rc Item pe
          by (simp add: read_loop.simps [of p])
        with q show ?thesis by simp
      next
        case (Some out)
        with "1.prems" False rc Item pe q show ?thesis by (simp add: read_loop.simps [of p])
      qed
    qed
  qed
qed

function read_all :: "parser \<Rightarrow> rpm_file_entry \<Rightarrow> rpm_file_entry list result" where
  "read_all p f0 =
     bind (read_loop p f0) (\<lambda>(r, p').
       case r of None \<Rightarrow> return [] | Some e \<Rightarrow> bind (read_all p' e) (\<lambda>es. return (e # es)))"
  by pat_completeness auto
termination by (relation "measure (\<lambda>(p, _). rank p)") (auto dest: read_loop_rank)

declare read_all.simps [simp del]

definition read_files :: "exn option \<Rightarrow> parser \<Rightarrow> rpm_file_entry list result" where
  "read_files fdopen p = bind (open_payload fdopen p) (\<lambda>p. read_all p \<lparr>infos = [], contents = []\<rparr>)"

definition all_names :: "rpm_file_entry list \<Rightarrow> string list" where
  "all_names es = concat (map entry_names es)"

lemma read_all_ghosts: "read_all p f0 = Inr es \<Longrightarrow> ghosts_ok p \<Longrightarrow> all_names es = unseen (ghost_files p)"
proof (induction p f0 arbitrary: es rule: read_all.induct)
  case (1 p f0)
  then obtain r p' where r: "read_loop p f0 = Inr (r, p')"
    by (auto simp: read_all.simps [of p])
  then have g: "read_file_ghost p f0 = Inr (r, p')"
    using "1.prems"(2) by (simp add: read_loop.simps [of p] ghosts_ok_def)
  show ?case
  proof (cases r)
    case None
    with r "1.prems" read_file_ghost_reports [OF g] show ?thesis by (simp add: read_all.simps [of p] all_names_def)
  next
    case (Some e)
    with r "1.prems" obtain es' where es: "read_all p' e = Inr es'" "es = e # es'" by (auto simp: read_all.simps [of p])
    with Some r read_file_ghost_reports [OF g "1.prems"(2)] "1.IH" [of "(r, p')" r p' e es'] show ?thesis
      by (auto simp: all_names_def)
  qed
qed

lemma unseen_names:
  assumes "sorted_map (files p)"
  shows "distinct (unseen (files p)) \<and> set (unseen (files p)) = known_names p - seen_names p"
proof -
  have d: "distinct (map fst (files p))" using assms by (simp add: strict_sorted_iff)
  then have "distinct (unseen (files p))" unfolding unseen_def by (rule distinct_map_filter)
  moreover have "nm \<in> set (unseen (files p)) \<longleftrightarrow> nm \<in> known_names p - seen_names p" for nm
  proof -
    have "nm \<in> set (unseen (files p)) \<longleftrightarrow> (\<exists>ix. map_find (files p) nm = Some ix \<and> \<not> seen ix)"
      by (force simp: unseen_def map_find_in [OF assms])
    then show ?thesis by (auto simp: known_names_def seen_names_def)
  qed
  ultimately show ?thesis by blast
qed

lemma read_all_once:
  "read_all p f0 = Inr es \<Longrightarrow> parser_ok p \<Longrightarrow> \<not> reached_ghosts p \<Longrightarrow>
   distinct (all_names es) \<and> set (all_names es) = known_names p - seen_names p"
proof (induction p f0 arbitrary: es rule: read_all.induct)
  case (1 p f0)
  then obtain r p' where r: "read_loop p f0 = Inr (r, p')"
    by (auto simp: read_all.simps [of p])
  from read_loop_step [OF this "1.prems"(2,3)] show ?case
  proof cases
    case (reported e)
    with r "1.prems" obtain es' where es: "read_all p' e = Inr es'" "es = e # es'" by (auto simp: read_all.simps [of p])
    have "distinct (all_names es') \<and> set (all_names es') = known_names p' - seen_names p'"
      using "1.IH" [of "(r, p')" r p' e es'] r reported es "1.prems" by (auto simp: reports_def)
    with reported(2) es show ?thesis by (auto simp: all_names_def reports_def)
  next
    case (trailer_read q q' f1)
    have ok: "parser_ok q" using trailer_read(1) by (simp add: reports_def)
    then have "ghosts_ok q'"
      using trailer_read(2) by (auto simp: ghosts_ok_def parser_ok_def map_find_in)
    have "read_loop q' f1 = Inr (r, p')"
      using trailer_read(3) \<open>ghosts_ok q'\<close> by (simp add: read_loop.simps [of q'] ghosts_ok_def)
    with r have "read_all q' f1 = read_all p f0" by (simp add: read_all.simps [of p f0] read_all.simps [of q' f1])
    then have "all_names es = unseen (files q)"
      using read_all_ghosts [of q' f1 es] \<open>ghosts_ok q'\<close> trailer_read(2) "1.prems"(1) by simp
    then show ?thesis using unseen_names [of q] ok trailer_read(1) by (simp add: parser_ok_def reports_def)
  qed
qed


lemma header_loop_ok:
  assumes "\<forall>(i, f) \<in> set xs. i < length (fi p) \<and> fi p ! i = f" and "parser_ok p"
  shows "parser_ok (header_loop xs p) \<and> known_names (header_loop xs p) = known_names p \<union> fi_fn ` snd ` set xs \<and>
    (seen_names p = {} \<longrightarrow> seen_names (header_loop xs p) = {}) \<and>
    fi (header_loop xs p) = fi p \<and> reached_ghosts (header_loop xs p) = reached_ghosts p \<and>
    payload (header_loop xs p) = payload p"
  using assms
proof (induction xs arbitrary: p)
  case (Cons x rest)
  obtain i f where x: "x = (i, f)" by (cases x)
  let ?m = "map_assign (fi_fn f) \<lparr>fx = i, seen = False\<rparr> (files p)"
  let ?q = "p\<lparr>files := ?m\<rparr>"
  let ?r = "if hardlink_ino f > 0 then ?q\<lparr>hardlinks := multimap_insert (hardlink_ino f) i (hardlinks p)\<rparr> else ?q"
  have s: "sorted_map (files p)" using Cons.prems x by (simp add: parser_ok_def)
  have find: "map_find ?m k = (if k = fi_fn f then Some \<lparr>fx = i, seen = False\<rparr> else map_find (files p) k)" for k
    using map_find_assign [OF s] by simp
  have step: "header_loop ((i, f) # rest) p = header_loop rest ?r" by (simp add: Let_def)
  have r: "fi ?r = fi p" "files ?r = ?m" "reached_ghosts ?r = reached_ghosts p" "payload ?r = payload p" by simp_all
  have ok: "parser_ok ?r" using Cons.prems x s by (auto simp: parser_ok_def find)
  have known: "known_names ?r = insert (fi_fn f) (known_names p)" by (auto simp: known_names_def find)
  have seen: "seen_names p = {} \<longrightarrow> seen_names ?r = {}" by (auto simp: seen_names_def find)
  have "parser_ok (header_loop rest ?r) \<and> known_names (header_loop rest ?r) = known_names ?r \<union> fi_fn ` snd ` set rest \<and>
    (seen_names ?r = {} \<longrightarrow> seen_names (header_loop rest ?r) = {}) \<and>
    fi (header_loop rest ?r) = fi ?r \<and> reached_ghosts (header_loop rest ?r) = reached_ghosts ?r \<and>
    payload (header_loop rest ?r) = payload ?r"
    using Cons.prems x ok r by (intro Cons.IH) auto
  then show ?case unfolding x step using r known seen by auto
qed simp

definition fresh_parser :: "rpm_header \<Rightarrow> pipe \<Rightarrow> parser" where
  "fresh_parser h rest =
     \<lparr>header = h, fi = [], payload = rest, payload_is_open = False, reached_ghosts = False,
      files = [], ghost_files = [], hardlinks = []\<rparr>"

lemma open_payload_ok:
  assumes "open_payload fdopen (fresh_parser h rest) = Inr p"
  obtains fs where "header_files h = Some fs" and "parser_ok p" and "known_names p = set (map fi_fn fs)"
    and "seen_names p = {}" and "\<not> reached_ghosts p" and "payload p = rest"
proof -
  from assms obtain fs where fs: "header_files h = Some fs"
    and p: "p = (header_loop (enumerate 0 fs) ((fresh_parser h rest)\<lparr>fi := fs\<rparr>))\<lparr>payload_is_open := True\<rparr>"
    by (auto simp: open_payload_def get_files_from_header_def fresh_parser_def split: option.splits)
  let ?p = "(fresh_parser h rest)\<lparr>fi := fs\<rparr>"
  have "\<forall>(i, f) \<in> set (enumerate 0 fs). i < length (fi ?p) \<and> fi ?p ! i = f"
    by (auto simp: in_set_enumerate_eq)
  moreover have "parser_ok ?p" by (simp add: parser_ok_def fresh_parser_def)
  moreover have "known_names ?p = {}" "seen_names ?p = {}" "\<not> reached_ghosts ?p" "payload ?p = rest"
    by (simp_all add: known_names_def seen_names_def fresh_parser_def)
  ultimately have l: "parser_ok (header_loop (enumerate 0 fs) ?p)"
    "known_names (header_loop (enumerate 0 fs) ?p) = fi_fn ` snd ` set (enumerate 0 fs)"
    "seen_names (header_loop (enumerate 0 fs) ?p) = {}" "\<not> reached_ghosts (header_loop (enumerate 0 fs) ?p)"
    "payload (header_loop (enumerate 0 fs) ?p) = rest"
    using header_loop_ok [of "enumerate 0 fs" ?p] by auto
  have "snd ` set (enumerate 0 fs) = set fs" by (metis map_snd_enumerate list.set_map)
  with l p fs show ?thesis
    by (intro that [of fs]) (simp_all add: parser_ok_def known_names_def seen_names_def)
qed

lemma read_files_once:
  assumes "read_files fdopen (fresh_parser h rest) = Inr es"
  shows "\<exists>fs. header_files h = Some fs \<and> distinct (all_names es) \<and> set (all_names es) = set (map fi_fn fs)"
proof -
  from assms obtain p where p: "open_payload fdopen (fresh_parser h rest) = Inr p"
    and es: "read_all p \<lparr>infos = [], contents = []\<rparr> = Inr es" by (auto simp: read_files_def)
  from p show ?thesis
  proof (rule open_payload_ok)
    fix fs
    assume "header_files h = Some fs" "parser_ok p" "known_names p = set (map fi_fn fs)" "seen_names p = {}"
      "\<not> reached_ghosts p"
    with read_all_once [OF es] show ?thesis by auto
  qed
qed

text \<open>
  C5. When a package is read to the end without an error, the files reported are exactly the files
  of its header, each of them once, whatever the order of the archive, the hard links and the ghosts.
\<close>

theorem rpm_files_exactly_once:
  assumes "read_files fdopen (fresh_parser h rest) = Inr es"
  shows "\<exists>fs. header_files h = Some fs \<and> distinct (all_names es) \<and> set (all_names es) = set (map fi_fn fs)"
  using assms by (rule read_files_once)

section \<open>Archives are read back\<close>

text \<open>The archive that \<open>rpmbuild\<close> writes: the \<open>newc\<close> format of cpio.\<close>

definition hexchar :: "nat \<Rightarrow> char" where
  "hexchar d = ''0123456789abcdef'' ! d"

fun hexn :: "nat \<Rightarrow> nat \<Rightarrow> string" where
  "hexn 0 n = []"
| "hexn (Suc k) n = hexn k (n div 16) @ [hexchar (n mod 16)]"

definition newc_values :: "nat \<Rightarrow> nat \<Rightarrow> nat list" where
  "newc_values nsize fsize = [0, 0, 0, 0, 1, 0, fsize, 0, 0, 0, 0, nsize, 0]"

definition newc_header :: "nat \<Rightarrow> nat \<Rightarrow> string" where
  "newc_header nsize fsize = concat (map (hexn 8) (newc_values nsize fsize))"

definition padding :: "nat \<Rightarrow> u8 list" where
  "padding n = replicate ((4 - n mod 4) mod 4) 0"

definition newc_entry :: "string \<Rightarrow> u8 list \<Rightarrow> u8 list" where
  "newc_entry nm data =
     map byte_of_char (''070701'' @ newc_header (length nm + 1) (length data)) @
     map byte_of_char (nm @ [NUL]) @ padding (6 + 104 + (length nm + 1)) @ data @ padding (length data)"

lemma hexchar_digit: "d < 16 \<Longrightarrow> hex_digit (hexchar d) = int d"
proof -
  have "list_all (\<lambda>d. hex_digit (hexchar d) = int d) [0..<16]" by code_simp
  then show "d < 16 \<Longrightarrow> ?thesis" by (simp add: list_all_iff)
qed

lemma hexn_length [simp]: "length (hexn k n) = k"
  by (induction k arbitrary: n) simp_all

lemma hexn_digits: "\<not> list_ex (\<lambda>c. hex_digit c < 0) (hexn k n)"
  by (induction k arbitrary: n) (simp_all add: hexchar_digit)

lemma hexn_value: "n < 16 ^ k \<Longrightarrow> numeral_value hex_digit 16 (hexn k n) = n"
proof (induction k arbitrary: n)
  case (Suc k)
  then have "numeral_value hex_digit 16 (hexn k (n div 16)) = n div 16"
    by (intro Suc.IH) (simp add: less_mult_imp_div_less mult.commute)
  then show ?case by (simp add: numeral_value_def hexchar_digit)
qed (simp add: numeral_value_def)

lemma slice_concat: "k < length vs \<Longrightarrow> slice (concat (map (hexn 8) vs)) (8 * k) 8 = hexn 8 (vs ! k)"
proof (induction vs arbitrary: k)
  case (Cons v vs)
  then show ?case by (cases k) (simp_all add: slice_def)
qed simp

lemma parse_newc:
  assumes "nsize < 2 ^ 32" and "fsize < 2 ^ 32"
  shows "\<exists>hdr. parse (newc_header nsize fsize) 104 zero_entry [] = Inr (True, hdr, []) \<and>
    unat (namesize hdr) = nsize \<and> unat (filesize hdr) = fsize"
proof -
  let ?buf = "newc_header nsize fsize"
  have len: "length ?buf = 104" by (simp add: newc_header_def newc_values_def)
  have at: "slice ?buf (8 * k) 8 = hexn 8 (newc_values nsize fsize ! k)" if "k < 13" for k
    using that slice_concat [of k "newc_values nsize fsize"] by (simp add: newc_header_def newc_values_def)
  note fields = at [of 0] at [of 1] at [of 2] at [of 3] at [of 4] at [of 5] at [of 6] at [of 7] at [of 8]
    at [of 9] at [of 10] at [of 11] at [of 12]
  have bad: "first_bad hex_digit ?buf 0 newc_statements = None"
    using fields by (simp add: newc_statements_def hexn_digits)
  let ?hdr = "filled hex_digit 16 ?buf 0 newc_statements zero_entry"
  have w: "total_width newc_statements = 104" "list_all hex.supported newc_statements"
    by (simp_all add: newc_statements_def)
  have "parse ?buf 104 zero_entry [] = Inr (True, ?hdr, [])"
    using hex.finish_run [OF w(2), of ?buf zero_entry "[]"] len bad unfolding w(1) by (simp add: parse_def)
  moreover have "namesize ?hdr = of_nat nsize" "filesize ?hdr = of_nat fsize"
    using fields assms by (simp_all add: newc_statements_def newc_values_def hexn_value)
  then have "unat (namesize ?hdr) = nsize" "unat (filesize ?hdr) = fsize"
    using assms by (simp_all add: unsigned_of_nat take_bit_nat_eq_self)
  ultimately show ?thesis by blast
qed

abbreviation whole :: "u8 list \<Rightarrow> pipe" where
  "whole bs \<equiv> \<lparr>avail = bs, rets = []\<rparr>"

lemma fread_whole:
  assumes "0 < length xs" and "n = length xs"
  shows "fread at_end during old n (whole (xs @ ys)) = (Inr xs, whole ys)"
  using assms by (auto simp: fread_def fd_read_def read_size_def)

lemma read_padding_whole: "read_padding at_end during n (whole (padding n @ ys)) = (Inr (), whole ys)"
proof (induction "(4 - n mod 4) mod 4" arbitrary: n)
  case 0
  moreover have "n mod 4 < 4" by simp
  ultimately have "n mod 4 = 0" by (cases "n mod 4 = 0") auto
  then show ?case by (simp add: read_padding.simps [of _ _ n] padding_def)
next
  case (Suc k)
  have less: "n mod 4 < 4" by simp
  have ne: "n mod 4 \<noteq> 0" using Suc.hyps(2) by (intro notI) simp
  with Suc.hyps(2) less have "Suc k = 4 - n mod 4" by simp
  with less ne have k: "n mod 4 \<noteq> 0" "k = (4 - Suc n mod 4) mod 4" by (auto simp: mod_Suc)
  have "padding n = [0] @ padding (Suc n)"
    unfolding padding_def Suc.hyps(2) [symmetric] k(2) [symmetric] by simp
  then show ?case
    using k Suc.hyps(1) [OF k(2)] fread_whole [of "[0]" 1 at_end during None "padding (Suc n) @ ys"]
    by (simp add: read_padding.simps [of _ _ n])
qed

definition is_trailer :: "string \<Rightarrow> bool" where
  "is_trailer nm \<longleftrightarrow> length nm = 10 \<and> map byte_of_char nm = trailer"

lemma read_cpio_header_newc:
  assumes "nsize < 2 ^ 32" and "fsize < 2 ^ 32" and "0 < nsize"
  shows "\<exists>hdr. read_cpio_header (whole (map byte_of_char (''070701'' @ newc_header nsize fsize) @ ys)) =
      (Inr (104, hdr), whole ys) \<and> unat (namesize hdr) = nsize \<and> unat (filesize hdr) = fsize"
proof -
  let ?magic = "map byte_of_char ''070701''" and ?hdr = "newc_header nsize fsize"
  have len: "length ?hdr = 104" by (simp add: newc_header_def newc_values_def)
  have chars: "map char_of_byte (map byte_of_char cs) = cs" for cs by (induction cs) simp_all
  obtain hdr where hdr: "parse ?hdr 104 zero_entry [] = Inr (True, hdr, [])"
    "unat (namesize hdr) = nsize" "unat (filesize hdr) = fsize"
    using parse_newc [OF assms(1,2)] by blast
  have magic: "fread a d o' 6 (whole (?magic @ zs)) = (Inr ?magic, whole zs)" for a d o' zs
    by (rule fread_whole) simp_all
  have head: "fread a d o' 104 (whole (map byte_of_char ?hdr @ zs)) = (Inr (map byte_of_char ?hdr), whole zs)" for a d o' zs
    using len by (intro fread_whole) auto
  have ch: "cpio_header_length (map char_of_byte ?magic) = 104"
    unfolding chars by (simp add: cpio_header_length_def)
  have "namesize hdr \<noteq> 0" using hdr(2) assms(3) by auto
  then have "parse_cpio_header 104 (map byte_of_char ?hdr) = Inr (104, hdr)"
    unfolding parse_cpio_header_def chars using hdr(1) by simp
  then have "read_cpio_header (whole (?magic @ map byte_of_char ?hdr @ ys)) = (Inr (104, hdr), whole ys)"
    unfolding read_cpio_header_def magic pbind_simps Let_def ch head by simp
  with hdr show ?thesis by (metis append.assoc map_append)
qed

lemma read_cpio_newc:
  assumes "length nm + 1 < 2 ^ 32" and "length data < 2 ^ 32"
  shows "read_cpio old (whole (newc_entry nm data @ ys)) =
    (if is_trailer nm then (Inr Trailer, whole (data @ padding (length data) @ ys))
     else (Inr (Item (map byte_of_char (nm @ [NUL])) data), whole ys))"
proof -
  let ?nm = "map byte_of_char (nm @ [NUL])" and ?n = "length nm + 1"
  have pos: "0 < ?n" by simp
  obtain hdr where hdr: "read_cpio_header (whole (newc_entry nm data @ ys)) =
      (Inr (104, hdr), whole (?nm @ padding (6 + 104 + ?n) @ data @ padding (length data) @ ys))"
    "unat (namesize hdr) = ?n" "unat (filesize hdr) = length data"
    using read_cpio_header_newc [OF assms pos, of "?nm @ padding (6 + 104 + ?n) @ data @ padding (length data) @ ys"]
    unfolding newc_entry_def append.assoc by blast
  have name: "fread a d o' ?n (whole (?nm @ zs)) = (Inr ?nm, whole zs)" for a d o' zs
    by (rule fread_whole) simp_all
  have contents: "(if length data > 0 then fread a d o' (length data) (whole (data @ zs)) else (Inr [], whole (data @ zs))) =
      (Inr data, whole zs)" for a d o' zs
    by (simp add: fread_whole)
  have tr: "(?n = length trailer + 1 \<and> take (length trailer) ?nm = trailer) \<longleftrightarrow> is_trailer nm"
    by (auto simp: is_trailer_def trailer_def)
  show ?thesis
    unfolding read_cpio_def hdr(1) pbind_simps prod.case Let_def hdr(2,3) name read_padding_whole tr
    using contents by (simp add: read_padding_whole)
qed


text \<open>
  A plain file of the header: an absolute path without NUL, not a hard link, not a ghost, with a
  digest algorithm that the code knows. In the archive its name has a dot in front.
\<close>

definition plain_file :: "rpm_fi \<Rightarrow> bool" where
  "plain_file f \<longleftrightarrow> (\<exists>w. fi_fn f = CHR ''/'' # w) \<and> NUL \<notin> set (fi_fn f) \<and> length (fi_fn f) + 2 < 2 ^ 32 \<and>
     hardlink_ino f = 0 \<and> fi_flags f AND 0x40 = 0 \<and> fi_digest_algo f \<in> {1, 2, 8}"

definition archive :: "(rpm_fi \<times> u8 list) list \<Rightarrow> u8 list" where
  "archive xs = concat (map (\<lambda>(f, data). newc_entry (CHR ''.'' # fi_fn f) data) xs) @ newc_entry ''TRAILER!!!'' []"

definition file_of :: "rpm_fi \<times> u8 list \<Rightarrow> rpm_file_entry \<Rightarrow> bool" where
  "file_of x e \<longleftrightarrow> (\<exists>info. get_file_info (fst x) = Inr info \<and> e = \<lparr>infos = [info], contents = snd x\<rparr>)"

lemma plain_info:
  assumes "plain_file f"
  obtains info where "get_file_info f = Inr info" and "\<not> ghost info"
proof -
  obtain t where "digest_type (fi_digest_algo f) = Inr t" using assms by (auto simp: plain_file_def digest_type_def)
  then have "\<exists>info. get_file_info f = Inr info \<and> \<not> ghost info"
    using assms by (simp add: plain_file_def get_file_info_def Let_def ghost_def)
  with that show ?thesis by blast
qed

lemma byte_of_char_eq_iff: "byte_of_char c = byte_of_char d \<longleftrightarrow> c = d"
  by (metis char_of_byte_of_char)

lemma buffer_string_name:
  assumes "NUL \<notin> set nm"
  shows "buffer_string (map byte_of_char (nm @ [NUL])) = Inr nm"
proof -
  have z: "byte_of_char NUL = 0" by (simp add: byte_of_char_def)
  have nz: "\<forall>b \<in> set (map byte_of_char nm). b \<noteq> 0"
    using assms by (metis byte_of_char_eq_iff imageE list.set_map z)
  then have "takeWhile (\<lambda>b. b \<noteq> 0) (map byte_of_char nm @ [0]) = map byte_of_char nm"
    by (intro takeWhile_append_stop) auto
  then show ?thesis using z by (simp add: buffer_string_def comp_def)
qed

lemma normalized_dot: "nm = CHR ''/'' # w \<Longrightarrow> normalized_name (map byte_of_char (CHR ''.'' # nm @ [NUL])) = map byte_of_char (nm @ [NUL])"
  by (simp add: normalized_name_def)

lemma process_plain:
  assumes ok: "parser_ok p" and f: "plain_file f" "f \<in> set (fi p)" "distinct (map fi_fn (fi p))"
    and new: "fi_fn f \<in> known_names p - seen_names p" and "hardlinks p = []"
  shows "\<exists>e. file_of (f, data) e \<and>
    process_entry p (map byte_of_char (CHR ''.'' # fi_fn f @ [NUL])) data = Inr (Some e, mark_seen (fi_fn f) p)"
proof -
  obtain w where w: "fi_fn f = CHR ''/'' # w" using f by (auto simp: plain_file_def)
  have nul: "NUL \<notin> set (fi_fn f)" "NUL \<notin> set (CHR ''.'' # fi_fn f)" using f by (simp_all add: plain_file_def)
  obtain ix where ix: "map_find (files p) (fi_fn f) = Some ix" "\<not> seen ix"
    using new by (auto simp: known_names_def seen_names_def)
  then have at: "fx ix < length (fi p)" "fi_fn (fi p ! fx ix) = fi_fn f" using ok by (auto simp: parser_ok_def)
  then have "fi p ! fx ix = f" using f(2,3) by (metis distinct_map inj_onD nth_mem)
  then have seek: "seek_fi p (fx ix) = Inr f" using at by (simp add: seek_fi_def)
  obtain info where info: "get_file_info f = Inr info" "\<not> ghost info" using f(1) by (rule plain_info)
  have "buffer_string (normalized_name (map byte_of_char (CHR ''.'' # fi_fn f @ [NUL]))) = Inr (fi_fn f)"
    unfolding normalized_dot [OF w] by (rule buffer_string_name [OF nul(1)])
  moreover have "buffer_string (map byte_of_char (CHR ''.'' # fi_fn f @ [NUL])) = Inr (CHR ''.'' # fi_fn f)"
    using buffer_string_name [OF nul(2)] by simp
  ultimately have "process_entry p (map byte_of_char (CHR ''.'' # fi_fn f @ [NUL])) data =
      Inr (Some \<lparr>infos = [info], contents = data\<rparr>, mark_seen (fi_fn f) p)"
    unfolding process_entry_def using ix seek info \<open>hardlinks p = []\<close>
    by (simp add: equal_range_def single_file_def)
  then show ?thesis using info by (auto simp: file_of_def)
qed

lemma ghost_loop_none: "\<forall>(nm, ix) \<in> set m. seen ix \<Longrightarrow> ghost_loop p m f0 = Inr (None, p\<lparr>ghost_files := []\<rparr>)"
  by (induction p m f0 rule: ghost_loop.induct) auto

lemma not_trailer: "\<not> is_trailer (CHR ''.'' # nm)"
  by (auto simp: is_trailer_def trailer_def byte_of_char_eq_iff)

lemma mark_seen_hardlinks [simp]: "hardlinks (mark_seen nm p) = hardlinks p"
  by (simp add: mark_seen_def split: option.split)

lemma read_loop_item:
  assumes "payload p = whole (newc_entry nm data @ ys)" and "\<not> reached_ghosts p" and "\<not> is_trailer nm"
    and "length nm + 1 < 2 ^ 32" and "length data < 2 ^ 32"
    and "process_entry (p\<lparr>payload := whole ys\<rparr>) (map byte_of_char (nm @ [NUL])) data = Inr (Some e, p')"
  shows "read_loop p f0 = Inr (Some e, p')"
  using assms read_cpio_newc [OF assms(4,5), of "contents f0" ys]
  by (subst read_loop.simps) simp

lemma read_loop_end:
  assumes "payload p = whole (newc_entry ''TRAILER!!!'' [] @ ys)" and "\<not> reached_ghosts p" and "parser_ok p"
    and "known_names p - seen_names p = {}"
  shows "\<exists>p'. read_loop p f0 = Inr (None, p')"
proof -
  have "is_trailer ''TRAILER!!!''" by (simp add: is_trailer_def trailer_def)
  then have rc: "read_cpio (contents f0) (payload p) = (Inr Trailer, whole (padding 0 @ ys))"
    using read_cpio_newc [of "''TRAILER!!!''" "[]" "contents f0" ys] assms(1) by simp
  have "\<forall>(nm, ix) \<in> set (files p). seen ix"
  proof (intro ballI, clarify)
    fix nm ix
    assume "(nm, ix) \<in> set (files p)"
    then have find: "map_find (files p) nm = Some ix" using assms(3) by (simp add: parser_ok_def map_find_in)
    then have "nm \<in> seen_names p" using assms(4) by (auto simp: known_names_def)
    with find show "seen ix" by (simp add: seen_names_def)
  qed
  with rc assms(2) show ?thesis by (subst read_loop.simps) (simp add: read_file_ghost_def ghost_loop_none)
qed

lemma read_all_archive:
  assumes "parser_ok p" and "\<not> reached_ghosts p" and "hardlinks p = []" and "distinct (map fi_fn (fi p))"
    and "payload p = whole (archive xs @ rest)"
    and "\<forall>(f, data) \<in> set xs. plain_file f \<and> f \<in> set (fi p) \<and> length data < 2 ^ 32"
    and "distinct (map (fi_fn \<circ> fst) xs)" and "set (map (fi_fn \<circ> fst) xs) = known_names p - seen_names p"
  shows "\<exists>es. read_all p f0 = Inr es \<and> list_all2 file_of xs es"
  using assms
proof (induction xs arbitrary: p f0)
  case Nil
  then obtain p' where "read_loop p f0 = Inr (None, p')"
    using read_loop_end [of p rest f0] by (auto simp: archive_def)
  then show ?case by (simp add: read_all.simps [of p])
next
  case (Cons x xs)
  obtain f data where x: "x = (f, data)" by (cases x)
  let ?ys = "archive xs @ rest" and ?nm = "CHR ''.'' # fi_fn f"
  let ?q = "p\<lparr>payload := whole ?ys\<rparr>" and ?p = "(mark_seen (fi_fn f) (p\<lparr>payload := whole (archive xs @ rest)\<rparr>))"
  have pay: "payload p = whole (newc_entry ?nm data @ ?ys)" using Cons.prems(5) x by (simp add: archive_def)
  have f: "plain_file f" "f \<in> set (fi p)" "length data < 2 ^ 32" using Cons.prems(6) x by auto
  have new: "fi_fn f \<in> known_names p - seen_names p" using Cons.prems(8) x by auto
  have q: "parser_ok ?q" "known_names ?q = known_names p" "seen_names ?q = seen_names p"
    using Cons.prems(1) by (simp_all add: parser_ok_def known_names_def seen_names_def)
  obtain e where e: "file_of (f, data) e"
    "process_entry ?q (map byte_of_char (?nm @ [NUL])) data = Inr (Some e, ?p)"
    using process_plain [of ?q f data] q f new Cons.prems(3,4) by auto
  have loop: "read_loop p f0 = Inr (Some e, ?p)"
    using pay Cons.prems(2) not_trailer f e(2) by (intro read_loop_item) (auto simp: plain_file_def)
  obtain ix where "map_find (files ?q) (fi_fn f) = Some ix" "\<not> seen ix"
    using new by (auto simp: known_names_def seen_names_def)
  from reports_mark [OF q(1) this] have rep: "reports ?q [fi_fn f] ?p" .
  have "\<exists>es. read_all ?p e = Inr es \<and> list_all2 file_of xs es"
  proof (rule Cons.IH)
    show "parser_ok ?p" "\<not> reached_ghosts ?p" "hardlinks ?p = []" "distinct (map fi_fn (fi ?p))"
      using rep Cons.prems(2,3,4) by (simp_all add: reports_def)
    show "payload ?p = whole ?ys" by (simp add: mark_seen_def split: option.split)
    show "\<forall>(f, data) \<in> set xs. plain_file f \<and> f \<in> set (fi ?p) \<and> length data < 2 ^ 32"
      using rep Cons.prems(6) by (auto simp: reports_def)
    show "distinct (map (fi_fn \<circ> fst) xs)" using Cons.prems(7) by (simp only: list.map distinct.simps)
    let ?S = "set (map (fi_fn \<circ> fst) xs)"
    have "insert (fi_fn f) ?S = known_names p - seen_names p" using Cons.prems(8) x by simp
    moreover have "fi_fn f \<notin> ?S" using Cons.prems(7) x by simp
    moreover have "known_names ?p = known_names p" "seen_names ?p = seen_names p \<union> {fi_fn f}"
      using rep q by (simp_all add: reports_def)
    ultimately show "?S = known_names ?p - seen_names ?p" by blast
  qed
  then show ?case using loop e(1) x by (auto simp: read_all.simps [of p])
qed

lemma archive_read_back:
  assumes "header_files h = Some fs" and "distinct (map fi_fn fs)" and "\<forall>f \<in> set fs. plain_file f"
    and "set (map fst xs) = set fs" and "distinct (map fst xs)" and "\<forall>(f, data) \<in> set xs. length data < 2 ^ 32"
  shows "\<exists>es. read_files None (fresh_parser h (whole (archive xs @ rest))) = Inr es \<and> list_all2 file_of xs es"
proof -
  let ?p = "(header_loop (enumerate 0 fs) ((fresh_parser h (whole (archive xs @ rest)))\<lparr>fi := fs\<rparr>))\<lparr>payload_is_open := True\<rparr>"
  have open': "open_payload None (fresh_parser h (whole (archive xs @ rest))) = Inr ?p"
    using assms(1) by (simp add: open_payload_def get_files_from_header_def fresh_parser_def)
  have links: "\<forall>(i, f) \<in> set ys. hardlink_ino f = 0 \<Longrightarrow> hardlinks (header_loop ys p) = hardlinks p \<and> fi (header_loop ys p) = fi p" for ys p
    by (induction ys p rule: header_loop.induct) (auto simp: Let_def)
  have none: "\<forall>(i, f) \<in> set (enumerate 0 fs). hardlink_ino f = 0"
    using assms(3) by (auto simp: in_set_enumerate_eq plain_file_def)
  have inj: "inj_on fi_fn (set fs)" using assms(2) by (simp add: distinct_map)
  from open' show ?thesis
  proof (rule open_payload_ok)
    fix fs'
    assume fs': "header_files h = Some fs'" and p: "parser_ok ?p" "known_names ?p = set (map fi_fn fs')"
      "seen_names ?p = {}" "\<not> reached_ghosts ?p" "payload ?p = whole (archive xs @ rest)"
    have "\<exists>es. read_all ?p \<lparr>infos = [], contents = []\<rparr> = Inr es \<and> list_all2 file_of xs es"
    proof (rule read_all_archive [OF p(1,4) _ _ p(5)])
      show "hardlinks ?p = []" "distinct (map fi_fn (fi ?p))"
        using links [OF none] assms(2) by (simp_all add: fresh_parser_def)
      show "\<forall>(f, data) \<in> set xs. plain_file f \<and> f \<in> set (fi ?p) \<and> length data < 2 ^ 32"
        using links [OF none] assms(3,4,6) by (force simp: fresh_parser_def)
      show "distinct (map (fi_fn \<circ> fst) xs)"
        using assms(4,5) inj by (metis distinct_map map_map)
      show "set (map (fi_fn \<circ> fst) xs) = known_names ?p - seen_names ?p"
        using p fs' assms(1,4) by (metis Diff_empty list.set_map map_map option.inject)
    qed
    then show ?thesis using open' by (simp add: read_files_def)
  qed
qed


text \<open>
  C28. An archive of plain files, in any order, is read back: each file with its data and the
  information of the header, in the order of the archive, and then the end.
\<close>

theorem rpm_archive_roundtrip:
  assumes "header_files h = Some fs" and "distinct (map fi_fn fs)" and "\<forall>f \<in> set fs. plain_file f"
    and "set (map fst xs) = set fs" and "distinct (map fst xs)" and "\<forall>(f, data) \<in> set xs. length data < 2 ^ 32"
  shows "\<exists>es. read_files None (fresh_parser h (whole (archive xs @ rest))) = Inr es \<and> list_all2 file_of xs es"
  by (rule archive_read_back [OF assms])

definition sample_file :: "string \<Rightarrow> u32 \<Rightarrow> u64 \<Rightarrow> rpm_fi" where
  "sample_file nm i n =
     \<lparr>fi_fn = nm, fi_user = ''root'', fi_group = ''root'', fi_caps = [], fi_mode = 0x81a4, fi_mtime = 0, fi_inode = i,
      fi_flags = 0, fi_link = [], fi_size = n, fi_nlink = 1, fi_is_reg = True, fi_digest_algo = 8,
      fi_digest = []\<rparr>"

definition sample_header :: rpm_header where
  "sample_header =
     \<lparr>headerGet = (\<lambda>tag. None), headerIsSource = 0,
      header_files = Some [sample_file ''/etc/a'' 1 3, sample_file ''/etc/b'' 2 0]\<rparr>"

definition sample_archive :: "(rpm_fi \<times> u8 list) list" where
  "sample_archive = [(sample_file ''/etc/b'' 2 0, []), (sample_file ''/etc/a'' 1 3, [1, 2, 3])]"

lemma sample_plain: "\<forall>f \<in> set [sample_file ''/etc/a'' 1 3, sample_file ''/etc/b'' 2 0]. plain_file f"
  by (simp add: plain_file_def sample_file_def hardlink_ino_def)

theorem rpm_archive_roundtrip_witness:
  "\<exists>es. read_files None (fresh_parser sample_header (whole (archive sample_archive @ []))) = Inr es \<and>
     list_all2 file_of sample_archive es"
  by (rule rpm_archive_roundtrip [OF _ _ sample_plain])
     (auto simp: sample_header_def sample_archive_def sample_file_def)

theorem rpm_files_exactly_once_witness:
  "\<exists>es. read_files None (fresh_parser sample_header (whole (archive sample_archive @ []))) = Inr es \<and>
     distinct (all_names es) \<and> set (all_names es) = {''/etc/a'', ''/etc/b''}"
proof -
  obtain es where es: "read_files None (fresh_parser sample_header (whole (archive sample_archive @ []))) = Inr es"
    using archive_read_back [OF _ _ sample_plain, of sample_header sample_archive "[]"]
    by (auto simp: sample_header_def sample_archive_def sample_file_def)
  with rpm_files_exactly_once [OF es] show ?thesis by (auto simp: sample_header_def sample_file_def)
qed

text \<open>
  The check of a group of hard links compares the digests twice and never the sizes.
\<close>

lemma check_links_digests:
  "check_links ref qs = Inr () \<longleftrightarrow> (\<forall>q \<in> set qs. csum_value (file_digest q) = ref)"
  by (induction ref qs rule: check_links.induct) simp_all

lemma check_links_never_hash:
  "check_links ref qs = Inl x \<Longrightarrow> \<exists>q \<in> set qs. x = Rpm_parser_exception (''hard link size mismatch: '' @ file_name q)"
  by (induction ref qs rule: check_links.induct) (auto split: if_splits)

text \<open>
  A payload that ends early: when \<open>Fread\<close> returns only part of the contents, the file is reported
  with the bytes of the file before it in place of the missing ones.
\<close>

lemma fread_stale_bytes:
  assumes "avail p = xs" and "rets p = []" and "0 < length xs" and "length xs < n"
  shows "fread at_end during (Some (resize n old)) n p = (Inr (xs @ drop (length xs) (resize n old)), \<lparr>avail = [], rets = []\<rparr>)"
  using assms by (cases p) (auto simp: fread_def fd_read_def read_size_def)

text \<open>The dependencies of a package are the entries of the three arrays, side by side.\<close>

lemma deps_loop_zip:
  "deps_loop k fname vname ns fs vs =
     (if length ns \<le> length fs \<and> length ns \<le> length vs then
        Inr (map (\<lambda>(n, f, v). \<lparr>capability = n, dep_version = v, dep_kind = k, dep_flags = sint f\<rparr>) (zip ns (zip fs vs)))
      else if length fs \<le> length vs then
        throw (Rpm_parser_exception (''missing entries in '' @ fname @ '' header''))
      else throw (Rpm_parser_exception (''missing entries in '' @ vname @ '' header'')))"
  by (induction k fname vname ns fs vs rule: deps_loop.induct) auto

end
