(* ===== verification/Pg_query.thy ===== *)
theory Pg_query
  imports Endian Strings Hash
begin

text \<open>
  Access to PostgreSQL: \<open>include/cxxll/pg_query.hpp\<close>, \<open>pg_private.hpp\<close>, \<open>pg_response.hpp\<close>,
  \<open>lib/cxxll/pg_private.cpp\<close> and \<open>pgresult_handle.cpp\<close>. The templates for each number of parameters are
  one function on lists of parameters. The server with libpq in front of it is a parameter: what
  it answers to a statement, and the state it is in afterwards. A result is a table of values with
  the type and the format of its columns; a value outside the table is the null pointer.
\<close>

section \<open>Parameters of a statement\<close>

text \<open>The C++ types for which \<open>dispatch\<close> has a specialisation, pointers included.\<close>

datatype pg_arg =
    A_bool bool
  | A_short u16
  | A_int u32
  | A_long u64
  | A_cstr "string option"
  | A_string string
  | A_bytes "u8 list"
  | A_int_ptr "u32 option"
  | A_bytes_ptr "u8 list option"

fun arg_oid :: "pg_arg \<Rightarrow> nat" where
  "arg_oid (A_bool _) = 16"
| "arg_oid (A_short _) = 21"
| "arg_oid (A_int _) = 23"
| "arg_oid (A_long _) = 20"
| "arg_oid (A_cstr _) = 25"
| "arg_oid (A_string _) = 25"
| "arg_oid (A_bytes _) = 17"
| "arg_oid (A_int_ptr _) = 23"
| "arg_oid (A_bytes_ptr _) = 17"

definition store_bool :: "bool \<Rightarrow> u8 list" where
  "store_bool b = [if b then 1 else 0]"

definition store_short :: "u16 \<Rightarrow> u8 list" where
  "store_short val = [ucast (drop_bit 8 val), ucast val]"

definition store_int :: "bool \<Rightarrow> u32 \<Rightarrow> u8 list" where
  "store_int little val = store32 little (cpu_to_be_32 little val)"

definition store_long :: "bool \<Rightarrow> u64 \<Rightarrow> u8 list" where
  "store_long little val = store64 little (cpu_to_be_64 little val)"

definition string_bytes :: "string \<Rightarrow> u8 list" where
  "string_bytes s = map byte_of_char s"

text \<open>What \<open>store\<close> and \<open>length\<close> together give: the bytes the server sees, \<open>None\<close> for the null pointer.\<close>

fun arg_store :: "bool \<Rightarrow> pg_arg \<Rightarrow> u8 list option" where
  "arg_store little (A_bool b) = Some (store_bool b)"
| "arg_store little (A_short v) = Some (store_short v)"
| "arg_store little (A_int v) = Some (store_int little v)"
| "arg_store little (A_long v) = Some (store_long little v)"
| "arg_store little (A_cstr s) = map_option (string_bytes \<circ> cstr) s"
| "arg_store little (A_string s) = Some (string_bytes s)"
| "arg_store little (A_bytes bs) = Some bs"
| "arg_store little (A_int_ptr v) = map_option (store_int little) v"
| "arg_store little (A_bytes_ptr bs) = bs"

definition length_check :: "nat \<Rightarrow> nat result" where
  "length_check len =
     (if len \<ge> INT_MAX then throw (Pg_exception ''argument string length exceeds maximum'') else return len)"

fun arg_length :: "pg_arg \<Rightarrow> nat result" where
  "arg_length (A_bool _) = return 1"
| "arg_length (A_short _) = return 2"
| "arg_length (A_int _) = return 4"
| "arg_length (A_long _) = return 8"
| "arg_length (A_cstr s) = length_check (case s of None \<Rightarrow> 0 | Some s \<Rightarrow> length (cstr s))"
| "arg_length (A_string s) = length_check (length s)"
| "arg_length (A_bytes bs) = length_check (length bs)"
| "arg_length (A_int_ptr v) = return (case v of None \<Rightarrow> 0 | Some _ \<Rightarrow> 4)"
| "arg_length (A_bytes_ptr bs) = (case bs of None \<Rightarrow> return 0 | Some bs \<Rightarrow> length_check (length bs))"

record pg_param =
  param_oid :: nat
  param_value :: "u8 list option"

fun pg_params :: "bool \<Rightarrow> pg_arg list \<Rightarrow> pg_param list result" where
  "pg_params little [] = return []"
| "pg_params little (a # as) =
     bind (arg_length a) (\<lambda>_. bind (pg_params little as) (\<lambda>ps.
       return (\<lparr>param_oid = arg_oid a, param_value = arg_store little a\<rparr> # ps)))"

section \<open>Results\<close>

datatype exec_status =
    PGRES_EMPTY_QUERY | PGRES_COMMAND_OK | PGRES_TUPLES_OK | PGRES_COPY_OUT | PGRES_COPY_IN | PGRES_COPY_BOTH
  | PGRES_BAD_RESPONSE | PGRES_NONFATAL_ERROR | PGRES_FATAL_ERROR

record pg_result =
  res_status :: exec_status
  res_message :: string
  res_columns :: "(nat \<times> int) list"    \<comment> \<open>type and format of each column\<close>
  res_rows :: "u8 list option list list"

definition do_check :: "pg_result option \<Rightarrow> pg_result result" where
  "do_check res =
     (case res of
        None \<Rightarrow> throw (Pg_exception ''out of memory'')
      | Some r \<Rightarrow>
          if res_status r \<in> {PGRES_BAD_RESPONSE, PGRES_NONFATAL_ERROR, PGRES_FATAL_ERROR}
          then throw (Pg_exception (res_message r))
          else return r)"

abbreviation ntuples :: "pg_result \<Rightarrow> nat" where
  "ntuples r \<equiv> length (res_rows r)"

definition ftype :: "pg_result \<Rightarrow> nat \<Rightarrow> nat" where
  "ftype r col = (if col < length (res_columns r) then fst (res_columns r ! col) else 0)"

definition fformat :: "pg_result \<Rightarrow> nat \<Rightarrow> int" where
  "fformat r col = (if col < length (res_columns r) then snd (res_columns r ! col) else 0)"

text \<open>A field of the table; outside of the table libpq pretends that the value is NULL.\<close>

definition in_table :: "pg_result \<Rightarrow> nat \<Rightarrow> nat \<Rightarrow> bool" where
  "in_table r row col \<longleftrightarrow> row < ntuples r \<and> col < length (res_rows r ! row)"

definition field :: "pg_result \<Rightarrow> nat \<Rightarrow> nat \<Rightarrow> u8 list option" where
  "field r row col =
     (if in_table r row col then res_rows r ! row ! col else None)"

definition getlength :: "pg_result \<Rightarrow> nat \<Rightarrow> nat \<Rightarrow> nat" where
  "getlength r row col = (case field r row col of None \<Rightarrow> 0 | Some bs \<Rightarrow> length bs)"

definition is_binary :: "pg_result \<Rightarrow> nat \<Rightarrow> bool result" where
  "is_binary r col =
     (if fformat r col = 0 then return False
      else if fformat r col = 1 then return True
      else throw (Pg_exception ''invalid format type''))"

definition mismatch :: "string \<Rightarrow> nat \<Rightarrow> nat \<Rightarrow> exn" where
  "mismatch msg row col = Pg_exception (msg @ '' column '' @ dec col @ '' of row '' @ dec row)"

text \<open>The first character of a value; libpq puts a NUL behind each value.\<close>

definition first_char :: "u8 list \<Rightarrow> u8" where
  "first_char bs = (case bs of [] \<Rightarrow> 0 | b # _ \<Rightarrow> b)"

definition load_bool :: "pg_result \<Rightarrow> nat \<Rightarrow> nat \<Rightarrow> bool result" where
  "load_bool r row col =
     bind (is_binary r col) (\<lambda>binary.
       if binary \<and> (ftype r col \<noteq> 16 \<or> getlength r row col \<noteq> 1) then
         throw (Pg_exception ''format mismatch for boolean column'')
       else case field r row col of
           None \<Rightarrow> throw (mismatch ''NULL value in non-null boolean'' row col)
         | Some bs \<Rightarrow>
             if binary then
               (if first_char bs = 0 then return False
                else if first_char bs = 1 then return True
                else throw (Pg_exception ''invalid binary value in boolean column''))
             else
               (if first_char bs = byte_of_char (CHR ''f'') then return False
                else if first_char bs = byte_of_char (CHR ''t'') then return True
                else throw (Pg_exception ''invalid value in boolean column'')))"

text \<open>
  \<open>strtoll\<close> with base 10: the value and whether \<open>errno\<close> was set, which the GNU C library does only
  for a number out of range.
\<close>

definition strtoll :: "string \<Rightarrow> int \<times> bool" where
  "strtoll s =
     (let s1 = dropWhile isspace s;
          neg = (s1 \<noteq> [] \<and> hd s1 = CHR ''-'');
          s2 = (if s1 \<noteq> [] \<and> (hd s1 = CHR ''-'' \<or> hd s1 = CHR ''+'') then tl s1 else s1);
          n = int (digits_value 0 (takeWhile isdigit s2));
          v = (if neg then - n else n)
      in if v > 2 ^ 63 - 1 then (2 ^ 63 - 1, True) else if v < - (2 ^ 63) then (- (2 ^ 63), True) else (v, False))"

definition load_integer ::
    "nat \<Rightarrow> (u8 list \<Rightarrow> 'w::len word) \<Rightarrow> pg_result \<Rightarrow> nat \<Rightarrow> nat \<Rightarrow> 'w word result" where
  "load_integer oid decode r row col =
     bind (is_binary r col) (\<lambda>binary.
       if binary \<and> (ftype r col \<noteq> oid \<or> getlength r row col \<noteq> LENGTH('w) div 8) then
         throw (mismatch ''format mismatch for integer'' row col)
       else case field r row col of
           None \<Rightarrow> throw (mismatch ''NULL value in non-null integer'' row col)
         | Some bs \<Rightarrow>
             if binary then return (decode bs)
             else
               (let ptr = cstr (map char_of_byte bs); (llval, errno) = strtoll ptr in
                if llval = 0 \<and> errno \<or> sint (word_of_int llval :: 'w word) \<noteq> llval then
                  throw (Pg_exception (''conversion failure for INT'' @ dec (LENGTH('w) div 8) @ '' column: '' @
                    [CHR 0x22] @ quote ptr @ [CHR 0x22]))
                else return (word_of_int llval)))"

definition decode_short :: "u8 list \<Rightarrow> u16" where
  "decode_short bs = push_bit 8 (ucast (bs ! 0)) OR ucast (bs ! 1)"

definition load_short :: "pg_result \<Rightarrow> nat \<Rightarrow> nat \<Rightarrow> u16 result" where
  "load_short = load_integer 21 decode_short"

definition load_int :: "bool \<Rightarrow> pg_result \<Rightarrow> nat \<Rightarrow> nat \<Rightarrow> u32 result" where
  "load_int little = load_integer 23 (\<lambda>bs. be_to_cpu_32 little (load32 little bs))"

definition load_long :: "bool \<Rightarrow> pg_result \<Rightarrow> nat \<Rightarrow> nat \<Rightarrow> u64 result" where
  "load_long little = load_integer 20 (\<lambda>bs. be_to_cpu_64 little (load64 little bs))"

text \<open>
  Text and bytes: the null pointer gives the empty string. \<open>unescape\<close> is \<open>PQunescapeBytea\<close>, for
  bytes in text format.
\<close>

definition load_text :: "(u8 list \<Rightarrow> u8 list option) \<Rightarrow> pg_result \<Rightarrow> nat \<Rightarrow> nat \<Rightarrow> u8 list result" where
  "load_text unescape r row col =
     bind (is_binary r col) (\<lambda>binary.
       let bytea = ftype r col = 17 in
       if binary \<and> ftype r col \<noteq> 25 \<and> \<not> bytea then throw (Pg_exception ''format mismatch for string column'')
       else if binary \<or> \<not> bytea then return (case field r row col of None \<Rightarrow> [] | Some bs \<Rightarrow> bs)
       else case (if in_table r row col then unescape (case field r row col of None \<Rightarrow> [] | Some bs \<Rightarrow> bs) else None) of
           None \<Rightarrow> throw Bad_alloc
         | Some bs \<Rightarrow> return bs)"

section \<open>The connection\<close>

text \<open>
  The server: \<open>respond\<close> is \<open>PQexecParams\<close> with the format of the result, \<open>in_transaction\<close> whether
  \<open>PQtransactionStatus\<close> says so. The connection remembers the statements that were sent.
\<close>

record 's server =
  respond :: "string \<Rightarrow> pg_param list \<Rightarrow> int \<Rightarrow> 's \<Rightarrow> pg_result option \<times> 's"
  in_transaction :: "'s \<Rightarrow> bool"
  little_endian :: bool
  unescape_bytea :: "u8 list \<Rightarrow> u8 list option"

record 's conn =
  server_state :: 's
  sent :: "(string \<times> pg_param list) list"

definition execParamsCustom ::
    "'s server \<Rightarrow> string \<Rightarrow> pg_param list \<Rightarrow> int \<Rightarrow> 's conn \<Rightarrow> pg_result result \<times> 's conn" where
  "execParamsCustom srv sql ps fmt c =
     (case respond srv sql ps fmt (server_state c) of (res, s) \<Rightarrow>
        (do_check res, c\<lparr>server_state := s, sent := sent c @ [(sql, ps)]\<rparr>))"

definition exec :: "'s server \<Rightarrow> string \<Rightarrow> 's conn \<Rightarrow> pg_result result \<times> 's conn" where
  "exec srv sql c = execParamsCustom srv sql [] 0 c"

definition execBinary :: "'s server \<Rightarrow> string \<Rightarrow> 's conn \<Rightarrow> pg_result result \<times> 's conn" where
  "execBinary srv sql c = execParamsCustom srv sql [] 1 c"

definition private_pg_query ::
    "'s server \<Rightarrow> int \<Rightarrow> string \<Rightarrow> pg_arg list \<Rightarrow> 's conn \<Rightarrow> pg_result result \<times> 's conn" where
  "private_pg_query srv fmt sql as c =
     (case pg_params (little_endian srv) as of
        Inl e \<Rightarrow> (throw e, c)
      | Inr ps \<Rightarrow> execParamsCustom srv sql ps fmt c)"

definition pg_query :: "'s server \<Rightarrow> string \<Rightarrow> pg_arg list \<Rightarrow> 's conn \<Rightarrow> pg_result result \<times> 's conn" where
  "pg_query srv sql as c = private_pg_query srv 0 sql as c"

definition pg_query_binary :: "'s server \<Rightarrow> string \<Rightarrow> pg_arg list \<Rightarrow> 's conn \<Rightarrow> pg_result result \<times> 's conn" where
  "pg_query_binary srv sql as c = private_pg_query srv 1 sql as c"

section \<open>Values survive the way to the server and back\<close>

definition one_field :: "nat \<Rightarrow> int \<Rightarrow> u8 list option \<Rightarrow> pg_result" where
  "one_field oid fmt v = \<lparr>res_status = PGRES_TUPLES_OK, res_message = [], res_columns = [(oid, fmt)], res_rows = [[v]]\<rparr>"

lemma one_field_access [simp]:
  "ftype (one_field oid fmt v) 0 = oid" "fformat (one_field oid fmt v) 0 = fmt" "field (one_field oid fmt v) 0 0 = v"
  "in_table (one_field oid fmt v) 0 0"
  by (simp_all add: one_field_def ftype_def fformat_def field_def in_table_def)

lemma store_sizes [simp]:
  "length (store_bool b) = 1" "length (store_short v) = 2" "length (store_int little w) = 4"
  "length (store_long little x) = 8"
  by (simp_all add: store_bool_def store_short_def store_int_def store_cpu_to_be_32 le_bytes_def
      store_long_def store_cpu_to_be_64 le_bytes64_def)

lemma decode_stored_short: "decode_short (store_short v) = v"
proof (rule bit_word_eqI)
  fix n assume "n < LENGTH(16)"
  then have "n < 8 * 2" by simp
  then obtain q r where n: "n = 8 * q + r" and q: "q < 2" and r: "r < 8" by (rule byte_position)
  from q have "q = 0 \<or> q = 1" by arith
  with r show "bit (decode_short (store_short v)) n = bit v n"
    unfolding n by (elim disjE) (simp_all add: decode_short_def store_short_def bit_simps)
qed

lemma decode_stored_int: "be_to_cpu_32 little (load32 little (store_int little v)) = v"
  by (simp add: store_int_def store_cpu_to_be_32 load_be_to_cpu_32)

lemma decode_stored_long: "be_to_cpu_64 little (load64 little (store_long little v)) = v"
  by (simp add: store_long_def store_cpu_to_be_64 load_be_to_cpu_64)

text \<open>
  C29. A value that is sent as a parameter and comes back in a column of its type in binary format is
  read as the same value, for every type of the interface and on machines of either byte order.
\<close>

theorem pg_values_roundtrip:
  "load_bool (one_field (arg_oid (A_bool b)) 1 (arg_store little (A_bool b))) 0 0 = Inr b \<and>
   load_short (one_field (arg_oid (A_short s)) 1 (arg_store little (A_short s))) 0 0 = Inr s \<and>
   load_int little (one_field (arg_oid (A_int i)) 1 (arg_store little (A_int i))) 0 0 = Inr i \<and>
   load_long little (one_field (arg_oid (A_long l)) 1 (arg_store little (A_long l))) 0 0 = Inr l \<and>
   load_text unescape (one_field (arg_oid (A_string w)) 1 (arg_store little (A_string w))) 0 0 = Inr (string_bytes w) \<and>
   load_text unescape (one_field (arg_oid (A_bytes bs)) 1 (arg_store little (A_bytes bs))) 0 0 = Inr bs"
proof -
  have "load_bool (one_field 16 1 (Some (store_bool b))) 0 0 = Inr b"
    by (simp add: load_bool_def is_binary_def getlength_def store_bool_def first_char_def)
  moreover have "load_short (one_field 21 1 (Some (store_short s))) 0 0 = Inr s"
    by (simp add: load_short_def load_integer_def is_binary_def getlength_def decode_stored_short)
  moreover have "load_int little (one_field 23 1 (Some (store_int little i))) 0 0 = Inr i"
    by (simp add: load_int_def load_integer_def is_binary_def getlength_def decode_stored_int)
  moreover have "load_long little (one_field 20 1 (Some (store_long little l))) 0 0 = Inr l"
    by (simp add: load_long_def load_integer_def is_binary_def getlength_def decode_stored_long)
  ultimately show ?thesis by (simp add: load_text_def is_binary_def)
qed

text \<open>
  In text format, integers are read less strictly: text that is no number is 0, text behind a number
  is ignored, and a number out of range is read as the largest \<open>long long\<close>.
\<close>

lemma load_long_text_lenient:
  "load_long little (one_field 20 0 (Some (string_bytes ''none''))) 0 0 = Inr 0"
  "load_long little (one_field 20 0 (Some (string_bytes ''12 boxes''))) 0 0 = Inr 12"
  "load_long little (one_field 20 0 (Some (string_bytes ''99999999999999999999''))) 0 0 = Inr 0x7fffffffffffffff"
  by (simp_all add: load_long_def load_integer_def is_binary_def string_bytes_def strtoll_def cstr_def isspace_def
      isdigit_def digits_value_def)

end
