(* ===== verification/Database.thy ===== *)
theory Database
  imports Pg_query Rpm_parser Elf_image Maven_url Java_class PgText
begin

text \<open>
  The database client: \<open>lib/symboldb/database.cpp\<close>. Each member function sends the statements of the
  source, with their parameters, to the server of \<open>Pg_query\<close>; identifiers are the numbers the
  server assigned. Assertions on the state of the transaction are kept.
\<close>

section \<open>The client\<close>

type_synonym attribute_row = "int \<times> int \<times> string \<times> string \<times> string \<times> bool"

text \<open>The cache of attributes; an absent entry has the value 0, as \<open>operator[]\<close> makes it.\<close>

record 's database =
  db_conn :: "'s conn"
  file_attribute_cache :: "attribute_row \<Rightarrow> u32"

type_synonym ('s, 'a) op = "'s database \<Rightarrow> 'a result \<times> 's database"

definition on_conn :: "('s conn \<Rightarrow> 'a result \<times> 's conn) \<Rightarrow> ('s, 'a) op" where
  "on_conn f db = (case f (db_conn db) of (r, c) \<Rightarrow> (r, db\<lparr>db_conn := c\<rparr>))"

definition query :: "'s server \<Rightarrow> string \<Rightarrow> pg_arg list \<Rightarrow> ('s, pg_result) op" where
  "query srv sql as = on_conn (pg_query srv sql as)"

definition query_binary :: "'s server \<Rightarrow> string \<Rightarrow> pg_arg list \<Rightarrow> ('s, pg_result) op" where
  "query_binary srv sql as = on_conn (pg_query_binary srv sql as)"

text \<open>A statement whose result is dropped.\<close>

definition command :: "'s server \<Rightarrow> string \<Rightarrow> pg_arg list \<Rightarrow> ('s, unit) op" where
  "command srv sql as db = sbind (query srv sql as db) (\<lambda>_ db. (return (), db))"

definition plain :: "'s server \<Rightarrow> string \<Rightarrow> ('s, unit) op" where
  "plain srv sql db = sbind (on_conn (exec srv sql) db) (\<lambda>_ db. (return (), db))"

definition in_trans :: "'s server \<Rightarrow> 's database \<Rightarrow> bool" where
  "in_trans srv db \<longleftrightarrow> in_transaction srv (server_state (db_conn db))"

definition assert_trans :: "'s server \<Rightarrow> ('s, 'a) op \<Rightarrow> ('s, 'a) op" where
  "assert_trans srv m db = (if in_trans srv db then m db else (throw Assertion_failure, db))"

definition txn_begin :: "'s server \<Rightarrow> ('s, unit) op" where
  "txn_begin srv = plain srv ''BEGIN''"

definition txn_commit :: "'s server \<Rightarrow> ('s, unit) op" where
  "txn_commit srv = plain srv ''COMMIT''"

definition txn_rollback :: "'s server \<Rightarrow> ('s, unit) op" where
  "txn_rollback srv = plain srv ''ROLLBACK''"

definition txn_begin_no_sync :: "'s server \<Rightarrow> ('s, unit) op" where
  "txn_begin_no_sync srv = plain srv ''BEGIN; SET LOCAL synchronous_commit TO OFF''"

text \<open>
  A lock: inside a transaction it is released with it, outside a guard releases it when it is
  destroyed. \<open>advisory_unlock\<close> is the destructor, which ignores errors.
\<close>

datatype advisory_lock = Guard | Lock u32 u32

definition lock :: "'s server \<Rightarrow> u32 \<Rightarrow> u32 \<Rightarrow> ('s, advisory_lock) op" where
  "lock srv a b db =
     (if in_trans srv db then
        sbind (query srv ''SELECT pg_advisory_xact_lock($1, $2)'' [A_int a, A_int b] db) (\<lambda>_ db. (return Guard, db))
      else
        sbind (query srv ''SELECT pg_advisory_lock($1, $2)'' [A_int a, A_int b] db) (\<lambda>_ db. (return (Lock a b), db)))"

definition advisory_unlock :: "'s server \<Rightarrow> advisory_lock \<Rightarrow> 's database \<Rightarrow> 's database" where
  "advisory_unlock srv l db =
     (case l of
        Guard \<Rightarrow> db
      | Lock a b \<Rightarrow> snd (query srv ''SELECT pg_advisory_unlock($1, $2)'' [A_int a, A_int b] db))"

definition get_id :: "'s server \<Rightarrow> pg_result \<Rightarrow> u32 result" where
  "get_id srv r =
     (if ntuples r > 0 then
        bind (load_int (little_endian srv) r 0 0) (\<lambda>pid.
          if sint pid \<le> 0 then throw (Pg_exception ''database returned invalid ID'') else return pid)
      else return 0)"

definition get_id_force :: "'s server \<Rightarrow> pg_result \<Rightarrow> u32 result" where
  "get_id_force srv r =
     bind (get_id srv r) (\<lambda>pid.
       if sint pid \<le> 0 then throw (Pg_exception ''unexpected empty result set'') else return pid)"

section \<open>Packages\<close>

definition int_ptr :: "int \<Rightarrow> u32 option" where
  "int_ptr n = (if n \<ge> 0 then Some (word_of_int n) else None)"

definition intern_package :: "'s server \<Rightarrow> rpm_package_info \<Rightarrow> ('s, bool \<times> u32) op" where
  "intern_package srv pkg db =
     sbind (query_binary srv ''SELECT package_id FROM symboldb.package WHERE hash = decode($1, 'hex')''
              [A_string (hash pkg)] db) (\<lambda>res db.
     sbind (get_id srv res, db) (\<lambda>pid db.
       if sint pid > 0 then (return (False, pid), db)
       else
             sbind (query_binary srv
               (''INSERT INTO symboldb.package (name, epoch, version, release, arch, hash, source,'' @
                '' build_host, build_time, summary, description, license, rpm_group,'' @
                '' normalized, kind)'' @
                '' VALUES ($1, $2, $3, $4, $5, decode($6, 'hex'), $7,'' @
                '' $8, 'epoch'::TIMESTAMP WITHOUT TIME ZONE + '1 second'::interval * $9,'' @
                '' $10, $11, $12, $13, $14, $15::symboldb.rpm_kind)'' @
                '' RETURNING package_id'')
               [A_string (name pkg), A_int_ptr (int_ptr (epoch pkg)), A_string (version pkg),
                A_string (release pkg), A_string (rpm_package_info.arch pkg), A_string (hash pkg),
                A_cstr (if source_rpm pkg = [] then None else Some (source_rpm pkg)),
                A_string (build_host pkg), A_long (word_of_int (build_time pkg)), A_string (summary pkg),
                A_string (description pkg), A_string (license pkg), A_string (group pkg),
                A_bool (normalized pkg),
                A_cstr (Some (case kind pkg of Binary \<Rightarrow> ''binary'' | Package_set.Source \<Rightarrow> ''source''))] db)
               (\<lambda>res db. (bind (get_id_force srv res) (\<lambda>pid. return (True, pid)), db))))"

definition add_package_digest :: "'s server \<Rightarrow> u32 \<Rightarrow> u8 list \<Rightarrow> u64 \<Rightarrow> ('s, unit) op" where
  "add_package_digest srv pkg dig len db =
     (if length dig < 16 then (throw (Logic_error ''invalid digest length''), db)
      else if len > push_bit 60 1 then (throw (Logic_error ''invalid length''), db)
      else
        sbind (query srv (''SELECT 1 FROM symboldb.package_digest'' @
                '' WHERE package_id = $1 AND digest = $2 AND length = $3'')
                [A_int pkg, A_bytes dig, A_long len] db) (\<lambda>res db.
          if ntuples res > 0 then (return (), db)
          else command srv (''INSERT INTO symboldb.package_digest (package_id, digest, length)'' @
                 '' VALUES ($1, $2, $3)'') [A_int pkg, A_bytes dig, A_long len] db))"

definition add_package_url :: "'s server \<Rightarrow> u32 \<Rightarrow> string \<Rightarrow> ('s, unit) op" where
  "add_package_url srv pkg u =
     command srv ''SELECT symboldb.add_package_url($1, $2)'' [A_int pkg, A_cstr (Some u)]"

definition package_by_digest :: "'s server \<Rightarrow> u8 list \<Rightarrow> ('s, u32) op" where
  "package_by_digest srv dig db =
     (if length dig < 16 then (throw (Logic_error ''invalid digest length''), db)
      else
        sbind (query_binary srv ''SELECT package_id FROM symboldb.package_digest WHERE digest = $1''
                [A_bytes dig] db) (\<lambda>res db. (get_id srv res, db)))"

definition add_package_dependency :: "'s server \<Rightarrow> u32 \<Rightarrow> rpm_dependency \<Rightarrow> ('s, unit) op" where
  "add_package_dependency srv pkg dep =
     command srv (''INSERT INTO symboldb.package_dependency (package_id, kind, flags, capability, version)'' @
                  '' VALUES ($1, $2::symboldb.rpm_dependency_kind, $3, $4, $5)'')
       [A_int pkg, A_cstr (Some (dependency_to_string (dep_kind dep))), A_int (word_of_int (dep_flags dep)),
        A_string (capability dep), A_string (dep_version dep)]"

definition add_package_script :: "'s server \<Rightarrow> u32 \<Rightarrow> rpm_script \<Rightarrow> ('s, unit) op" where
  "add_package_script srv pkg sc db =
     sbind (pg_encode_array (script_prog sc), db) (\<lambda>prog.
          command srv (''INSERT INTO symboldb.package_script (package_id, kind, script, prog)'' @
                       '' VALUES ($1, $2::symboldb.rpm_script_kind, $3, $4::text[])'')
            [A_int pkg, A_cstr (Some (script_to_string (script_type sc))),
             A_cstr (if script_present sc then Some (script sc) else None), A_string prog])"

text \<open>A statement for each element of a sequence, until one fails.\<close>

fun for_each :: "('a \<Rightarrow> ('s, unit) op) \<Rightarrow> 'a list \<Rightarrow> ('s, unit) op" where
  "for_each f [] db = (return (), db)"
| "for_each f (x # xs) db = sbind (f x db) (\<lambda>_ db. for_each f xs db)"

definition add_package_trigger :: "'s server \<Rightarrow> u32 \<Rightarrow> rpm_trigger \<Rightarrow> u32 \<Rightarrow> ('s, unit) op" where
  "add_package_trigger srv pkg trigger idx db =
     sbind (command srv (''INSERT INTO symboldb.package_trigger_script (package_id, script_idx, script, prog)'' @
                         '' VALUES ($1, $2, $3, $4)'')
              [A_int pkg, A_int idx, A_string (trigger_script trigger), A_string (trigger_prog trigger)] db)
       (\<lambda>_. for_each (\<lambda>p. command srv
          (''INSERT INTO symboldb.package_trigger_condition (package_id, script_idx, flags, name, version)'' @
           '' VALUES ($1, $2, $3, $4, $5)'')
          [A_int pkg, A_int idx, A_int (word_of_int (condition_flags p)), A_string (condition_name p),
           A_string (condition_version p)]) (conditions trigger))"

section \<open>Files\<close>

definition intern_hash :: "'c nss \<Rightarrow> bool \<Rightarrow> rpm_file_info \<Rightarrow> u8 list result" where
  "intern_hash nss little info =
     hash_data nss md5
       (replicate 128 0
        @ store32 little (cpu_to_le_32 little (file_mode info))
        @ store32 little (cpu_to_le_32 little (flags info))
        @ store32 little (cpu_to_le_32 little (if file_normalized info then 1 else 0))
        @ string_bytes (user info) @ [0]
        @ string_bytes (file_group info) @ [0]
        @ string_bytes (capabilities info))"

definition intern_file_contents ::
    "'s server \<Rightarrow> rpm_file_info \<Rightarrow> u8 list \<Rightarrow> u8 list \<Rightarrow> ('s, bool \<times> u32) op" where
  "intern_file_contents srv info dig dat =
     assert_trans srv (\<lambda>db.
       let len = csum_length (file_digest info) in
       if sint len < 0 then (throw (Runtime_error ''file length out of range''), db)
       else
         sbind (query_binary srv ''SELECT * FROM symboldb.intern_file_contents($1, $2, $3)''
                  [A_long len, A_bytes dig, A_bytes dat] db) (\<lambda>res db.
           (bind (load_int (little_endian srv) res 0 0) (\<lambda>cid.
            bind (load_bool res 0 1) (\<lambda>added. return (added, cid))), db)))"

text \<open>The identifier of the attributes of a file, from the cache if it is there.\<close>

definition attribute_key :: "rpm_file_info \<Rightarrow> attribute_row" where
  "attribute_key info =
     (sint (file_mode info), sint (flags info), user info, file_group info, capabilities info, file_normalized info)"

definition intern_file_attribute :: "'c nss \<Rightarrow> 's server \<Rightarrow> rpm_file_info \<Rightarrow> ('s, u32) op" where
  "intern_file_attribute nss srv info db =
     (if sint (file_mode info) < 0 then (throw (Runtime_error ''file mode out of range''), db)
      else if sint (flags info) < 0 then (throw (Runtime_error ''file flags out of range''), db)
      else if file_attribute_cache db (attribute_key info) \<noteq> 0
        then (return (file_attribute_cache db (attribute_key info)), db)
      else
        sbind (intern_hash nss (little_endian srv) info, db) (\<lambda>row_hash db.
        sbind (query_binary srv ''SELECT symboldb.intern_file_attribute($1, $2, $3, $4, $5, $6, $7)''
                 [A_bytes row_hash, A_int (file_mode info), A_int (flags info), A_string (user info),
                  A_string (file_group info), A_string (capabilities info), A_bool (file_normalized info)] db) (\<lambda>res db.
        sbind (load_int (little_endian srv) res 0 0, db) (\<lambda>aid db.
          (return aid,
           db\<lparr>file_attribute_cache := (file_attribute_cache db)(attribute_key info := aid)\<rparr>)))))"

definition add_file_contents_id ::
    "'s server \<Rightarrow> u32 \<Rightarrow> string \<Rightarrow> u64 \<Rightarrow> u32 \<Rightarrow> u32 \<Rightarrow> u32 \<Rightarrow> ('s, u32) op" where
  "add_file_contents_id srv pkg nm tm inode cid aid =
     assert_trans srv (\<lambda>db.
       sbind (query_binary srv
                (''INSERT INTO symboldb.file (package_id, name, mtime, inode, contents_id, attribute_id)'' @
                 '' VALUES ($1, $2, $3, $4, $5, $6) RETURNING file_id'')
                [A_int pkg, A_string nm, A_long tm, A_int inode, A_int cid, A_int aid] db)
         (\<lambda>res db. (get_id_force srv res, db)))"

text \<open>The outputs of the second overload: file and contents, whether they are new, how much is stored.\<close>

record added_file =
  added_fid :: u32
  added_cid :: u32
  added :: bool
  contents_length :: u32

definition add_file ::
    "'c nss \<Rightarrow> 's server \<Rightarrow> u32 \<Rightarrow> rpm_file_info \<Rightarrow> u8 list \<Rightarrow> u8 list \<Rightarrow> ('s, added_file) op" where
  "add_file nss srv pkg info dig dat =
     assert_trans srv (\<lambda>db.
       let len = csum_length (file_digest info) in
       if sint len < 0 then (throw (Runtime_error ''file length out of range''), db)
       else if sint (file_mode info) < 0 then (throw (Runtime_error ''file mode out of range''), db)
       else if sint (file_ino info) < 0 then (throw (Runtime_error ''file inode out of range''), db)
       else if sint (file_mtime info) < 0 then (throw (Runtime_error ''file mtime out of range''), db)
       else
         sbind (intern_file_attribute nss srv info db) (\<lambda>aid db.
         sbind (query_binary srv ''SELECT * FROM symboldb.add_file($1, $2, $3, $4, $5, $6, $7, $8)''
                  [A_long len, A_bytes dig, A_bytes dat, A_int aid, A_int pkg,
                   A_int (file_ino info), A_int (file_mtime info), A_string (file_name info)] db) (\<lambda>res db.
           (bind (load_int (little_endian srv) res 0 0) (\<lambda>f.
            bind (load_int (little_endian srv) res 0 1) (\<lambda>c.
            bind (load_bool res 0 2) (\<lambda>a.
            bind (load_int (little_endian srv) res 0 3) (\<lambda>l.
              return \<lparr>added_fid = f, added_cid = c, added = a, contents_length = l\<rparr>)))), db))))"

definition update_contents_preview :: "'s server \<Rightarrow> u32 \<Rightarrow> u8 list \<Rightarrow> ('s, unit) op" where
  "update_contents_preview srv cid dat =
     assert_trans srv (command srv
       ''UPDATE symboldb.file_contents SET contents = $2 WHERE contents_id = $1'' [A_int cid, A_bytes dat])"

definition add_directory :: "'c nss \<Rightarrow> 's server \<Rightarrow> u32 \<Rightarrow> rpm_file_info \<Rightarrow> ('s, unit) op" where
  "add_directory nss srv pkg info =
     assert_trans srv (\<lambda>db.
       sbind (intern_file_attribute nss srv info db) (\<lambda>aid.
       command srv
         (''INSERT INTO symboldb.directory (package_id, attribute_id, name, mtime)'' @ '' VALUES ($1, $2, $3, $4)'')
         [A_int pkg, A_int aid, A_string (file_name info), A_long (ucast (file_mtime info)),
          A_bool (file_normalized info)]))"

definition add_symlink :: "'c nss \<Rightarrow> 's server \<Rightarrow> u32 \<Rightarrow> rpm_file_info \<Rightarrow> ('s, unit) op" where
  "add_symlink nss srv pkg info =
     assert_trans srv (\<lambda>db.
       if \<not> is_symlink info then (throw Assertion_failure, db)
       else if linkto info = [] then (throw (Runtime_error ''symlink with invalid target''), db)
       else
         sbind (intern_file_attribute nss srv info db) (\<lambda>aid.
         command srv
           (''INSERT INTO symboldb.symlink (package_id, attribute_id, name, target, mtime)'' @
            '' VALUES ($1, $2, $3, $4, $5)'')
           [A_int pkg, A_int aid, A_string (file_name info), A_string (linkto info),
            A_long (ucast (file_mtime info)), A_bool (file_normalized info)]))"

section \<open>ELF images\<close>

function add_program_headers :: "'s server \<Rightarrow> u32 \<Rightarrow> 'd program_header_range \<Rightarrow> ('s, unit) op" where
  "add_program_headers srv cid r db =
     (case ph_next r of
        (False, _) \<Rightarrow> (return (), db)
      | (True, r) \<Rightarrow>
          sbind (command srv
            (''INSERT INTO symboldb.elf_program_header (contents_id, type, file_offset, virt_addr, phys_addr,'' @
             '' file_size, memory_size, align, readable, writable, executable)'' @
             '' VALUES ($1, $2, $3, $4, $5, $6, $7, $8, $9, $10, $11)'')
            [A_int cid, A_long (ucast (p_type (ph_mem r))), A_long (p_offset (ph_mem r)),
             A_long (p_vaddr (ph_mem r)), A_long (p_paddr (ph_mem r)), A_long (p_filesz (ph_mem r)),
             A_long (p_memsz (ph_mem r)), A_int (ph_align r), A_bool (ph_readable r), A_bool (ph_writable r),
             A_bool (ph_executable r)] db) (\<lambda>_ db. add_program_headers srv cid r db))"
  by pat_completeness auto
termination
  by (relation "measure (\<lambda>(srv, cid, r, db). phnum (ph_image r) - ph_cnt r)")
    (auto simp: ph_next_def split: if_splits option.splits)

declare add_program_headers.simps [simp del]

definition add_elf_image :: "'s server \<Rightarrow> u32 \<Rightarrow> 'd elf_image \<Rightarrow> string option \<Rightarrow> ('s, unit) op" where
  "add_elf_image srv cid im so =
     assert_trans srv (\<lambda>db.
       sbind (command srv
         (''INSERT INTO symboldb.elf_file (contents_id, ei_class, ei_data, e_type, e_machine, arch, soname,'' @
          '' interp, build_id)'' @
          '' VALUES ($1, $2, $3, $4, $5, $6::symboldb.elf_arch, $7, $8, $9)'')
         [A_int cid, A_int (ucast (ei_class im)), A_int (ucast (ei_data im)), A_int (ucast (e_type im)),
          A_int (ucast (e_machine im)), A_cstr (elf_image.arch im), A_cstr so,
          A_cstr (if interp im = [] then None else Some (interp im)),
          A_bytes_ptr (if build_id im = [] then None else Some (build_id im))] db) (\<lambda>_.
       add_program_headers srv cid (program_header_range_new im)))"

definition add_elf_symbol_definition :: "'s server \<Rightarrow> u32 \<Rightarrow> elf_symbol_definition \<Rightarrow> ('s, unit) op" where
  "add_elf_symbol_definition srv cid d =
     assert_trans srv (\<lambda>db.
       sbind (visibility (symbol_other d), db) (\<lambda>vis.
       command srv
         (''INSERT INTO symboldb.elf_definition (contents_id, name, version, primary_version, symbol_type, binding,'' @
          '' section, xsection, visibility)'' @
          '' VALUES ($1, $2, $3, $4, $5, $6, $7, $8, $9::symboldb.elf_visibility)'')
         [A_int cid, A_cstr (Some (symbol_name d)), A_cstr (if vda_name d = [] then None else Some (vda_name d)),
          A_bool (default_version d), A_int (ucast (symbol_type d)), A_int (ucast (symbol_binding d)),
          A_short (section_index d), A_int_ptr (if has_xsection d then Some (xsection d) else None),
          A_cstr (Some vis)]))"

definition add_elf_symbol_reference :: "'s server \<Rightarrow> u32 \<Rightarrow> elf_symbol_reference \<Rightarrow> ('s, unit) op" where
  "add_elf_symbol_reference srv cid r =
     assert_trans srv (\<lambda>db.
       sbind (visibility (symbol_other r), db) (\<lambda>vis.
       command srv
         (''INSERT INTO symboldb.elf_reference (contents_id, name, version, symbol_type, binding, visibility)'' @
          '' VALUES ($1, $2, $3, $4, $5, $6::symboldb.elf_visibility)'')
         [A_int cid, A_string (symbol_name r), A_cstr (if vna_name_text r = [] then None else Some (vna_name_text r)),
          A_int (ucast (symbol_type r)), A_int (ucast (symbol_binding r)), A_cstr (Some vis)]))"

definition add_elf_needed :: "'s server \<Rightarrow> u32 \<Rightarrow> string \<Rightarrow> ('s, unit) op" where
  "add_elf_needed srv cid nm =
     assert_trans srv (command srv
       ''INSERT INTO symboldb.elf_needed (contents_id, name) VALUES ($1, $2)'' [A_int cid, A_cstr (Some nm)])"

definition add_elf_rpath :: "'s server \<Rightarrow> u32 \<Rightarrow> string \<Rightarrow> ('s, unit) op" where
  "add_elf_rpath srv cid nm =
     assert_trans srv (command srv
       ''INSERT INTO symboldb.elf_rpath (contents_id, path) VALUES ($1, $2)'' [A_int cid, A_cstr (Some nm)])"

definition add_elf_runpath :: "'s server \<Rightarrow> u32 \<Rightarrow> string \<Rightarrow> ('s, unit) op" where
  "add_elf_runpath srv cid nm =
     assert_trans srv (command srv
       ''INSERT INTO symboldb.elf_runpath (contents_id, path) VALUES ($1, $2)'' [A_int cid, A_cstr (Some nm)])"

definition add_elf_dynamic :: "'s server \<Rightarrow> u32 \<Rightarrow> u64 \<Rightarrow> u64 \<Rightarrow> ('s, unit) op" where
  "add_elf_dynamic srv cid t v =
     assert_trans srv (command srv
       ''INSERT INTO symboldb.elf_dynamic (contents_id, tag, value) VALUES ($1, $2, $3)''
       [A_int cid, A_long t, A_long v])"

definition add_elf_error :: "'s server \<Rightarrow> u32 \<Rightarrow> string \<Rightarrow> ('s, unit) op" where
  "add_elf_error srv cid message =
     assert_trans srv (command srv
       ''INSERT INTO symboldb.elf_error (contents_id, message) VALUES ($1, $2)'' [A_int cid, A_cstr (Some message)])"


section \<open>XML, Java and Python\<close>

definition add_xml_error :: "'s server \<Rightarrow> u32 \<Rightarrow> string \<Rightarrow> u32 \<Rightarrow> u8 list \<Rightarrow> u8 list \<Rightarrow> ('s, unit) op" where
  "add_xml_error srv cid message lineno bef aft =
     command srv
       (''INSERT INTO symboldb.xml_error (contents_id, message, line, before, after)'' @
        '' VALUES ($1, $2, $3, $4, $5)'')
       [A_int cid, A_cstr (Some message), A_long (ucast lineno), A_bytes bef, A_bytes aft]"

definition add_java_interface :: "'s server \<Rightarrow> u32 \<Rightarrow> class_data \<Rightarrow> nat \<Rightarrow> ('s, unit) op" where
  "add_java_interface srv classid jc i db =
     sbind (interface jc (of_nat i), db) (\<lambda>nm.
       command srv ''INSERT INTO symboldb.java_interface (class_id, name) VALUES ($1, $2)''
         [A_int classid, A_string nm])"

text \<open>\<open>std::sort\<close> and \<open>std::unique\<close>; names of common classes and of the class itself are left out.\<close>

definition add_java_references :: "'s server \<Rightarrow> u32 \<Rightarrow> string \<Rightarrow> string list \<Rightarrow> ('s, unit) op" where
  "add_java_references srv classid this classes =
     for_each (\<lambda>nm db.
       if nm \<noteq> ''java/lang/Object'' \<and> nm \<noteq> ''java/lang/String'' \<and> nm \<noteq> this then
         command srv ''INSERT INTO symboldb.java_class_reference (class_id, name) VALUES ($1, $2)''
           [A_int classid, A_string nm] db
       else (return (), db)) (remdups_adj (sort classes))"

definition add_java_class :: "'c nss \<Rightarrow> 's server \<Rightarrow> u32 \<Rightarrow> class_data \<Rightarrow> ('s, unit) op" where
  "add_java_class nss srv cid jc =
     assert_trans srv (\<lambda>db.
       sbind (hash_data nss sha256 (class_data.buffer jc), db) (\<lambda>dig db.
       sbind (this_class jc, db) (\<lambda>this db.
       sbind (super_class jc, db) (\<lambda>super db.
       sbind (query_binary srv ''SELECT * FROM symboldb.intern_java_class ($1, $2, $3, $4)''
                [A_bytes dig, A_string this, A_string super, A_int (ucast (access_flags jc))] db) (\<lambda>res db.
       sbind (load_int (little_endian srv) res 0 0, db) (\<lambda>classid db.
       sbind (load_bool res 0 1, db) (\<lambda>is_new db.
       sbind (if is_new then
                sbind (for_each (add_java_interface srv classid jc) [0..<unat (interface_count jc)] db) (\<lambda>_ db.
                sbind (class_references jc, db) (add_java_references srv classid this))
              else (return (), db)) (\<lambda>_.
       command srv ''INSERT INTO symboldb.java_class_contents (class_id, contents_id) VALUES ($1, $2)''
         [A_int classid, A_int cid]))))))))"

definition add_java_error :: "'s server \<Rightarrow> u32 \<Rightarrow> string \<Rightarrow> string \<Rightarrow> ('s, unit) op" where
  "add_java_error srv cid message path =
     command srv ''INSERT INTO symboldb.java_error (contents_id, message, path) VALUES ($1, $2, $3)''
       [A_int cid, A_cstr (Some message), A_string path]"

definition add_maven_url :: "'s server \<Rightarrow> u32 \<Rightarrow> maven_url \<Rightarrow> ('s, unit) op" where
  "add_maven_url srv cid u =
     command srv
       (''INSERT INTO symboldb.java_maven_url (contents_id, url, type)'' @
        '' VALUES ($1, $2, $3::symboldb.java_maven_url_type)'')
       [A_int cid, A_string (url u), A_cstr (Some (to_string (url_type u)))]"

definition add_python_import :: "'s server \<Rightarrow> u32 \<Rightarrow> string \<Rightarrow> ('s, unit) op" where
  "add_python_import srv cid nm =
     command srv ''INSERT INTO symboldb.python_import (contents_id, name) VALUES ($1, $2)''
       [A_int cid, A_cstr (Some nm)]"

definition add_python_attribute :: "'s server \<Rightarrow> u32 \<Rightarrow> string \<Rightarrow> ('s, unit) op" where
  "add_python_attribute srv cid nm =
     command srv ''INSERT INTO symboldb.python_attribute (contents_id, name) VALUES ($1, $2)''
       [A_int cid, A_cstr (Some nm)]"

definition add_python_function_def :: "'s server \<Rightarrow> u32 \<Rightarrow> string \<Rightarrow> ('s, unit) op" where
  "add_python_function_def srv cid nm =
     command srv ''INSERT INTO symboldb.python_function_def (contents_id, name) VALUES ($1, $2)''
       [A_int cid, A_cstr (Some nm)]"

definition add_python_class_def :: "'s server \<Rightarrow> u32 \<Rightarrow> string \<Rightarrow> ('s, unit) op" where
  "add_python_class_def srv cid nm =
     command srv ''INSERT INTO symboldb.python_class_def (contents_id, name) VALUES ($1, $2)''
       [A_int cid, A_cstr (Some nm)]"

definition add_python_error :: "'s server \<Rightarrow> u32 \<Rightarrow> u32 \<Rightarrow> string \<Rightarrow> ('s, unit) op" where
  "add_python_error srv cid lineno message =
     (if lineno = 0 then
        command srv ''INSERT INTO symboldb.python_error (contents_id, message) VALUES ($1, $2)''
          [A_int cid, A_cstr (Some message)]
      else
        command srv ''INSERT INTO symboldb.python_error (contents_id, line, message) VALUES ($1, $2, $3)''
          [A_int cid, A_int lineno, A_cstr (Some message)])"

definition has_python_analysis :: "'s server \<Rightarrow> u32 \<Rightarrow> ('s, bool) op" where
  "has_python_analysis srv cid db =
     sbind (query_binary srv
       (''(SELECT TRUE FROM symboldb.python_import '' @ ''WHERE contents_id = $1 LIMIT 1) '' @
        ''UNION ALL (SELECT TRUE FROM symboldb.python_attribute '' @ ''WHERE contents_id = $1 LIMIT 1)'' @
        ''UNION ALL (SELECT TRUE FROM symboldb.python_function_def '' @ ''WHERE contents_id = $1 LIMIT 1)'' @
        ''UNION ALL (SELECT TRUE FROM symboldb.python_class_def '' @ ''WHERE contents_id = $1 LIMIT 1)'')
       [A_int cid] db) (\<lambda>res db. (return (ntuples res > 0), db))"

section \<open>Package sets\<close>

definition create_package_set :: "'s server \<Rightarrow> string \<Rightarrow> ('s, u32) op" where
  "create_package_set srv nm db =
     sbind (query_binary srv ''INSERT INTO symboldb.package_set (name) VALUES ($1) RETURNING set_id''
              [A_cstr (Some nm)] db) (\<lambda>res db. (get_id_force srv res, db))"

definition lookup_package_set :: "'s server \<Rightarrow> string \<Rightarrow> ('s, u32) op" where
  "lookup_package_set srv nm db =
     sbind (query_binary srv ''SELECT set_id FROM symboldb.package_set WHERE name = $1''
              [A_cstr (Some nm)] db) (\<lambda>res db. (get_id srv res, db))"

definition select_members_sql :: string where
  "select_members_sql = ''SELECT package_id FROM symboldb.package_set_member WHERE set_id = $1''"

definition insert_member_sql :: string where
  "insert_member_sql = ''INSERT INTO symboldb.package_set_member (set_id, package_id) VALUES ($1, $2)''"

definition delete_member_sql :: string where
  "delete_member_sql = ''DELETE FROM symboldb.package_set_member WHERE set_id = $1 AND package_id = $2''"

definition add_package_set :: "'s server \<Rightarrow> u32 \<Rightarrow> u32 \<Rightarrow> ('s, unit) op" where
  "add_package_set srv sid pkg =
     command srv insert_member_sql
       [A_int sid, A_int pkg]"

definition delete_from_package_set :: "'s server \<Rightarrow> u32 \<Rightarrow> u32 \<Rightarrow> ('s, unit) op" where
  "delete_from_package_set srv sid pkg =
     command srv delete_member_sql
       [A_int sid, A_int pkg]"

definition empty_package_set :: "'s server \<Rightarrow> u32 \<Rightarrow> ('s, unit) op" where
  "empty_package_set srv sid =
     command srv ''DELETE FROM symboldb.package_set_member WHERE set_id = $1'' [A_int sid]"

text \<open>The old members as a \<open>std::set\<close>, in the order of the signed identifiers.\<close>

fun old_members :: "'s server \<Rightarrow> pg_result \<Rightarrow> nat list \<Rightarrow> int list \<Rightarrow> int list result" where
  "old_members srv res [] old = return old"
| "old_members srv res (row # rows) old =
     bind (load_int (little_endian srv) res row 0) (\<lambda>pkg.
       if pkg = 0 then throw Assertion_failure
       else old_members srv res rows (fst (set_insert (sint pkg) old)))"

fun add_new_members :: "'s server \<Rightarrow> u32 \<Rightarrow> u32 list \<Rightarrow> int list \<Rightarrow> bool \<Rightarrow> ('s, int list \<times> bool) op" where
  "add_new_members srv sid [] old changes db = (return (old, changes), db)"
| "add_new_members srv sid (pkg # pids) old changes db =
     (if sint pkg \<in> set old then add_new_members srv sid pids (filter (\<lambda>p. p \<noteq> sint pkg) old) changes db
      else sbind (add_package_set srv sid pkg db) (\<lambda>_. add_new_members srv sid pids old True))"

definition update_package_set :: "'s server \<Rightarrow> u32 \<Rightarrow> u32 list \<Rightarrow> ('s, bool) op" where
  "update_package_set srv sid pids =
     assert_trans srv (\<lambda>db.
       sbind (query_binary srv select_members_sql
                [A_int sid] db) (\<lambda>res db.
       sbind (old_members srv res [0..<ntuples res] [], db) (\<lambda>old db.
       sbind (add_new_members srv sid pids old False db) (\<lambda>(old, changes) db.
       sbind (for_each (\<lambda>p. delete_from_package_set srv sid (word_of_int p)) old db) (\<lambda>_ db.
         (return (changes \<or> old \<noteq> []), db))))))"

section \<open>The URL cache\<close>

definition url_access_sql :: string where
  "url_access_sql = ''UPDATE symboldb.url_cache SET last_access = NOW() AT TIME ZONE 'UTC' WHERE url = $1''"

definition update_url_last_access :: "'s server \<Rightarrow> string \<Rightarrow> ('s, unit) op" where
  "update_url_last_access srv u = command srv url_access_sql [A_cstr (Some u)]"

text \<open>The data, or \<open>None\<close> for the result false.\<close>

definition url_cache_hit :: "'s server \<Rightarrow> string \<Rightarrow> pg_result \<Rightarrow> ('s, u8 list option) op" where
  "url_cache_hit srv u res db =
     (if ntuples res \<noteq> 1 then (return None, db)
      else
        sbind (load_text (unescape_bytea srv) res 0 0, db) (\<lambda>dat db.
        sbind (update_url_last_access srv u db) (\<lambda>_ db. (return (Some dat), db))))"

definition url_expected_sql :: string where
  "url_expected_sql =
     ''SELECT data FROM symboldb.url_cache'' @ '' WHERE url = $1 AND LENGTH(data) = $2 AND http_time = $3''"

definition url_cache_fetch_expected :: "'s server \<Rightarrow> string \<Rightarrow> u64 \<Rightarrow> u64 \<Rightarrow> ('s, u8 list option) op" where
  "url_cache_fetch_expected srv u expected_length expected_time db =
     (if expected_length > push_bit 30 1 then (return None, db)
      else
        sbind (query_binary srv url_expected_sql
          [A_cstr (Some u), A_int (ucast expected_length), A_long expected_time] db) (url_cache_hit srv u))"

definition url_fetch_sql :: string where
  "url_fetch_sql = ''SELECT data FROM symboldb.url_cache WHERE url = $1''"

definition url_cache_fetch :: "'s server \<Rightarrow> string \<Rightarrow> ('s, u8 list option) op" where
  "url_cache_fetch srv u db = sbind (query_binary srv url_fetch_sql [A_cstr (Some u)] db) (url_cache_hit srv u)"

definition url_lock_sql :: string where
  "url_lock_sql = ''SELECT 1 FROM symboldb.url_cache WHERE url = $1 FOR UPDATE''"

definition url_update_sql :: string where
  "url_update_sql =
     ''UPDATE symboldb.url_cache SET http_time = $2, data = $3,'' @
     '' last_change = NOW() AT TIME ZONE 'UTC','' @ '' last_access = NOW() AT TIME ZONE 'UTC' '' @
     ''WHERE url = $1''"

definition url_insert_sql :: string where
  "url_insert_sql =
     ''INSERT INTO symboldb.url_cache (url, http_time, data, last_change, last_access)'' @
     '' VALUES ($1, $2, $3, NOW() AT TIME ZONE 'UTC', '' @ ''NOW() AT TIME ZONE 'UTC')''"

definition url_cache_update :: "'s server \<Rightarrow> string \<Rightarrow> u8 list \<Rightarrow> u64 \<Rightarrow> ('s, unit) op" where
  "url_cache_update srv u dat tm db =
     sbind (query srv url_lock_sql [A_cstr (Some u)] db) (\<lambda>res.
       command srv (if ntuples res = 1 then url_update_sql else url_insert_sql)
         [A_cstr (Some u), A_long tm, A_bytes dat])"

section \<open>Expiry, the schema and queries\<close>

fun collect :: "(nat \<Rightarrow> 'a result) \<Rightarrow> nat list \<Rightarrow> 'a list result" where
  "collect f [] = return []"
| "collect f (n # ns) = bind (f n) (\<lambda>x. bind (collect f ns) (\<lambda>xs. return (x # xs)))"

definition referenced_package_digests :: "'s server \<Rightarrow> ('s, u8 list list) op" where
  "referenced_package_digests srv db =
     sbind (on_conn (execBinary srv
       (''SELECT digest FROM symboldb.package_set_member'' @
        '' JOIN symboldb.package_digest USING (package_id)'' @ '' ORDER BY digest'')) db) (\<lambda>res db.
       (collect (\<lambda>i. load_text (unescape_bytea srv) res i 0) [0..<ntuples res], db))"

definition expire_url_cache :: "'s server \<Rightarrow> ('s, unit) op" where
  "expire_url_cache srv = plain srv
     (''DELETE FROM symboldb.url_cache'' @ '' WHERE AGE(last_access) > '3 days'' @ [CHR 0x27])"

definition expire_packages :: "'s server \<Rightarrow> ('s, unit) op" where
  "expire_packages srv = plain srv
     (''DELETE FROM symboldb.package p'' @
      '' WHERE NOT EXISTS (SELECT 1 FROM symboldb.package_set_member psm'' @
      '' WHERE psm.package_id = p.package_id LIMIT 1)'')"

definition expire_file_contents :: "'s server \<Rightarrow> ('s, unit) op" where
  "expire_file_contents srv = plain srv
     (''DELETE FROM symboldb.file_contents fc'' @
      '' WHERE NOT EXISTS (SELECT 1 FROM symboldb.file f'' @
      '' WHERE f.contents_id = fc.contents_id LIMIT 1)'')"

definition expire_java_classes :: "'s server \<Rightarrow> ('s, unit) op" where
  "expire_java_classes srv = plain srv
     (''DELETE FROM symboldb.java_class jc'' @
      '' WHERE NOT EXISTS (SELECT 1 FROM symboldb.java_class_contents j'' @
      '' WHERE j.class_id = jc.class_id LIMIT 1)'')"

text \<open>The script is the C string at an address, as for \<open>pg_split_statement\<close>.\<close>

definition exec_sql :: "'s server \<Rightarrow> string \<Rightarrow> nat \<Rightarrow> nat \<Rightarrow> ('s, unit) op" where
  "exec_sql srv mem lit ptr db =
     sbind (pg_split_statement mem lit ptr, db) (for_each (\<lambda>st. plain srv (cstr st)))"

definition create_schema :: "'s server \<Rightarrow> string \<Rightarrow> nat \<Rightarrow> nat \<Rightarrow> nat \<Rightarrow> bool \<Rightarrow> bool \<Rightarrow> ('s, unit) op" where
  "create_schema srv mem lit schema_base schema_index base index db =
     sbind (txn_begin srv db) (\<lambda>_ db.
     sbind (if base then exec_sql srv mem lit schema_base db else (return (), db)) (\<lambda>_ db.
     sbind (if index then exec_sql srv mem lit schema_index db else (return (), db)) (\<lambda>_.
     txn_commit srv)))"

record files_with_digest =
  fwd_rpm_digest :: "u8 list"
  fwd_file_name :: "u8 list"
  fwd_res :: pg_result
  fwd_row :: nat

definition files_with_digest_new :: "'s server \<Rightarrow> u8 list \<Rightarrow> ('s, files_with_digest) op" where
  "files_with_digest_new srv dig db =
     sbind (query_binary srv
       (''SELECT pd.digest, f.name FROM symboldb.package_digest pd'' @
        '' JOIN symboldb.file f USING (package_id)'' @
        '' JOIN symboldb.file_contents fc USING (contents_id)'' @ '' WHERE fc.digest = $1'') [A_bytes dig] db)
       (\<lambda>res db. (return \<lparr>fwd_rpm_digest = [], fwd_file_name = [], fwd_res = res, fwd_row = 0\<rparr>, db))"

definition files_with_digest_next ::
    "(u8 list \<Rightarrow> u8 list option) \<Rightarrow> files_with_digest \<Rightarrow> (bool \<times> files_with_digest) result" where
  "files_with_digest_next unescape f =
     (if fwd_row f \<le> ntuples (fwd_res f) then
        bind (load_text unescape (fwd_res f) (fwd_row f) 0) (\<lambda>dig.
        bind (load_text unescape (fwd_res f) (fwd_row f) 1) (\<lambda>nm.
          return (True, f\<lparr>fwd_rpm_digest := dig, fwd_file_name := nm, fwd_row := fwd_row f + 1\<rparr>)))
      else return (False, f))"

text \<open>The lock on a digest: its first eight bytes as two numbers.\<close>

definition lock_digest :: "'s server \<Rightarrow> u8 list \<Rightarrow> ('s, advisory_lock) op" where
  "lock_digest srv dig db =
     (if length dig < 8 then (throw (Logic_error ''lock_digest: digest is too short''), db)
      else
        let word = (\<lambda>i. push_bit 24 (ucast (dig ! i)) OR push_bit 16 (ucast (dig ! (i + 1)))
                        OR push_bit 8 (ucast (dig ! (i + 2))) OR ucast (dig ! (i + 3)))
        in lock srv (word 0) (word 4) db)"


section \<open>What \<open>update_package_set\<close> does\<close>

text \<open>
  What the server promises for the table of members inside a transaction: \<open>members\<close> are the packages
  of each set in a state of the server. The table has no key, so every row is accepted.
\<close>

definition int_param :: "'s server \<Rightarrow> u32 \<Rightarrow> pg_param" where
  "int_param srv v = \<lparr>param_oid = 23, param_value = Some (store_int (little_endian srv) v)\<rparr>"

definition id_rows :: "bool \<Rightarrow> u32 list \<Rightarrow> pg_result" where
  "id_rows little xs =
     \<lparr>res_status = PGRES_TUPLES_OK, res_message = [], res_columns = [(23, 1)],
      res_rows = map (\<lambda>x. [Some (store_int little x)]) xs\<rparr>"

definition done_in :: "'s server \<Rightarrow> pg_result option \<times> 's \<Rightarrow> ('s \<Rightarrow> bool) \<Rightarrow> bool" where
  "done_in srv rs Q \<longleftrightarrow>
     (\<exists>r s. rs = (Some r, s) \<and> res_status r = PGRES_COMMAND_OK \<and> in_transaction srv s \<and> Q s)"

definition member_table :: "'s server \<Rightarrow> ('s \<Rightarrow> u32 \<Rightarrow> u32 set) \<Rightarrow> bool" where
  "member_table srv members \<longleftrightarrow>
     (\<forall>s sid p. in_transaction srv s \<longrightarrow>
        (\<exists>xs s'. respond srv select_members_sql
                   [int_param srv sid] 1 s = (Some (id_rows (little_endian srv) xs), s') \<and>
                 set xs = members s sid \<and> members s' = members s \<and> in_transaction srv s') \<and>
        done_in srv (respond srv insert_member_sql
                       [int_param srv sid, int_param srv p] 0 s)
          (\<lambda>s'. members s' = (members s)(sid := insert p (members s sid))) \<and>
        done_in srv (respond srv delete_member_sql
                       [int_param srv sid, int_param srv p] 0 s)
          (\<lambda>s'. members s' = (members s)(sid := members s sid - {p})))"

text \<open>The members that a client sees, and that a transaction is open.\<close>

definition sees :: "'s server \<Rightarrow> ('s \<Rightarrow> u32 \<Rightarrow> u32 set) \<Rightarrow> 's database \<Rightarrow> (u32 \<Rightarrow> u32 set) \<Rightarrow> bool" where
  "sees srv members db m \<longleftrightarrow> members (server_state (db_conn db)) = m \<and> in_trans srv db"

lemma load_id_row:
  "row < length xs \<Longrightarrow> load_int little (id_rows little xs) row 0 = Inr (xs ! row)"
  by (simp add: load_int_def load_integer_def is_binary_def fformat_def ftype_def getlength_def field_def
      in_table_def id_rows_def decode_stored_int)

lemma old_members_ids:
  assumes "\<forall>row \<in> set rows. row < length xs" and "0 \<notin> set xs"
  shows "\<exists>old'. old_members srv (id_rows (little_endian srv) xs) rows old = Inr old' \<and>
           set old' = set old \<union> (\<lambda>row. sint (xs ! row)) ` set rows"
  using assms(1)
proof (induction rows arbitrary: old)
  case (Cons row rows)
  then have "xs ! row \<noteq> 0" using assms(2) by (metis list.set_intros(1) nth_mem)
  moreover obtain old' where
    "old_members srv (id_rows (little_endian srv) xs) rows (fst (set_insert (sint (xs ! row)) old)) = Inr old'"
    "set old' = set (fst (set_insert (sint (xs ! row)) old)) \<union> (\<lambda>row. sint (xs ! row)) ` set rows"
    using Cons by (meson list.set_intros(2))
  ultimately show ?case using Cons.prems by (auto simp: load_id_row set_insert_set)
qed simp

lemma query_binary_rows:
  assumes "respond srv sql [int_param srv a] 1 (server_state (db_conn db)) = (Some (id_rows little xs), s')"
  shows "query_binary srv sql [A_int a] db =
     (Inr (id_rows little xs), db\<lparr>db_conn := \<lparr>server_state = s', sent = sent (db_conn db) @ [(sql, [int_param srv a])]\<rparr>\<rparr>)"
  using assms
  by (simp add: query_binary_def on_conn_def pg_query_binary_def private_pg_query_def execParamsCustom_def
      int_param_def do_check_def id_rows_def)

lemma member_tableD:
  assumes "member_table srv members" and "in_transaction srv s"
  shows "\<exists>xs s'. respond srv select_members_sql [int_param srv sid] 1 s = (Some (id_rows (little_endian srv) xs), s') \<and>
           set xs = members s sid \<and> members s' = members s \<and> in_transaction srv s'"
    and "done_in srv (respond srv insert_member_sql [int_param srv sid, int_param srv p] 0 s)
           (\<lambda>s'. members s' = (members s)(sid := insert p (members s sid)))"
    and "done_in srv (respond srv delete_member_sql [int_param srv sid, int_param srv p] 0 s)
           (\<lambda>s'. members s' = (members s)(sid := members s sid - {p}))"
  using assms unfolding member_table_def by blast+

lemma select_members:
  assumes "member_table srv members" and "sees srv members db m"
  shows "\<exists>xs db'. query_binary srv select_members_sql
            [A_int sid] db = (Inr (id_rows (little_endian srv) xs), db') \<and> set xs = m sid \<and> sees srv members db' m \<and>
          file_attribute_cache db' = file_attribute_cache db"
proof -
  have t: "in_transaction srv (server_state (db_conn db))" and m: "members (server_state (db_conn db)) = m"
    using assms(2) by (simp_all add: sees_def in_trans_def)
  obtain xs s' where r: "respond srv select_members_sql
       [int_param srv sid] 1 (server_state (db_conn db)) = (Some (id_rows (little_endian srv) xs), s')"
    "set xs = m sid" "members s' = m" "in_transaction srv s'"
    using member_tableD(1) [OF assms(1) t, of sid] m by auto
  show ?thesis by (intro exI conjI, rule query_binary_rows [OF r(1)]) (simp_all add: r sees_def in_trans_def)
qed

lemma command_done:
  assumes "done_in srv (respond srv sql [int_param srv a, int_param srv b] 0 (server_state (db_conn db))) Q"
  shows "\<exists>db'. command srv sql [A_int a, A_int b] db = (Inr (), db') \<and> Q (server_state (db_conn db')) \<and>
           in_trans srv db' \<and> file_attribute_cache db' = file_attribute_cache db"
  using assms
  by (auto simp: done_in_def command_def query_def on_conn_def pg_query_def private_pg_query_def execParamsCustom_def
      int_param_def do_check_def in_trans_def)

text \<open>Adding and deleting a row, as the client sees it.\<close>

lemma add_member:
  assumes "member_table srv members" and "sees srv members db m"
  shows "\<exists>db'. add_package_set srv sid p db = (Inr (), db') \<and>
           sees srv members db' (m(sid := insert p (m sid))) \<and> file_attribute_cache db' = file_attribute_cache db"
proof -
  have "done_in srv (respond srv insert_member_sql
     [int_param srv sid, int_param srv p] 0 (server_state (db_conn db))) (\<lambda>s. members s = m(sid := insert p (m sid)))"
    using member_tableD(2) [OF assms(1), of "server_state (db_conn db)"] assms(2) by (simp add: sees_def in_trans_def)
  from command_done [OF this] show ?thesis by (auto simp only: add_package_set_def sees_def)
qed

lemma delete_member:
  assumes "member_table srv members" and "sees srv members db m"
  shows "\<exists>db'. delete_from_package_set srv sid p db = (Inr (), db') \<and>
           sees srv members db' (m(sid := m sid - {p})) \<and> file_attribute_cache db' = file_attribute_cache db"
proof -
  have "done_in srv (respond srv delete_member_sql
     [int_param srv sid, int_param srv p] 0 (server_state (db_conn db))) (\<lambda>s. members s = m(sid := m sid - {p}))"
    using member_tableD(3) [OF assms(1), of "server_state (db_conn db)"] assms(2) by (simp add: sees_def in_trans_def)
  from command_done [OF this] show ?thesis by (auto simp only: delete_from_package_set_def sees_def)
qed

lemma delete_members:
  assumes "member_table srv members" and "sees srv members db m"
  shows "\<exists>db'. for_each (\<lambda>p. delete_from_package_set srv sid (word_of_int p)) ps db = (Inr (), db') \<and>
           sees srv members db' (m(sid := m sid - word_of_int ` set ps)) \<and>
           file_attribute_cache db' = file_attribute_cache db"
  using assms(2)
proof (induction ps arbitrary: db m)
  case (Cons p ps)
  obtain db1 where 1: "delete_from_package_set srv sid (word_of_int p) db = (Inr (), db1)"
    "sees srv members db1 (m(sid := m sid - {word_of_int p}))" "file_attribute_cache db1 = file_attribute_cache db"
    using delete_member [OF assms(1) Cons.prems] by blast
  obtain db2 where 2: "for_each (\<lambda>p. delete_from_package_set srv sid (word_of_int p)) ps db1 = (Inr (), db2)"
    "sees srv members db2 (m(sid := m sid - {word_of_int p} - word_of_int ` set ps))"
    "file_attribute_cache db2 = file_attribute_cache db1"
    using Cons.IH [OF 1(2)] unfolding fun_upd_same fun_upd_upd by blast
  have "m sid - {word_of_int p} - word_of_int ` set ps = m sid - word_of_int ` set (p # ps)" by auto
  with 2(2) have "sees srv members db2 (m(sid := m sid - word_of_int ` set (p # ps)))" by (simp only:)
  with 1 2 show ?case by (simp del: fun_upd_apply)
qed simp

lemma add_new_members_effect:
  assumes "member_table srv members" and "sees srv members db m"
  shows "\<exists>old' changes' db'. add_new_members srv sid pids old changes db = (Inr (old', changes'), db') \<and>
           set old' = set old - sint ` set pids \<and>
           (changes' \<longleftrightarrow> changes \<or> \<not> sint ` set pids \<subseteq> set old \<or> \<not> distinct pids) \<and>
           (\<exists>new. {p \<in> set pids. sint p \<notin> set old} \<subseteq> new \<and> new \<subseteq> set pids \<and>
              sees srv members db' (m(sid := m sid \<union> new))) \<and>
           file_attribute_cache db' = file_attribute_cache db"
  using assms(2)
proof (induction pids arbitrary: old changes db m)
  case Nil
  then have "sees srv members db (m(sid := m sid \<union> {}))" by simp
  then show ?case by (intro exI [of _ old] exI [of _ changes] exI [of _ db] exI [of _ "{}"] conjI) simp_all
next
  case (Cons p pids)
  show ?case
  proof (cases "sint p \<in> set old")
    case True
    obtain old' changes' db' new where
      ih: "add_new_members srv sid pids (filter (\<lambda>q. q \<noteq> sint p) old) changes db = (Inr (old', changes'), db')"
      "set old' = set (filter (\<lambda>q. q \<noteq> sint p) old) - sint ` set pids"
      "changes' \<longleftrightarrow> changes \<or> \<not> sint ` set pids \<subseteq> set (filter (\<lambda>q. q \<noteq> sint p) old) \<or> \<not> distinct pids"
      "{p' \<in> set pids. sint p' \<notin> set (filter (\<lambda>q. q \<noteq> sint p) old)} \<subseteq> new" "new \<subseteq> set pids"
      "sees srv members db' (m(sid := m sid \<union> new))" "file_attribute_cache db' = file_attribute_cache db"
      using Cons.IH [OF Cons.prems, of "filter (\<lambda>q. q \<noteq> sint p) old" changes] by blast
    show ?thesis
    proof (intro exI conjI)
      show "add_new_members srv sid (p # pids) old changes db = (Inr (old', changes'), db')"
        using True ih(1) by simp
      show "set old' = set old - sint ` set (p # pids)" using ih(2) by auto
      show "changes' = (changes \<or> \<not> sint ` set (p # pids) \<subseteq> set old \<or> \<not> distinct (p # pids))"
        using ih(3) True by (auto simp: subset_iff image_iff inj_eq [OF inj_signed])
      show "{p' \<in> set (p # pids). sint p' \<notin> set old} \<subseteq> new" using ih(4) True by auto
      show "new \<subseteq> set (p # pids)" using ih(5) by auto
      show "sees srv members db' (m(sid := m sid \<union> new))" by (rule ih(6))
      show "file_attribute_cache db' = file_attribute_cache db" by (rule ih(7))
    qed
  next
    case False
    obtain db1 where add: "add_package_set srv sid p db = (Inr (), db1)"
      "sees srv members db1 (m(sid := insert p (m sid)))" "file_attribute_cache db1 = file_attribute_cache db"
      using add_member [OF assms(1) Cons.prems] by blast
    obtain old' changes' db' new where
      ih: "add_new_members srv sid pids old True db1 = (Inr (old', changes'), db')"
      "set old' = set old - sint ` set pids" "changes'"
      "{p' \<in> set pids. sint p' \<notin> set old} \<subseteq> new" "new \<subseteq> set pids"
      "sees srv members db' (m(sid := insert p (m sid) \<union> new))" "file_attribute_cache db' = file_attribute_cache db1"
      using Cons.IH [OF add(2), of old True] unfolding fun_upd_same fun_upd_upd by blast
    show ?thesis
    proof (intro exI conjI)
      show "add_new_members srv sid (p # pids) old changes db = (Inr (old', changes'), db')"
        using False add(1) ih(1) by simp
      show "set old' = set old - sint ` set (p # pids)" using ih(2) False by auto
      show "changes' = (changes \<or> \<not> sint ` set (p # pids) \<subseteq> set old \<or> \<not> distinct (p # pids))"
        using ih(3) False by auto
      show "{p' \<in> set (p # pids). sint p' \<notin> set old} \<subseteq> insert p new" using ih(4) by auto
      show "insert p new \<subseteq> set (p # pids)" using ih(5) by auto
      show "sees srv members db' (m(sid := m sid \<union> insert p new))" using ih(6) by simp
      show "file_attribute_cache db' = file_attribute_cache db" using ih(7) add(3) by simp
    qed
  qed
qed

lemma update_package_set_effect:
  assumes "member_table srv members" and "sees srv members db m" and "0 \<notin> m sid"
  shows "\<exists>db'. update_package_set srv sid pids db = (Inr (set pids \<noteq> m sid \<or> \<not> distinct pids), db') \<and>
           sees srv members db' (m(sid := set pids)) \<and> file_attribute_cache db' = file_attribute_cache db"
proof -
  obtain xs db1 where sel: "query_binary srv select_members_sql
       [A_int sid] db = (Inr (id_rows (little_endian srv) xs), db1)" "set xs = m sid" "sees srv members db1 m"
    "file_attribute_cache db1 = file_attribute_cache db"
    using select_members [OF assms(1,2)] by blast
  have n: "ntuples (id_rows (little_endian srv) xs) = length xs" by (simp add: id_rows_def)
  have "(!) xs ` set [0..<length xs] = set xs" by (simp only: map_nth flip: set_map)
  then have rows: "(\<lambda>row. sint (xs ! row)) ` set [0..<length xs] = sint ` set xs" by (metis image_image)
  obtain old where old: "old_members srv (id_rows (little_endian srv) xs) [0..<length xs] [] = Inr old"
    "set old = sint ` m sid"
    using old_members_ids [of "[0..<length xs]" xs srv "[]"] sel(2) assms(3) rows by auto
  obtain old' changes db2 new where add: "add_new_members srv sid pids old False db1 = (Inr (old', changes), db2)"
    "set old' = set old - sint ` set pids"
    "changes \<longleftrightarrow> \<not> sint ` set pids \<subseteq> set old \<or> \<not> distinct pids"
    "{p \<in> set pids. sint p \<notin> set old} \<subseteq> new" "new \<subseteq> set pids"
    "sees srv members db2 (m(sid := m sid \<union> new))" "file_attribute_cache db2 = file_attribute_cache db1"
    using add_new_members_effect [OF assms(1) sel(3), of sid pids old False] by (auto simp del: fun_upd_apply)
  obtain db3 where del: "for_each (\<lambda>p. delete_from_package_set srv sid (word_of_int p)) old' db2 = (Inr (), db3)"
    "sees srv members db3 (m(sid := m sid \<union> new - word_of_int ` set old'))"
    "file_attribute_cache db3 = file_attribute_cache db2"
    using delete_members [OF assms(1) add(6), of sid old'] unfolding fun_upd_same fun_upd_upd by blast
  have "sint ` m sid - sint ` set pids = sint ` (m sid - set pids)" by (simp add: image_set_diff)
  then have "word_of_int ` set old' = m sid - set pids"
    using add(2) old(2) by (simp add: image_image)
  then have final: "m sid \<union> new - word_of_int ` set old' = set pids"
    using add(4,5) old(2) by (auto simp: inj_image_mem_iff [OF inj_signed])
  have "(changes \<or> old' \<noteq> []) \<longleftrightarrow> (set pids \<noteq> m sid \<or> \<not> distinct pids)"
  proof -
    have "old' \<noteq> [] \<longleftrightarrow> \<not> m sid \<subseteq> set pids" 
      using add(2) old(2) by (simp add: inj_image_subset_iff [OF inj_signed] flip: set_empty)
    moreover have "sint ` set pids \<subseteq> set old \<longleftrightarrow> set pids \<subseteq> m sid" 
      using old(2) by (simp add: inj_image_subset_iff [OF inj_signed])
    ultimately show ?thesis using add(3) by blast
  qed
  then show ?thesis
    using assms(2) sel(1,4) old(1) add(1,7) del final
    by (simp add: update_package_set_def assert_trans_def sees_def n)
qed


text \<open>A server with this table only: its rows, and whether a transaction is open.\<close>

definition param_int :: "pg_param \<Rightarrow> u32" where
  "param_int p = (case param_value p of None \<Rightarrow> 0 | Some bs \<Rightarrow> be_to_cpu_32 True (load32 True bs))"

definition command_ok :: pg_result where
  "command_ok = \<lparr>res_status = PGRES_COMMAND_OK, res_message = [], res_columns = [], res_rows = []\<rparr>"

definition member_server :: "((u32 \<times> u32) list \<times> bool) server" where
  "member_server =
     \<lparr>respond = (\<lambda>sql ps fmt (rows, tx).
        case map param_int ps of
          [a] \<Rightarrow> (Some (id_rows True (map snd (filter (\<lambda>r. fst r = a) rows))), (rows, tx))
        | [a, b] \<Rightarrow>
            if sql = insert_member_sql then (Some command_ok, ((a, b) # rows, tx))
            else (Some command_ok, (filter (\<lambda>r. r \<noteq> (a, b)) rows, tx))
        | _ \<Rightarrow> (None, (rows, tx))),
      in_transaction = snd, little_endian = True, unescape_bytea = Some\<rparr>"

definition member_rows :: "(u32 \<times> u32) list \<times> bool \<Rightarrow> u32 \<Rightarrow> u32 set" where
  "member_rows s sid = {p. (sid, p) \<in> set (fst s)}"

lemma param_int_param [simp]: "param_int (int_param member_server v) = v"
  by (simp add: param_int_def int_param_def member_server_def decode_stored_int)

lemma insert_not_delete [simp]: "delete_member_sql \<noteq> insert_member_sql"
  by (simp add: insert_member_sql_def delete_member_sql_def)

lemma member_server_table: "member_table member_server member_rows"
  unfolding member_table_def
proof (intro allI impI conjI)
  fix s :: "(u32 \<times> u32) list \<times> bool" and sid p :: u32
  assume t: "in_transaction member_server s"
  obtain rows tx where s: "s = (rows, tx)" by (cases s)
  have [simp]: "snd s" "little_endian member_server" using t by (simp_all add: member_server_def)
  show "\<exists>xs s'. respond member_server select_members_sql [int_param member_server sid] 1 s
          = (Some (id_rows (little_endian member_server) xs), s') \<and>
        set xs = member_rows s sid \<and> member_rows s' = member_rows s \<and> in_transaction member_server s'"
    using t by (intro exI [of _ "map snd (filter (\<lambda>r. fst r = sid) rows)"] exI [of _ s])
      (force simp: member_server_def s member_rows_def image_iff param_int_param [unfolded member_server_def])
  show "done_in member_server (respond member_server insert_member_sql [int_param member_server sid, int_param member_server p] 0 s)
          (\<lambda>s'. member_rows s' = (member_rows s)(sid := insert p (member_rows s sid)))"
    using t by (auto simp: done_in_def member_server_def s member_rows_def command_ok_def fun_eq_iff
        param_int_param [unfolded member_server_def])
  show "done_in member_server (respond member_server delete_member_sql [int_param member_server sid, int_param member_server p] 0 s)
          (\<lambda>s'. member_rows s' = (member_rows s)(sid := member_rows s sid - {p}))"
    using t by (auto simp: done_in_def member_server_def s member_rows_def command_ok_def fun_eq_iff
        param_int_param [unfolded member_server_def])
qed

definition sample_db :: "((u32 \<times> u32) list \<times> bool) database" where
  "sample_db = \<lparr>db_conn = \<lparr>server_state = ([(1, 10), (1, 20), (2, 10)], True), sent = []\<rparr>,
     file_attribute_cache = (\<lambda>_. 0)\<rparr>"


section \<open>Two more observations\<close>

text \<open>
  The iteration over the files with a digest does not stop at the last row: for an empty result of two
  columns the first call returns true, with an empty digest and an empty name.
\<close>

lemma files_with_digest_extra_row:
  fixes f :: files_with_digest
  assumes "fwd_res f = \<lparr>res_status = PGRES_TUPLES_OK, res_message = [], res_columns = [(17, 1), (25, 1)], res_rows = []\<rparr>"
    and "fwd_row f = 0"
  shows "files_with_digest_next unescape f =
    Inr (True, f\<lparr>fwd_rpm_digest := [], fwd_file_name := [], fwd_row := 1\<rparr>)"
  using assms
  by (simp add: files_with_digest_next_def load_text_def is_binary_def fformat_def ftype_def field_def in_table_def)

text \<open>
  The cache of attributes outlives a transaction: after a rollback, the identifier that the rolled back
  transaction made is still returned, without asking the server.
\<close>

lemma attribute_cache_survives_rollback:
  assumes "intern_file_attribute nss srv info db = (Inr aid, db1)" and "aid \<noteq> 0"
    and "txn_rollback srv db1 = (Inr (), db2)"
  shows "intern_file_attribute nss srv info db2 = (Inr aid, db2)"
proof -
  have "file_attribute_cache db2 = file_attribute_cache db1"
    using assms(3) by (auto simp: txn_rollback_def plain_def on_conn_def sbind_Inr split: prod.splits)
  moreover have "\<not> sint (file_mode info) < 0" "\<not> sint (flags info) < 0" "file_attribute_cache db1 (attribute_key info) = aid"
    using assms(1) by (auto simp: intern_file_attribute_def sbind_Inr split: if_splits)
  ultimately show ?thesis using assms(2) by (simp add: intern_file_attribute_def)
qed

end
