(* ===== verification/Rpm_load.thy ===== *)
theory Rpm_load
  imports Database Python_analyzer
begin

text \<open>
  Loading an RPM package into the database: \<open>lib/symboldb/rpm_load.cpp\<close>, with \<open>zip_file.cpp\<close>,
  \<open>source_sink.cpp\<close> and \<open>tee_sink.cpp\<close>. The libraries (NSS, libelf, librpm, Expat, libarchive), the
  Python helpers, the server and the RPM file are parameters, collected in two records. Messages on
  the standard error stream are left out. Loops of libelf and libarchive need not end, so results are
  options.
\<close>

section \<open>Computations of the loader\<close>

record 'z libarchive =
  archive_read_new :: bool                   \<comment> \<open>whether an object could be allocated\<close>
  archive_open :: "u8 list \<Rightarrow> 'z option"    \<comment> \<open>the calls that prepare reading from memory\<close>
  next_header :: "'z \<Rightarrow> int \<times> 'z"
  entry_pathname :: "'z \<Rightarrow> string option"
  read_data :: "nat \<Rightarrow> 'z \<Rightarrow> u8 list option \<times> 'z"
  archive_what :: "'z \<Rightarrow> string"          \<comment> \<open>the text of the exception\<close>

record ('c, 's, 'd, 'z) externals =
  nss_of :: "'c nss"
  server_of :: "'s server"
  libelf_of :: "'d libelf"
  expat_of :: "u8 list \<Rightarrow> chunk list \<times> chunk"
  python_of :: "nat \<Rightarrow> python_env"        \<comment> \<open>for each call of the analyzer\<close>
  zip_of :: "'z libarchive"

record rpm_image =
  rpm_fopen :: "string option"
  rpm_rc :: rpmRC
  rpm_hdr :: rpm_header
  rpm_payload :: pipe
  rpm_fdopen :: "exn option"
  rpm_opened :: "unit result"              \<comment> \<open>opening the file for the checksum\<close>
  rpm_reads :: "u8 list result list"

record 's loader =
  ld_db :: "'s database"
  ld_py :: analyzer
  ld_calls :: nat

type_synonym ('s, 'a) load = "'s loader \<Rightarrow> ('a result \<times> 's loader) option"

definition lift_db :: "('s, 'a) op \<Rightarrow> ('s, 'a) load" where
  "lift_db f st = (case f (ld_db st) of (r, db) \<Rightarrow> Some (r, st\<lparr>ld_db := db\<rparr>))"

definition lift_run :: "'a run \<Rightarrow> ('s, 'a) load" where
  "lift_run r st = map_option (\<lambda>x. (x, st)) r"

fun for_all :: "('a \<Rightarrow> ('s, unit) load) \<Rightarrow> 'a list \<Rightarrow> ('s, unit) load" where
  "for_all f [] st = Some (return (), st)"
| "for_all f (x # xs) st = rbind (f x st) (\<lambda>_. for_all f xs)"

text \<open>The exceptions that the handlers catch, with their text.\<close>

fun elf_what :: "exn \<Rightarrow> string option" where
  "elf_what (Elf_exception msg) = Some msg"
| "elf_what _ = None"

fun os_what :: "exn \<Rightarrow> string option" where
  "os_what (Os_exception msg) = Some msg"
| "os_what _ = None"

fun java_what :: "exn \<Rightarrow> string option" where
  "java_what (Java_class_exception msg) = Some msg"
| "java_what _ = None"

section \<open>ELF files\<close>

definition dump_def :: "'s server \<Rightarrow> u32 \<Rightarrow> elf_symbol_definition \<Rightarrow> ('s, unit) op" where
  "dump_def srv cid d db =
     (if symbol_name d = [] then (return (), db) else add_elf_symbol_definition srv cid d db)"

definition dump_ref :: "'s server \<Rightarrow> u32 \<Rightarrow> elf_symbol_reference \<Rightarrow> ('s, unit) op" where
  "dump_ref srv cid r db =
     (if symbol_name r = [] then (return (), db) else add_elf_symbol_reference srv cid r db)"

definition lock_rpm :: "'s server \<Rightarrow> rpm_package_info \<Rightarrow> ('s, advisory_lock) op" where
  "lock_rpm srv info = lock_digest srv (string_bytes (hash info))"

definition is_elf :: "u8 list \<Rightarrow> bool" where
  "is_elf data \<longleftrightarrow> length data > 4 \<and> data ! 0 = 0x7f \<and> data ! 1 = byte_of_char (CHR ''E'') \<and>
     data ! 2 = byte_of_char (CHR ''L'') \<and> data ! 3 = byte_of_char (CHR ''F'')"

definition dump_symbol :: "'s server \<Rightarrow> u32 \<Rightarrow> 'd symbol_range \<Rightarrow> ('s, unit) op" where
  "dump_symbol srv cid s db =
     (case sym_def s of
        Some d \<Rightarrow> dump_def srv cid d db
      | None \<Rightarrow>
     (case sym_ref s of
        Some r \<Rightarrow> dump_ref srv cid r db
      | None \<Rightarrow> (throw (Logic_error ''unknown elf_symbol type''), db)))"

partial_function (option) load_symbols :: "'s server \<Rightarrow> u32 \<Rightarrow> 'd elf \<Rightarrow> 'd symbol_range \<Rightarrow> ('s, unit) load" where
  "load_symbols srv cid e s st =
     rbind (lift_run (sym_next e s) st) (\<lambda>(again, s) st.
       if \<not> again then Some (return (), st)
       else rbind (lift_db (dump_symbol srv cid s) st) (\<lambda>_ st. load_symbols srv cid e s st))"

lemma dyn_next_counts:
  "dyn_next r = Inr (True, r') \<Longrightarrow> dyn_entries r' - dyn_cnt r' < dyn_entries r - dyn_cnt r"
  by (auto simp: dyn_next_def dyn_string_def Let_def split: if_splits option.splits)

text \<open>The entry of the dynamic section that \<open>next\<close> has read; \<open>found\<close> is the name of the object so far.\<close>

definition load_dynamic_entry ::
    "'s server \<Rightarrow> u32 \<Rightarrow> 'd dynamic_section_range \<Rightarrow> string option \<Rightarrow> ('s, string option) op" where
  "load_dynamic_entry srv cid r found db =
     (case dyn_type r of
        needed \<Rightarrow> sbind (add_elf_needed srv cid (dyn_text r) db) (\<lambda>_ db. (return found, db))
      | soname \<Rightarrow>
          (case found of
             Some so \<Rightarrow>
               if dyn_text r \<noteq> so then
                 sbind (add_elf_error srv cid
                          (''duplicate soname ignored: '' @ dyn_text r @ '', previous soname: '' @ so) db)
                   (\<lambda>_ db. (return found, db))
               else (return found, db)
           | None \<Rightarrow> (return (Some (dyn_text r)), db))
      | rpath \<Rightarrow> sbind (add_elf_rpath srv cid (dyn_text r) db) (\<lambda>_ db. (return found, db))
      | runpath \<Rightarrow> sbind (add_elf_runpath srv cid (dyn_text r) db) (\<lambda>_ db. (return found, db))
      | dyn_kind.other \<Rightarrow>
          if dyn_tag r \<noteq> 0 \<or> dyn_number r \<noteq> 0 then
            sbind (add_elf_dynamic srv cid (dyn_tag r) (dyn_number r) db) (\<lambda>_ db. (return found, db))
          else (return found, db))"

function load_dynamic ::
    "'s server \<Rightarrow> u32 \<Rightarrow> 'd dynamic_section_range \<Rightarrow> string option \<Rightarrow> ('s, string option) op" where
  "load_dynamic srv cid r found db =
     (case dyn_next r of
        Inl e \<Rightarrow> (throw e, db)
      | Inr (False, _) \<Rightarrow> (return found, db)
      | Inr (True, r) \<Rightarrow>
          sbind (load_dynamic_entry srv cid r found db) (\<lambda>found db. load_dynamic srv cid r found db))"
  by pat_completeness auto
termination
  by (relation "measure (\<lambda>(srv, cid, r, found, db). dyn_entries r - dyn_cnt r)") (auto dest: dyn_next_counts)

declare load_dynamic.simps [simp del]

definition load_elf_body :: "('c, 's, 'd, 'z) externals \<Rightarrow> u32 \<Rightarrow> u8 list \<Rightarrow> ('s, unit) load" where
  "load_elf_body x cid data st =
     rbind (lift_run (elf_image_new (libelf_of x) data) st) (\<lambda>im st.
     rbind (load_symbols (server_of x) cid (image_elf im) (symbol_range_new im) st) (\<lambda>_ st.
     rbind (lift_run (Some (dynamic_section_range_new im)) st) (\<lambda>r st.
     rbind (lift_db (load_dynamic (server_of x) cid r None) st) (\<lambda>so.
     lift_db (add_elf_image (server_of x) cid im so)))))"

text \<open>The handler for \<open>elf_exception\<close>: other exceptions pass.\<close>

definition load_elf :: "('c, 's, 'd, 'z) externals \<Rightarrow> u32 \<Rightarrow> u8 list \<Rightarrow> ('s, unit) load" where
  "load_elf x cid data st =
     (case load_elf_body x cid data st of
        Some (Inl e, st) \<Rightarrow>
          (case elf_what e of
             Some msg \<Rightarrow> lift_db (add_elf_error (server_of x) cid msg) st
           | None \<Rightarrow> Some (throw e, st))
      | r \<Rightarrow> r)"

section \<open>Python and XML\<close>

fun memmem :: "'a list \<Rightarrow> 'a list \<Rightarrow> bool" where
  "memmem [] needle = (needle = [])"
| "memmem (c # cs) needle = (take (length needle) (c # cs) = needle \<or> memmem cs needle)"

definition is_python :: "u8 list \<Rightarrow> bool" where
  "is_python data \<longleftrightarrow> length data > 10 \<and> data ! 0 = byte_of_char (CHR ''#'') \<and>
     memmem (take 100 data) (string_bytes ''python'')"

definition is_python_path :: "rpm_file_info \<Rightarrow> bool" where
  "is_python_path info \<longleftrightarrow> ends_with (file_name info) ''.py''"

definition bytes_string :: "u8 list \<Rightarrow> string" where
  "bytes_string bs = map char_of_byte bs"

definition python_parse :: "('c, 's, 'd, 'z) externals \<Rightarrow> u8 list \<Rightarrow> ('s, bool) load" where
  "python_parse x data st =
     (case analyzer_parse (little_endian (server_of x)) (python_of x (ld_calls st)) data (ld_py st) of
        (r, py) \<Rightarrow> Some (r, st\<lparr>ld_py := py, ld_calls := ld_calls st + 1\<rparr>))"

definition load_python :: "('c, 's, 'd, 'z) externals \<Rightarrow> u32 \<Rightarrow> u8 list \<Rightarrow> ('s, unit) load" where
  "load_python x cid data st =
     rbind (lift_db (has_python_analysis (server_of x) cid) st) (\<lambda>present st.
       if present then Some (return (), st)
       else rbind (python_parse x data st) (\<lambda>ok st.
         if \<not> ok then
           lift_db (add_python_error (server_of x) cid (error_line (ld_py st)) (bytes_string (error_message (ld_py st)))) st
         else
           rbind (lift_db (for_each (\<lambda>p. add_python_import (server_of x) cid (bytes_string p))
                    (python_imports (ld_py st))) st) (\<lambda>_ st.
           rbind (lift_db (for_each (\<lambda>p. add_python_attribute (server_of x) cid (bytes_string p))
                    (python_attributes (ld_py st))) st) (\<lambda>_ st.
           rbind (lift_db (for_each (\<lambda>p. add_python_function_def (server_of x) cid (bytes_string p))
                    (python_functions (ld_py st))) st) (\<lambda>_ st.
           lift_db (for_each (\<lambda>p. add_python_class_def (server_of x) cid (bytes_string p))
             (python_classes (ld_py st))) st)))))"

fun xml_error :: "exn \<Rightarrow> (string \<times> u32 \<times> string \<times> string) option" where
  "xml_error (Xml_malformed _ d) = Some d"
| "xml_error (Xml_entity_declaration _ d) = Some d"
| "xml_error _ = None"

definition load_xml :: "('c, 's, 'd, 'z) externals \<Rightarrow> u32 \<Rightarrow> u8 list \<Rightarrow> ('s, unit) load" where
  "load_xml x cid data st =
     (case expat_of x data of (cs, fin) \<Rightarrow>
     (case maven_extract (expat_source cs fin) [] of
        None \<Rightarrow> None
      | Some (found, r) \<Rightarrow>
          rbind
            (case r of
               Inr _ \<Rightarrow> Some (return (), st)
             | Inl e \<Rightarrow>
                 (case xml_error e of
                    None \<Rightarrow> Some (throw e, st)
                  | Some (msg, lineno, bef, aft) \<Rightarrow>
                      lift_db (add_xml_error (server_of x) cid msg lineno (string_bytes bef) (string_bytes aft)) st))
            (\<lambda>_. lift_db (for_each (add_maven_url (server_of x) cid) found))))"

section \<open>Contents and digests\<close>

definition keep_full_contents :: "rpm_file_info \<Rightarrow> bool" where
  "keep_full_contents info \<longleftrightarrow>
     (let path = file_name info in
      starts_with path ''/etc/''
      \<or> starts_with path ''/usr/lib/binfmt.d/''
      \<or> starts_with path ''/usr/lib/sysctl.d/''
      \<or> starts_with path ''/usr/lib/tmpfiles.d/''
      \<or> starts_with path ''/usr/lib/udev/rules.d/''
      \<or> starts_with path ''/usr/share/dbus-1/services/''
      \<or> starts_with path ''/usr/share/dbus-1/system-services/''
      \<or> starts_with path ''/usr/share/polkit-1/actions/''
      \<or> starts_with path ''/usr/share/polkit-1/rules.d/''
      \<or> ends_with path ''.conf''
      \<or> ends_with path ''.desktop''
      \<or> ends_with path ''.pkla''
      \<or> ends_with path ''.policy''
      \<or> ends_with path ''.protocol''
      \<or> ends_with path ''.service''
      \<or> ends_with path ''.spec'')"

definition FILE_CONTENTS_PREVIEW_SIZE :: nat where
  "FILE_CONTENTS_PREVIEW_SIZE = 64"

fun check_any :: "rpm_file_info list \<Rightarrow> (rpm_file_info \<Rightarrow> bool) \<Rightarrow> bool" where
  "check_any [] func = False"
| "check_any (p # ps) func = (func p \<or> check_any ps func)"

definition contents_preview :: "rpm_file_entry \<Rightarrow> u8 list" where
  "contents_preview ent =
     (if check_any (infos ent) keep_full_contents then rpm_file_entry.contents ent
      else take (min FILE_CONTENTS_PREVIEW_SIZE (length (rpm_file_entry.contents ent))) (rpm_file_entry.contents ent))"

definition check_digest :: "string \<Rightarrow> string \<Rightarrow> u8 list \<Rightarrow> u8 list \<Rightarrow> unit result" where
  "check_digest rpm_path nm actual expected =
     (if actual \<noteq> expected then
        throw (Runtime_error (rpm_path @ '': digest mismatch for '' @ nm @ '' (actual '' @ base16_encode actual @
          '', expected '' @ base16_encode expected @ '')''))
      else return ())"

definition prepare_load :: "'c nss \<Rightarrow> string \<Rightarrow> rpm_file_entry \<Rightarrow> (u8 list \<times> u8 list) result" where
  "prepare_load nss rpm_path ent =
     bind (hash_data nss sha256 (rpm_file_entry.contents ent)) (\<lambda>csum.
       case infos ent of
         [] \<Rightarrow> throw (Undefined_behaviour ''front of an empty vector'')
       | info # _ \<Rightarrow>
           bind
             (if csum_type (file_digest info) = sha256 then
                check_digest rpm_path (file_name info) csum (csum_value (file_digest info))
              else
                bind (hash_data nss (csum_type (file_digest info)) (rpm_file_entry.contents ent)) (\<lambda>chk.
                  check_digest rpm_path (file_name info) chk (csum_value (file_digest info))))
             (\<lambda>_. return (csum, contents_preview ent)))"


section \<open>Zip archives\<close>

definition zip_has_signature :: "u8 list \<Rightarrow> bool" where
  "zip_has_signature vec \<longleftrightarrow> length vec > 4 \<and> vec ! 0 = byte_of_char (CHR ''P'') \<and> vec ! 1 = byte_of_char (CHR ''K'') \<and>
     vec ! 2 = 3 \<and> vec ! 3 = 4"

definition zip_file_new :: "'z libarchive \<Rightarrow> u8 list \<Rightarrow> 'z result" where
  "zip_file_new lib data =
     (if \<not> archive_read_new lib then throw Bad_alloc
      else case archive_open lib data of
          None \<Rightarrow> throw (Runtime_error ''archive_read_support_format_zip'')
        | Some z \<Rightarrow> return z)"

definition zip_read :: "'z libarchive \<Rightarrow> nat \<Rightarrow> 'z \<Rightarrow> u8 list result \<times> 'z" where
  "zip_read lib len z =
     (case read_data lib len z of
        (None, z) \<Rightarrow> (throw (Os_exception (archive_what lib z)), z)
      | (Some bs, z) \<Rightarrow> (return bs, z))"

definition zip_next :: "'z libarchive \<Rightarrow> 'z \<Rightarrow> bool result \<times> 'z" where
  "zip_next lib z =
     (case next_header lib z of (ret, z) \<Rightarrow>
       if ret = 1 then (return False, z)
       else if ret \<noteq> 0 then (throw (Os_exception (archive_what lib z)), z)
       else (return True, z))"

definition zip_name :: "'z libarchive \<Rightarrow> 'z \<Rightarrow> string result" where
  "zip_name lib z =
     (case entry_pathname lib z of None \<Rightarrow> throw (Undefined_behaviour ''null string'') | Some nm \<Rightarrow> return nm)"

text \<open>
  \<open>copy_source_to_sink\<close> with a vector as the target: what was read before an error stays in the target.
\<close>

partial_function (option) copy_to_vector ::
    "'z libarchive \<Rightarrow> 'z \<Rightarrow> u8 list \<Rightarrow> (u8 list \<times> unit result \<times> 'z) option" where
  "copy_to_vector lib z target =
     (case zip_read lib 8192 z of
        (Inl e, z) \<Rightarrow> Some (target, throw e, z)
      | (Inr bs, z) \<Rightarrow>
          if length bs > 8192 then Some (target, throw Assertion_failure, z)
          else if bs = [] then Some (target, return (), z)
          else copy_to_vector lib z (target @ bs))"

definition zip_data :: "'z libarchive \<Rightarrow> 'z \<Rightarrow> (u8 list \<times> unit result \<times> 'z) option" where
  "zip_data lib z = copy_to_vector lib z []"

text \<open>A class file that is not well-formed is recorded; other exceptions pass.\<close>

definition load_class :: "('c, 's, 'd, 'z) externals \<Rightarrow> u32 \<Rightarrow> u8 list \<Rightarrow> string result \<Rightarrow> ('s, unit) op" where
  "load_class x cid data path db =
     (case sbind (java_class data, db) (add_java_class (nss_of x) (server_of x) cid) of
        (Inl e, db) \<Rightarrow>
          (case java_what e of
             Some msg \<Rightarrow> sbind (path, db) (\<lambda>path. add_java_error (server_of x) cid msg path)
           | None \<Rightarrow> (throw e, db))
      | (Inr u, db) \<Rightarrow> (return u, db))"

definition load_if_class :: "('c, 's, 'd, 'z) externals \<Rightarrow> u32 \<Rightarrow> u8 list \<Rightarrow> string result \<Rightarrow> ('s, unit) op" where
  "load_if_class x cid data path db =
     sbind (has_signature data, db) (\<lambda>is_class db.
       if is_class then load_class x cid data path db else (return (), db))"

text \<open>The handler of the loop for a failed read, then the class file in what was read.\<close>

definition load_zip_entry ::
    "('c, 's, 'd, 'z) externals \<Rightarrow> u32 \<Rightarrow> 'z \<Rightarrow> u8 list \<Rightarrow> unit result \<Rightarrow> ('s, unit) op" where
  "load_zip_entry x cid z data r db =
     sbind
       (case r of
          Inr _ \<Rightarrow> (return (), db)
        | Inl e \<Rightarrow>
            (case os_what e of
               Some msg \<Rightarrow> sbind (zip_name (zip_of x) z, db) (\<lambda>nm. add_java_error (server_of x) cid msg nm)
             | None \<Rightarrow> (throw e, db)))
       (\<lambda>_. load_if_class x cid data (zip_name (zip_of x) z))"

partial_function (option) load_zip_loop :: "('c, 's, 'd, 'z) externals \<Rightarrow> u32 \<Rightarrow> 'z \<Rightarrow> ('s, unit) load" where
  "load_zip_loop ext cid z st =
     (case zip_next (zip_of ext) z of
        (Inl e, z) \<Rightarrow>
          (case os_what e of
             Some msg \<Rightarrow> lift_db (add_java_error (server_of ext) cid msg []) st
           | None \<Rightarrow> Some (throw e, st))
      | (Inr again, z) \<Rightarrow>
          if \<not> again then Some (return (), st)
          else
            Option.bind (zip_data (zip_of ext) z) (\<lambda>d.
              case d of (data, r, z) \<Rightarrow>
                rbind (lift_db (load_zip_entry ext cid z data r) st) (\<lambda>_ st. load_zip_loop ext cid z st)))"

definition load_zip :: "('c, 's, 'd, 'z) externals \<Rightarrow> u32 \<Rightarrow> u8 list \<Rightarrow> ('s, unit) load" where
  "load_zip x cid data st =
     rbind (lift_run (Some (zip_file_new (zip_of x) data)) st) (\<lambda>z. load_zip_loop x cid z)"

section \<open>Files\<close>

definition do_load_formats :: "('c, 's, 'd, 'z) externals \<Rightarrow> u32 \<Rightarrow> rpm_file_entry \<Rightarrow> ('s, unit) load" where
  "do_load_formats x cid ent st =
     (let data = rpm_file_entry.contents ent in
      rbind
        (if is_elf data then load_elf x cid data st
         else if looks_like_xml data then load_xml x cid data st
         else if is_python data \<or> check_any (infos ent) is_python_path then load_python x cid data st
         else lift_db (load_if_class x cid data (return [])) st)
        (\<lambda>_ st. if zip_has_signature data then load_zip x cid data st else Some (return (), st)))"

definition unpack_files :: "rpm_package_info \<Rightarrow> bool" where
  "unpack_files pkginfo \<longleftrightarrow> kind pkginfo = Binary"

text \<open>
  The loop over the other names of a file. The source tests the first name again instead of
  the name at hand: \<open>front\<close> is the first name, after its normalization.
\<close>

fun add_links ::
    "'c nss \<Rightarrow> 's server \<Rightarrow> rpm_package_info \<Rightarrow> u32 \<Rightarrow> u32 \<Rightarrow> rpm_file_info \<Rightarrow> rpm_file_info list \<Rightarrow> bool
     \<Rightarrow> ('s, rpm_file_info list \<times> bool) op" where
  "add_links nss srv pkginfo pkg cid front [] py db = (return ([], py), db)"
| "add_links nss srv pkginfo pkg cid front (p # ps) py db =
     (if ghost p then (throw Assertion_failure, db)
      else
        sbind (normalize_name p, db) (\<lambda>p db.
        sbind (intern_file_attribute nss srv p db) (\<lambda>aid db.
        sbind (add_file_contents_id srv pkg (file_name p) (ucast (file_mtime p)) (file_ino p) cid aid db) (\<lambda>_ db.
        sbind (add_links nss srv pkginfo pkg cid front ps (py \<or> unpack_files pkginfo \<and> is_python_path front) db)
          (\<lambda>(ps, py) db. (return (p # ps, py), db))))))"

definition load_contents ::
    "('c, 's, 'd, 'z) externals \<Rightarrow> rpm_package_info \<Rightarrow> added_file \<Rightarrow> rpm_file_entry \<Rightarrow> bool \<Rightarrow> ('s, unit) load" where
  "load_contents x pkginfo a ent py st =
     (if added a then
        (if unpack_files pkginfo then do_load_formats x (added_cid a) ent st else Some (return (), st))
      else if py then load_python x (added_cid a) (rpm_file_entry.contents ent) st
      else Some (return (), st))"

text \<open>The entry is returned with the normalized names.\<close>

definition add_files ::
    "('c, 's, 'd, 'z) externals \<Rightarrow> rpm_package_info \<Rightarrow> u32 \<Rightarrow> string \<Rightarrow> rpm_file_entry \<Rightarrow> ('s, rpm_file_entry) load" where
  "add_files x pkginfo pkg rpm_path ent st =
     rbind (lift_run (Some (prepare_load (nss_of x) rpm_path ent)) st) (\<lambda>(dig, preview) st.
     case infos ent of
       [] \<Rightarrow> Some (throw (Undefined_behaviour ''front of an empty vector''), st)
     | front # rest \<Rightarrow>
     rbind (lift_run (Some (normalize_name front)) st) (\<lambda>front st.
     rbind (lift_db (add_file (nss_of x) (server_of x) pkg front dig preview) st) (\<lambda>a st.
     if rest \<noteq> [] \<and> ghost front then Some (throw Assertion_failure, st)
     else
     rbind (lift_db (add_links (nss_of x) (server_of x) pkginfo pkg (added_cid a) front rest
              (unpack_files pkginfo \<and> is_python_path front)) st) (\<lambda>(rest, py) st.
     let ent = ent\<lparr>infos := front # rest\<rparr> in
     rbind (load_contents x pkginfo a ent py st) (\<lambda>_ st.
     rbind (if unat (scast (contents_length a) :: u64) < length preview
            then lift_db (update_contents_preview (server_of x) (added_cid a) preview) st
            else Some (return (), st)) (\<lambda>_ st.
     Some (return ent, st)))))))"

section \<open>Packages\<close>

definition add_dependencies :: "'s server \<Rightarrow> u32 \<Rightarrow> rpm_dependency list \<Rightarrow> ('s, unit) op" where
  "add_dependencies srv pkg deps = for_each (add_package_dependency srv pkg) deps"

definition add_scripts :: "'s server \<Rightarrow> u32 \<Rightarrow> rpm_header \<Rightarrow> ('s, unit) op" where
  "add_scripts srv pkg h = for_each (add_package_script srv pkg) (scripts h)"

definition add_triggers :: "'s server \<Rightarrow> u32 \<Rightarrow> rpm_header \<Rightarrow> ('s, unit) op" where
  "add_triggers srv pkg h db =
     sbind (triggers h, db) (\<lambda>ts.
       for_each (\<lambda>(i, t). add_package_trigger srv pkg t (of_nat i)) (enumerate 0 ts))"

text \<open>One entry of the package: hard links and real files, directories and symbolic links.\<close>

definition load_entry ::
    "('c, 's, 'd, 'z) externals \<Rightarrow> rpm_package_info \<Rightarrow> u32 \<Rightarrow> string \<Rightarrow> rpm_file_entry \<Rightarrow> ('s, rpm_file_entry) load" where
  "load_entry x pkginfo pkg rpm_path ent st =
     (if length (infos ent) > 1 then add_files x pkginfo pkg rpm_path ent st
      else case infos ent of
          [] \<Rightarrow> Some (throw Assertion_failure, st)
        | info # _ \<Rightarrow>
            if is_directory info then
              rbind (lift_db (add_directory (nss_of x) (server_of x) pkg info) st) (\<lambda>_ st. Some (return ent, st))
            else if is_symlink info then
              rbind (lift_db (add_symlink (nss_of x) (server_of x) pkg info) st) (\<lambda>_ st. Some (return ent, st))
            else add_files x pkginfo pkg rpm_path ent st)"


text \<open>The loop over the files ends: opening the payload happens once, and each file uses up some of it.\<close>

lemma ghost_loop_open: "ghost_loop p m f0 = Inr (r, p') \<Longrightarrow> payload_is_open p' = payload_is_open p"
  by (induction p m f0 rule: ghost_loop.induct) (auto split: if_splits)

lemma link_loop_open: "link_loop p is = Inr (infs, p') \<Longrightarrow> payload_is_open p' = payload_is_open p"
  by (induction p "is" arbitrary: infs p' rule: link_loop.induct)
     (auto simp: mark_seen_def split: if_splits option.splits)

lemma process_entry_open: "process_entry p nm data = Inr (r, p') \<Longrightarrow> payload_is_open p' = payload_is_open p"
  by (auto simp: process_entry_def single_file_def linked_files_def mark_seen_def Let_def dest: link_loop_open
      split: option.splits if_splits)

lemma read_loop_open: "read_loop p f0 = Inr (r, p') \<Longrightarrow> payload_is_open p' = payload_is_open p"
proof (induction p f0 rule: read_loop.induct)
  case (1 p f0)
  show ?case
  proof (cases "reached_ghosts p")
    case True
    with "1.prems" show ?thesis
      by (auto simp: read_loop.simps [of p] read_file_ghost_def dest!: ghost_loop_open)
  next
    case False
    obtain item pp where rc: "read_cpio (rpm_file_entry.contents f0) (payload p) = (Inr item, pp)"
      using "1.prems" False by (auto simp: read_loop.simps [of p] split: prod.splits sum.splits)
    show ?thesis
    proof (cases item)
      case Trailer
      with "1.prems" False rc show ?thesis
        by (auto simp: read_loop.simps [of p] read_file_ghost_def dest!: ghost_loop_open)
    next
      case (Item nm data)
      obtain y q where pe: "process_entry (p\<lparr>payload := pp\<rparr>) nm data = Inr (y, q)"
        using "1.prems" False rc Item by (auto simp: read_loop.simps [of p] split: sum.splits)
      then have q: "payload_is_open q = payload_is_open p" by (auto dest: process_entry_open)
      show ?thesis
        using "1.IH" [OF False rc [symmetric] refl Item pe] "1.prems" False rc Item pe q
        by (cases y) (simp_all add: read_loop.simps [of p])
    qed
  qed
qed

lemma read_file_step:
  assumes "read_file fdopen p file = Inr (Some e, p')"
  shows "payload_is_open p' \<and> (payload_is_open p \<longrightarrow> rank p' < rank p)"
  using assms
  by (auto simp: read_file_def open_payload_def dest: read_loop_open read_loop_rank split: if_splits option.splits)

function load_files ::
    "('c, 's, 'd, 'z) externals \<Rightarrow> rpm_image \<Rightarrow> rpm_package_info \<Rightarrow> u32 \<Rightarrow> string \<Rightarrow> parser \<Rightarrow> rpm_file_entry
     \<Rightarrow> ('s, unit) load" where
  "load_files x img pkginfo pkg rpm_path p ent st =
     (case read_file (rpm_fdopen img) p ent of
        Inl e \<Rightarrow> Some (throw e, st)
      | Inr (None, p) \<Rightarrow> Some (return (), st)
      | Inr (Some ent, p) \<Rightarrow>
          rbind (load_entry x pkginfo pkg rpm_path ent st) (\<lambda>ent st. load_files x img pkginfo pkg rpm_path p ent st))"
  by pat_completeness auto
termination
  by (relation "measures [\<lambda>(x, img, pkginfo, pkg, rpm_path, p, ent, st). if payload_is_open p then 0 else 1,
        \<lambda>(x, img, pkginfo, pkg, rpm_path, p, ent, st). rank p]")
    (auto dest!: read_file_step)

declare load_files.simps [simp del]

definition load_rpm_internal ::
    "('c, 's, 'd, 'z) externals \<Rightarrow> rpm_image \<Rightarrow> string \<Rightarrow> ('s, u32 \<times> rpm_package_info) load" where
  "load_rpm_internal x img rpm_path st =
     (case rpm_parser_new (rpm_fopen img) (rpm_rc img) (rpm_hdr img) (rpm_payload img) of
        Inl e \<Rightarrow> Some (throw e, st)
      | Inr (p, pkginfo, deps) \<Rightarrow>
     (let st = st\<lparr>ld_py := analyzer_new\<rparr> in
      rbind (lift_db (lock_rpm (server_of x) pkginfo) st) (\<lambda>l st.
      let st = st\<lparr>ld_db := advisory_unlock (server_of x) l (ld_db st)\<rparr> in
      rbind (lift_db (intern_package (server_of x) pkginfo) st) (\<lambda>(fresh, pkg) st.
      if \<not> fresh then Some (return (pkg, pkginfo), st)
      else
      rbind (lift_db (add_dependencies (server_of x) pkg deps) st) (\<lambda>_ st.
      rbind (lift_db (add_scripts (server_of x) pkg (header p)) st) (\<lambda>_ st.
      rbind (lift_db (add_triggers (server_of x) pkg (header p)) st) (\<lambda>_ st.
      rbind (load_files x img pkginfo pkg rpm_path p \<lparr>infos = [], contents = []\<rparr> st) (\<lambda>_ st.
      Some (return (pkg, pkginfo), st)))))))))"

text \<open>The two digests of the file are computed in one pass over it.\<close>

fun tee_reads :: "'c nss \<Rightarrow> u8 list result list \<Rightarrow> 'c hash_sink \<Rightarrow> 'c hash_sink \<Rightarrow> ('c hash_sink \<times> 'c hash_sink) result" where
  "tee_reads nss [] a b = return (a, b)"
| "tee_reads nss (r # rs) a b =
     bind r (\<lambda>buf.
       if buf = [] then return (a, b)
       else bind (write_hash nss buf a) (\<lambda>a. bind (write_hash nss buf b) (\<lambda>b. tee_reads nss rs a b)))"

definition hash_both :: "'c nss \<Rightarrow> rpm_image \<Rightarrow> ('c hash_sink \<times> 'c hash_sink) result" where
  "hash_both nss img =
     bind (hash_sink_new nss sha256) (\<lambda>a.
     bind (hash_sink_new nss sha1) (\<lambda>b.
     bind (rpm_opened img) (\<lambda>_.
     bind (tee_reads nss (rpm_reads img) a b) (\<lambda>(a, b).
       if octets a = octets b then return (a, b) else throw Assertion_failure))))"

definition check_expected :: "checksum option \<Rightarrow> hash_type \<Rightarrow> u8 list \<Rightarrow> unit result" where
  "check_expected expected t dig =
     (case expected of
        Some c \<Rightarrow> if csum_type c = t \<and> csum_value c \<noteq> dig then throw (Runtime_error ''checksum mismatch'') else return ()
      | None \<Rightarrow> return ())"

definition rpm_load ::
    "('c, 's, 'd, 'z) externals \<Rightarrow> rpm_image \<Rightarrow> string \<Rightarrow> checksum option \<Rightarrow> string option
     \<Rightarrow> ('s, u32 \<times> rpm_package_info) load" where
  "rpm_load x img path expected u st =
     (if (case expected of Some c \<Rightarrow> csum_type c \<noteq> sha256 \<and> csum_type c \<noteq> sha1 | None \<Rightarrow> False)
      then Some (throw (Runtime_error ''unsupported hash type''), st)
      else
      rbind (lift_db (txn_begin_no_sync (server_of x)) st) (\<lambda>_ st.
      rbind (load_rpm_internal x img path st) (\<lambda>(pkg, info) st.
      rbind (lift_run (Some (hash_both (nss_of x) img)) st) (\<lambda>(a, b) st.
      rbind (lift_run (Some (digest (nss_of x) a)) st) (\<lambda>dig st.
      rbind (lift_db (add_package_digest (server_of x) pkg dig (octets a)) st) (\<lambda>_ st.
      rbind (lift_run (Some (check_expected expected sha256 dig)) st) (\<lambda>_ st.
      rbind (lift_run (Some (digest (nss_of x) b)) st) (\<lambda>dig st.
      rbind (lift_db (add_package_digest (server_of x) pkg dig (octets b)) st) (\<lambda>_ st.
      rbind (lift_run (Some (check_expected expected sha1 dig)) st) (\<lambda>_ st.
      rbind (case u of None \<Rightarrow> Some (return (), st) | Some u \<Rightarrow> lift_db (add_package_url (server_of x) pkg u) st) (\<lambda>_ st.
      rbind (lift_db (txn_commit (server_of x)) st) (\<lambda>_ st.
      Some (return (pkg, info), st)))))))))))))"

end
