(* ===== verification/Rpm_transaction.thy ===== *)
theory Rpm_transaction
  imports Rpm_load
begin

text \<open>
  What the server is sent while a package is loaded: the transaction of \<open>rpm_load\<close> is committed exactly
  when the function returns, and a package only gets there when its file and all files in it have
  the digests they should have.
\<close>

section \<open>Computations that do not commit\<close>

text \<open>
  \<open>quiet\<close>: between two states of the client, statements were sent, and none of them was \<open>COMMIT\<close>. A
  computation is \<open>calm\<close> if this holds for its states before and after, whether it returns or throws.
\<close>

definition quiet :: "'s database \<Rightarrow> 's database \<Rightarrow> bool" where
  "quiet db db' \<longleftrightarrow>
     (\<exists>xs. sent (db_conn db') = sent (db_conn db) @ xs \<and> ''COMMIT'' \<notin> fst ` set xs)"

definition calm :: "('s, 'a) op \<Rightarrow> bool" where
  "calm f \<longleftrightarrow> (\<forall>db. quiet db (snd (f db)))"

definition calm_load :: "('s, 'a) load \<Rightarrow> bool" where
  "calm_load f \<longleftrightarrow> (\<forall>st r st'. f st = Some (r, st') \<longrightarrow> quiet (ld_db st) (ld_db st'))"

named_theorems calm_intros \<open>computations that do not commit, by their structure\<close>

lemma quiet_refl [simp]: "quiet db db"
  by (simp add: quiet_def)

lemma quiet_trans:
  assumes "quiet a b" and "quiet b c"
  shows "quiet a c"
proof -
  obtain xs ys where "sent (db_conn b) = sent (db_conn a) @ xs" "''COMMIT'' \<notin> fst ` set xs"
    "sent (db_conn c) = sent (db_conn b) @ ys" "''COMMIT'' \<notin> fst ` set ys"
    using assms unfolding quiet_def by blast
  then have "sent (db_conn c) = sent (db_conn a) @ (xs @ ys) \<and> ''COMMIT'' \<notin> fst ` set (xs @ ys)"
    by (simp add: image_Un)
  then show ?thesis unfolding quiet_def by blast
qed

lemma quiet_cache [simp]: "quiet db (db'\<lparr>file_attribute_cache := c\<rparr>) \<longleftrightarrow> quiet db db'"
  by (simp add: quiet_def)

lemma calm_const [calm_intros]: "calm (\<lambda>db. (r, db))"
  by (simp add: calm_def)

lemma calm_depends [calm_intros]: "calm (\<lambda>db. (r db, db))"
  by (simp add: calm_def)

lemma calm_sbind [calm_intros]:
  assumes "calm f" and "\<And>x. calm (g x)"
  shows "calm (\<lambda>db. sbind (f db) g)"
  unfolding calm_def
proof
  fix db
  obtain r db1 where f: "f db = (r, db1)" by fastforce
  have "quiet db db1" using assms(1) f unfolding calm_def by (metis snd_conv)
  then show "quiet db (snd (sbind (f db) g))"
    using assms(2) f by (cases r) (auto simp: calm_def intro: quiet_trans)
qed

lemma calm_if [calm_intros]: "calm f \<Longrightarrow> calm g \<Longrightarrow> calm (\<lambda>db. if b db then f db else g db)"
  by (simp add: calm_def)

lemma calm_let [calm_intros]: "(\<And>y. calm (f y)) \<Longrightarrow> calm (\<lambda>db. let y = v in f y db)"
  by (simp add: calm_def)

lemma calm_case_option [calm_intros]:
  "calm f \<Longrightarrow> (\<And>y. calm (g y)) \<Longrightarrow> calm (\<lambda>db. case v of None \<Rightarrow> f db | Some y \<Rightarrow> g y db)"
  by (cases v) simp_all

lemma calm_case_prod [calm_intros]: "(\<And>y z. calm (f y z)) \<Longrightarrow> calm (\<lambda>db. case v of (y, z) \<Rightarrow> f y z db)"
  by (cases v) simp

lemma calm_case_prod_fun [calm_intros]: "(\<And>y z. calm (f y z)) \<Longrightarrow> calm (case v of (y, z) \<Rightarrow> f y z)"
  by (cases v) simp

lemma calm_if_fun [calm_intros]: "calm f \<Longrightarrow> calm g \<Longrightarrow> calm (if b then f else g)"
  by simp

lemma calm_cache [calm_intros]: "calm (\<lambda>db. (r db, db\<lparr>file_attribute_cache := c db\<rparr>))"
  by (simp add: calm_def)

lemma calm_assert_trans [calm_intros]: "calm f \<Longrightarrow> calm (assert_trans srv f)"
  by (simp add: calm_def assert_trans_def)

lemma calm_query [calm_intros]: "sql \<noteq> ''COMMIT'' \<Longrightarrow> calm (query srv sql as)"
  by (auto simp: calm_def query_def on_conn_def pg_query_def private_pg_query_def execParamsCustom_def quiet_def
      split: prod.split sum.split)

lemma calm_query_binary [calm_intros]: "sql \<noteq> ''COMMIT'' \<Longrightarrow> calm (query_binary srv sql as)"
  by (auto simp: calm_def query_binary_def on_conn_def pg_query_binary_def private_pg_query_def execParamsCustom_def
      quiet_def split: prod.split sum.split)

lemma calm_command [calm_intros]: "sql \<noteq> ''COMMIT'' \<Longrightarrow> calm (command srv sql as)"
  unfolding command_def by (intro calm_intros)

lemma calm_plain: "sql \<noteq> ''COMMIT'' \<Longrightarrow> calm (plain srv sql)"
  unfolding plain_def
  by (intro calm_intros) (auto simp: calm_def on_conn_def exec_def execParamsCustom_def quiet_def split: prod.split)

lemma calm_for_each [calm_intros]: "(\<And>y. calm (f y)) \<Longrightarrow> calm (for_each f ys)"
proof (induction ys)
  case Nil
  show ?case by (simp add: calm_def)
next
  case (Cons y ys)
  then have "calm (\<lambda>db. sbind (f y db) (\<lambda>_. for_each f ys))" by (intro calm_intros) simp_all
  then show ?case by (simp add: calm_def)
qed

section \<open>The operations of the database\<close>

lemma calm_intern_file_attribute [calm_intros]: "calm (intern_file_attribute nss srv info)"
  unfolding intern_file_attribute_def by (intro calm_intros) simp_all

lemma calm_add_file [calm_intros]: "calm (add_file nss srv pkg info dig dat)"
  unfolding add_file_def by (intro calm_intros) simp_all

lemma calm_add_file_contents_id [calm_intros]: "calm (add_file_contents_id srv pkg nm tm inode cid aid)"
  unfolding add_file_contents_id_def by (intro calm_intros) simp_all

lemma calm_update_contents_preview [calm_intros]: "calm (update_contents_preview srv cid dat)"
  unfolding update_contents_preview_def by (intro calm_intros) simp_all

lemma calm_add_directory [calm_intros]: "calm (add_directory nss srv pkg info)"
  unfolding add_directory_def by (intro calm_intros) simp_all

lemma calm_add_symlink [calm_intros]: "calm (add_symlink nss srv pkg info)"
  unfolding add_symlink_def by (intro calm_intros) simp_all

lemma calm_add_program_headers: "quiet db (snd (add_program_headers srv cid r db))"
proof (induction srv cid r db rule: add_program_headers.induct)
  case (1 srv cid r db)
  obtain ok r' where n: "ph_next r = (ok, r')" by fastforce
  show ?case
  proof (cases ok)
    case True
    let ?c = "command srv (''INSERT INTO symboldb.elf_program_header (contents_id, type, file_offset, virt_addr, phys_addr,'' @
             '' file_size, memory_size, align, readable, writable, executable)'' @
             '' VALUES ($1, $2, $3, $4, $5, $6, $7, $8, $9, $10, $11)'')
            [A_int cid, A_long (ucast (p_type (ph_mem r'))), A_long (p_offset (ph_mem r')),
             A_long (p_vaddr (ph_mem r')), A_long (p_paddr (ph_mem r')), A_long (p_filesz (ph_mem r')),
             A_long (p_memsz (ph_mem r')), A_int (ph_align r'), A_bool (ph_readable r'), A_bool (ph_writable r'),
             A_bool (ph_executable r')]"
    obtain e db1 where c: "?c db = (e, db1)" by fastforce
    have "calm ?c" by (intro calm_intros) simp
    then have "quiet db db1" using c unfolding calm_def by (metis snd_conv)
    with "1.IH" [OF n [symmetric]] True c n show ?thesis
      by (cases e) (auto simp: add_program_headers.simps [of srv cid r] intro: quiet_trans)
  qed (simp add: add_program_headers.simps n)
qed

lemma calm_add_elf_image [calm_intros]: "calm (add_elf_image srv cid im so)"
  unfolding add_elf_image_def
  by (intro calm_intros calm_def [THEN iffD2] allI calm_add_program_headers) simp_all


lemma calm_add_elf_symbol_definition [calm_intros]: "calm (add_elf_symbol_definition srv cid d)"
  unfolding add_elf_symbol_definition_def by (intro calm_intros) simp_all

lemma calm_add_elf_symbol_reference [calm_intros]: "calm (add_elf_symbol_reference srv cid r)"
  unfolding add_elf_symbol_reference_def by (intro calm_intros) simp_all

lemma calm_add_elf_rows [calm_intros]:
  "calm (add_elf_needed srv cid nm)" "calm (add_elf_rpath srv cid nm)" "calm (add_elf_runpath srv cid nm)"
  "calm (add_elf_dynamic srv cid t v)" "calm (add_elf_error srv cid nm)"
  unfolding add_elf_needed_def add_elf_rpath_def add_elf_runpath_def add_elf_dynamic_def add_elf_error_def
  by (intro calm_intros; simp)+

lemma calm_add_java_interface [calm_intros]: "calm (add_java_interface srv classid jc i)"
  unfolding add_java_interface_def by (intro calm_intros) simp_all

lemma calm_add_java_references [calm_intros]: "calm (add_java_references srv classid this classes)"
  unfolding add_java_references_def by (intro calm_intros) simp_all

lemma calm_add_java_class [calm_intros]: "calm (add_java_class nss srv cid jc)"
  unfolding add_java_class_def by (intro calm_intros) simp_all

lemma calm_add_rows [calm_intros]:
  "calm (add_xml_error srv cid msg ln bef aft)" "calm (add_java_error srv cid msg path)"
  "calm (add_maven_url srv cid u)" "calm (add_package_url srv pkg w)"
  "calm (add_package_dependency srv pkg dep)"
  unfolding add_xml_error_def add_java_error_def add_maven_url_def add_package_url_def add_package_dependency_def
  by (intro calm_intros; simp)+

lemma calm_add_python_rows [calm_intros]:
  "calm (add_python_import srv cid nm)" "calm (add_python_attribute srv cid nm)"
  "calm (add_python_function_def srv cid nm)" "calm (add_python_class_def srv cid nm)"
  "calm (add_python_error srv cid ln nm)"
  unfolding add_python_import_def add_python_attribute_def add_python_function_def_def add_python_class_def_def
    add_python_error_def
  by (intro calm_intros; simp)+

lemma calm_has_python_analysis [calm_intros]: "calm (has_python_analysis srv cid)"
  unfolding has_python_analysis_def by (intro calm_intros) simp_all

lemma calm_add_package_script [calm_intros]: "calm (add_package_script srv pkg sc)"
  unfolding add_package_script_def by (intro calm_intros) simp_all

lemma calm_add_package_trigger [calm_intros]: "calm (add_package_trigger srv pkg t i)"
  unfolding add_package_trigger_def by (intro calm_intros) simp_all

lemma calm_intern_package [calm_intros]: "calm (intern_package srv pkg)"
  unfolding intern_package_def by (intro calm_intros) simp_all

lemma calm_add_package_digest [calm_intros]: "calm (add_package_digest srv pkg dig len)"
  unfolding add_package_digest_def by (intro calm_intros) simp_all

lemma calm_lock [calm_intros]: "calm (lock srv a b)"
  unfolding lock_def by (intro calm_intros) simp_all

lemma calm_lock_rpm [calm_intros]: "calm (lock_rpm srv info)"
  unfolding lock_rpm_def lock_digest_def by (intro calm_intros)

lemma calm_txn_begin_no_sync [calm_intros]: "calm (txn_begin_no_sync srv)"
  unfolding txn_begin_no_sync_def by (intro calm_plain) simp

lemma advisory_unlock_quiet: "quiet db (advisory_unlock srv l db)"
proof -
  have "calm (query srv ''SELECT pg_advisory_unlock($1, $2)'' [A_int a, A_int b])" for a b
    by (intro calm_intros) simp
  then show ?thesis by (cases l) (simp_all add: advisory_unlock_def calm_def)
qed


section \<open>The parts of the loader\<close>

lemma calm_loadD: "calm_load f \<Longrightarrow> f st = Some (r, st') \<Longrightarrow> quiet (ld_db st) (ld_db st')"
  by (simp add: calm_load_def)

lemma calm_lift_db [calm_intros]: "calm f \<Longrightarrow> calm_load (lift_db f)"
  unfolding calm_load_def lift_db_def calm_def by (metis (no_types, lifting) case_prod_beta loader.select_convs(1)
      loader.surjective loader.update_convs(1) option.inject snd_conv)

lemma calm_lift_db_state [calm_intros]: "(\<And>st. calm (f st)) \<Longrightarrow> calm_load (\<lambda>st. lift_db (f st) st)"
  using calm_lift_db by (force simp: calm_load_def)

lemma calm_lift_run [calm_intros]: "calm_load (lift_run r)"
  by (auto simp: calm_load_def lift_run_def)

lemma calm_load_const [calm_intros]: "calm_load (\<lambda>st. Some (r st, st))"
  by (simp add: calm_load_def)

lemma calm_load_none [calm_intros]: "calm_load (\<lambda>st. None)"
  by (simp add: calm_load_def)

lemma calm_rbind [calm_intros]:
  assumes "calm_load f" and "\<And>y. calm_load (g y)"
  shows "calm_load (\<lambda>st. rbind (f st) g)"
  unfolding calm_load_def
proof (intro allI impI)
  fix st r st'
  assume "rbind (f st) g = Some (r, st')"
  then show "quiet (ld_db st) (ld_db st')"
    using assms by (auto simp: rbind_Some dest: calm_loadD intro: quiet_trans)
qed

lemma calm_load_if [calm_intros]:
  "calm_load f \<Longrightarrow> calm_load g \<Longrightarrow> calm_load (\<lambda>st. if b st then f st else g st)"
  by (simp add: calm_load_def)

lemma calm_load_let [calm_intros]: "(\<And>y. calm_load (f y)) \<Longrightarrow> calm_load (\<lambda>st. let y = v in f y st)"
  by (simp add: calm_load_def)

lemma calm_load_option [calm_intros]:
  "calm_load f \<Longrightarrow> (\<And>y. calm_load (g y)) \<Longrightarrow> calm_load (\<lambda>st. case v of None \<Rightarrow> f st | Some y \<Rightarrow> g y st)"
  by (cases v) simp_all

lemma calm_load_prod [calm_intros]:
  "(\<And>y z. calm_load (f y z)) \<Longrightarrow> calm_load (\<lambda>st. case v of (y, z) \<Rightarrow> f y z st)"
  by (cases v) simp

lemma calm_load_prod_fun [calm_intros]: "(\<And>y z. calm_load (f y z)) \<Longrightarrow> calm_load (case v of (y, z) \<Rightarrow> f y z)"
  by (cases v) simp

lemma calm_load_list [calm_intros]:
  "calm_load f \<Longrightarrow> (\<And>y ys. calm_load (g y ys)) \<Longrightarrow> calm_load (\<lambda>st. case v of [] \<Rightarrow> f st | y # ys \<Rightarrow> g y ys st)"
  by (cases v) simp_all

lemma calm_load_sum [calm_intros]:
  "(\<And>y. calm_load (f y)) \<Longrightarrow> (\<And>y. calm_load (g y)) \<Longrightarrow> calm_load (\<lambda>st. case v of Inl y \<Rightarrow> f y st | Inr y \<Rightarrow> g y st)"
  by (cases v) simp_all

lemma calm_dump_symbol [calm_intros]: "calm (dump_symbol srv cid s)"
  unfolding dump_symbol_def dump_def_def dump_ref_def by (intro calm_intros)

lemma load_symbols_quiet:
  assumes "load_symbols srv cid e s st = Some y"
  shows "quiet (ld_db st) (ld_db (snd y))"
  using assms
proof (rule load_symbols.raw_induct
    [where P = "\<lambda>srv cid e s st y. quiet (ld_db st) (ld_db (snd y))", rotated], goal_cases)
  case (1 f srv cid e s st y)
  obtain r st' where y: "y = (r, st')" by fastforce
  from 1 show ?case unfolding y
    by (auto simp: rbind_Some lift_run_def split: if_splits
        dest!: calm_loadD [OF calm_lift_db [OF calm_dump_symbol]] intro: quiet_trans)
qed

lemma calm_load_symbols [calm_intros]: "calm_load (load_symbols srv cid e s)"
  by (auto simp: calm_load_def dest: load_symbols_quiet)

lemma calm_load_dynamic_entry [calm_intros]: "calm (load_dynamic_entry srv cid r found)"
  unfolding load_dynamic_entry_def by (cases "dyn_type r") (auto intro!: calm_intros)

lemma load_dynamic_quiet: "quiet db (snd (load_dynamic srv cid r found db))"
proof (induction srv cid r found db rule: load_dynamic.induct)
  case (1 srv cid r found db)
  show ?case
  proof (cases "\<exists>r'. dyn_next r = Inr (True, r')")
    case True
    then obtain r' where n: "dyn_next r = Inr (True, r')" by blast
    obtain e db1 where c: "load_dynamic_entry srv cid r' found db = (e, db1)" by fastforce
    have "quiet db db1" using calm_load_dynamic_entry c unfolding calm_def by (metis snd_conv)
    with "1.IH" [OF n refl] c n show ?thesis
      by (cases e) (auto simp: load_dynamic.simps [of srv cid r] intro: quiet_trans)
  next
    case False
    then show ?thesis by (auto simp: load_dynamic.simps [of srv cid r] split: sum.split)
  qed
qed

lemma calm_load_dynamic [calm_intros]: "calm (load_dynamic srv cid r found)"
  by (simp add: calm_def load_dynamic_quiet)

lemma calm_load_elf_body: "calm_load (load_elf_body x cid data)"
  unfolding load_elf_body_def by (intro calm_intros)

lemma calm_load_elf [calm_intros]: "calm_load (load_elf x cid data)"
  unfolding calm_load_def
proof (intro allI impI)
  fix st r st'
  assume l: "load_elf x cid data st = Some (r, st')"
  obtain r1 st1 where b: "load_elf_body x cid data st = Some (r1, st1)"
    using l by (cases "load_elf_body x cid data st") (auto simp: load_elf_def)
  have q: "quiet (ld_db st) (ld_db st1)" using calm_loadD [OF calm_load_elf_body b] .
  have "quiet (ld_db st1) (ld_db st')" if "lift_db (add_elf_error (server_of x) cid msg) st1 = Some (r, st')" for msg
    using calm_loadD [OF calm_lift_db [OF calm_add_elf_rows(5)] that] .
  with l b q show "quiet (ld_db st) (ld_db st')"
    by (auto simp: load_elf_def split: sum.splits option.splits intro: quiet_trans)
qed

lemma calm_python_parse [calm_intros]: "calm_load (python_parse x data)"
  by (auto simp: calm_load_def python_parse_def split: prod.splits)

lemma calm_load_python [calm_intros]: "calm_load (load_python x cid data)"
  unfolding load_python_def by (intro calm_intros)

lemma calm_load_xml [calm_intros]: "calm_load (load_xml x cid data)"
  unfolding load_xml_def by (intro calm_intros)

lemma calm_load_class [calm_intros]: "calm (load_class x cid data path)"
  unfolding calm_def
proof
  fix db
  obtain r db1 where b: "sbind (java_class data, db) (add_java_class (nss_of x) (server_of x) cid) = (r, db1)"
    by fastforce
  have "calm (\<lambda>db. sbind (java_class data, db) (add_java_class (nss_of x) (server_of x) cid))" by (intro calm_intros)
  then have q: "quiet db db1" using b unfolding calm_def by (metis snd_conv)
  have "calm (\<lambda>db. sbind (path, db) (\<lambda>path. add_java_error (server_of x) cid msg path))" for msg
    by (intro calm_intros)
  then have "quiet db1 (snd (sbind (path, db1) (\<lambda>path. add_java_error (server_of x) cid msg path)))" for msg
    unfolding calm_def by blast
  with b q show "quiet db (snd (load_class x cid data path db))"
    by (auto simp: load_class_def split: sum.split option.split intro: quiet_trans)
qed

lemma calm_load_if_class [calm_intros]: "calm (load_if_class x cid data path)"
  unfolding load_if_class_def by (intro calm_intros)

lemma calm_load_zip_entry [calm_intros]: "calm (load_zip_entry x cid z data r)"
  unfolding load_zip_entry_def by (cases r) (auto intro!: calm_intros)

lemma load_zip_loop_quiet:
  assumes "load_zip_loop x cid z st = Some y"
  shows "quiet (ld_db st) (ld_db (snd y))"
  using assms
proof (rule load_zip_loop.raw_induct
    [where P = "\<lambda>x cid z st y. quiet (ld_db st) (ld_db (snd y))", rotated], goal_cases)
  case (1 f x cid z st y)
  obtain r st' where y: "y = (r, st')" by fastforce
  have e: "quiet (ld_db st) (ld_db st')" if "lift_db (add_java_error (server_of x) cid msg []) st = Some (r, st')" for msg
    using calm_loadD [OF calm_lift_db [OF calm_add_rows(2)] that] .
  have l: "quiet (ld_db st) (ld_db st1)" if "lift_db (load_zip_entry x cid z' data r') st = Some (r1, st1)" for z' data r' r1 st1
    using calm_loadD [OF calm_lift_db [OF calm_load_zip_entry] that] .
  from 1 show ?case unfolding y
    by (auto simp: rbind_Some bind_eq_Some_conv split: if_splits prod.splits sum.splits option.splits
        dest!: e l intro: quiet_trans)
qed

lemma calm_load_zip [calm_intros]: "calm_load (load_zip x cid data)"
proof -
  have "calm_load (load_zip_loop x cid z)" for z by (auto simp: calm_load_def dest: load_zip_loop_quiet)
  then show ?thesis unfolding load_zip_def by (intro calm_intros)
qed

lemma calm_do_load_formats [calm_intros]: "calm_load (do_load_formats x cid ent)"
  unfolding do_load_formats_def by (intro calm_intros)

lemma calm_add_links [calm_intros]: "calm (add_links nss srv pkginfo pkg cid front ps py)"
proof (induction ps arbitrary: py)
  case (Cons p ps)
  have "calm (\<lambda>db. add_links nss srv pkginfo pkg cid front (p # ps) py db)"
    unfolding add_links.simps by (intro calm_intros Cons.IH)
  then show ?case .
qed (simp add: calm_def)

lemma calm_load_contents [calm_intros]: "calm_load (load_contents x pkginfo a ent py)"
  unfolding load_contents_def by (intro calm_intros)

lemma calm_add_files [calm_intros]: "calm_load (add_files x pkginfo pkg rpm_path ent)"
  unfolding add_files_def by (intro calm_intros)

lemma calm_load_entry [calm_intros]: "calm_load (load_entry x pkginfo pkg rpm_path ent)"
  unfolding load_entry_def by (intro calm_intros)

lemma load_files_quiet:
  "load_files x img pkginfo pkg rpm_path p ent st = Some (r, st') \<Longrightarrow> quiet (ld_db st) (ld_db st')"
proof (induction x img pkginfo pkg rpm_path p ent st arbitrary: r st' rule: load_files.induct)
  case (1 x img pkginfo pkg rpm_path p ent st)
  show ?case
  proof (cases "\<exists>e p'. read_file (rpm_fdopen img) p ent = Inr (Some e, p')")
    case True
    then obtain e p' where f: "read_file (rpm_fdopen img) p ent = Inr (Some e, p')" by blast
    then have "rbind (load_entry x pkginfo pkg rpm_path e st)
        (\<lambda>ent st. load_files x img pkginfo pkg rpm_path p' ent st) = Some (r, st')"
      using "1.prems" by (simp add: load_files.simps [of x img pkginfo pkg rpm_path p])
    then consider (throws) e' where "load_entry x pkginfo pkg rpm_path e st = Some (Inl e', st')"
      | (loads) e' st1 where "load_entry x pkginfo pkg rpm_path e st = Some (Inr e', st1)"
          "load_files x img pkginfo pkg rpm_path p' e' st1 = Some (r, st')"
      by (auto simp: rbind_Some)
    then show ?thesis
    proof cases
      case throws
      then show ?thesis by (rule calm_loadD [OF calm_load_entry])
    next
      case loads
      then show ?thesis
        using "1.IH" [OF f refl refl] quiet_trans [OF calm_loadD [OF calm_load_entry loads(1)]] by blast
    qed
  next
    case False
    with "1.prems" show ?thesis
      by (auto simp: load_files.simps [of x img pkginfo pkg rpm_path p] split: sum.splits option.splits)
  qed
qed

lemma calm_load_files [calm_intros]: "calm_load (load_files x img pkginfo pkg rpm_path p ent)"
  by (auto simp: calm_load_def dest: load_files_quiet)

lemma calm_add_headers [calm_intros]:
  "calm (add_dependencies srv pkg deps)" "calm (add_scripts srv pkg h)" "calm (add_triggers srv pkg h)"
  unfolding add_dependencies_def add_scripts_def add_triggers_def by (intro calm_intros)+

lemma calm_unlock [calm_intros]:
  assumes "calm_load f"
  shows "calm_load (\<lambda>st. let st = st\<lparr>ld_db := advisory_unlock srv l (ld_db st)\<rparr> in f st)"
  unfolding calm_load_def Let_def
proof (intro allI impI)
  fix st r st'
  assume "f (st\<lparr>ld_db := advisory_unlock srv l (ld_db st)\<rparr>) = Some (r, st')"
  from calm_loadD [OF assms this] show "quiet (ld_db st) (ld_db st')"
    by (auto intro: quiet_trans [OF advisory_unlock_quiet])
qed

lemma calm_set_py [calm_intros]:
  assumes "calm_load f"
  shows "calm_load (\<lambda>st. let st = st\<lparr>ld_py := py\<rparr> in f st)"
  unfolding calm_load_def Let_def by (auto dest!: calm_loadD [OF assms])

lemma calm_load_rpm_internal [calm_intros]: "calm_load (load_rpm_internal x img rpm_path)"
  unfolding load_rpm_internal_def by (intro calm_intros)


section \<open>The transaction\<close>

text \<open>All of \<open>rpm_load\<close> before the \<open>COMMIT\<close>.\<close>

definition load_body ::
    "('c, 's, 'd, 'z) externals \<Rightarrow> rpm_image \<Rightarrow> string \<Rightarrow> checksum option \<Rightarrow> string option
     \<Rightarrow> ('s, u32 \<times> rpm_package_info) load" where
  "load_body x img path expected u st =
     rbind (lift_db (txn_begin_no_sync (server_of x)) st) (\<lambda>_ st.
     rbind (load_rpm_internal x img path st) (\<lambda>(pkg, info) st.
     rbind (lift_run (Some (hash_both (nss_of x) img)) st) (\<lambda>(a, b) st.
     rbind (lift_run (Some (digest (nss_of x) a)) st) (\<lambda>dig st.
     rbind (lift_db (add_package_digest (server_of x) pkg dig (octets a)) st) (\<lambda>_ st.
     rbind (lift_run (Some (check_expected expected sha256 dig)) st) (\<lambda>_ st.
     rbind (lift_run (Some (digest (nss_of x) b)) st) (\<lambda>dig st.
     rbind (lift_db (add_package_digest (server_of x) pkg dig (octets b)) st) (\<lambda>_ st.
     rbind (lift_run (Some (check_expected expected sha1 dig)) st) (\<lambda>_ st.
     rbind (case u of None \<Rightarrow> Some (return (), st) | Some u \<Rightarrow> lift_db (add_package_url (server_of x) pkg u) st) (\<lambda>_ st.
     Some (return (pkg, info), st)))))))))))"

definition bad_type :: "checksum option \<Rightarrow> bool" where
  "bad_type expected \<longleftrightarrow>
     (case expected of Some c \<Rightarrow> csum_type c \<noteq> sha256 \<and> csum_type c \<noteq> sha1 | None \<Rightarrow> False)"

lemma rpm_load_split:
  "rpm_load x img path expected u st =
     (if bad_type expected then Some (throw (Runtime_error ''unsupported hash type''), st)
      else rbind (load_body x img path expected u st) (\<lambda>y st.
        rbind (lift_db (txn_commit (server_of x)) st) (\<lambda>_ st. Some (return y, st))))"
  by (simp add: rpm_load_def load_body_def bad_type_def rbind_assoc split_def)

lemma calm_load_body: "calm_load (load_body x img path expected u)"
  unfolding load_body_def by (intro calm_intros)

lemma txn_commit_sent:
  assumes "txn_commit srv db = (r, db')"
  shows "sent (db_conn db') = sent (db_conn db) @ [(''COMMIT'', [])]"
  using assms
  by (auto simp: txn_commit_def plain_def on_conn_def exec_def execParamsCustom_def sbind_def split: prod.splits sum.splits)

lemma rpm_load_transaction:
  assumes "rpm_load x img path expected u st = Some (r, st')"
  shows "\<exists>xs. sent (db_conn (ld_db st')) = sent (db_conn (ld_db st)) @ xs \<and>
     (case r of
        Inr _ \<Rightarrow> xs \<noteq> [] \<and> last xs = (''COMMIT'', []) \<and> ''COMMIT'' \<notin> fst ` set (butlast xs)
      | Inl e \<Rightarrow> ''COMMIT'' \<notin> fst ` set xs \<or>
          ''COMMIT'' \<notin> fst ` set (butlast xs) \<and> (\<exists>db. txn_commit (server_of x) db = (Inl e, ld_db st')))"
proof (cases "bad_type expected")
  case True
  with assms show ?thesis by (auto simp: rpm_load_split)
next
  case False
  with assms consider (throws) e where "load_body x img path expected u st = Some (Inl e, st')" "r = Inl e"
    | (commits) y st1 where "load_body x img path expected u st = Some (Inr y, st1)"
        "rbind (lift_db (txn_commit (server_of x)) st1) (\<lambda>_ st. Some (return y, st)) = Some (r, st')"
    by (auto simp: rpm_load_split rbind_Some)
  then show ?thesis
  proof cases
    case throws
    from calm_loadD [OF calm_load_body this(1)] throws(2) show ?thesis by (auto simp: quiet_def)
  next
    case commits
    obtain xs where xs: "sent (db_conn (ld_db st1)) = sent (db_conn (ld_db st)) @ xs" "''COMMIT'' \<notin> fst ` set xs"
      using calm_loadD [OF calm_load_body commits(1)] unfolding quiet_def by blast
    obtain c db2 where c: "txn_commit (server_of x) (ld_db st1) = (c, db2)" by fastforce
    then have "st' = st1\<lparr>ld_db := db2\<rparr>" and r: "r = (case c of Inl e \<Rightarrow> Inl e | Inr _ \<Rightarrow> Inr y)"
      using commits(2) by (auto simp: lift_db_def rbind_Some split: sum.splits)
    then have "sent (db_conn (ld_db st')) = sent (db_conn (ld_db st)) @ (xs @ [(''COMMIT'', [])])"
      using xs(1) txn_commit_sent [OF c] by simp
    moreover have "ld_db st' = db2" using \<open>st' = _\<close> by simp
    ultimately show ?thesis
      using r c xs(2) by (intro exI [of _ "xs @ [(''COMMIT'', [])]"]) (auto split: sum.split)
  qed
qed

text \<open>
  C1. The transaction of a package: if \<open>rpm_load\<close> returns, the last statement sent to the server is the
  only \<open>COMMIT\<close>; if it throws, whatever the reason, no \<open>COMMIT\<close> was sent, except when the server refused
  the \<open>COMMIT\<close> itself.
\<close>

theorem rpm_load_commits:
  assumes "rpm_load x img path expected u st = Some (r, st')"
  shows "\<exists>xs. sent (db_conn (ld_db st')) = sent (db_conn (ld_db st)) @ xs \<and>
     (case r of
        Inr _ \<Rightarrow> xs \<noteq> [] \<and> last xs = (''COMMIT'', []) \<and> ''COMMIT'' \<notin> fst ` set (butlast xs)
      | Inl e \<Rightarrow> ''COMMIT'' \<notin> fst ` set xs \<or>
          ''COMMIT'' \<notin> fst ` set (butlast xs) \<and> (\<exists>db. txn_commit (server_of x) db = (Inl e, ld_db st')))"
  using assms by (rule rpm_load_transaction)


section \<open>Which files are loaded\<close>

text \<open>The reader uses the entry it is given only as a buffer for the contents.\<close>

lemma ghost_loop_cong: "ghost_loop p m f = ghost_loop p m f'"
  by (induction p m f rule: ghost_loop.induct) (auto intro!: bind_cong)

lemma read_loop_cong:
  "rpm_file_entry.contents f = rpm_file_entry.contents f' \<Longrightarrow> read_loop p f = read_loop p f'"
proof (induction p f arbitrary: f' rule: read_loop.induct)
  case (1 p f)
  show ?case
  proof (cases "reached_ghosts p")
    case True
    then show ?thesis
      using ghost_loop_cong [of p _ f f'] by (simp add: read_loop.simps [of p f] read_loop.simps [of p f'] read_file_ghost_def)
  next
    case False
    obtain c pp where rc: "read_cpio (rpm_file_entry.contents f) (payload p) = (c, pp)" by fastforce
    have eq: "read_cpio (rpm_file_entry.contents f') (payload p) = (c, pp)" using rc "1.prems" by simp
    have rec: "read_loop q (f\<lparr>contents := data\<rparr>) = read_loop q (f'\<lparr>contents := data\<rparr>)"
      if "c = Inr (Item nm data)" "process_entry (p\<lparr>payload := pp\<rparr>) nm data = Inr (None, q)" for nm data q
      by (rule "1.IH" [OF False rc [symmetric] that(1) refl that(2) refl]) simp_all
    show ?thesis
      using False rc eq ghost_loop_cong [of _ _ f f'] rec
      by (auto simp: read_loop.simps [of p f] read_loop.simps [of p f'] read_file_ghost_def
          split: sum.split cpio_item.split option.split)
  qed
qed

lemma read_all_cong:
  assumes "rpm_file_entry.contents f = rpm_file_entry.contents f'"
  shows "read_all p f = read_all p f'"
  by (simp add: read_all.simps [of p f] read_all.simps [of p f'] read_loop_cong [OF assms])

text \<open>The entries of a package, one after the other.\<close>

fun load_entries ::
    "('c, 's, 'd, 'z) externals \<Rightarrow> rpm_package_info \<Rightarrow> u32 \<Rightarrow> string \<Rightarrow> rpm_file_entry list \<Rightarrow> ('s, unit) load" where
  "load_entries x pkginfo pkg rpm_path [] st = Some (return (), st)"
| "load_entries x pkginfo pkg rpm_path (e # es) st =
     rbind (load_entry x pkginfo pkg rpm_path e st) (\<lambda>_. load_entries x pkginfo pkg rpm_path es)"

lemma add_files_contents:
  "add_files x pkginfo pkg rpm_path e st = Some (Inr e', st') \<Longrightarrow> rpm_file_entry.contents e' = rpm_file_entry.contents e"
  by (cases "infos e") (auto simp: add_files_def rbind_returns Let_def lift_run_def split: if_splits prod.splits)

lemma load_entry_contents:
  "load_entry x pkginfo pkg rpm_path e st = Some (Inr e', st') \<Longrightarrow> rpm_file_entry.contents e' = rpm_file_entry.contents e"
  by (auto simp: load_entry_def rbind_Some split: if_splits list.splits dest: add_files_contents)

lemma read_file_open: "payload_is_open p \<Longrightarrow> read_file fdopen p f = read_loop p f"
  by (simp add: read_file_def)

lemma load_files_entries:
  "read_all p f = Inr es \<Longrightarrow> payload_is_open p \<Longrightarrow>
   load_files x img pkginfo pkg rpm_path p f st = load_entries x pkginfo pkg rpm_path es st"
proof (induction es arbitrary: p f st)
  case Nil
  then obtain p' where "read_loop p f = Inr (None, p')"
    by (subst (asm) read_all.simps) (auto split: option.splits)
  then show ?case using Nil.prems by (simp add: load_files.simps [of _ _ _ _ _ p] read_file_open)
next
  case (Cons e es)
  then obtain p' where r: "read_loop p f = Inr (Some e, p')" "read_all p' e = Inr es"
    by (subst (asm) read_all.simps) (auto split: option.splits)
  then have o: "payload_is_open p'" using Cons.prems(2) by (simp add: read_loop_open)
  have "load_files x img pkginfo pkg rpm_path p' e' st1 = load_entries x pkginfo pkg rpm_path es st1"
    if "load_entry x pkginfo pkg rpm_path e st = Some (Inr e', st1)" for e' st1
    using Cons.IH [OF _ o, of e' st1] r(2) read_all_cong [OF load_entry_contents [OF that], of p'] by simp
  then show ?case
    using Cons.prems(2) r(1) by (auto simp: load_files.simps [of _ _ _ _ _ p] read_file_open intro!: rbind_cong)
qed

lemma load_files_read:
  "load_files x img pkginfo pkg rpm_path p f st = Some (Inr u, st') \<Longrightarrow> payload_is_open p \<Longrightarrow> \<exists>es. read_all p f = Inr es"
proof (induction x img pkginfo pkg rpm_path p f st rule: load_files.induct)
  case (1 x img pkginfo pkg rpm_path p f st)
  then obtain r p' where r: "read_loop p f = Inr (r, p')"
    by (auto simp: load_files.simps [of x img pkginfo pkg rpm_path p] read_file_open split: sum.splits)
  show ?case
  proof (cases r)
    case None
    then show ?thesis using r by (simp add: read_all.simps [of p])
  next
    case (Some e)
    then obtain e' st1 where e: "load_entry x pkginfo pkg rpm_path e st = Some (Inr e', st1)"
      "load_files x img pkginfo pkg rpm_path p' e' st1 = Some (Inr u, st')"
      using "1.prems" r by (auto simp: load_files.simps [of x img pkginfo pkg rpm_path p] read_file_open rbind_Some)
    have "\<exists>es. read_all p' e' = Inr es"
      using "1.IH" [of "(r, p')" r p' e e' st1] e r Some "1.prems"(2) read_loop_open [OF r] by (simp add: read_file_open)
    then show ?thesis
      using r Some read_all_cong [OF load_entry_contents [OF e(1)], of p'] by (auto simp: read_all.simps [of p])
  qed
qed

section \<open>Digests\<close>

lemma hash_data_digest:
  assumes "nss_digests nss H collected"
  shows "hash_data nss t d = Inr (H t d)"
proof -
  obtain s where s: "hash_sink_new nss t = Inr s" "sink_holds collected s t []"
    using hash_sink_holds [OF assms] by blast
  obtain s' where "write_hash nss d s = Inr s'" "sink_holds collected s' t ([] @ d)"
    using write_hash_holds [OF assms s(2)] by blast
  then show ?thesis using s(1) digest_holds [OF assms] by (simp add: hash_data_def)
qed

text \<open>
  The contents of an entry that is a file have the digest of the header; directories and symbolic links
  are entries with one name.
\<close>

definition checked :: "(hash_type \<Rightarrow> u8 list \<Rightarrow> u8 list) \<Rightarrow> rpm_file_entry \<Rightarrow> bool" where
  "checked H e \<longleftrightarrow>
     (\<exists>info. infos e = [info] \<and> (is_directory info \<or> is_symlink info)) \<or>
     (\<exists>info rest. infos e = info # rest \<and>
        csum_value (file_digest info) = H (csum_type (file_digest info)) (rpm_file_entry.contents e))"

lemma add_files_checked:
  assumes "nss_digests (nss_of x) H collected" and "add_files x pkginfo pkg rpm_path e st = Some (Inr e', st')"
  shows "checked H e"
proof -
  obtain y where p: "prepare_load (nss_of x) rpm_path e = Inr y"
    using assms(2) by (auto simp: add_files_def rbind_returns lift_run_def)
  then obtain info rest where i: "infos e = info # rest"
    by (cases "infos e") (auto simp: prepare_load_def)
  with p have "csum_value (file_digest info) = H (csum_type (file_digest info)) (rpm_file_entry.contents e)"
    by (auto simp: prepare_load_def check_digest_def hash_data_digest [OF assms(1)] split: if_splits)
  with i show ?thesis by (auto simp: checked_def)
qed

lemma load_entry_checked:
  assumes "nss_digests (nss_of x) H collected" and "load_entry x pkginfo pkg rpm_path e st = Some (Inr e', st')"
  shows "checked H e"
proof (cases "length (infos e) > 1")
  case True
  with assms show ?thesis by (auto simp: load_entry_def intro: add_files_checked)
next
  case False
  then obtain info where i: "infos e = [info]"
    using assms(2) by (cases "infos e") (auto simp: load_entry_def)
  show ?thesis
  proof (cases "is_directory info \<or> is_symlink info")
    case True
    with i show ?thesis by (simp add: checked_def)
  next
    case False
    with assms i show ?thesis by (auto simp: load_entry_def intro: add_files_checked)
  qed
qed

lemma load_entries_checked:
  assumes "nss_digests (nss_of x) H collected"
  shows "load_entries x pkginfo pkg rpm_path es st = Some (Inr u, st') \<Longrightarrow> \<forall>e \<in> set es. checked H e"
  by (induction es arbitrary: st) (auto simp: rbind_returns dest: load_entry_checked [OF assms])

lemma load_files_open:
  assumes "open_payload (rpm_fdopen img) (fresh_parser h rest) = Inr p"
  shows "load_files x img pkginfo pkg path (fresh_parser h rest) f st = load_files x img pkginfo pkg path p f st"
proof -
  have "payload_is_open p" using assms by (auto simp: open_payload_def split: option.splits)
  then have "read_file (rpm_fdopen img) (fresh_parser h rest) f = read_file (rpm_fdopen img) p f"
    using assms by (simp add: read_file_def fresh_parser_def)
  then show ?thesis
    by (simp add: load_files.simps [of x img pkginfo pkg path "fresh_parser h rest"] load_files.simps [of x img pkginfo pkg path p])
qed

text \<open>A package that was not known before: all files of its header are read, and they are checked.\<close>

lemma load_files_fresh:
  assumes "nss_digests (nss_of x) H collected"
    and "load_files x img pkginfo pkg rpm_path (fresh_parser h rest) f st = Some (Inr u, st')"
    and "f = \<lparr>infos = [], contents = []\<rparr>"
  shows "\<exists>es. read_files (rpm_fdopen img) (fresh_parser h rest) = Inr es \<and> (\<forall>e \<in> set es. checked H e)"
proof -
  let ?p = "fresh_parser h rest"
  obtain p1 where p1: "open_payload (rpm_fdopen img) ?p = Inr p1"
  proof (cases "open_payload (rpm_fdopen img) ?p")
    case (Inl e)
    then have "read_file (rpm_fdopen img) ?p f = Inl e" by (simp add: read_file_def fresh_parser_def)
    with assms(2) show ?thesis by (simp add: load_files.simps [of x img pkginfo pkg rpm_path ?p])
  qed (rule that)
  then have o: "payload_is_open p1" by (auto simp: open_payload_def split: option.splits)
  have l: "load_files x img pkginfo pkg rpm_path p1 f st = Some (Inr u, st')"
    using assms(2) load_files_open [OF p1, of x pkginfo pkg rpm_path f st] by simp
  then obtain es where es: "read_all p1 f = Inr es" using load_files_read o by blast
  then have "\<forall>e \<in> set es. checked H e"
    using load_entries_checked [OF assms(1)] load_files_entries [OF es o] l by metis
  with es p1 assms(3) show ?thesis by (simp add: read_files_def)
qed

lemma load_rpm_internal_files:
  assumes "nss_digests (nss_of x) H collected"
    and "load_rpm_internal x img rpm_path st = Some (Inr (pkg, info), st')"
  shows "(\<exists>db. fst (intern_package (server_of x) info db) = Inr (False, pkg)) \<or>
    (\<exists>es. read_files (rpm_fdopen img) (fresh_parser (rpm_hdr img) (rpm_payload img)) = Inr es \<and> (\<forall>e \<in> set es. checked H e))"
proof -
  obtain p info' deps where new: "rpm_parser_new (rpm_fopen img) (rpm_rc img) (rpm_hdr img) (rpm_payload img) = Inr (p, info', deps)"
    using assms(2) by (auto simp: load_rpm_internal_def split: sum.splits)
  then have p: "p = fresh_parser (rpm_hdr img) (rpm_payload img)"
    by (auto simp: rpm_parser_new_def fresh_parser_def split: option.splits if_splits)
  obtain st1 where "rbind (lift_db (intern_package (server_of x) info') st1) (\<lambda>(fresh, pkg) st.
      if \<not> fresh then Some (return (pkg, info'), st)
      else
      rbind (lift_db (add_dependencies (server_of x) pkg deps) st) (\<lambda>_ st.
      rbind (lift_db (add_scripts (server_of x) pkg (header p)) st) (\<lambda>_ st.
      rbind (lift_db (add_triggers (server_of x) pkg (header p)) st) (\<lambda>_ st.
      rbind (load_files x img info' pkg rpm_path p \<lparr>infos = [], contents = []\<rparr> st) (\<lambda>_ st.
      Some (return (pkg, info'), st)))))) = Some (Inr (pkg, info), st')"
    using assms(2) new by (auto simp: load_rpm_internal_def Let_def rbind_returns)
  then obtain fresh pk st2 where i: "lift_db (intern_package (server_of x) info') st1 = Some (Inr (fresh, pk), st2)"
    and pk: "pk = pkg" "info' = info"
    and rest: "fresh \<Longrightarrow> \<exists>u st3 st4. load_files x img info' pk rpm_path p \<lparr>infos = [], contents = []\<rparr> st3 = Some (Inr u, st4)"
    by (auto simp: rbind_returns split: if_splits) blast+
  show ?thesis
  proof (cases fresh)
    case True
    with rest load_files_fresh [OF assms(1) _ refl] p show ?thesis by blast
  next
    case False
    then have "fst (intern_package (server_of x) info (ld_db st1)) = Inr (False, pkg)"
      using i pk by (auto simp: lift_db_def split: prod.splits)
    then show ?thesis by blast
  qed
qed


lemma tee_reads_hold:
  assumes "nss_digests nss H collected"
  shows "sink_holds collected a t d \<Longrightarrow> sink_holds collected b t' d \<Longrightarrow> tee_reads nss rs a b = Inr (a', b') \<Longrightarrow>
    \<exists>bs. Hash.contents rs = Inr bs \<and> sink_holds collected a' t (d @ bs) \<and> sink_holds collected b' t' (d @ bs)"
proof (induction rs arbitrary: a b d)
  case (Cons r rs)
  obtain buf where r: "r = Inr buf" using Cons.prems(3) by (cases r) simp_all
  show ?case
  proof (cases "buf = []")
    case True
    then show ?thesis using Cons.prems r by simp
  next
    case False
    obtain a1 where a1: "write_hash nss buf a = Inr a1" "sink_holds collected a1 t (d @ buf)"
      using write_hash_holds [OF assms Cons.prems(1)] by blast
    obtain b1 where b1: "write_hash nss buf b = Inr b1" "sink_holds collected b1 t' (d @ buf)"
      using write_hash_holds [OF assms Cons.prems(2)] by blast
    have "tee_reads nss rs a1 b1 = Inr (a', b')" using Cons.prems(3) r False a1 b1 by simp
    from Cons.IH [OF a1(2) b1(2) this] r False show ?thesis by auto
  qed
qed simp

lemma hash_both_holds:
  assumes "nss_digests nss H collected" and "hash_both nss img = Inr (a, b)"
  shows "\<exists>bs. Hash.contents (rpm_reads img) = Inr bs \<and> digest nss a = Inr (H sha256 bs) \<and> digest nss b = Inr (H sha1 bs)"
proof -
  obtain s where s: "hash_sink_new nss sha256 = Inr s" "sink_holds collected s sha256 []"
    using hash_sink_holds [OF assms(1)] by blast
  obtain s' where s': "hash_sink_new nss sha1 = Inr s'" "sink_holds collected s' sha1 []"
    using hash_sink_holds [OF assms(1)] by blast
  have "tee_reads nss (rpm_reads img) s s' = Inr (a, b)"
    using assms(2) s(1) s'(1) by (auto simp: hash_both_def split: if_splits)
  from tee_reads_hold [OF assms(1) s(2) s'(2) this] show ?thesis using digest_holds [OF assms(1)] by auto
qed

lemma load_body_verified:
  assumes n: "nss_digests (nss_of x) H collected" and l: "load_body x img path expected u st = Some (Inr (pkg, info), st')"
    and t: "\<not> bad_type expected"
  shows "(\<exists>bs. Hash.contents (rpm_reads img) = Inr bs \<and>
            (\<forall>c. expected = Some c \<longrightarrow> csum_type c \<in> {sha256, sha1} \<and> csum_value c = H (csum_type c) bs)) \<and>
         ((\<exists>db. fst (intern_package (server_of x) info db) = Inr (False, pkg)) \<or>
          (\<exists>es. read_files (rpm_fdopen img) (fresh_parser (rpm_hdr img) (rpm_payload img)) = Inr es \<and>
             (\<forall>e \<in> set es. checked H e)))"
proof -
  obtain st1 st2 a b da db where
    i: "load_rpm_internal x img path st1 = Some (Inr (pkg, info), st2)"
    and h: "hash_both (nss_of x) img = Inr (a, b)" "digest (nss_of x) a = Inr da" "digest (nss_of x) b = Inr db"
    and e: "check_expected expected sha256 da = Inr ()" "check_expected expected sha1 db = Inr ()"
    using l unfolding load_body_def by (auto simp: rbind_returns lift_run_def)
  obtain bs where bs: "Hash.contents (rpm_reads img) = Inr bs" "da = H sha256 bs" "db = H sha1 bs"
    using hash_both_holds [OF n h(1)] h(2,3) by auto
  have "csum_type c \<in> {sha256, sha1} \<and> csum_value c = H (csum_type c) bs" if "expected = Some c" for c
    using e t bs(2,3) that by (auto simp: check_expected_def bad_type_def split: if_splits)
  with bs(1) load_rpm_internal_files [OF n i] show ?thesis by blast
qed



section \<open>An example\<close>

text \<open>
  A package with one file, and a server that takes every statement: it knows no package, and answers
  other queries with a row of numbers.
\<close>

definition load_server :: "unit server" where
  "load_server =
     \<lparr>respond = (\<lambda>sql ps fmt s.
        (Some
          (if fmt = 1 \<and> take 17 sql \<noteq> ''SELECT package_id'' then
             \<lparr>res_status = PGRES_TUPLES_OK, res_message = [], res_columns = [(23, 1), (23, 1), (16, 1), (23, 1)],
              res_rows = [[Some [0, 0, 0, 7], Some [0, 0, 0, 8], Some [0], Some [0, 0, 0, 9]]]\<rparr>
           else \<lparr>res_status = PGRES_COMMAND_OK, res_message = [], res_columns = [], res_rows = []\<rparr>), s)),
      in_transaction = (\<lambda>_. True), little_endian = True, unescape_bytea = Some\<rparr>"

definition load_externals :: "(hash_type \<times> u8 list, unit, unit, unit) externals" where
  "load_externals =
     \<lparr>nss_of = pad_nss, server_of = load_server, libelf_of = (\<lambda>_. Inl ''no ELF''),
      expat_of = (\<lambda>_. ([], \<lparr>read_failure = None, buf = [], calls = [], status_ok = False, err_line = 0, err_column = 0,
        err_message = [], err_index = 0\<rparr>)),
      python_of = (\<lambda>_. \<lparr>running = (\<lambda>_. False), start = (\<lambda>_. throw (Os_exception ''fork'')), send = (\<lambda>_. return ()),
        reply = (\<lambda>_ _. []), read_rets = (\<lambda>_. [])\<rparr>),
      zip_of = \<lparr>archive_read_new = False, archive_open = (\<lambda>_. None), next_header = Pair 1,
        entry_pathname = (\<lambda>_. None), read_data = (\<lambda>_. Pair None), archive_what = (\<lambda>_. [])\<rparr>\<rparr>"

definition sample_fi :: rpm_fi where
  "sample_fi =
     \<lparr>fi_fn = ''/a'', fi_user = ''root'', fi_group = ''root'', fi_caps = [], fi_mode = 0x81a4, fi_mtime = 1,
      fi_inode = 1, fi_flags = 0, fi_link = [], fi_size = 3, fi_nlink = 1, fi_is_reg = True, fi_digest_algo = 8,
      fi_digest = [1, 2, 3] @ replicate 29 0\<rparr>"

definition load_header :: rpm_header where
  "load_header =
     \<lparr>headerGet = (\<lambda>t.
        if t \<in> {RPMTAG_REQUIRENAME, RPMTAG_REQUIREVERSION} then Some (Strings [])
        else if t \<in> {RPMTAG_REQUIREFLAGS} then Some (Uint32s [])
        else if t = RPMTAG_BUILDTIME then Some (Uint32s [0])
        else if t \<in> {RPMTAG_NEVRA, RPMTAG_NAME, RPMTAG_VERSION, RPMTAG_RELEASE, RPMTAG_ARCH, RPMTAG_SHA1HEADER,
                     RPMTAG_BUILDHOST, RPMTAG_SUMMARY, RPMTAG_DESCRIPTION, RPMTAG_LICENSE, RPMTAG_GROUP}
          then Some (Strings [''0123456789''])
        else None),
      headerIsSource = 0, header_files = Some [sample_fi]\<rparr>"

definition load_image :: rpm_image where
  "load_image =
     \<lparr>rpm_fopen = None, rpm_rc = RPMRC_OK, rpm_hdr = load_header,
      rpm_payload = \<lparr>avail = newc_entry ''./a'' [1, 2, 3] @ newc_entry ''TRAILER!!!'' [], rets = []\<rparr>, rpm_fdopen = None,
      rpm_opened = return (), rpm_reads = [return [9, 9]]\<rparr>"

definition sample_loader :: "unit loader" where
  "sample_loader =
     \<lparr>ld_db = \<lparr>db_conn = \<lparr>server_state = (), sent = []\<rparr>, file_attribute_cache = (\<lambda>_. 0)\<rparr>,
      ld_py = analyzer_new, ld_calls = 0\<rparr>"

definition sample_checksum :: checksum where
  "sample_checksum = \<lparr>csum_value = [9, 9] @ replicate 18 0, csum_length = 2, csum_type = sha1\<rparr>"


definition sample_pkg :: rpm_package_info where
  "sample_pkg =
     (let w = ''0123456789'' in
      \<lparr>name = w, version = w, release = w, arch = w, source_rpm = [], hash = w, build_host = w, summary = w,
       description = w, license = w, group = w, build_time = 0, epoch = -1, kind = Binary, normalized = False\<rparr>)"

lemma sample_package:
  "rpm_parser_new None RPMRC_OK load_header rest = Inr (fresh_parser load_header rest, sample_pkg, [])"
proof -
  have "get_header load_header = Inr sample_pkg" by code_simp
  moreover have "get_dependencies load_header = Inr []" by code_simp
  ultimately show ?thesis by (simp add: rpm_parser_new_def fresh_parser_def)
qed

definition sample_info :: rpm_file_info where
  "sample_info =
     \<lparr>file_name = ''/a'', user = ''root'', file_group = ''root'', capabilities = [], linkto = [],
      file_digest = \<lparr>csum_value = [1, 2, 3] @ replicate 29 0, csum_length = 3, csum_type = sha256\<rparr>,
      file_mode = 0x81a4, file_mtime = 1, file_ino = 1, flags = 0, file_normalized = False\<rparr>"

lemma sample_file_info: "get_file_info sample_fi = Inr sample_info"
  by (simp add: get_file_info_def sample_fi_def sample_info_def ghost_def is_symlink_def digest_type_def)

lemma sample_read:
  "read_files None (fresh_parser load_header (rpm_payload load_image)) = Inr [\<lparr>infos = [sample_info], contents = [1, 2, 3]\<rparr>]"
proof -
  have "plain_file sample_fi" by (simp add: plain_file_def sample_fi_def hardlink_ino_def)
  then obtain es where "read_files None (fresh_parser load_header (whole (archive [(sample_fi, [1, 2, 3])] @ []))) = Inr es"
    "list_all2 file_of [(sample_fi, [1, 2, 3])] es"
    using archive_read_back [of load_header "[sample_fi]" "[(sample_fi, [1, 2, 3])]" "[]"] by (auto simp: load_header_def)
  then show ?thesis
    by (auto simp: list_all2_Cons1 file_of_def sample_file_info load_image_def archive_def) (simp add: sample_fi_def)
qed


definition sample_row :: pg_result where
  "sample_row =
     \<lparr>res_status = PGRES_TUPLES_OK, res_message = [], res_columns = [(23, 1), (23, 1), (16, 1), (23, 1)],
      res_rows = [[Some [0, 0, 0, 7], Some [0, 0, 0, 8], Some [0], Some [0, 0, 0, 9]]]\<rparr>"

definition small_args :: "pg_arg list \<Rightarrow> bool" where
  "small_args as \<longleftrightarrow> (\<forall>a \<in> set as. \<exists>n. arg_length a = Inr n)"

lemma small_args_params: "small_args as \<Longrightarrow> \<exists>ps. pg_params little as = Inr ps"
  by (induction as) (auto simp: small_args_def)

lemma sample_query:
  assumes "small_args as"
  shows "\<exists>db'. query_binary load_server sql as db = (Inr (if take 17 sql \<noteq> ''SELECT package_id'' then sample_row else command_ok), db')"
    and "\<exists>db'. query load_server sql as db = (Inr command_ok, db')"
    and "\<exists>db'. command load_server sql as db = (Inr (), db')"
proof -
  obtain ps where "pg_params True as = Inr ps" using small_args_params [OF assms] by blast
  then show "\<exists>db'. query_binary load_server sql as db = (Inr (if take 17 sql \<noteq> ''SELECT package_id'' then sample_row else command_ok), db')"
    and q: "\<exists>db'. query load_server sql as db = (Inr command_ok, db')"
    by (simp_all add: query_binary_def query_def on_conn_def pg_query_binary_def pg_query_def private_pg_query_def
        execParamsCustom_def do_check_def load_server_def sample_row_def command_ok_def)
  then show "\<exists>db'. command load_server sql as db = (Inr (), db')" by (auto simp: command_def)
qed

lemma sample_row_loads [simp]:
  "load_int True sample_row 0 0 = Inr 7" "load_int True sample_row 0 (Suc 0) = Inr 8" "load_bool sample_row 0 2 = Inr False"
  "load_int True sample_row 0 3 = Inr 9"
  by code_simp+

lemma load_server_simps [simp]: "in_trans load_server db" "little_endian load_server = True"
  by (simp_all add: in_trans_def load_server_def)

lemma sample_attribute: "\<exists>aid db'. intern_file_attribute pad_nss load_server sample_info db = (Inr aid, db')"
proof (cases "file_attribute_cache db (attribute_key sample_info) = 0")
  case True
  obtain h where h: "intern_hash pad_nss True sample_info = Inr h" "length h = 16"
    using hash_data_digest [OF pad_nss_digests] by (auto simp: intern_hash_def pad_digest_def)
  have "small_args [A_bytes h, A_int (file_mode sample_info), A_int (flags sample_info), A_string (user sample_info),
      A_string (file_group sample_info), A_string (capabilities sample_info), A_bool (file_normalized sample_info)]"
    using h(2) by (simp add: small_args_def sample_info_def length_check_def INT_MAX_def)
  from sample_query(1) [OF this, of "''SELECT symboldb.intern_file_attribute($1, $2, $3, $4, $5, $6, $7)''" db] True h(1)
  show ?thesis by (auto simp: intern_file_attribute_def sample_info_def)
qed (auto simp: intern_file_attribute_def sample_info_def)

lemma sample_add_file:
  assumes "length dig < 100" and "length dat < 100"
  shows "\<exists>db'. add_file pad_nss load_server pkg sample_info dig dat db =
     (Inr \<lparr>added_fid = 7, added_cid = 8, added = False, contents_length = 9\<rparr>, db')"
proof -
  obtain aid db1 where a: "intern_file_attribute pad_nss load_server sample_info db = (Inr aid, db1)"
    using sample_attribute by blast
  have "small_args [A_long (csum_length (file_digest sample_info)), A_bytes dig, A_bytes dat, A_int aid, A_int pkg,
      A_int (file_ino sample_info), A_int (file_mtime sample_info), A_string (file_name sample_info)]"
    using assms by (simp add: small_args_def sample_info_def length_check_def INT_MAX_def)
  from sample_query(1) [OF this, of "''SELECT * FROM symboldb.add_file($1, $2, $3, $4, $5, $6, $7, $8)''" db1] a
  show ?thesis by (auto simp: add_file_def assert_trans_def) (auto simp: sample_info_def)
qed

lemma sample_entry:
  "\<exists>e' st'. load_entry load_externals pkginfo pkg path \<lparr>infos = [sample_info], contents = [1, 2, 3]\<rparr> st = Some (Inr e', st')"
proof -
  let ?e = "\<lparr>infos = [sample_info], contents = [1, 2, 3]\<rparr>"
  let ?d = "pad_digest sha256 [1, 2, 3]"
  have n: "normalize_name sample_info = Inr sample_info" by code_simp
  have prev: "contents_preview ?e = [1, 2, 3]"
    by (simp add: contents_preview_def FILE_CONTENTS_PREVIEW_SIZE_def)
  have "csum_value (file_digest sample_info) = ?d" "csum_type (file_digest sample_info) = sha256"
    by (simp_all add: sample_info_def pad_digest_def)
  then have p: "prepare_load pad_nss path ?e = Inr (?d, [1, 2, 3])"
    using prev by (simp add: prepare_load_def check_digest_def hash_data_digest [OF pad_nss_digests])
  obtain db' where a: "add_file pad_nss load_server pkg sample_info ?d [1, 2, 3] (ld_db st) =
     (Inr \<lparr>added_fid = 7, added_cid = 8, added = False, contents_length = 9\<rparr>, db')"
    using sample_add_file [of ?d "[1, 2, 3]"] by (auto simp: pad_digest_def)
  have "\<not> is_directory sample_info" "\<not> is_symlink sample_info" "\<not> is_python_path sample_info"
    by (simp_all add: is_directory_def is_symlink_def is_python_path_def sample_info_def ends_with_def)
  then show ?thesis
    using n p a by (simp add: load_entry_def add_files_def load_externals_def lift_run_def lift_db_def Let_def
        load_contents_def)
qed

lemma sample_files:
  "\<exists>st'. load_files load_externals load_image pkginfo pkg path (fresh_parser load_header (rpm_payload load_image))
     \<lparr>infos = [], contents = []\<rparr> st = Some (Inr (), st')"
proof -
  obtain p where p: "open_payload None (fresh_parser load_header (rpm_payload load_image)) = Inr p"
    "read_all p \<lparr>infos = [], contents = []\<rparr> = Inr [\<lparr>infos = [sample_info], contents = [1, 2, 3]\<rparr>]"
    using sample_read by (auto simp: read_files_def)
  then have "payload_is_open p" by (auto simp: open_payload_def split: option.splits)
  moreover have "rpm_fdopen load_image = None" by (simp add: load_image_def)
  moreover obtain e' st' where "load_entry load_externals pkginfo pkg path \<lparr>infos = [sample_info], contents = [1, 2, 3]\<rparr> st
      = Some (Inr e', st')" using sample_entry by blast
  ultimately show ?thesis
    using p load_files_open [of load_image load_header "rpm_payload load_image" p load_externals pkginfo pkg path _ st]
      load_files_entries [OF p(2), of load_externals load_image pkginfo pkg path st]
    by simp
qed

lemma sample_intern: "\<exists>db'. intern_package load_server sample_pkg db = (Inr (True, 7), db')"
proof -
  let ?sel = "''SELECT package_id FROM symboldb.package WHERE hash = decode($1, 'hex')''"
  have "small_args [A_string (hash sample_pkg)]"
    by (simp add: small_args_def sample_pkg_def length_check_def INT_MAX_def Let_def)
  then obtain db1 where 1: "query_binary load_server ?sel [A_string (hash sample_pkg)] db = (Inr command_ok, db1)"
    using sample_query(1) [of "[A_string (hash sample_pkg)]" ?sel db] by auto
  let ?as = "[A_string (name sample_pkg), A_int_ptr (int_ptr (epoch sample_pkg)), A_string (version sample_pkg),
                A_string (release sample_pkg), A_string (rpm_package_info.arch sample_pkg), A_string (hash sample_pkg),
                A_cstr (if source_rpm sample_pkg = [] then None else Some (source_rpm sample_pkg)),
                A_string (build_host sample_pkg), A_long (word_of_int (build_time sample_pkg)), A_string (summary sample_pkg),
                A_string (description sample_pkg), A_string (license sample_pkg), A_string (group sample_pkg),
                A_bool (normalized sample_pkg),
                A_cstr (Some (case kind sample_pkg of Binary \<Rightarrow> ''binary'' | Package_set.Source \<Rightarrow> ''source''))]"
  have "small_args ?as"
    by (simp add: small_args_def sample_pkg_def length_check_def INT_MAX_def cstr_def Let_def int_ptr_def)
  then have ex: "\<exists>db'. query_binary load_server sql ?as db1 = (Inr sample_row, db')" if "take 17 sql \<noteq> ''SELECT package_id''" for sql
    using sample_query(1) [of ?as sql db1] that by simp
  define f where "f sql = snd (query_binary load_server sql ?as db1)" for sql
  have f: "query_binary load_server sql ?as db1 = (Inr sample_row, f sql)" if "take 17 sql \<noteq> ''SELECT package_id''" for sql
    using ex [OF that] by (auto simp: f_def)
  have "get_id load_server command_ok = Inr 0" "get_id load_server sample_row = Inr 7"
    by (simp_all add: get_id_def command_ok_def) (simp_all add: sample_row_def)
  then show ?thesis unfolding intern_package_def 1 by (simp add: f get_id_force_def)
qed

lemma sample_lock: "\<exists>db'. lock_rpm load_server sample_pkg db = (Inr Guard, db')"
proof -
  have "small_args [A_int a, A_int b]" for a b by (simp add: small_args_def)
  then have "\<exists>db'. query load_server ''SELECT pg_advisory_xact_lock($1, $2)'' [A_int a, A_int b] db = (Inr command_ok, db')"
    for a b by (rule sample_query(2))
  then have "\<exists>db'. lock load_server a b db = (Inr Guard, db')" for a b
    unfolding lock_def by (metis load_server_simps(1) sbind_simps(2))
  then show ?thesis by (simp add: lock_rpm_def lock_digest_def sample_pkg_def string_bytes_def Let_def)
qed

lemma sample_internal:
  "\<exists>st'. load_rpm_internal load_externals load_image path st = Some (Inr (7, sample_pkg), st')"
proof -
  have t: "triggers load_header = Inr []" "scripts load_header = []" by code_simp+
  obtain db1 where l: "lock_rpm load_server sample_pkg (ld_db st) = (Inr Guard, db1)" using sample_lock by blast
  obtain db2 where i: "intern_package load_server sample_pkg db1 = (Inr (True, 7), db2)" using sample_intern by blast
  obtain st' where f: "load_files load_externals load_image sample_pkg 7 path
      (fresh_parser load_header (rpm_payload load_image)) \<lparr>infos = [], contents = []\<rparr>
      (st\<lparr>ld_py := analyzer_new, ld_db := db2\<rparr>) = Some (Inr (), st')"
    using sample_files by blast
  have h: "header (fresh_parser h r) = h" for h r by (simp add: fresh_parser_def)
  have x: "server_of load_externals = load_server" by (simp add: load_externals_def)
  have im: "rpm_fopen load_image = None" "rpm_rc load_image = RPMRC_OK" "rpm_hdr load_image = load_header"
    by (simp_all add: load_image_def)
  show ?thesis
    using l i f t by (simp add: load_rpm_internal_def im sample_package h x lift_db_def Let_def
        advisory_unlock_def add_dependencies_def add_scripts_def add_triggers_def)
qed

lemma sample_digest:
  assumes "length dig = 20 \<or> length dig = 32" and "len \<le> 2"
  shows "\<exists>db'. add_package_digest load_server pkg dig len db = (Inr (), db')"
proof -
  have a: "small_args [A_int pkg, A_bytes dig, A_long len]"
    using assms(1) by (auto simp: small_args_def length_check_def INT_MAX_def)
  obtain db1 where 1: "query load_server (''SELECT 1 FROM symboldb.package_digest'' @
      '' WHERE package_id = $1 AND digest = $2 AND length = $3'') [A_int pkg, A_bytes dig, A_long len] db = (Inr command_ok, db1)"
    using sample_query(2) [OF a] by blast
  have "\<not> length dig < 16" "\<not> push_bit 60 1 < len"
    using assms by (auto simp: push_bit_eq_mult word_le_nat_alt word_less_nat_alt)
  then show ?thesis
    using sample_query(3) [OF a, of _ db1] unfolding add_package_digest_def 1 by (simp add: command_ok_def)
qed

lemma sample_plain_statement: "\<exists>db'. plain load_server sql db = (Inr (), db')"
  by (simp add: plain_def on_conn_def exec_def execParamsCustom_def do_check_def load_server_def)

lemma sample_hash:
  "hash_both pad_nss load_image =
     Inr (\<lparr>raw = (sha256, [9, 9]), digest_length = 32, octets = 2\<rparr>, \<lparr>raw = (sha1, [9, 9]), digest_length = 20, octets = 2\<rparr>)"
  "digest pad_nss \<lparr>raw = (sha256, [9, 9]), digest_length = 32, octets = 2\<rparr> = Inr (pad_digest sha256 [9, 9])"
  "digest pad_nss \<lparr>raw = (sha1, [9, 9]), digest_length = 20, octets = 2\<rparr> = Inr (pad_digest sha1 [9, 9])"
  by (simp_all add: hash_both_def hash_sink_new_def hash_sink_impl_def pad_nss_def load_image_def write_hash.simps
      INT_MAX_def digest_def pad_digest_def)

lemma sample_load:
  "\<exists>st'. rpm_load load_externals load_image path (Some sample_checksum) None sample_loader = Some (Inr (7, sample_pkg), st')"
proof -
  have x: "server_of load_externals = load_server" "nss_of load_externals = pad_nss" by (simp_all add: load_externals_def)
  obtain db1 where 1: "txn_begin_no_sync load_server (ld_db sample_loader) = (Inr (), db1)"
    using sample_plain_statement unfolding txn_begin_no_sync_def by blast
  obtain st2 where 2: "load_rpm_internal load_externals load_image path (sample_loader\<lparr>ld_db := db1\<rparr>) = Some (Inr (7, sample_pkg), st2)"
    using sample_internal by blast
  obtain db3 where 3: "add_package_digest load_server 7 (pad_digest sha256 [9, 9]) 2 (ld_db st2) = (Inr (), db3)"
    using sample_digest [of "pad_digest sha256 [9, 9]" 2] by (auto simp: pad_digest_def)
  obtain db4 where 4: "add_package_digest load_server 7 (pad_digest sha1 [9, 9]) 2 db3 = (Inr (), db4)"
    using sample_digest [of "pad_digest sha1 [9, 9]" 2] by (auto simp: pad_digest_def)
  obtain db5 where 5: "txn_commit load_server db4 = (Inr (), db5)"
    using sample_plain_statement unfolding txn_commit_def by blast
  have c: "check_expected (Some sample_checksum) sha256 d = Inr ()" "check_expected (Some sample_checksum) sha1 (pad_digest sha1 [9, 9]) = Inr ()"
    "csum_type sample_checksum = sha1" for d
    by (simp_all add: check_expected_def sample_checksum_def pad_digest_def)
  show ?thesis
    using 1 2 3 4 5 by (simp add: rpm_load_def x c sample_hash lift_db_def lift_run_def)
qed

theorem rpm_load_commits_witness:
  "\<exists>y st' xs. rpm_load load_externals load_image ''a.rpm'' (Some sample_checksum) None sample_loader = Some (Inr y, st') \<and>
     sent (db_conn (ld_db st')) = xs \<and> last xs = (''COMMIT'', []) \<and> ''COMMIT'' \<notin> fst ` set (butlast xs)"
proof -
  obtain st' where l: "rpm_load load_externals load_image ''a.rpm'' (Some sample_checksum) None sample_loader
      = Some (Inr (7, sample_pkg), st')" using sample_load by blast
  have "sent (db_conn (ld_db sample_loader)) = []" by (simp add: sample_loader_def)
  with rpm_load_commits [OF l] l show ?thesis by auto
qed


end
