(* ===== verification/Byte_source.thy ===== *)
theory Byte_source
  imports Source
begin

text \<open>
  The interface \<open>source\<close> of the library (\<open>include/cxxll/source.hpp\<close>): \<open>read\<close> fills a buffer of a given
  length and returns no bytes at the end of the data. The contract is a locale, and
  \<open>copy_source_to_sink\<close> of \<open>source_sink.cpp\<close> is proved against it once. The interpretations here are
  \<open>vector_source.cpp\<close> and \<open>fd_source.cpp\<close>; those for downloads and decompression are in the theories
  of these components.
\<close>

section \<open>The loop over a source\<close>

text \<open>\<open>copy_source_to_sink\<close> into a vector: the bytes copied, and the count that it returns.\<close>

partial_function (option) copy_source ::
    "('s \<Rightarrow> nat \<Rightarrow> (u8 list result \<times> 's) option) \<Rightarrow> u8 list \<Rightarrow> 's \<Rightarrow> (u8 list result \<times> 's) option" where
  "copy_source rd acc s =
     rbind (rd s 8192) (\<lambda>bs s.
       if length bs > 8192 then Some (throw Assertion_failure, s)
       else if bs = [] then Some (return acc, s)
       else copy_source rd (acc @ bs) s)"

section \<open>The contract\<close>

text \<open>A buffer is not empty and shorter than \<open>2^32\<close> bytes.\<close>

locale byte_source =
  fixes rd :: "'s \<Rightarrow> nat \<Rightarrow> (u8 list result \<times> 's) option" and holds :: "'s \<Rightarrow> u8 list \<Rightarrow> bool"
  assumes read_holds: "holds s bs \<Longrightarrow> 0 < n \<Longrightarrow> n < 2 ^ 32 \<Longrightarrow>
    \<exists>buf rest s'. rd s n = Some (Inr buf, s') \<and> bs = buf @ rest \<and> length buf \<le> n \<and> (buf = [] \<longrightarrow> bs = []) \<and>
      holds s' rest"
begin

lemma read_obtain:
  assumes "holds s bs" and "0 < n" and "n < 2 ^ 32"
  obtains buf rest s' where "rd s n = Some (Inr buf, s')" "bs = buf @ rest" "length buf \<le> n"
    "buf = [] \<Longrightarrow> bs = []" "holds s' rest"
  using read_holds [OF assms] by blast

text \<open>However short the reads, the loop ends and has copied all of the data.\<close>

lemma copy_source_all: "holds s bs \<Longrightarrow> \<exists>s'. copy_source rd acc s = Some (Inr (acc @ bs), s') \<and> holds s' []"
proof (induction "length bs" arbitrary: s bs acc rule: less_induct)
  case less
  obtain buf rest s' where rd: "rd s 8192 = Some (Inr buf, s')" "bs = buf @ rest" "length buf \<le> 8192"
    "buf = [] \<Longrightarrow> bs = []" "holds s' rest"
    using read_holds [OF less.prems, of 8192] by auto
  show ?case
  proof (cases "buf = []")
    case True
    then show ?thesis using rd by (subst copy_source.simps) auto
  next
    case False
    then have "\<exists>t. copy_source rd (acc @ buf) s' = Some (Inr ((acc @ buf) @ rest), t) \<and> holds t []"
      using rd(2,5) by (intro less.hyps) simp_all
    then show ?thesis using rd False by (subst copy_source.simps) simp
  qed
qed

text \<open>At the end of the data it stays at the end.\<close>

lemma read_at_end: "holds s [] \<Longrightarrow> 0 < n \<Longrightarrow> n < 2 ^ 32 \<Longrightarrow> \<exists>s'. rd s n = Some (Inr [], s') \<and> holds s' []"
  using read_holds [of s "[]" n] by auto

end

section \<open>Vectors and pipes as sources\<close>

record vector_source =
  vs_data :: "u8 list"
  vs_position :: nat

definition vector_source_new :: "u8 list \<Rightarrow> vector_source" where
  "vector_source_new dat = \<lparr>vs_data = dat, vs_position = 0\<rparr>"

definition vector_source_read :: "vector_source \<Rightarrow> nat \<Rightarrow> (u8 list result \<times> vector_source) option" where
  "vector_source_read s len =
     (if vs_position s \<ge> length (vs_data s) then Some (return [], s)
      else let to_copy = min len (length (vs_data s) - vs_position s)
        in Some (return (take to_copy (drop (vs_position s) (vs_data s))), s\<lparr>vs_position := vs_position s + to_copy\<rparr>))"

definition vector_holds :: "vector_source \<Rightarrow> u8 list \<Rightarrow> bool" where
  "vector_holds s bs \<longleftrightarrow> bs = drop (vs_position s) (vs_data s)"

lemma vector_holds_new: "vector_holds (vector_source_new bs) bs"
  by (simp add: vector_holds_def vector_source_new_def)

interpretation vec: byte_source vector_source_read vector_holds
proof
  fix s bs and n :: nat
  assume "vector_holds s bs" "0 < n"
  then show "\<exists>buf rest s'. vector_source_read s n = Some (Inr buf, s') \<and> bs = buf @ rest \<and> length buf \<le> n \<and>
      (buf = [] \<longrightarrow> bs = []) \<and> vector_holds s' rest"
    by (cases "vs_position s \<ge> length (vs_data s)")
      (auto simp: vector_source_read_def vector_holds_def Let_def add.commute [of "vs_position s"] simp flip: drop_drop)
qed

definition fd_source_read :: "pipe \<Rightarrow> nat \<Rightarrow> (u8 list result \<times> pipe) option" where
  "fd_source_read p len = Some (fd_read len p)"

definition fd_holds :: "pipe \<Rightarrow> u8 list \<Rightarrow> bool" where
  "fd_holds p bs \<longleftrightarrow> no_read_error p \<and> bs = avail p"

interpretation fd: byte_source fd_source_read fd_holds
proof
  fix s bs and n :: nat
  assume "fd_holds s bs" "0 < n"
  then have "0 < read_size n s \<or> bs = []" "rets s \<noteq> [] \<Longrightarrow> \<not> hd (rets s) < 0" "list_all (\<lambda>r. r \<ge> 0) (tl (rets s))"
    by (cases "rets s"; force simp: fd_holds_def read_size_def)+
  moreover have "read_size n s \<le> n" by (simp add: read_size_def)
  ultimately show "\<exists>buf rest s'. fd_source_read s n = Some (Inr buf, s') \<and> bs = buf @ rest \<and> length buf \<le> n \<and>
      (buf = [] \<longrightarrow> bs = []) \<and> fd_holds s' rest"
    using \<open>fd_holds s bs\<close> unfolding fd_source_read_def fd_read_def fd_holds_def
    by (intro exI [of _ "take (read_size n s) bs"] exI [of _ "drop (read_size n s) bs"]) auto
qed

end
