(* ===== verification/Url_source.thy ===== *)
theory Url_source
  imports Byte_source
begin

text \<open>
  Downloads with libcurl: \<open>lib/cxxll/url_source.cpp\<close>. libcurl and the operating system are a
  parameter: what the functions return, and for \<open>curl_multi_perform\<close> the blocks of data that it passes
  to the write callback. The type \<open>'m\<close> is the state of the transfer; only \<open>curl_multi_perform\<close>,
  \<open>curl_multi_add_handle\<close>, \<open>curl_easy_setopt\<close> and the passing of time change it. The buffer of the
  caller is the list of the bytes written so far. Addresses and ports in exceptions are left out.
\<close>

section \<open>The library\<close>

datatype curl_option =
    CURLOPT_URL string
  | CURLOPT_NOSIGNAL
  | CURLOPT_REDIR_PROTOCOLS "string list"
  | CURLOPT_FOLLOWLOCATION
  | CURLOPT_FILETIME
  | CURLOPT_WRITEFUNCTION
  | CURLOPT_WRITEDATA
  | CURLOPT_USERAGENT string
  | CURLOPT_CONNECTTIMEOUT nat
  | CURLOPT_LOW_SPEED_LIMIT nat
  | CURLOPT_LOW_SPEED_TIME nat

text \<open>Errors are the texts of \<open>curl_easy_strerror\<close> and \<open>curl_multi_strerror\<close>; \<open>None\<close> is success.\<close>

record 'm curl =
  easy_setopt :: "curl_option \<Rightarrow> 'm \<Rightarrow> string option \<times> 'm"
  multi_add_handle :: "'m \<Rightarrow> string option \<times> 'm"
  multi_perform :: "'m \<Rightarrow> string option \<times> u8 list list \<times> nat \<times> 'm"  \<comment> \<open>error, blocks, running handles\<close>
  multi_fdset :: "'m \<Rightarrow> string option \<times> int"                    \<comment> \<open>the largest descriptor\<close>
  multi_timeout :: "'m \<Rightarrow> string option \<times> int"
  usleep :: "'m \<Rightarrow> 'm"
  select_call :: "int \<times> int \<Rightarrow> 'm \<Rightarrow> bool \<times> 'm"             \<comment> \<open>time limit; whether it succeeded\<close>
  effective_url_info :: "'m \<Rightarrow> string option"
  response_code :: "'m \<Rightarrow> int"
  filetime :: "'m \<Rightarrow> int"
  content_length :: "'m \<Rightarrow> int"

section \<open>The object\<close>

record 'm url_source =
  us_url :: string
  effective_url :: string
  multi :: 'm
  written :: "u8 list"             \<comment> \<open>the buffer up to \<open>buffer_written_\<close>\<close>
  buffer_length :: nat
  pending :: "u8 list"
  pending_pos :: nat
  http_date_field :: int
  file_size_field :: int
  connected :: bool
  before_data :: bool
  write_callback :: bool

definition url_source_new :: "string \<Rightarrow> 'm \<Rightarrow> 'm url_source" where
  "url_source_new u m =
     \<lparr>us_url = u, effective_url = [], multi = m, written = [], buffer_length = 0, pending = [], pending_pos = 0,
      http_date_field = 0, file_size_field = 0, connected = False, before_data = True, write_callback = False\<rparr>"

definition write_function :: "u8 list \<Rightarrow> 'm url_source \<Rightarrow> unit result \<times> 'm url_source" where
  "write_function block s =
     (let to_copy = min (length block) (buffer_length s - length (written s));
          s = s\<lparr>written := written s @ take to_copy block, write_callback := True\<rparr>
      in if pending_pos s \<noteq> 0 then (throw Assertion_failure, s)
         else (return (), s\<lparr>pending := pending s @ drop to_copy block\<rparr>))"

fun write_blocks :: "u8 list list \<Rightarrow> 'm url_source \<Rightarrow> unit result \<times> 'm url_source" where
  "write_blocks [] s = (return (), s)"
| "write_blocks (b # bs) s = sbind (write_function b s) (\<lambda>_. write_blocks bs)"

definition status_message :: "'m url_source \<Rightarrow> string" where
  "status_message s = (if effective_url s = us_url s then us_url s else effective_url s @ '' from '' @ us_url s)"

definition check :: "'m curl \<Rightarrow> 'm url_source \<Rightarrow> unit result \<times> 'm url_source" where
  "check c s =
     (if \<not> before_data s then (return (), s)
      else case effective_url_info c (multi s) of
          None \<Rightarrow> (throw (Undefined_behaviour ''string from a null pointer''), s)
        | Some u \<Rightarrow>
            let s = s\<lparr>effective_url := u\<rparr>
            in if response_code c (multi s) \<noteq> 200 \<and> response_code c (multi s) \<noteq> 0
               then (throw (Curl_exception (status_message s)), s)
               else (return (), s\<lparr>http_date_field := filetime c (multi s),
                                  file_size_field := content_length c (multi s), before_data := False\<rparr>))"

definition curl_options :: "string \<Rightarrow> curl_option list" where
  "curl_options u =
     [CURLOPT_URL (cstr u), CURLOPT_NOSIGNAL, CURLOPT_REDIR_PROTOCOLS [''HTTP'', ''HTTPS'', ''FTP''],
      CURLOPT_FOLLOWLOCATION, CURLOPT_FILETIME, CURLOPT_WRITEFUNCTION, CURLOPT_WRITEDATA,
      CURLOPT_USERAGENT ''symboldb/0.0'', CURLOPT_CONNECTTIMEOUT 30, CURLOPT_LOW_SPEED_LIMIT 500,
      CURLOPT_LOW_SPEED_TIME 60]"

fun set_options :: "'m curl \<Rightarrow> curl_option list \<Rightarrow> 'm \<Rightarrow> string option \<times> 'm" where
  "set_options c [] m = (None, m)"
| "set_options c (opt # opts) m =
     (case easy_setopt c opt m of
        (Some e, m) \<Rightarrow> (Some e, m)
      | (None, m) \<Rightarrow> set_options c opts m)"

definition connect_impl :: "'m curl \<Rightarrow> 'm url_source \<Rightarrow> unit result \<times> 'm url_source" where
  "connect_impl c s =
     (if connected s then (return (), s)
      else case set_options c (curl_options (us_url s)) (multi s) of
          (Some e, m) \<Rightarrow> (throw (Curl_exception e), s\<lparr>multi := m\<rparr>)
        | (None, m) \<Rightarrow>
            (case multi_add_handle c m of
               (Some e, m) \<Rightarrow> (throw (Curl_exception e), s\<lparr>multi := m\<rparr>)
             | (None, m) \<Rightarrow> (return (), s\<lparr>multi := m, connected := True\<rparr>)))"

text \<open>
  Waiting for activity. The microseconds of the time limit are the whole time limit, not the part
  below a second.
\<close>

definition wait :: "'m curl \<Rightarrow> 'm \<Rightarrow> 'm result" where
  "wait c m =
     (case multi_fdset c m of
        (Some e, _) \<Rightarrow> throw (Curl_exception e)
      | (None, max_fd) \<Rightarrow>
          if max_fd < 0 then return (usleep c m)
          else case multi_timeout c m of
              (Some e, _) \<Rightarrow> throw (Curl_exception e)
            | (None, timeout) \<Rightarrow>
                (case select_call c (sgn timeout * (\<bar>timeout\<bar> div 1000), timeout * 1000) m of
                   (False, _) \<Rightarrow> throw (Os_exception ''select'')
                 | (True, m) \<Rightarrow> return m))"

partial_function (option) perform_loop :: "'m curl \<Rightarrow> 'm url_source \<Rightarrow> (unit result \<times> 'm url_source) option" where
  "perform_loop c s =
     (case multi_perform c (multi s) of
        (err, blocks, running, m) \<Rightarrow>
          rbind (Some (write_blocks blocks (s\<lparr>multi := m\<rparr>))) (\<lambda>_ s.
            case err of
              Some e \<Rightarrow> Some (throw (Curl_exception e), s)
            | None \<Rightarrow>
                if write_callback s \<or> running = 0 then Some (return (), s)
                else case wait c (multi s) of
                    Inl e \<Rightarrow> Some (throw e, s)
                  | Inr m \<Rightarrow> perform_loop c (s\<lparr>multi := m\<rparr>)))"

text \<open>The buffer is forgotten on every way out of the function.\<close>

definition clear_buffer :: "'m url_source \<Rightarrow> 'm url_source" where
  "clear_buffer s = s\<lparr>written := [], buffer_length := 0\<rparr>"

definition read_impl :: "'m curl \<Rightarrow> 'm url_source \<Rightarrow> nat \<Rightarrow> (u8 list result \<times> 'm url_source) option" where
  "read_impl c s len =
     (if pending_pos s < length (pending s) then
        let to_copy = min (length (pending s) - pending_pos s) len
        in Some (return (take to_copy (drop (pending_pos s) (pending s))), s\<lparr>pending_pos := pending_pos s + to_copy\<rparr>)
      else
        map_option (map_prod id clear_buffer)
          (rbind (Some (connect_impl c (s\<lparr>pending := [], pending_pos := 0, written := [], buffer_length := len,
                                          write_callback := False\<rparr>))) (\<lambda>_ s.
           rbind (perform_loop c s) (\<lambda>_ s.
           rbind (Some (check c s)) (\<lambda>_ s'.
             Some (return (written s), s'))))))"

definition connect :: "'m curl \<Rightarrow> 'm url_source \<Rightarrow> (unit result \<times> 'm url_source) option" where
  "connect c s =
     rbind (Some (connect_impl c s)) (\<lambda>_ s. rbind (read_impl c s 0) (\<lambda>_ s. Some (return (), s)))"

definition http_date :: "'m url_source \<Rightarrow> int" where
  "http_date s = (if before_data s then -1 else http_date_field s)"

definition file_size :: "'m url_source \<Rightarrow> int" where
  "file_size s = (if before_data s then -1 else file_size_field s)"

section \<open>What a transfer delivers\<close>

text \<open>
  A transfer that \<open>curl_multi_perform\<close> carries to its end without an error code, and the data that it
  passes to the callback, in blocks that are not empty. After the end nothing more happens. The code
  looks at the response only once there is data or the transfer has ended. This is all the
  code can see of a transfer: one that broke off looks the same, because \<open>curl_multi_info_read\<close> is not
  called.
\<close>

definition accepted :: "'m curl \<Rightarrow> 'm \<Rightarrow> bool" where
  "accepted c m \<longleftrightarrow> effective_url_info c m \<noteq> None \<and> response_code c m \<in> {200, 0}"

inductive delivers :: "'m curl \<Rightarrow> 'm \<Rightarrow> u8 list \<Rightarrow> bool" for c :: "'m curl" where
  last_blocks: "multi_perform c m = (None, blocks, 0, m') \<Longrightarrow> [] \<notin> set blocks \<Longrightarrow>
    multi_perform c m' = (None, [], 0, m') \<Longrightarrow> accepted c m' \<Longrightarrow> delivers c m (concat blocks)"
| more_blocks: "multi_perform c m = (None, blocks, Suc r, m') \<Longrightarrow> blocks \<noteq> [] \<Longrightarrow> [] \<notin> set blocks \<Longrightarrow>
    accepted c m' \<Longrightarrow> delivers c m' rest \<Longrightarrow> delivers c m (concat blocks @ rest)"
| no_blocks: "multi_perform c m = (None, [], Suc r, m') \<Longrightarrow> wait c m' = Inr m'' \<Longrightarrow>
    delivers c m'' rest \<Longrightarrow> delivers c m rest"

lemma delivers_end: "multi_perform c m = (None, [], 0, m) \<Longrightarrow> accepted c m \<Longrightarrow> delivers c m []"
  using last_blocks [of c m "[]" m] by simp

section \<open>The source delivers what the transfer delivers\<close>

text \<open>The caller's buffer and the pending data are together the data passed to the callback.\<close>

lemma write_blocks_fill:
  assumes "pending_pos s = 0" and "written s = take (buffer_length s) d" and "pending s = drop (buffer_length s) d"
  shows "write_blocks blocks s =
    (Inr (), s\<lparr>written := take (buffer_length s) (d @ concat blocks),
               pending := drop (buffer_length s) (d @ concat blocks),
               write_callback := write_callback s \<or> blocks \<noteq> []\<rparr>)"
  using assms
proof (induction blocks arbitrary: s d)
  case (Cons b bs)
  let ?n = "buffer_length s - length d"
  let ?s = "s\<lparr>written := take (buffer_length s) (d @ b), pending := drop (buffer_length s) (d @ b), write_callback := True\<rparr>"
  have "min (length b) (buffer_length s - length (written s)) = min (length b) ?n"
    using Cons.prems(2) by auto
  moreover have "take (min (length b) ?n) b = take ?n b" "drop (min (length b) ?n) b = drop ?n b"
    by (auto simp: min_def)
  ultimately have "write_function b s = (Inr (), ?s)"
    using Cons.prems by (simp add: write_function_def Let_def)
  then show ?case
    using Cons.IH [of ?s "d @ b"] Cons.prems(1) by simp
qed simp

definition state_after :: "'m url_source \<Rightarrow> u8 list \<Rightarrow> 'm url_source \<Rightarrow> bool" where
  "state_after s d s' \<longleftrightarrow> written s' = take (buffer_length s) d \<and> pending s' = drop (buffer_length s) d \<and>
     pending_pos s' = 0 \<and> connected s' = connected s \<and> before_data s' = before_data s \<and>
     http_date s' = http_date s"

lemma http_date_update [simp]:
  "http_date (s\<lparr>multi := m\<rparr>) = http_date s" "http_date (s\<lparr>written := w\<rparr>) = http_date s"
  "http_date (s\<lparr>pending := p\<rparr>) = http_date s" "http_date (s\<lparr>pending_pos := k\<rparr>) = http_date s"
  "http_date (s\<lparr>buffer_length := n\<rparr>) = http_date s" "http_date (s\<lparr>write_callback := b\<rparr>) = http_date s"
  by (simp_all add: http_date_def)

lemma perform_loop_delivers:
  assumes "delivers c m bs" and "multi s = m" and "pending_pos s = 0" and "written s = []" and "pending s = []"
    and "\<not> write_callback s"
  shows "\<exists>s' d rest. perform_loop c s = Some (Inr (), s') \<and> bs = d @ rest \<and> state_after s d s' \<and>
           (d = [] \<longrightarrow> rest = []) \<and> accepted c (multi s') \<and> delivers c (multi s') rest"
  using assms
proof (induction arbitrary: s)
  case (last_blocks m blocks m')
  then show ?case
    by (subst perform_loop.simps)
      (simp add: write_blocks_fill [where d="[]"] state_after_def delivers_end exI [of _ "concat blocks"])
next
  case (more_blocks m blocks r m' rest)
  then have "concat blocks \<noteq> []" by (cases blocks) auto
  with more_blocks show ?case
    by (subst perform_loop.simps)
      (simp add: write_blocks_fill [where d="[]"] state_after_def, rule exI [of _ "concat blocks"], auto)
next
  case (no_blocks m r m' m'' rest)
  from no_blocks.IH [of "s\<lparr>multi := m''\<rparr>"] no_blocks.prems
  obtain s' d rest' where "perform_loop c (s\<lparr>multi := m''\<rparr>) = Some (Inr (), s')" "rest = d @ rest'"
    "state_after s d s'" "d = [] \<longrightarrow> rest' = []" "accepted c (multi s')" "delivers c (multi s') rest'"
    by (auto simp: state_after_def)
  moreover have "perform_loop c s = perform_loop c (s\<lparr>multi := m''\<rparr>)"
    using no_blocks by (subst perform_loop.simps) simp
  ultimately show ?case by auto
qed

definition url_holds :: "'m curl \<Rightarrow> 'm url_source \<Rightarrow> u8 list \<Rightarrow> bool" where
  "url_holds c s bs \<longleftrightarrow>
     (\<exists>s1 rest. connect_impl c s = (Inr (), s1) \<and> delivers c (multi s1) rest \<and> pending_pos s \<le> length (pending s) \<and>
        bs = drop (pending_pos s) (pending s) @ rest)"

lemma connect_impl_fields:
  "connect_impl c (s\<lparr>pending := p, pending_pos := pos, written := w, buffer_length := n, write_callback := wc\<rparr>) =
     map_prod id (\<lambda>s. s\<lparr>pending := p, pending_pos := pos, written := w, buffer_length := n, write_callback := wc\<rparr>) (connect_impl c s)"
  "connect_impl c (s\<lparr>pending_pos := pos\<rparr>) = map_prod id (\<lambda>s. s\<lparr>pending_pos := pos\<rparr>) (connect_impl c s)"
  by (auto simp: connect_impl_def split: prod.split option.split)

lemma connect_impl_connected: "connect_impl c s = (Inr (), s1) \<Longrightarrow> connected s1 \<and> before_data s1 = before_data s \<and> http_date s1 = http_date s"
  by (auto simp: connect_impl_def http_date_def split: prod.splits option.splits if_splits)

definition response_seen :: "'m curl \<Rightarrow> 'm url_source \<Rightarrow> bool" where
  "response_seen c s \<longleftrightarrow> http_date s = filetime c (multi s) \<and> file_size s = content_length c (multi s)"

lemma read_impl_holds:
  assumes "url_holds c s bs"
  shows "\<exists>buf rest s'. read_impl c s n = Some (Inr buf, s') \<and> bs = buf @ rest \<and> length buf \<le> n \<and>
           (buf = [] \<longrightarrow> 0 < n \<longrightarrow> bs = []) \<and> url_holds c s' rest \<and>
           (pending_pos s < length (pending s) \<or> \<not> before_data s' \<and> (before_data s \<longrightarrow> response_seen c s')) \<and>
           (\<not> before_data s \<longrightarrow> \<not> before_data s' \<and> http_date s' = http_date s)"
proof -
  obtain s1 rest where s1: "connect_impl c s = (Inr (), s1)" "delivers c (multi s1) rest"
    "pending_pos s \<le> length (pending s)" "bs = drop (pending_pos s) (pending s) @ rest"
    using assms by (auto simp: url_holds_def)
  show ?thesis
  proof (cases "pending_pos s < length (pending s)")
    case True
    let ?k = "min (length (pending s) - pending_pos s) n" and ?r = "drop (pending_pos s) (pending s)"
    have split: "bs = take ?k ?r @ (drop ?k ?r @ rest)" using s1(4) by (metis append_assoc append_take_drop_id)
    have "url_holds c (s\<lparr>pending_pos := pending_pos s + ?k\<rparr>) (drop ?k ?r @ rest)"
      using s1 by (auto simp: url_holds_def connect_impl_fields add.commute)
    moreover have "read_impl c s n = Some (Inr (take ?k ?r), s\<lparr>pending_pos := pending_pos s + ?k\<rparr>)"
      using True by (simp add: read_impl_def Let_def)
    moreover have "take ?k ?r = [] \<longrightarrow> \<not> 0 < n" using True by auto
    ultimately show ?thesis using split True by (intro exI conjI) (assumption | auto simp: http_date_def)+
  next
    case False
    let ?s = "s1\<lparr>pending := [], pending_pos := 0, written := [], buffer_length := n, write_callback := False\<rparr>"
    obtain s' d rest' where loop: "perform_loop c ?s = Some (Inr (), s')" "rest = d @ rest'" "state_after ?s d s'"
      "d = [] \<longrightarrow> rest' = []" "accepted c (multi s')" "delivers c (multi s') rest'"
      using perform_loop_delivers [OF s1(2), of ?s] by auto
    then obtain t where t: "check c s' = (Inr (), t)" "\<not> before_data t" "multi t = multi s'" "pending t = pending s'"
      "pending_pos t = 0" "connected t" "before_data s \<Longrightarrow> response_seen c (clear_buffer t)"
      "\<not> before_data s \<Longrightarrow> http_date t = http_date s"
      using connect_impl_connected [OF s1(1)]
      by (auto simp: check_def accepted_def state_after_def response_seen_def http_date_def file_size_def clear_buffer_def)
    have "url_holds c (clear_buffer t) (drop n d @ rest')"
      using t loop(3,6) by (simp add: url_holds_def clear_buffer_def connect_impl_def state_after_def)
    moreover have "read_impl c s n = Some (Inr (take n d), clear_buffer t)"
      using False s1(1) loop(1,3) t(1)
      by (simp add: read_impl_def connect_impl_fields state_after_def map_prod_def)
    ultimately show ?thesis
      using False s1(4) loop(2,4) t(2,7,8)
      by (intro exI [of _ "take n d"] exI [of _ "drop n d @ rest'"] exI [of _ "clear_buffer t"])
        (auto simp: clear_buffer_def http_date_def)
  qed
qed

interpretation url: byte_source "read_impl c" "url_holds c" for c
  using read_impl_holds [of c] by unfold_locales blast

lemma connect_holds:
  assumes "connect_impl c (url_source_new u m) = (Inr (), s1)" and "delivers c (multi s1) bs"
  shows "\<exists>s2. connect c (url_source_new u m) = Some (Inr (), s2) \<and> url_holds c s2 bs \<and> \<not> before_data s2 \<and>
           response_seen c s2"
proof -
  have con: "url_holds c s1 bs" "\<not> pending_pos s1 < length (pending s1)" "before_data s1"
    using assms by (auto simp: url_holds_def url_source_new_def connect_impl_def split: prod.splits option.splits)
  obtain s2 where "read_impl c s1 0 = Some (Inr [], s2)" "url_holds c s2 bs" "\<not> before_data s2" "response_seen c s2"
    using read_impl_holds [OF con(1), of 0] con(2,3) by auto
  then show ?thesis using assms(1) by (auto simp: connect_def)
qed

lemma url_source_new_holds:
  "connect_impl c (url_source_new u m) = (Inr (), s1) \<Longrightarrow> delivers c (multi s1) bs \<Longrightarrow> url_holds c (url_source_new u m) bs"
  by (auto simp: url_holds_def url_source_new_def)

text \<open>
  C24. A download that libcurl carries to its end is read completely: whatever the sizes of the blocks
  that libcurl passes to the callback and of the waits in between, and whether \<open>connect\<close> was called
  first or not, copying the source ends and gives the data in order; the data that comes in while
  \<open>connect\<close> looks at the response is not lost.
\<close>

theorem url_source_complete:
  assumes "connect_impl c (url_source_new u m) = (Inr (), s1)" and "delivers c (multi s1) bs"
  shows "(\<exists>s'. copy_source (read_impl c) [] (url_source_new u m) = Some (Inr bs, s')) \<and>
         (\<exists>s2 s'. connect c (url_source_new u m) = Some (Inr (), s2) \<and> \<not> before_data s2 \<and>
            copy_source (read_impl c) [] s2 = Some (Inr bs, s'))"
  using url_source_new_holds [OF assms] connect_holds [OF assms] url.copy_source_all [where acc="[]"] by fastforce

section \<open>A sample transfer\<close>

text \<open>
  The state is the list of the blocks to come; one is passed with every second call, and a block is
  announced as pending in between. The server announces a length of its own.
\<close>

definition sample_curl :: "int \<Rightarrow> (bool \<times> u8 list list) curl" where
  "sample_curl announced =
     \<lparr>easy_setopt = \<lambda>_ m. (None, m),
      multi_add_handle = \<lambda>m. (None, m),
      multi_perform = \<lambda>(idle, bs).
        (if bs = [] then (None, [], 0, (idle, bs))
         else if idle then (None, [], 1, (idle, bs))
         else (None, [hd bs], 1, (True, tl bs))),
      multi_fdset = \<lambda>_. (None, 4),
      multi_timeout = \<lambda>_. (None, 0),
      usleep = \<lambda>m. m,
      select_call = \<lambda>_ (idle, bs). (True, (False, bs)),
      effective_url_info = \<lambda>_. Some ''http://x/'',
      response_code = \<lambda>_. 200,
      filetime = \<lambda>_. 1000,
      content_length = \<lambda>_. announced\<rparr>"

lemma sample_connects:
  "connect_impl (sample_curl n) (url_source_new u m) = (Inr (), (url_source_new u m)\<lparr>connected := True\<rparr>)"
  by (simp add: connect_impl_def url_source_new_def curl_options_def sample_curl_def)

lemma sample_delivers: "[] \<notin> set blocks \<Longrightarrow> delivers (sample_curl n) (b, blocks) (concat blocks)"
proof (induction blocks arbitrary: b)
  case Nil
  show ?case by (simp add: delivers_end sample_curl_def accepted_def)
next
  case (Cons x xs)
  have "delivers (sample_curl n) (False, x # xs) (concat [x] @ concat xs)"
    using Cons by (intro more_blocks [where m'="(True, xs)" and r=0]) (simp_all add: sample_curl_def accepted_def)
  moreover have "delivers (sample_curl n) (True, x # xs) (concat [x] @ concat xs)"
    using calculation
    by (rule no_blocks [rotated 2, where m'="(True, x # xs)" and r=0]) (simp_all add: sample_curl_def wait_def)
  ultimately show ?case by (cases b) simp_all
qed

theorem url_source_complete_witness:
  "\<exists>s'. copy_source (read_impl (sample_curl 3)) [] (url_source_new ''http://x/'' (False, [[1, 2], [3]])) =
     Some (Inr [1, 2, 3], s')"
  using url_source_complete [OF sample_connects, of 3 "''http://x/''" "(False, [[1, 2], [3]])" "[1, 2, 3]"]
    sample_delivers [of "[[1, 2], [3]]" 3 False]
  by (simp add: url_source_new_def)

text \<open>
  A transfer that breaks off is read like a complete one: here the server announced ten bytes, three
  arrived before the connection was lost, and no exception is thrown.
\<close>

lemma truncated_transfer_accepted:
  "\<exists>s2 s'. connect (sample_curl 10) (url_source_new u (False, [[1, 2, 3]])) = Some (Inr (), s2) \<and> file_size s2 = 10 \<and>
     copy_source (read_impl (sample_curl 10)) [] s2 = Some (Inr [1, 2, 3], s')"
proof -
  obtain s2 where "connect (sample_curl 10) (url_source_new u (False, [[1, 2, 3]])) = Some (Inr (), s2)"
    "url_holds (sample_curl 10) s2 [1, 2, 3]" "response_seen (sample_curl 10) s2"
    using connect_holds [OF sample_connects, of 10 u "(False, [[1, 2, 3]])" "[1, 2, 3]"]
      sample_delivers [of "[[1, 2, 3]]" 10 False] by (auto simp: url_source_new_def)
  moreover from this(2) obtain s' where "copy_source (read_impl (sample_curl 10)) [] s2 = Some (Inr [1, 2, 3], s')"
    using url.copy_source_all [of "sample_curl 10" s2 "[1, 2, 3]" "[]"] by auto
  ultimately show ?thesis by (auto simp: response_seen_def sample_curl_def)
qed

end
