(* ===== verification/Download_source.thy ===== *)
theory Download_source
  imports Url_source Database Primary_xml
begin

text \<open>
  Downloads through the URL cache of the database: \<open>lib/symboldb/download_source.cpp\<close> on top of
  \<open>url_source.cpp\<close> (\<open>Url_source\<close>) and the cache operations of \<open>database.cpp\<close> (\<open>Database\<close>). The sources it
  returns are a datatype; the database they share is passed along.
\<close>

record 'm download_source =
  ds_url :: string
  ds_src :: "'m url_source"
  ds_buffer :: "u8 list"

datatype 'm any_source =
    Database_source vector_source
  | Network_source "'m url_source"
  | Caching_source "'m download_source"

text \<open>The end of the data is where the cache is written.\<close>

definition download_source_read ::
    "'s server \<Rightarrow> 'm curl \<Rightarrow> 'm download_source \<times> 's database \<Rightarrow> nat
     \<Rightarrow> (u8 list result \<times> 'm download_source \<times> 's database) option" where
  "download_source_read srv c = (\<lambda>(d, db) len.
     Option.bind (read_impl c (ds_src d) len) (\<lambda>(r, s).
       let d = d\<lparr>ds_src := s\<rparr>
       in case r of
            Inl e \<Rightarrow> Some (throw e, d, db)
          | Inr bs \<Rightarrow>
              if bs = [] then
                (case url_cache_update srv (cstr (ds_url d)) (ds_buffer d) (word_of_int (http_date s)) db of
                   (Inl e, db) \<Rightarrow> Some (throw e, d, db)
                 | (Inr _, db) \<Rightarrow> Some (return [], d, db))
              else Some (return bs, d\<lparr>ds_buffer := ds_buffer d @ bs\<rparr>, db)))"

definition source_read ::
    "'s server \<Rightarrow> 'm curl \<Rightarrow> 'm any_source \<times> 's database \<Rightarrow> nat \<Rightarrow> (u8 list result \<times> 'm any_source \<times> 's database) option" where
  "source_read srv c = (\<lambda>(src, db) len.
     case src of
       Database_source v \<Rightarrow> map_option (map_prod id (\<lambda>v. (Database_source v, db))) (vector_source_read v len)
     | Network_source s \<Rightarrow> map_option (map_prod id (\<lambda>s. (Network_source s, db))) (read_impl c s len)
     | Caching_source d \<Rightarrow>
         map_option (map_prod id (map_prod Caching_source id)) (download_source_read srv c (d, db) len))"

text \<open>The constructor without a source connects.\<close>

definition download_source_new ::
    "'m curl \<Rightarrow> string \<Rightarrow> 'm \<Rightarrow> 's database \<Rightarrow> ('m any_source result \<times> 's database) option" where
  "download_source_new c u m db =
     Option.bind (connect c (url_source_new u m)) (\<lambda>(r, s).
       case r of
         Inl e \<Rightarrow> Some (throw e, db)
       | Inr _ \<Rightarrow> Some (return (Caching_source \<lparr>ds_url = u, ds_src = s, ds_buffer = []\<rparr>), db))"

definition fetched :: "u8 list option \<Rightarrow> 'm any_source option" where
  "fetched r = map_option (\<lambda>dat. Database_source (vector_source_new dat)) r"

text \<open>The state of a new transfer is an argument.\<close>

definition download_check ::
    "'s server \<Rightarrow> 'm curl \<Rightarrow> 'm \<Rightarrow> string \<Rightarrow> 's database \<Rightarrow> ('m any_source result \<times> 's database) option" where
  "download_check srv c m u db =
     Option.bind (connect c (url_source_new u m)) (\<lambda>(r, net).
       case r of
         Inl e \<Rightarrow> Some (throw e, db)
       | Inr _ \<Rightarrow>
           Some (sbind
             (if http_date net > 0 \<and> file_size net \<ge> 0
              then url_cache_fetch_expected srv u (word_of_int (file_size net)) (word_of_int (http_date net)) db
              else (return None, db)) (\<lambda>hit db.
             (return (case fetched hit of
                Some src \<Rightarrow> src
              | None \<Rightarrow> Caching_source \<lparr>ds_url = u, ds_src = net, ds_buffer = []\<rparr>), db))))"

definition download ::
    "'s server \<Rightarrow> 'm curl \<Rightarrow> 'm \<Rightarrow> cache_mode \<Rightarrow> string \<Rightarrow> 's database \<Rightarrow> ('m any_source result \<times> 's database) option" where
  "download srv c m cm u db =
     (case cm of
        no_cache \<Rightarrow> Some (return (Network_source (url_source_new u m)), db)
      | check_cache \<Rightarrow> download_check srv c m u db
      | _ \<Rightarrow>
          rbind (Some (url_cache_fetch srv u db)) (\<lambda>hit db.
            case fetched hit of
              Some src \<Rightarrow> Some (return src, db)
            | None \<Rightarrow>
                if cm = only_cache then Some (throw (Curl_exception ''URL not in cache and network access disabled''), db)
                else download_source_new c u m db))"

section \<open>The URL cache as a table\<close>

text \<open>
  What the server does with the statements of the URL cache: \<open>tb\<close> reads the table off its state, a map from
  URLs to data and times. \<open>LENGTH(data)\<close> is compared as an integer of 32 bits.
\<close>

definition text_param :: "string \<Rightarrow> pg_param" where
  "text_param t = \<lparr>param_oid = 25, param_value = Some (string_bytes t)\<rparr>"

definition row_params :: "'s server \<Rightarrow> string \<Rightarrow> u64 \<Rightarrow> u8 list \<Rightarrow> pg_param list" where
  "row_params srv u tm dat =
     [text_param u, \<lparr>param_oid = 20, param_value = Some (store_long (little_endian srv) tm)\<rparr>,
      \<lparr>param_oid = 17, param_value = Some dat\<rparr>]"

definition data_rows :: "u8 list option \<Rightarrow> pg_result" where
  "data_rows d =
     \<lparr>res_status = PGRES_TUPLES_OK, res_message = [], res_columns = [(17, 1)],
      res_rows = (case d of None \<Rightarrow> [] | Some d \<Rightarrow> [[Some d]])\<rparr>"

definition matching :: "(u8 list \<times> u64) option \<Rightarrow> u64 \<Rightarrow> u64 \<Rightarrow> u8 list option" where
  "matching r len tm =
     (case r of
        None \<Rightarrow> None
      | Some (d, t) \<Rightarrow> if of_nat (length d) = (ucast len :: u32) \<and> t = tm then Some d else None)"

definition url_table :: "'s server \<Rightarrow> ('s \<Rightarrow> string \<rightharpoonup> u8 list \<times> u64) \<Rightarrow> bool" where
  "url_table srv tb \<longleftrightarrow> (\<forall>s u len tm dat. u = cstr u \<longrightarrow>
     (\<exists>s'. respond srv url_fetch_sql [text_param u] 1 s = (Some (data_rows (map_option fst (tb s u))), s') \<and>
        tb s' = tb s) \<and>
     (\<exists>s'. respond srv url_expected_sql
          [text_param u, int_param srv (ucast len), \<lparr>param_oid = 20, param_value = Some (store_long (little_endian srv) tm)\<rparr>] 1 s
          = (Some (data_rows (matching (tb s u) len tm)), s') \<and> tb s' = tb s) \<and>
     (\<exists>res s'. respond srv url_lock_sql [text_param u] 0 s = (Some res, s') \<and> tb s' = tb s \<and>
        res_status res = PGRES_TUPLES_OK \<and> ntuples res = (if tb s u = None then 0 else 1)) \<and>
     (\<exists>s'. respond srv url_access_sql [text_param u] 0 s = (Some command_ok, s') \<and> tb s' = tb s) \<and>
     (tb s u \<noteq> None \<longrightarrow> (\<exists>s'. respond srv url_update_sql (row_params srv u tm dat) 0 s = (Some command_ok, s') \<and>
        tb s' = (tb s)(u \<mapsto> (dat, tm)))) \<and>
     (tb s u = None \<longrightarrow> (\<exists>s'. respond srv url_insert_sql (row_params srv u tm dat) 0 s = (Some command_ok, s') \<and>
        tb s' = (tb s)(u \<mapsto> (dat, tm)))))"

abbreviation table_of :: "('s \<Rightarrow> string \<rightharpoonup> u8 list \<times> u64) \<Rightarrow> 's database \<Rightarrow> string \<rightharpoonup> u8 list \<times> u64" where
  "table_of tb db \<equiv> tb (server_state (db_conn db))"

lemma cstr_cstr [simp]: "cstr (cstr u) = cstr u"
  by (simp add: cstr_def takeWhile_takeWhile)

lemma text_params [simp]:
  assumes "length (cstr u) < INT_MAX"
  shows "pg_params little [A_cstr (Some u)] = Inr [text_param (cstr u)]"
    and "pg_params little [A_cstr (Some u), A_int v, A_long tm] =
      Inr [text_param (cstr u), \<lparr>param_oid = 23, param_value = Some (store_int little v)\<rparr>,
           \<lparr>param_oid = 20, param_value = Some (store_long little tm)\<rparr>]"
    and "length dat < INT_MAX \<Longrightarrow>
      pg_params (little_endian srv) [A_cstr (Some u), A_long tm, A_bytes dat] = Inr (row_params srv (cstr u) tm dat)"
  using assms by (simp_all add: length_check_def text_param_def row_params_def)

declare pg_params.simps(2) [simp del]

text \<open>The database after a statement.\<close>

definition after :: "'s database \<Rightarrow> string \<Rightarrow> pg_param list \<Rightarrow> 's \<Rightarrow> 's database" where
  "after db sql ps s = db\<lparr>db_conn := db_conn db\<lparr>server_state := s, sent := sent (db_conn db) @ [(sql, ps)]\<rparr>\<rparr>"

lemma state_after_statement [simp]: "server_state (db_conn (after db sql ps s)) = s"
  by (simp add: after_def)

lemma statement:
  assumes "pg_params (little_endian srv) as = Inr ps" and "do_check (Some res) = Inr res"
  shows "respond srv sql ps 0 (server_state (db_conn db)) = (Some res, s) \<Longrightarrow> query srv sql as db = (Inr res, after db sql ps s)"
    and "respond srv sql ps 0 (server_state (db_conn db)) = (Some res, s) \<Longrightarrow> command srv sql as db = (Inr (), after db sql ps s)"
    and "respond srv sql ps 1 (server_state (db_conn db)) = (Some res, s) \<Longrightarrow> query_binary srv sql as db = (Inr res, after db sql ps s)"
  using assms
  by (simp_all add: query_binary_def query_def command_def on_conn_def pg_query_binary_def pg_query_def
      private_pg_query_def execParamsCustom_def after_def)

lemma url_tableD:
  assumes "url_table srv tb"
  shows "\<exists>s'. respond srv url_fetch_sql [text_param (cstr u)] 1 s = (Some (data_rows (map_option fst (tb s (cstr u)))), s') \<and> tb s' = tb s"
    and "\<exists>s'. respond srv url_expected_sql
          [text_param (cstr u), int_param srv (ucast len), \<lparr>param_oid = 20, param_value = Some (store_long (little_endian srv) tm)\<rparr>] 1 s
          = (Some (data_rows (matching (tb s (cstr u)) len tm)), s') \<and> tb s' = tb s"
    and "\<exists>res s'. respond srv url_lock_sql [text_param (cstr u)] 0 s = (Some res, s') \<and> tb s' = tb s \<and>
        res_status res = PGRES_TUPLES_OK \<and> ntuples res = (if tb s (cstr u) = None then 0 else 1)"
    and "\<exists>s'. respond srv url_access_sql [text_param (cstr u)] 0 s = (Some command_ok, s') \<and> tb s' = tb s"
    and "\<exists>s'. respond srv (if tb s (cstr u) = None then url_insert_sql else url_update_sql) (row_params srv (cstr u) tm dat) 0 s
          = (Some command_ok, s') \<and> tb s' = (tb s)(cstr u \<mapsto> (dat, tm))"
  using assms [unfolded url_table_def, rule_format, of "cstr u" s len tm dat] by auto

lemma command_ok_check [simp]: "do_check (Some command_ok) = Inr command_ok"
  by (simp add: do_check_def command_ok_def)

lemma data_rows_simps [simp]:
  "do_check (Some (data_rows d)) = Inr (data_rows d)"
  "ntuples (data_rows d) = (if d = None then 0 else 1)"
  "load_text f (data_rows (Some x)) 0 0 = Inr x"
  by (auto simp: do_check_def data_rows_def load_text_def is_binary_def ftype_def fformat_def field_def in_table_def split: option.split)

lemma hit_table:
  assumes "url_table srv tb" and "length (cstr u) < INT_MAX"
  shows "\<exists>db'. url_cache_hit srv u (data_rows d) db = (Inr d, db') \<and> table_of tb db' = table_of tb db"
proof (cases d)
  case (Some x)
  obtain s' where "respond srv url_access_sql [text_param (cstr u)] 0 (server_state (db_conn db)) = (Some command_ok, s')"
    "tb s' = table_of tb db"
    using url_tableD(4) [OF assms(1)] by blast
  moreover from this(1) have "command srv url_access_sql [A_cstr (Some u)] db = (Inr (), after db url_access_sql [text_param (cstr u)] s')"
    using assms(2) by (intro statement(2)) simp_all
  ultimately show ?thesis using Some by (simp add: url_cache_hit_def update_url_last_access_def)
qed (simp add: url_cache_hit_def)

lemma fetch_table:
  assumes "url_table srv tb" and "length (cstr u) < INT_MAX"
  shows "\<exists>db'. url_cache_fetch srv u db = (Inr (map_option fst (table_of tb db (cstr u))), db') \<and> table_of tb db' = table_of tb db"
proof -
  obtain s' where "respond srv url_fetch_sql [text_param (cstr u)] 1 (server_state (db_conn db)) =
      (Some (data_rows (map_option fst (table_of tb db (cstr u)))), s')" "tb s' = table_of tb db"
    using url_tableD(1) [OF assms(1)] by blast
  moreover from this(1) have "query_binary srv url_fetch_sql [A_cstr (Some u)] db =
      (Inr (data_rows (map_option fst (table_of tb db (cstr u)))), after db url_fetch_sql [text_param (cstr u)] s')"
    using assms(2) by (intro statement(3)) simp_all
  ultimately show ?thesis
    using hit_table [OF assms, of _ "after db url_fetch_sql [text_param (cstr u)] s'"] by (simp add: url_cache_fetch_def)
qed

lemma fetch_expected_table:
  assumes "url_table srv tb" and "length (cstr u) < INT_MAX"
  shows "\<exists>db'. url_cache_fetch_expected srv u len tm db =
      (Inr (if len > push_bit 30 1 then None else matching (table_of tb db (cstr u)) len tm), db') \<and> table_of tb db' = table_of tb db"
proof (cases "len > push_bit 30 1")
  case False
  let ?ps = "[text_param (cstr u), int_param srv (ucast len), \<lparr>param_oid = 20, param_value = Some (store_long (little_endian srv) tm)\<rparr>]"
  obtain s' where "respond srv url_expected_sql ?ps 1 (server_state (db_conn db)) =
      (Some (data_rows (matching (table_of tb db (cstr u)) len tm)), s')" "tb s' = table_of tb db"
    using url_tableD(2) [OF assms(1)] by blast
  moreover from this(1) have "query_binary srv url_expected_sql [A_cstr (Some u), A_int (ucast len), A_long tm] db =
      (Inr (data_rows (matching (table_of tb db (cstr u)) len tm)), after db url_expected_sql ?ps s')"
    using assms(2) by (intro statement(3)) (simp_all add: int_param_def)
  ultimately show ?thesis
    using False hit_table [OF assms, of _ "after db url_expected_sql ?ps s'"] by (simp add: url_cache_fetch_expected_def)
qed (simp add: url_cache_fetch_expected_def)

lemma update_table:
  assumes "url_table srv tb" and "length (cstr u) < INT_MAX" and "length dat < INT_MAX"
  shows "\<exists>db'. url_cache_update srv u dat tm db = (Inr (), db') \<and> table_of tb db' = (table_of tb db)(cstr u \<mapsto> (dat, tm))"
proof -
  obtain res s1 where s1: "respond srv url_lock_sql [text_param (cstr u)] 0 (server_state (db_conn db)) = (Some res, s1)"
    "tb s1 = table_of tb db" "res_status res = PGRES_TUPLES_OK" "ntuples res = (if table_of tb db (cstr u) = None then 0 else 1)"
    using url_tableD(3) [OF assms(1)] by blast
  obtain s2 where s2: "respond srv (if tb s1 (cstr u) = None then url_insert_sql else url_update_sql) (row_params srv (cstr u) tm dat) 0 s1
      = (Some command_ok, s2)" "tb s2 = (tb s1)(cstr u \<mapsto> (dat, tm))"
    using url_tableD(5) [OF assms(1)] by blast
  let ?db = "after db url_lock_sql [text_param (cstr u)] s1"
  have "query srv url_lock_sql [A_cstr (Some u)] db = (Inr res, ?db)"
    using s1(1,3) assms(2) by (intro statement) (simp_all add: do_check_def)
  moreover have "command srv (if ntuples res = 1 then url_update_sql else url_insert_sql) [A_cstr (Some u), A_long tm, A_bytes dat] ?db =
      (Inr (), after ?db (if ntuples res = 1 then url_update_sql else url_insert_sql) (row_params srv (cstr u) tm dat) s2)"
    using s1(2,4) s2(1) assms(2,3) by (intro statement(2) [where res=command_ok]) (cases "table_of tb db (cstr u)"; simp)+
  ultimately show ?thesis using s1(2) s2(2) by (simp add: url_cache_update_def)
qed

section \<open>The sources keep the contract\<close>

text \<open>The cache can be written: the server executes the statements of \<open>url_cache_update\<close>.\<close>

definition cache_writable :: "'s server \<Rightarrow> string \<Rightarrow> u8 list \<Rightarrow> bool" where
  "cache_writable srv u dat \<longleftrightarrow> (\<forall>tm db. \<exists>db'. url_cache_update srv u dat tm db = (Inr (), db'))"

fun source_holds :: "'s server \<Rightarrow> 'm curl \<Rightarrow> 'm any_source \<times> 's database \<Rightarrow> u8 list \<Rightarrow> bool" where
  "source_holds srv c (Database_source v, db) bs \<longleftrightarrow> vector_holds v bs"
| "source_holds srv c (Network_source s, db) bs \<longleftrightarrow> url_holds c s bs"
| "source_holds srv c (Caching_source d, db) bs \<longleftrightarrow> 
     url_holds c (ds_src d) bs \<and> cache_writable srv (cstr (ds_url d)) (ds_buffer d @ bs)"

lemma source_read_holds:
  assumes "source_holds srv c s bs" and "0 < n" and "n < 2 ^ 32"
  shows "\<exists>buf rest s'. source_read srv c s n = Some (Inr buf, s') \<and> bs = buf @ rest \<and> length buf \<le> n \<and>
           (buf = [] \<longrightarrow> bs = []) \<and> source_holds srv c s' rest"
  using assms
proof (induction srv c s bs rule: source_holds.induct)
  case (1 srv c v db bs)
  then obtain buf rest v' where "vector_source_read v n = Some (Inr buf, v')" "bs = buf @ rest" "length buf \<le> n"
    "buf = [] \<longrightarrow> bs = []" "vector_holds v' rest"
    using vec.read_holds [of v bs n] by auto
  then show ?case by (auto simp: source_read_def)
next
  case (2 srv c s db bs)
  then obtain buf rest s' where "read_impl c s n = Some (Inr buf, s')" "bs = buf @ rest" "length buf \<le> n"
    "buf = [] \<longrightarrow> bs = []" "url_holds c s' rest"
    using url.read_holds [of c s bs n] by auto
  then show ?case by (auto simp: source_read_def)
next
  case (3 srv c d db bs)
  then obtain buf rest s' where rd: "read_impl c (ds_src d) n = Some (Inr buf, s')" "bs = buf @ rest" "length buf \<le> n"
    "buf = [] \<longrightarrow> bs = []" "url_holds c s' rest"
    using url.read_holds [of c "ds_src d" bs n] by auto
  show ?case
  proof (cases "buf = []")
    case True
    obtain db' where "url_cache_update srv (cstr (ds_url d)) (ds_buffer d) (word_of_int (http_date s')) db = (Inr (), db')"
      using 3 True rd(4) by (fastforce simp: cache_writable_def)
    then show ?thesis using rd True 3 by (auto simp: source_read_def download_source_read_def)
  next
    case False
    then show ?thesis using rd 3 by (auto simp: source_read_def download_source_read_def)
  qed
qed

interpretation dl: byte_source "source_read srv c" "source_holds srv c" for srv c
  using source_read_holds by unfold_locales

section \<open>What is stored in the cache\<close>

lemma copy_caching:
  assumes "cache_writable srv u (ds_buffer d @ bs)" and "u = cstr (ds_url d)"
    and "url_holds c (ds_src d) bs" and "\<not> before_data (ds_src d)"
  shows "\<exists>d' db'. copy_source (source_read srv c) acc (Caching_source d, db) = Some (Inr (acc @ bs), Caching_source d', db') \<and>
      url_cache_update srv u (ds_buffer d @ bs) (word_of_int (http_date (ds_src d))) db = (Inr (), db')"
  using assms
proof (induction "length bs" arbitrary: d bs acc rule: less_induct)
  case less
  obtain buf rest s' where rd: "read_impl c (ds_src d) 8192 = Some (Inr buf, s')" "bs = buf @ rest" "length buf \<le> 8192"
    "buf = [] \<longrightarrow> bs = []" "url_holds c s' rest" "\<not> before_data s'" "http_date s' = http_date (ds_src d)"
    using read_impl_holds [OF less.prems(3), of 8192] less.prems(4) by auto
  show ?case
  proof (cases "buf = []")
    case True
    then obtain db' where "url_cache_update srv u (ds_buffer d) (word_of_int (http_date s')) db = (Inr (), db')"
      using less.prems(1) rd(4) by (fastforce simp: cache_writable_def)
    then show ?thesis
      using rd True less.prems(2) by (subst copy_source.simps) (auto simp: source_read_def download_source_read_def)
  next
    case False
    let ?d = "d\<lparr>ds_src := s', ds_buffer := ds_buffer d @ buf\<rparr>"
    have "source_read srv c (Caching_source d, db) 8192 = Some (Inr buf, Caching_source ?d, db)"
      using rd(1) False by (simp add: source_read_def download_source_read_def)
    then have "copy_source (source_read srv c) acc (Caching_source d, db) =
        copy_source (source_read srv c) (acc @ buf) (Caching_source ?d, db)"
      using rd(3) False by (subst copy_source.simps) simp
    then show ?thesis using less.hyps [of rest ?d "acc @ buf"] less.prems(1,2) rd False by simp
  qed
qed

text \<open>The copy in the cache that a download may use; \<open>net\<close> is the connected transfer of \<open>check_cache\<close>.\<close>

definition usable :: "cache_mode \<Rightarrow> 'm url_source \<Rightarrow> (u8 list \<times> u64) option \<Rightarrow> u8 list option" where
  "usable cm net row =
     (if cm = no_cache then None
      else if cm = check_cache then
        if http_date net > 0 \<and> file_size net \<ge> 0 \<and> \<not> word_of_int (file_size net) > (push_bit 30 1 :: u64)
        then matching row (word_of_int (file_size net)) (word_of_int (http_date net)) else None
      else map_option fst row)"

lemma download_miss:
  assumes "url_table srv tb" and "length (cstr u) < INT_MAX" and "connect c (url_source_new u m) = Some (Inr (), net)"
    and "cm \<in> {always_cache, check_cache}" and "usable cm net (table_of tb db (cstr u)) = None"
  shows "\<exists>db'. download srv c m cm u db = Some (Inr (Caching_source \<lparr>ds_url = u, ds_src = net, ds_buffer = []\<rparr>), db') \<and>
           table_of tb db' = table_of tb db"
proof (cases "cm = always_cache")
  case True
  then show ?thesis
    using fetch_table [OF assms(1,2), of db] assms(3,5) by (auto simp: usable_def download_def download_source_new_def fetched_def)
next
  case False
  then show ?thesis
    using fetch_expected_table [OF assms(1,2), of "word_of_int (file_size net)" "word_of_int (http_date net)" db] assms(3-5)
    by (cases "http_date net > 0 \<and> file_size net \<ge> 0") (auto simp: usable_def download_def download_check_def fetched_def split: if_splits)
qed

text \<open>A copy from the cache is read without a change of the database.\<close>

definition cached_holds :: "'s database \<Rightarrow> 'm any_source \<times> 's database \<Rightarrow> u8 list \<Rightarrow> bool" where
  "cached_holds db0 s bs \<longleftrightarrow> (\<exists>v. s = (Database_source v, db0) \<and> vector_holds v bs)"

lemma cached_holds_new: "cached_holds db (Database_source (vector_source_new dat), db) dat"
  by (simp add: cached_holds_def vector_holds_new)

lemma cached_read_holds:
  assumes "cached_holds db s bs" and "0 < n" and "n < 2 ^ 32"
  shows "\<exists>buf rest s'. source_read srv c s n = Some (Inr buf, s') \<and> bs = buf @ rest \<and> length buf \<le> n \<and>
           (buf = [] \<longrightarrow> bs = []) \<and> cached_holds db s' rest"
  using assms vec.read_holds [of _ bs n] by (fastforce simp: cached_holds_def source_read_def)

interpretation cached: byte_source "source_read srv c" "cached_holds db" for srv c db
  using cached_read_holds by unfold_locales

lemma copy_cached:
  "\<exists>v. copy_source (source_read srv c) [] (Database_source (vector_source_new dat), db) = Some (Inr dat, Database_source v, db)"
  using cached.copy_source_all [OF cached_holds_new, of srv c "[]" dat db] by (auto simp: cached_holds_def)

lemma download_hit:
  assumes "url_table srv tb" and "length (cstr u) < INT_MAX" and "cm \<in> {only_cache, always_cache}"
    and "table_of tb db (cstr u) = Some (dat, tm)"
  shows "\<exists>src db'. download srv c m cm u db = Some (Inr (Database_source src), db') \<and> table_of tb db' = table_of tb db \<and>
           (\<exists>src'. copy_source (source_read srv c) [] (Database_source src, db') = Some (Inr dat, Database_source src', db'))"
  using fetch_table [OF assms(1,2), of db] assms(3,4) copy_cached by (fastforce simp: download_def fetched_def)


text \<open>
  With \<open>only_cache\<close> the network is not used: the outcome does not depend on libcurl. A copy in the cache
  is delivered as it was stored, and a URL without a copy is an exception.
\<close>

lemma download_only_cache:
  assumes "url_cache_fetch srv u db = (Inr hit, db1)"
  shows "case hit of
      None \<Rightarrow> (\<forall>c m. download srv c m only_cache u db =
                 Some (Inl (Curl_exception ''URL not in cache and network access disabled''), db1))
    | Some dat \<Rightarrow> (\<exists>src. \<forall>c m. download srv c m only_cache u db = Some (Inr (Database_source src), db1) \<and>
                 (\<exists>src'. copy_source (source_read srv c) [] (Database_source src, db1) = Some (Inr dat, Database_source src', db1)))"
  using assms by (auto simp: download_def fetched_def copy_cached split: option.split)

section \<open>A sample server\<close>

definition param_text :: "pg_param \<Rightarrow> string" where
  "param_text p = map char_of_byte (the (param_value p))"

definition param_long :: "pg_param \<Rightarrow> u64" where
  "param_long p = be_to_cpu_64 True (load64 True (the (param_value p)))"

definition cache_server :: "(string \<rightharpoonup> u8 list \<times> u64) server" where
  "cache_server =
     \<lparr>respond = (\<lambda>sql ps fmt s.
        case ps of
          [u] \<Rightarrow>
            if fmt = 1 then (Some (data_rows (map_option fst (s (param_text u)))), s)
            else if sql = url_lock_sql then (Some (data_rows (map_option fst (s (param_text u)))), s)
            else (Some command_ok, s)
        | [u, a, b] \<Rightarrow>
            if fmt = 1 then (Some (data_rows (matching (s (param_text u)) (ucast (param_int a)) (param_long b))), s)
            else (Some command_ok, s(param_text u \<mapsto> (the (param_value b), param_long a)))
        | _ \<Rightarrow> (None, s)),
      in_transaction = (\<lambda>_. True), little_endian = True, unescape_bytea = Some\<rparr>"

lemma param_values [simp]:
  "param_text (text_param u) = u"
  "param_long \<lparr>param_oid = 20, param_value = Some (store_long True tm)\<rparr> = tm"
  "param_int \<lparr>param_oid = 23, param_value = Some (store_int True v)\<rparr> = v"
  by (simp_all add: param_text_def text_param_def param_long_def param_int_def string_bytes_def comp_def byte_simps
      decode_stored_long decode_stored_int)

lemma matching_length: "matching r (ucast (ucast len :: u32)) tm = matching r len tm"
proof -
  have "ucast (ucast (ucast len :: u32) :: u64) = (ucast len :: u32)" by (rule bit_word_eqI) (simp add: bit_simps)
  then show ?thesis unfolding matching_def by (simp only:)
qed

lemma cache_server_table: "url_table cache_server (\<lambda>s. s)"
  by (auto simp: url_table_def cache_server_def row_params_def int_param_def matching_length data_rows_def
      url_access_sql_def url_lock_sql_def split: option.split)

definition empty_cache :: "(string \<rightharpoonup> u8 list \<times> u64) database" where
  "empty_cache = \<lparr>db_conn = \<lparr>server_state = Map.empty, sent = []\<rparr>, file_attribute_cache = (\<lambda>_. 0)\<rparr>"


end
