(* ===== verification/Gunzip.thy ===== *)
theory Gunzip
  imports Byte_source
begin

text \<open>
  Decompression: \<open>lib/cxxll/gunzip_source.cpp\<close>, a source on top of another source, and \<open>gzip_uncompress\<close> of
  \<open>lib/cxxll/zlib.cpp\<close>. zlib is a parameter; what the code relies on is \<open>zlib_inflates\<close> below. The pointers
  and counters of \<open>z_stream\<close> are the input not yet consumed and the output written so far.
\<close>

section \<open>zlib\<close>

abbreviation Z_OK :: int where "Z_OK \<equiv> 0"

abbreviation Z_STREAM_END :: int where "Z_STREAM_END \<equiv> 1"

record 'z zlib =
  inflate_init :: "'z option"
  inflate :: "'z \<Rightarrow> u8 list \<Rightarrow> nat \<Rightarrow> int \<times> nat \<times> u8 list \<times> 'z"  \<comment> \<open>code, bytes consumed, bytes written\<close>
  inflate_reset :: "'z \<Rightarrow> 'z"
  inflate_msg :: "'z \<Rightarrow> string option"

section \<open>The source\<close>

record ('z, 's) gunzip_source =
  gz_source :: 's
  gz_stream :: 'z
  gz_input :: "u8 list"
  gz_end_seen :: bool

definition gunzip_source_new :: "'z zlib \<Rightarrow> 's \<Rightarrow> ('z, 's) gunzip_source result" where
  "gunzip_source_new zl s =
     (case inflate_init zl of
        None \<Rightarrow> throw Bad_alloc
      | Some z \<Rightarrow> return \<lparr>gz_source = s, gz_stream = z, gz_input = [], gz_end_seen = False\<rparr>)"

definition refill ::
    "('s \<Rightarrow> nat \<Rightarrow> (u8 list result \<times> 's) option) \<Rightarrow> ('z, 's) gunzip_source \<Rightarrow> (u8 list result \<times> ('z, 's) gunzip_source) option" where
  "refill rd g =
     map_option (\<lambda>(r, s). (r, case r of Inl _ \<Rightarrow> g\<lparr>gz_source := s\<rparr>
                              | Inr bs \<Rightarrow> if bs = [] then g\<lparr>gz_source := s\<rparr> else g\<lparr>gz_source := s, gz_input := bs\<rparr>))
       (rd (gz_source g) 4096)"

text \<open>
  The loop of \<open>read\<close>. \<open>avail_out\<close> is an \<open>unsigned\<close>: from \<open>2^32\<close> on, a full buffer is reported although fewer
  bytes were written.
\<close>

partial_function (option) gz_loop ::
    "'z zlib \<Rightarrow> ('s \<Rightarrow> nat \<Rightarrow> (u8 list result \<times> 's) option) \<Rightarrow> nat \<Rightarrow> u8 list \<Rightarrow> ('z, 's) gunzip_source
     \<Rightarrow> (u8 list result \<times> ('z, 's) gunzip_source) option" where
  "gz_loop zl rd len out g =
     rbind (if gz_input g = [] then refill rd g else Some (return (gz_input g), g)) (\<lambda>bs g.
       if bs = [] then
         Some (if gz_end_seen g then return out else throw (Zlib_inflate_exception ''unexpected end of stream''), g)
       else
         case inflate zl (gz_stream g) (gz_input g) (len mod 2 ^ 32 - length out) of
           (ret, k, bytes, z) \<Rightarrow>
             let g = g\<lparr>gz_stream := z, gz_input := drop k (gz_input g)\<rparr>; out = out @ bytes
             in if ret = Z_OK then
                  if length out \<noteq> len mod 2 ^ 32 then gz_loop zl rd len out (g\<lparr>gz_end_seen := False\<rparr>)
                  else Some (if length out < len then throw (Undefined_behaviour ''bytes not written'') else return out,
                             g\<lparr>gz_end_seen := False\<rparr>)
                else if ret = Z_STREAM_END then
                  rbind (if gz_input g = [] then refill rd g else Some (return (gz_input g), g)) (\<lambda>bs g.
                    if bs = [] then Some (return out, g\<lparr>gz_end_seen := True\<rparr>)
                    else gz_loop zl rd len out (g\<lparr>gz_end_seen := False, gz_stream := inflate_reset zl (gz_stream g)\<rparr>))
                else
                  Some (throw (Zlib_inflate_exception
                    (case inflate_msg zl z of None \<Rightarrow> ''inflate error'' | Some msg \<Rightarrow> msg)), g))"

definition gz_read ::
    "'z zlib \<Rightarrow> ('s \<Rightarrow> nat \<Rightarrow> (u8 list result \<times> 's) option) \<Rightarrow> ('z, 's) gunzip_source \<Rightarrow> nat
     \<Rightarrow> (u8 list result \<times> ('z, 's) gunzip_source) option" where
  "gz_read zl rd g len = (if gz_end_seen g \<or> len = 0 then Some (return [], g) else gz_loop zl rd len [] g)"

section \<open>Decompression of a vector\<close>

text \<open>
  \<open>gzip_uncompress\<close>: the output of the stream so far is the front of the vector. The size of the input
  must fit into an \<open>unsigned\<close>; sizes of vectors are below \<open>2^64\<close>. \<open>None\<close> is the result false.
\<close>

partial_function (option) uncompress_loop ::
    "'z zlib \<Rightarrow> 'z \<Rightarrow> u8 list \<Rightarrow> u64 \<Rightarrow> u8 list \<Rightarrow> u8 list option option" where
  "uncompress_loop zl z inp sz out =
     (case inflate zl z inp (unat (ucast (sz - of_nat (length out)) :: u32)) of
        (ret, k, bytes, z) \<Rightarrow>
          if ret = Z_STREAM_END then Some (Some (out @ bytes))
          else if ret = Z_OK then
            if 2 * sz < sz then Some None
            else uncompress_loop zl z (drop k inp) (2 * sz) (out @ bytes)
          else Some None)"

definition gzip_uncompress :: "'z zlib \<Rightarrow> u8 list \<Rightarrow> u8 list option option" where
  "gzip_uncompress zl inp =
     (if inp = [] \<or> length inp \<ge> 2 ^ 32 then Some None
      else case inflate_init zl of
          None \<Rightarrow> Some None
        | Some z \<Rightarrow> uncompress_loop zl z inp (2 * of_nat (length inp)) [])"

section \<open>What the code relies on\<close>

text \<open>
  \<open>gzip c p\<close>: the bytes \<open>c\<close> are a gzip member for the bytes \<open>p\<close>. \<open>stream z c p\<close>: the decompressor is in a
  member, with the bytes \<open>c\<close> still to come and the bytes \<open>p\<close> still to be written; \<open>start z\<close>: it is at the
  beginning. A member ends in a checksum, so that there is input to come until it ends. \<open>inflate\<close> stops
  when the input is used up, the output is full or the member has ended; it makes progress with room
  in the output, and without room at the beginning, because of the header of a member.
\<close>

definition inflated ::
    "'z zlib \<Rightarrow> ('z \<Rightarrow> bool) \<Rightarrow> ('z \<Rightarrow> u8 list \<Rightarrow> u8 list \<Rightarrow> bool) \<Rightarrow> 'z \<Rightarrow> u8 list \<Rightarrow> u8 list \<Rightarrow> u8 list \<Rightarrow> nat \<Rightarrow> bool" where
  "inflated zl start stream z c p inp n \<longleftrightarrow>
     (case inflate zl z inp n of (ret, k, bytes, z') \<Rightarrow>
        k \<le> length inp \<and> k \<le> length c \<and> length bytes \<le> n \<and>
        (ret = Z_STREAM_END \<and> k = length c \<and> bytes = p \<and> start (inflate_reset zl z') \<or>
         ret = Z_OK \<and> (k = length inp \<or> length bytes = n) \<and> (\<exists>p'. p = bytes @ p' \<and> stream z' (drop k c) p')))"

definition zlib_inflates ::
    "'z zlib \<Rightarrow> ('z \<Rightarrow> bool) \<Rightarrow> ('z \<Rightarrow> u8 list \<Rightarrow> u8 list \<Rightarrow> bool) \<Rightarrow> (u8 list \<Rightarrow> u8 list \<Rightarrow> bool) \<Rightarrow> bool" where
  "zlib_inflates zl start stream gzip \<longleftrightarrow>
     (\<forall>z. inflate_init zl = Some z \<longrightarrow> start z) \<and>
     (\<forall>z c p. start z \<longrightarrow> gzip c p \<longrightarrow> stream z c p) \<and>
     (\<forall>z c p. stream z c p \<longrightarrow> c \<noteq> []) \<and>
     (\<forall>z c p inp x y n. stream z c p \<longrightarrow> inp \<noteq> [] \<longrightarrow> inp @ x = c @ y \<longrightarrow> 0 < n \<or> start z \<longrightarrow>
        inflated zl start stream z c p inp n)"

lemma zlib_inflatesD:
  assumes "zlib_inflates zl start stream gzip"
  shows "inflate_init zl = Some z \<Longrightarrow> start z"
    and "start z \<Longrightarrow> gzip c p \<Longrightarrow> stream z c p"
    and "stream z c p \<Longrightarrow> c \<noteq> []"
  using assms unfolding zlib_inflates_def by blast+

lemma inflate_cases:
  assumes "zlib_inflates zl start stream gzip" and "stream z c p" and "inp \<noteq> []" and "inp @ x = c @ y" and "0 < n \<or> start z"
  obtains (ended) bytes z' where "inflate zl z inp n = (Z_STREAM_END, length c, bytes, z')" "length c \<le> length inp"
      "bytes = p" "length p \<le> n" "start (inflate_reset zl z')"
    | (more) k bytes p' z' where "inflate zl z inp n = (Z_OK, k, bytes, z')" "k \<le> length inp" "k \<le> length c"
      "length bytes \<le> n" "k = length inp \<or> length bytes = n" "p = bytes @ p'" "stream z' (drop k c) p'"
proof -
  have "inflated zl start stream z c p inp n" using assms unfolding zlib_inflates_def by blast
  then show ?thesis
    using ended more by (cases "inflate zl z inp n") (auto simp: inflated_def)
qed

definition members :: "(u8 list \<Rightarrow> u8 list \<Rightarrow> bool) \<Rightarrow> (u8 list \<times> u8 list) list \<Rightarrow> bool" where
  "members gzip ms \<longleftrightarrow> (\<forall>(c, p) \<in> set ms. gzip c p)"

section \<open>The source delivers the contents of all members\<close>

text \<open>The bytes \<open>bs\<close> are still to come from the decompressor, with the members \<open>ms\<close> behind the current one.\<close>

definition inside ::
    "('z \<Rightarrow> u8 list \<Rightarrow> u8 list \<Rightarrow> bool) \<Rightarrow> (u8 list \<Rightarrow> u8 list \<Rightarrow> bool) \<Rightarrow> ('s \<Rightarrow> u8 list \<Rightarrow> bool) \<Rightarrow> ('z, 's) gunzip_source
     \<Rightarrow> u8 list \<Rightarrow> u8 list \<Rightarrow> (u8 list \<times> u8 list) list \<Rightarrow> u8 list \<Rightarrow> bool" where
  "inside stream gzip holds g c p ms bs \<longleftrightarrow>
     \<not> gz_end_seen g \<and> stream (gz_stream g) c p \<and> members gzip ms \<and> bs = p @ concat (map snd ms) \<and>
     (\<exists>r. holds (gz_source g) r \<and> gz_input g @ r = c @ concat (map fst ms))"

definition gz_holds ::
    "'z zlib \<Rightarrow> ('z \<Rightarrow> bool) \<Rightarrow> ('z \<Rightarrow> u8 list \<Rightarrow> u8 list \<Rightarrow> bool) \<Rightarrow> (u8 list \<Rightarrow> u8 list \<Rightarrow> bool) \<Rightarrow> ('s \<Rightarrow> u8 list \<Rightarrow> bool)
     \<Rightarrow> ('z, 's) gunzip_source \<Rightarrow> u8 list \<Rightarrow> bool" where
  "gz_holds zl start stream gzip holds g bs \<longleftrightarrow>
     zlib_inflates zl start stream gzip \<and>
     (gz_end_seen g \<and> bs = [] \<or> (\<exists>c p ms. inside stream gzip holds g c p ms bs))"

text \<open>What is left to do: the compressed data and the room in the buffer.\<close>

definition to_do :: "u8 list \<Rightarrow> (u8 list \<times> u8 list) list \<Rightarrow> nat \<Rightarrow> nat" where
  "to_do c ms n = length c + length (concat (map fst ms)) + n"

context byte_source
begin

lemma refill_input:
  assumes "holds (gz_source g) r" and "gz_input g = []"
  obtains bs s where "refill rd g = Some (Inr bs, g\<lparr>gz_source := s, gz_input := bs\<rparr>)" "bs = [] \<Longrightarrow> r = []"
    "\<exists>r'. holds s r' \<and> r = bs @ r'"
proof -
  obtain bs rest s where "rd (gz_source g) 4096 = Some (Inr bs, s)" "r = bs @ rest" "bs = [] \<Longrightarrow> r = []" "holds s rest"
    using read_holds [OF assms(1), of 4096] by auto
  moreover have "g\<lparr>gz_source := s\<rparr> = g\<lparr>gz_source := s, gz_input := []\<rparr>" using assms(2) by simp
  ultimately show ?thesis using that [of bs s] by (auto simp: refill_def)
qed

text \<open>After the test for input there is input, and nothing is lost.\<close>

lemma input_present:
  assumes "holds (gz_source g) r"
  obtains g' r' where "(if gz_input g = [] then refill rd g else Some (return (gz_input g), g)) = Some (Inr (gz_input g'), g')"
    "holds (gz_source g') r'" "gz_input g' @ r' = gz_input g @ r" "gz_stream g' = gz_stream g" "gz_end_seen g' = gz_end_seen g"
    "gz_input g' = [] \<Longrightarrow> gz_input g = [] \<and> r = []"
proof (cases "gz_input g = []")
  case True
  obtain bs s where "refill rd g = Some (Inr bs, g\<lparr>gz_source := s, gz_input := bs\<rparr>)" "bs = [] \<Longrightarrow> r = []"
    "\<exists>r'. holds s r' \<and> r = bs @ r'"
    using refill_input [OF assms True] by blast
  then show ?thesis using True that [of "g\<lparr>gz_source := s, gz_input := bs\<rparr>"] by auto
qed (use assms that in auto)

text \<open>One round of the loop: it goes on with less to do, or returns.\<close>

lemma gz_round:
  assumes zl: "zlib_inflates zl start stream gzip" and g: "inside stream gzip holds g c p ms bs"
    and len: "length out \<le> len" "len < 2 ^ 32" "length out < len \<or> start (gz_stream g)"
  shows "(\<exists>g' c' p' ms' bytes bs'. gz_loop zl rd len out g = gz_loop zl rd len (out @ bytes) g' \<and> bs = bytes @ bs' \<and>
             inside stream gzip holds g' c' p' ms' bs' \<and> length (out @ bytes) \<le> len \<and>
             (length (out @ bytes) < len \<or> start (gz_stream g')) \<and>
             to_do c' ms' (len - length (out @ bytes)) < to_do c ms (len - length out)) \<or>
         (\<exists>g' bytes rest. gz_loop zl rd len out g = Some (Inr (out @ bytes), g') \<and> bs = bytes @ rest \<and>
             length (out @ bytes) \<le> len \<and> (length (out @ bytes) < len \<longrightarrow> rest = []) \<and>
             gz_holds zl start stream gzip holds g' rest)"
proof -
  note z = zlib_inflatesD [OF zl]
  obtain r where g': "\<not> gz_end_seen g" "stream (gz_stream g) c p" "members gzip ms" "bs = p @ concat (map snd ms)"
    "holds (gz_source g) r" "gz_input g @ r = c @ concat (map fst ms)"
    using g by (auto simp: inside_def)
  obtain h r1 where h: "(if gz_input g = [] then refill rd g else Some (return (gz_input g), g)) = Some (Inr (gz_input h), h)"
    "holds (gz_source h) r1" "gz_input h @ r1 = gz_input g @ r" "gz_stream h = gz_stream g" "gz_end_seen h = gz_end_seen g"
    "gz_input h = [] \<Longrightarrow> gz_input g = [] \<and> r = []"
    using input_present [OF g'(5)] by blast
  have inp: "gz_input h \<noteq> []" using h(6) g'(6) z(3) [OF g'(2)] by auto
  have mod: "len mod 2 ^ 32 = len" using len(2) by simp
  have all: "gz_input h @ r1 = c @ concat (map fst ms)" using h(3) g'(6) by simp
  let ?n = "len - length out"
  have st: "stream (gz_stream h) c p" "0 < ?n \<or> start (gz_stream h)" using g'(2) h(4) len by auto
  show ?thesis
  proof (cases rule: inflate_cases [OF zl st(1) inp all st(2), case_names ended more])
    case (more k bytes p' z')
    let ?h = "h\<lparr>gz_stream := z', gz_input := drop k (gz_input h), gz_end_seen := False\<rparr>"
    have "drop k (gz_input h) @ r1 = drop k c @ concat (map fst ms)"
      using all more(2,3) by (metis drop_append diff_is_0_eq' drop_0)
    then have i: "inside stream gzip holds ?h (drop k c) p' ms (p' @ concat (map snd ms))"
      using more(7) g'(3) h(2) by (auto simp: inside_def)
    have step: "gz_loop zl rd len out g =
        (if length (out @ bytes) \<noteq> len then gz_loop zl rd len (out @ bytes) ?h else Some (Inr (out @ bytes), ?h))"
      using more(1) h(1,4) inp mod by (subst gz_loop.simps) (simp add: Let_def)
    show ?thesis
    proof (cases "length (out @ bytes) = len")
      case True
      then show ?thesis
        using step i zl g'(4) more(6) by (intro disjI2) (auto simp: gz_holds_def)
    next
      case False
      then have p: "0 < k \<or> 0 < length bytes" and l: "length out + length bytes < len"
        using more(4,5) inp len(1) by auto
      then have "length c - k + (len - (length out + length bytes)) < length c + (len - length out)"
        using more(3) by linarith
      then show ?thesis
        using step i g'(4) more(6) l
        by - (rule disjI1, rule exI [of _ ?h], rule exI [of _ "drop k c"], rule exI [of _ p'], rule exI [of _ ms], rule exI [of _ bytes],
          rule exI [of _ "p' @ concat (map snd ms)"], auto simp: to_do_def)
    qed
  next
    case (ended bytes z')
    let ?h = "h\<lparr>gz_stream := z', gz_input := drop (length c) (gz_input h)\<rparr>"
    have rest: "drop (length c) (gz_input h) @ r1 = concat (map fst ms)"
      using all ended(2) by (metis append_eq_conv_conj drop_append diff_is_0_eq' drop_0)
    obtain e r2 where e: "(if gz_input ?h = [] then refill rd ?h else Some (return (gz_input ?h), ?h)) = Some (Inr (gz_input e), e)"
      "holds (gz_source e) r2" "gz_input e @ r2 = gz_input ?h @ r1" "gz_stream e = gz_stream ?h"
      "gz_input e = [] \<Longrightarrow> gz_input ?h = [] \<and> r1 = []"
      by (rule input_present [of ?h r1]) (simp_all add: h(2))
    let ?e = "e\<lparr>gz_end_seen := False, gz_stream := inflate_reset zl (gz_stream e)\<rparr>"
    have step: "gz_loop zl rd len out g =
        (if gz_input e = [] then Some (Inr (out @ p), e\<lparr>gz_end_seen := True\<rparr>) else gz_loop zl rd len (out @ p) ?e)"
      using ended(1,3) h(1,4) inp mod e(1) by (subst gz_loop.simps) (simp add: Let_def)
    show ?thesis
    proof (cases ms)
      case Nil
      then have "gz_input e = []" using rest e(3) by auto
      then show ?thesis
        using step zl g'(4) Nil ended(4) len(1) by (intro disjI2) (auto simp: gz_holds_def)
    next
      case (Cons m ms')
      have m: "gzip (fst m) (snd m)" "members gzip ms'" using g'(3) Cons by (auto simp: members_def)
      then have st: "stream (inflate_reset zl z') (fst m) (snd m)" using z(2) ended(5) by blast
      then have "gz_input e \<noteq> []" using e(5) rest Cons z(3) by auto
      moreover have "inside stream gzip holds ?e (fst m) (snd m) ms' (snd m @ concat (map snd ms'))"
        using st m(2) e rest Cons by (auto simp: inside_def)
      moreover have "0 < length c" using z(3) [OF g'(2)] by simp
      then have "to_do (fst m) ms' (len - length (out @ p)) < to_do c ms (len - length out)"
        unfolding Cons to_do_def length_append list.map concat.simps by linarith
      ultimately show ?thesis
        using step g'(4) Cons ended(3,4,5) e(4) len(1)
        by - (rule disjI1, rule exI [of _ ?e], rule exI [of _ "fst m"], rule exI [of _ "snd m"], rule exI [of _ ms'],
          rule exI [of _ p], rule exI [of _ "snd m @ concat (map snd ms')"], auto)
    qed
  qed
qed

lemma gz_loop_holds:
  assumes "zlib_inflates zl start stream gzip" and "inside stream gzip holds g c p ms bs"
    and "length out \<le> len" "len < 2 ^ 32" "length out < len \<or> start (gz_stream g)"
  shows "\<exists>g' bytes rest. gz_loop zl rd len out g = Some (Inr (out @ bytes), g') \<and> bs = bytes @ rest \<and>
           length (out @ bytes) \<le> len \<and> (length (out @ bytes) < len \<longrightarrow> rest = []) \<and>
           gz_holds zl start stream gzip holds g' rest"
  using assms(2-5)
proof (induction "to_do c ms (len - length out)" arbitrary: g c p ms bs out rule: less_induct)
  case less
  from gz_round [OF assms(1) less.prems] show ?case
  proof
    assume "\<exists>g' c' p' ms' bytes bs'. gz_loop zl rd len out g = gz_loop zl rd len (out @ bytes) g' \<and> bs = bytes @ bs' \<and>
      inside stream gzip holds g' c' p' ms' bs' \<and> length (out @ bytes) \<le> len \<and>
      (length (out @ bytes) < len \<or> start (gz_stream g')) \<and>
      to_do c' ms' (len - length (out @ bytes)) < to_do c ms (len - length out)"
    then obtain g' c' p' ms' bytes bs' where step: "gz_loop zl rd len out g = gz_loop zl rd len (out @ bytes) g'" "bs = bytes @ bs'"
      "inside stream gzip holds g' c' p' ms' bs'" "length (out @ bytes) \<le> len" "length (out @ bytes) < len \<or> start (gz_stream g')"
      "to_do c' ms' (len - length (out @ bytes)) < to_do c ms (len - length out)"
      by blast
    from less.hyps [OF step(6,3,4) less.prems(3) step(5)] step(1,2) show ?thesis by (metis append_assoc)
  qed
qed

lemma gunzip_byte_source: "byte_source (gz_read zl rd) (gz_holds zl start stream gzip holds)"
proof
  fix g bs and n :: nat
  assume g: "gz_holds zl start stream gzip holds g bs" and n: "0 < n" "n < 2 ^ 32"
  show "\<exists>buf rest g'. gz_read zl rd g n = Some (Inr buf, g') \<and> bs = buf @ rest \<and> length buf \<le> n \<and> (buf = [] \<longrightarrow> bs = []) \<and>
      gz_holds zl start stream gzip holds g' rest"
  proof (cases "gz_end_seen g")
    case True
    then have "bs = []" using g by (auto simp: gz_holds_def inside_def)
    then show ?thesis using True g by (simp add: gz_read_def)
  next
    case False
    then obtain c p ms where i: "zlib_inflates zl start stream gzip" "inside stream gzip holds g c p ms bs"
      using g by (auto simp: gz_holds_def)
    show ?thesis
      using gz_loop_holds [OF i, of "[]" n] n False by (auto simp: gz_read_def)
  qed
qed

end

interpretation gz_vec: byte_source "gz_read zl vector_source_read" "gz_holds zl start stream gzip vector_holds"
  for zl start stream gzip
  by (rule vec.gunzip_byte_source)

lemma gunzip_source_new_holds:
  assumes "zlib_inflates zl start stream gzip" and "inflate_init zl = Some z" and "ms \<noteq> []" and "members gzip ms"
    and "holds s (concat (map fst ms))"
  shows "\<exists>g. gunzip_source_new zl s = Inr g \<and> gz_holds zl start stream gzip holds g (concat (map snd ms))"
proof (cases ms)
  case (Cons m ms')
  have "stream z (fst m) (snd m)" "members gzip ms'"
    using zlib_inflatesD(1,2) [OF assms(1)] assms(2,4) Cons by (auto simp: members_def)
  then have "inside stream gzip holds \<lparr>gz_source = s, gz_stream = z, gz_input = [], gz_end_seen = False\<rparr>
      (fst m) (snd m) ms' (concat (map snd ms))"
    using assms(5) Cons by (auto simp: inside_def)
  then show ?thesis using assms(1,2) by (auto simp: gunzip_source_new_def gz_holds_def)
qed (use assms in simp)

section \<open>Decompression of a vector ends with the contents\<close>

lemma room_in_vector:
  "k \<le> unat sz \<Longrightarrow> unat sz < 2 ^ 32 \<Longrightarrow> unat (ucast ((sz :: u64) - of_nat k) :: u32) = unat sz - k"
  by (simp add: unat_sub word_le_nat_alt unat_of_nat take_bit_nat_eq_self_iff unsigned_ucast_eq unsigned_take_bit_eq)

lemma double_size:
  "unat (sz :: u64) < 2 ^ 31 \<Longrightarrow> unat (2 * sz) = 2 * unat sz \<and> \<not> 2 * sz < sz"
  by (simp add: unat_word_ariths word_less_nat_alt)

text \<open>The vector is doubled whenever it is full; the input holds the whole member.\<close>

lemma uncompress_loop_member:
  assumes "zlib_inflates zl start stream gzip"
  shows "stream z c p \<Longrightarrow> length out < unat sz \<Longrightarrow> unat sz < 2 ^ 32 \<Longrightarrow> length out + length p < 2 ^ 31 \<Longrightarrow>
    uncompress_loop zl z (c @ junk) sz out = Some (Some (out @ p))"
proof (induction "length p" arbitrary: z c p sz out rule: less_induct)
  case less
  have inp: "c @ junk \<noteq> []" using zlib_inflatesD(3) [OF assms less.prems(1)] by simp
  let ?n = "unat sz - length out"
  have n: "unat (ucast (sz - of_nat (length out)) :: u32) = ?n" "0 < ?n \<or> start z"
    using room_in_vector [of "length out" sz] less.prems by auto
  have all: "(c @ junk) @ [] = c @ junk" by simp
  show ?case
  proof (cases rule: inflate_cases [OF assms less.prems(1) inp all n(2), case_names ended more])
    case (ended bytes z')
    then show ?thesis using n by (subst uncompress_loop.simps) simp
  next
    case (more k bytes p' z')
    have "k \<noteq> length c" using zlib_inflatesD(3) [OF assms more(7)] by auto
    then have full: "length bytes = ?n" using more(2,3,5) by auto
    have "2 * unat sz < 2 ^ 32" using full more(6) less.prems(2,4) by simp
    then have dbl: "unat (2 * sz) = 2 * unat sz" "\<not> 2 * sz < sz" using double_size [of sz] by simp_all
    have "uncompress_loop zl z (c @ junk) sz out = uncompress_loop zl z' (drop k c @ junk) (2 * sz) (out @ bytes)"
      using n more(1,3) dbl(2) by (subst uncompress_loop.simps) simp
    also have "\<dots> = Some (Some ((out @ bytes) @ p'))"
      using more(6) full less.prems(2-4) dbl(1) \<open>2 * unat sz < 2 ^ 32\<close> by (intro less.hyps [OF _ more(7)]) auto
    finally show ?thesis using more(6) by simp
  qed
qed

lemma gzip_uncompress_member:
  assumes "zlib_inflates zl start stream gzip" and "inflate_init zl = Some z" and "gzip c p"
    and "length (c @ junk) < 2 ^ 31" and "length p < 2 ^ 31"
  shows "gzip_uncompress zl (c @ junk) = Some (Some p)"
proof -
  have st: "stream z c p" using zlib_inflatesD(1,2) [OF assms(1)] assms(2,3) by blast
  have sz: "unat (of_nat (length (c @ junk)) :: u64) = length (c @ junk)"
    using assms(4) by (simp add: unat_of_nat take_bit_nat_eq_self_iff del: length_append)
  have "unat (2 * of_nat (length (c @ junk)) :: u64) = 2 * length (c @ junk)"
    using double_size [of "of_nat (length (c @ junk))"] sz assms(4) by simp
  then have "uncompress_loop zl z (c @ junk) (2 * of_nat (length (c @ junk))) [] = Some (Some ([] @ p))"
    using zlib_inflatesD(3) [OF assms(1) st] assms(4,5) by (intro uncompress_loop_member [OF assms(1) st]) auto
  then show ?thesis
    using assms(2,4) zlib_inflatesD(3) [OF assms(1) st] by (simp add: gzip_uncompress_def)
qed

text \<open>
  C11. A compressed stream is decompressed completely: \<open>gunzip_source\<close> delivers the contents of all gzip members,
  one after the other, however the data is cut into reads of the underlying source and whatever room the
  reader offers, and ends. \<open>gzip_uncompress\<close> ends with the contents of the first member, doubling the
  vector as often as needed; what follows the first member is dropped.
\<close>

theorem gunzip_decompresses:
  assumes "zlib_inflates zl start stream gzip" and "inflate_init zl = Some z" and "ms \<noteq> []" and "members gzip ms"
  shows "(\<exists>g g'. gunzip_source_new zl (vector_source_new (concat (map fst ms))) = Inr g \<and>
            copy_source (gz_read zl vector_source_read) [] g = Some (Inr (concat (map snd ms)), g')) \<and>
         (length (concat (map fst ms)) < 2 ^ 31 \<longrightarrow> length (snd (hd ms)) < 2 ^ 31 \<longrightarrow>
            gzip_uncompress zl (concat (map fst ms)) = Some (Some (snd (hd ms))))"
proof (intro conjI impI)
  obtain g where "gunzip_source_new zl (vector_source_new (concat (map fst ms))) = Inr g"
    "gz_holds zl start stream gzip vector_holds g (concat (map snd ms))"
    using gunzip_source_new_holds [OF assms, of vector_holds] vector_holds_new by blast
  then show "\<exists>g g'. gunzip_source_new zl (vector_source_new (concat (map fst ms))) = Inr g \<and>
      copy_source (gz_read zl vector_source_read) [] g = Some (Inr (concat (map snd ms)), g')"
    using gz_vec.copy_source_all [where acc="[]"] by fastforce
next
  assume "length (concat (map fst ms)) < 2 ^ 31" "length (snd (hd ms)) < 2 ^ 31"
  then show "gzip_uncompress zl (concat (map fst ms)) = Some (Some (snd (hd ms)))"
    using gzip_uncompress_member [OF assms(1,2), of "fst (hd ms)" "snd (hd ms)" "concat (map fst (tl ms))"] assms(3,4)
    by (cases ms) (auto simp: members_def)
qed

section \<open>A sample format\<close>

text \<open>A header, a mark in front of every byte, and an end mark.\<close>

fun sample_body :: "u8 list \<Rightarrow> u8 list" where
  "sample_body [] = [0]"
| "sample_body (b # bs) = 1 # b # sample_body bs"

definition sample_gzip :: "u8 list \<Rightarrow> u8 list \<Rightarrow> bool" where
  "sample_gzip c p \<longleftrightarrow> c = 31 # sample_body p"

datatype sample_state = At_start | At_mark | At_byte

fun sample_inflate :: "sample_state \<Rightarrow> u8 list \<Rightarrow> nat \<Rightarrow> int \<times> nat \<times> u8 list \<times> sample_state" where
  "sample_inflate z [] n = (Z_OK, 0, [], z)"
| "sample_inflate At_start (b # bs) n =
     (if b = 31 then (case sample_inflate At_mark bs n of (ret, k, out, z) \<Rightarrow> (ret, Suc k, out, z)) else (-3, 0, [], At_start))"
| "sample_inflate At_mark (b # bs) n =
     (if b = 0 then (Z_STREAM_END, 1, [], At_mark)
      else case sample_inflate At_byte bs n of (ret, k, out, z) \<Rightarrow> (ret, Suc k, out, z))"
| "sample_inflate At_byte (b # bs) n =
     (case n of
        0 \<Rightarrow> (Z_OK, 0, [], At_byte)
      | Suc n \<Rightarrow> (case sample_inflate At_mark bs n of (ret, k, out, z) \<Rightarrow> (ret, Suc k, b # out, z)))"

definition sample_zlib :: "sample_state zlib" where
  "sample_zlib = \<lparr>inflate_init = Some At_start, inflate = sample_inflate, inflate_reset = (\<lambda>_. At_start), inflate_msg = (\<lambda>_. None)\<rparr>"

fun sample_stream :: "sample_state \<Rightarrow> u8 list \<Rightarrow> u8 list \<Rightarrow> bool" where
  "sample_stream At_start c p \<longleftrightarrow> c = 31 # sample_body p"
| "sample_stream At_mark c p \<longleftrightarrow> c = sample_body p"
| "sample_stream At_byte c p \<longleftrightarrow> (\<exists>b bs. p = b # bs \<and> c = b # sample_body bs)"

lemma sample_body_not_Nil [simp]: "sample_body p \<noteq> []"
  by (cases p) simp_all

lemma sample_inflated:
  "sample_stream z c p \<Longrightarrow> inp @ x = c @ y \<Longrightarrow>
     inflated sample_zlib (\<lambda>z. z = At_start) sample_stream z c p inp n"
proof (induction z inp n arbitrary: c p rule: sample_inflate.induct)
  case (1 z n)
  then show ?case by (auto simp: inflated_def sample_zlib_def)
next
  case (2 b bs n)
  then have "inflated sample_zlib (\<lambda>z. z = At_start) sample_stream At_mark (sample_body p) p bs n"
    by auto
  then show ?case using 2 by (fastforce simp: inflated_def sample_zlib_def split: prod.splits)
next
  case (3 b bs n)
  show ?case
  proof (cases p)
    case Nil
    then show ?thesis using 3 by (auto simp: inflated_def sample_zlib_def)
  next
    case (Cons q qs)
    then have "inflated sample_zlib (\<lambda>z. z = At_start) sample_stream At_byte (q # sample_body qs) p bs n"
      using 3 by auto
    then show ?thesis using 3 Cons by (fastforce simp: inflated_def sample_zlib_def split: prod.splits)
  qed
next
  case (4 b bs n)
  show ?case
  proof (cases n)
    case 0
    then show ?thesis using 4 by (auto simp: inflated_def sample_zlib_def)
  next
    case (Suc m)
    obtain qs where q: "p = b # qs" "c = b # sample_body qs" using 4 by auto
    then have "inflated sample_zlib (\<lambda>z. z = At_start) sample_stream At_mark (sample_body qs) qs bs m"
      using 4 Suc by auto
    then show ?thesis using q Suc by (fastforce simp: inflated_def sample_zlib_def split: prod.splits)
  qed
qed

lemma sample_zlib_inflates: "zlib_inflates sample_zlib (\<lambda>z. z = At_start) sample_stream sample_gzip"
proof -
  have "sample_stream z c p \<Longrightarrow> c \<noteq> []" for z c p by (cases z) auto
  moreover have "inflate_init sample_zlib = Some z \<Longrightarrow> z = At_start" for z by (simp add: sample_zlib_def)
  ultimately show ?thesis unfolding zlib_inflates_def using sample_inflated by (auto simp: sample_gzip_def)
qed

theorem gunzip_decompresses_witness:
  "(\<exists>g g'. gunzip_source_new sample_zlib (vector_source_new [31, 1, 7, 0, 31, 1, 8, 1, 9, 0]) = Inr g \<and>
      copy_source (gz_read sample_zlib vector_source_read) [] g = Some (Inr [7, 8, 9], g')) \<and>
   gzip_uncompress sample_zlib [31, 1, 7, 0, 31, 1, 8, 1, 9, 0] = Some (Some [7])"
  using gunzip_decompresses [OF sample_zlib_inflates, of At_start "[([31, 1, 7, 0], [7]), ([31, 1, 8, 1, 9, 0], [8, 9])]"]
  by (simp add: sample_zlib_def members_def sample_gzip_def)

end
