(* ===== verification/Expire.thy ===== *)
theory Expire
  imports File_cache Database
begin

text \<open>
  The command that removes what is no longer used: \<open>lib/symboldb/expire.cpp\<close>. It deletes rows of the
  database and then the files of the cache whose digests are not those of a package in a package set.
  The directory of the cache is that of \<open>File_cache\<close>; the order in which \<open>readdir\<close> returns the names and the
  calls of \<open>unlinkat\<close> that fail for other reasons are arguments. Messages are left out.
\<close>

section \<open>The standard algorithms\<close>

text \<open>\<open>std::set_difference\<close> on two sorted ranges; \<open>std::sort\<close> is \<open>sort\<close> on the lexicographic order of vectors.\<close>

fun set_difference :: "'a::linorder list \<Rightarrow> 'a list \<Rightarrow> 'a list" where
  "set_difference [] ys = []"
| "set_difference (x # xs) [] = x # xs"
| "set_difference (x # xs) (y # ys) =
     (if x < y then x # set_difference xs (y # ys)
      else if y < x then set_difference (x # xs) ys
      else set_difference xs ys)"

lemma set_difference_set:
  "sorted xs \<Longrightarrow> distinct xs \<Longrightarrow> sorted ys \<Longrightarrow> set (set_difference xs ys) = set xs - set ys"
  by (induction xs ys rule: set_difference.induct) (auto simp: less_le_not_le)

lemma set_difference_distinct: "distinct xs \<Longrightarrow> distinct (set_difference xs ys) \<and> set (set_difference xs ys) \<subseteq> set xs"
  by (induction xs ys rule: set_difference.induct) auto

section \<open>The command\<close>

text \<open>The calls on the directory: \<open>unlink_fails\<close> gives the exceptions other than for a missing file or a directory.\<close>

definition unlinkat :: "(string \<Rightarrow> exn option) \<Rightarrow> string \<Rightarrow> world \<Rightarrow> unit result \<times> world" where
  "unlinkat unlink_fails nm w =
     (case unlink_fails nm of
        Some e \<Rightarrow> (throw e, w)
      | None \<Rightarrow>
          (case cdir w nm of
             Some (Regular _) \<Rightarrow> (return (), w\<lparr>cdir := (cdir w)(nm := None)\<rparr>)
           | _ \<Rightarrow> (throw (Os_exception ''unlinkat''), w)))"

fun unlink_all :: "(string \<Rightarrow> exn option) \<Rightarrow> u8 list list \<Rightarrow> world \<Rightarrow> unit result \<times> world" where
  "unlink_all fs [] w = (return (), w)"
| "unlink_all fs (d # ds) w = sbind (unlinkat fs (base16_encode d) w) (\<lambda>_. unlink_all fs ds)"

text \<open>The digests of the files that no package set refers to: also the output of \<open>do_show_stale_cached_rpms\<close>.\<close>

definition stale_digests :: "'s server \<Rightarrow> string list \<Rightarrow> ('s, u8 list list) op" where
  "stale_digests srv names db =
     sbind (referenced_package_digests srv db) (\<lambda>dbdigests db.
       (return (set_difference (sort (digests names [])) dbdigests), db))"

definition expire_rows :: "'s server \<Rightarrow> ('s, unit) op" where
  "expire_rows srv db =
     sbind (expire_url_cache srv db) (\<lambda>_ db.
     sbind (expire_packages srv db) (\<lambda>_ db.
     sbind (expire_file_contents srv db) (\<lambda>_ db.
       expire_java_classes srv db)))"

definition expire ::
    "'s server \<Rightarrow> (world \<Rightarrow> string list) \<Rightarrow> exn option \<Rightarrow> (string \<Rightarrow> exn option) \<Rightarrow> 's database \<times> world
     \<Rightarrow> unit result \<times> 's database \<times> world" where
  "expire srv readdir open_fails unlink_fails = (\<lambda>(db, w).
     case sbind (expire_rows srv db) (\<lambda>_. stale_digests srv (readdir w)) of
       (Inl e, db) \<Rightarrow> (throw e, db, w)
     | (Inr stale, db) \<Rightarrow>
         (case open_fails of
            Some e \<Rightarrow> (throw e, db, w)
          | None \<Rightarrow> (case unlink_all unlink_fails stale w of (r, w) \<Rightarrow> (r, db, w))))"

section \<open>What is removed\<close>

lemma digests_eq:
  "digests nms acc = acc @ map (fst \<circ> base16_decode) (filter (\<lambda>nm. snd (base16_decode nm) = None) nms)"
proof (induction nms arbitrary: acc)
  case (Cons nm nms)
  then show ?case by (cases "base16_decode nm"; cases "snd (base16_decode nm)") simp_all
qed simp

lemma decode_encode [simp]: "base16_decode (base16_encode v) = (v, None)"
  by (simp add: base16_decode_def decode_from_encode)

lemma digests_set: "v \<in> set (digests nms []) \<longleftrightarrow> (\<exists>nm \<in> set nms. base16_decode nm = (v, None))"
  by (force simp: digests_eq image_iff prod_eq_iff)

text \<open>The files with hexadecimal names are regular files under the names that the cache gives to them.\<close>

definition tidy :: "world \<Rightarrow> bool" where
  "tidy w \<longleftrightarrow> (\<forall>nm v. nm \<in> Map.dom (cdir w) \<longrightarrow> base16_decode nm = (v, None) \<longrightarrow>
     nm = base16_encode v \<and> (\<exists>dat. cdir w nm = Some (Regular dat)))"

lemma unlink_all_removes:
  assumes "\<And>nm. fs nm = None"
  shows "distinct ds \<Longrightarrow> (\<And>d. d \<in> set ds \<Longrightarrow> \<exists>dat. cdir w (base16_encode d) = Some (Regular dat)) \<Longrightarrow>
    unlink_all fs ds w = (Inr (), w\<lparr>cdir := (\<lambda>nm. if nm \<in> base16_encode ` set ds then None else cdir w nm)\<rparr>)"
proof (induction ds arbitrary: w)
  case (Cons d ds)
  let ?w = "w\<lparr>cdir := (cdir w)(base16_encode d := None)\<rparr>"
  have "unlinkat fs (base16_encode d) w = (Inr (), ?w)"
    using Cons.prems(2) [of d] assms by (auto simp: unlinkat_def)
  moreover have "unlink_all fs ds ?w = (Inr (), ?w\<lparr>cdir := (\<lambda>nm. if nm \<in> base16_encode ` set ds then None else cdir ?w nm)\<rparr>)"
    using Cons.prems by (intro Cons.IH) (auto simp: base16_encode_inj)
  ultimately show ?case by (auto simp: fun_eq_iff)
qed simp

lemma digests_distinct:
  assumes "distinct nms" and "\<And>nm v. nm \<in> set nms \<Longrightarrow> base16_decode nm = (v, None) \<Longrightarrow> nm = base16_encode v"
  shows "distinct (digests nms [])"
  using assms by (auto simp: digests_eq distinct_map intro!: inj_on_inverseI [where g=base16_encode]) (metis prod.collapse)

text \<open>
  C25. Expiry deletes exactly the files of the cache that no package set refers to: when the rows have been expired
  and the database lists the digests of the packages in package sets, in their order, the command ends
  normally, every file named by a digest that is not listed is gone, and all other files of the directory
  are untouched, those of the listed digests among them.
\<close>

theorem expire_cache:
  assumes "expire_rows srv db = (Inr (), db1)" and "referenced_package_digests srv db1 = (Inr ds, db2)" and "sorted ds"
    and "distinct (readdir w)" and "set (readdir w) = Map.dom (cdir w)" and "tidy w" and "\<And>nm. unlink_fails nm = None"
  shows "expire srv readdir None unlink_fails (db, w) =
    (Inr (), db2, w\<lparr>cdir := (\<lambda>nm. if \<exists>v. nm = base16_encode v \<and> v \<notin> set ds then None else cdir w nm)\<rparr>)"
proof -
  let ?fc = "sort (digests (readdir w) [])" and ?gone = "set_difference (sort (digests (readdir w) [])) ds"
  have in_dir: "\<exists>dat. cdir w (base16_encode v) = Some (Regular dat)" if "v \<in> set ?fc" for v
    using that assms(5,6) by (force simp: digests_set tidy_def)
  have dist: "distinct ?fc" using assms(4-6) by (auto simp: tidy_def intro!: digests_distinct)
  then have gone: "set ?gone = set ?fc - set ds" "distinct ?gone"
    using assms(3) by (simp_all add: set_difference_set set_difference_distinct)
  have "cdir w (base16_encode v) = None" if "v \<notin> set ?fc" for v
    using that assms(5) decode_encode [of v] by (force simp: digests_set)
  then have "(\<lambda>nm. if nm \<in> base16_encode ` set ?gone then None else cdir w nm) =
      (\<lambda>nm. if \<exists>v. nm = base16_encode v \<and> v \<notin> set ds then None else cdir w nm)"
    using gone(1) by (fastforce simp: fun_eq_iff)
  then show ?thesis
    using assms(1,2) unlink_all_removes [OF assms(7) gone(2), of w] in_dir gone(1)
    by (simp add: expire_def stale_digests_def)
qed

section \<open>An example\<close>

definition one_digest :: pg_result where
  "one_digest = \<lparr>res_status = PGRES_TUPLES_OK, res_message = [], res_columns = [(17, 1)], res_rows = [[Some [2]]]\<rparr>"

definition expire_server :: "unit server" where
  "expire_server =
     \<lparr>respond = (\<lambda>sql ps fmt s. (Some (if fmt = 1 then one_digest else command_ok), s)),
      in_transaction = (\<lambda>_. True), little_endian = True, unescape_bytea = Some\<rparr>"

definition expire_db :: "unit database" where
  "expire_db = \<lparr>db_conn = \<lparr>server_state = (), sent = []\<rparr>, file_attribute_cache = (\<lambda>_. 0)\<rparr>"

definition expire_world :: world where
  "expire_world = \<lparr>cdir = [''01'' \<mapsto> Regular [7], ''02'' \<mapsto> Regular [8], ''lock'' \<mapsto> Other], kwrites = []\<rparr>"

lemma sample_names:
  "base16_encode [1] = ''01''" "base16_encode [2] = ''02''" "snd (base16_decode ''lock'') \<noteq> None"
  by code_simp+

lemma sample_name_iff:
  "''01'' = base16_encode v \<longleftrightarrow> v = [1]" "''02'' = base16_encode v \<longleftrightarrow> v = [2]" "''lock'' \<noteq> base16_encode v"
  using sample_names base16_encode_inj decode_encode [of v] by (metis snd_conv)+

lemma sample_decode: "base16_decode ''01'' = ([1], None)" "base16_decode ''02'' = ([2], None)"
  using decode_encode sample_names(1,2) by metis+

lemma expire_world_tidy: "tidy expire_world"
  using sample_names by (auto simp: tidy_def expire_world_def sample_decode simp del: base16_encode.simps)

theorem expire_cache_witness:
  "\<exists>db' w'. expire expire_server (\<lambda>_. [''lock'', ''02'', ''01'']) None (\<lambda>_. None) (expire_db, expire_world) = (Inr (), db', w') \<and>
     cdir w' ''01'' = None \<and> cdir w' ''02'' = Some (Regular [8]) \<and> cdir w' ''lock'' = Some Other"
proof -
  obtain db1 where "expire_rows expire_server expire_db = (Inr (), db1)"
    by (simp add: expire_rows_def expire_url_cache_def expire_packages_def expire_file_contents_def expire_java_classes_def
        plain_def on_conn_def exec_def execParamsCustom_def expire_server_def do_check_def command_ok_def)
  moreover obtain db2 where "referenced_package_digests expire_server db1 = (Inr [[2]], db2)"
    by (simp add: referenced_package_digests_def on_conn_def execBinary_def execParamsCustom_def expire_server_def do_check_def
        one_digest_def load_text_def is_binary_def ftype_def fformat_def field_def in_table_def)
  ultimately have "expire expire_server (\<lambda>_. [''lock'', ''02'', ''01'']) None (\<lambda>_. None) (expire_db, expire_world) =
      (Inr (), db2, expire_world\<lparr>cdir := (\<lambda>nm. if \<exists>v. nm = base16_encode v \<and> v \<notin> set [[2]] then None else cdir expire_world nm)\<rparr>)"
    by (rule expire_cache) (use expire_world_tidy in \<open>auto simp: expire_world_def\<close>)
  then show ?thesis by (simp add: sample_name_iff expire_world_def)
qed

end
