(* ===== verification/Os.thy ===== *)
theory Os
  imports Prelude
begin

text \<open>
  Directories and paths: \<open>lib/cxxll/os/\<close>. \<open>remove_directory_tree\<close> is modelled on a tree of files with an explicit
  stack of open directories, as in the code; which system calls fail is an argument.
  \<open>make_directory_hierarchy\<close> is modelled over \<open>mkdir\<close> on a file system of directories named by their
  components. \<open>readlink\<close> and \<open>current_directory\<close> are the loops around the system calls.
\<close>

section \<open>Removing a directory tree\<close>

datatype node = File | Dir "(string \<times> node) list"

record frame =
  fr_name :: string
  unread :: "string list"           \<comment> \<open>the names that \<open>readdir\<close> will still return\<close>
  fr_entries :: "(string \<times> node) list"

record dir_calls =
  unlink_fails :: "string list \<Rightarrow> exn option"   \<comment> \<open>by the names of the open directories and the entry\<close>
  open_fails :: "string list \<Rightarrow> exn option"
  readdir_fails :: "string list \<Rightarrow> exn option"

abbreviation dots :: "string \<Rightarrow> bool" where
  "dots nm \<equiv> nm = ''.'' \<or> nm = ''..''"

text \<open>What \<open>readdir\<close> returns for a directory that has just been opened.\<close>

definition listing :: "(string \<times> node) list \<Rightarrow> string list" where
  "listing es = [''.'', ''..''] @ remdups (map fst es)"

definition opened :: "string \<Rightarrow> (string \<times> node) list \<Rightarrow> frame" where
  "opened nm es = \<lparr>fr_name = nm, unread = listing es, fr_entries = es\<rparr>"

definition without :: "string \<Rightarrow> (string \<times> node) list \<Rightarrow> (string \<times> node) list" where
  "without nm es = filter (\<lambda>e. fst e \<noteq> nm) es"

fun weight :: "node \<Rightarrow> nat" where
  "weight File = 1"
| "weight (Dir es) = 4 + sum_list (map (weight \<circ> snd) es)"

definition name_weight :: "(string \<times> node) list \<Rightarrow> string \<Rightarrow> nat" where
  "name_weight es nm = (if dots nm then 1 else case map_of es nm of None \<Rightarrow> 1 | Some n \<Rightarrow> weight n)"

definition frame_weight :: "frame \<Rightarrow> nat" where
  "frame_weight f = 1 + sum_list (map (name_weight (fr_entries f)) (unread f))"

lemma weight_pos: "0 < weight n"
  by (cases n) simp_all

lemma names_weight: "sum_list (map (name_weight es) (remdups (map fst es))) \<le> sum_list (map (weight \<circ> snd) es)"
proof (induction es)
  case (Cons e es)
  let ?ns = "remdups (map fst es)"
  have le: "name_weight (e # es) nm \<le> name_weight es nm" if "nm \<noteq> fst e" for nm
    using that by (simp add: name_weight_def)
  have head: "name_weight (e # es) (fst e) \<le> weight (snd e)"
    using weight_pos [of "snd e"] by (auto simp: name_weight_def)
  show ?case
  proof (cases "fst e \<in> fst ` set es")
    case False
    then have "sum_list (map (name_weight (e # es)) ?ns) \<le> sum_list (map (name_weight es) ?ns)"
      by (intro sum_list_mono le) (metis set_map set_remdups)
    then show ?thesis using False head Cons.IH by simp
  next
    case True
    have "remdups (map fst (e # es)) = ?ns" using True by simp
    have "sum_list (map (name_weight (e # es)) ?ns) =
        name_weight (e # es) (fst e) + sum_list (map (name_weight (e # es)) (remove1 (fst e) ?ns))"
      using True by (intro sum_list_map_remove1) simp
    also have "\<dots> \<le> weight (snd e) + sum_list (map (name_weight es) (remove1 (fst e) ?ns))"
      using head le by (intro add_mono sum_list_mono) (auto simp: distinct_remove1_removeAll)
    also have "\<dots> \<le> weight (snd e) + sum_list (map (name_weight es) ?ns)"
      using True sum_list_map_remove1 [of "fst e" ?ns "name_weight es"] by simp
    finally show ?thesis using Cons.IH True by simp
  qed
qed simp

lemma without_weight: "name_weight (without nm es) x \<le> name_weight es x"
proof -
  have "map_of (without nm es) x = (if x = nm then None else map_of es x)"
    by (induction es) (auto simp: without_def)
  then show ?thesis using weight_pos by (auto simp: name_weight_def Suc_le_eq split: option.split)
qed

lemma opened_weight: "frame_weight (opened nm es) < weight (Dir es)"
  using names_weight [of es] by (simp add: frame_weight_def opened_def listing_def name_weight_def)

lemma without_frame: "frame_weight (f\<lparr>fr_entries := without nm (fr_entries f)\<rparr>) \<le> frame_weight f"
  by (simp add: frame_weight_def sum_list_mono without_weight)

lemma read_frame: "unread f = nm # nms \<Longrightarrow> frame_weight f = name_weight (fr_entries f) nm + frame_weight (f\<lparr>unread := nms\<rparr>)"
  by (simp add: frame_weight_def)

lemma name_weight_found: "\<not> dots nm \<Longrightarrow> map_of es nm = Some n \<Longrightarrow> name_weight es nm = weight n"
  by (simp add: name_weight_def)

function remove_loop :: "dir_calls \<Rightarrow> frame list \<Rightarrow> (string \<times> node) list result" where
  "remove_loop k [] = return []"
| "remove_loop k (f # fs) =
     (case unread f of
        [] \<Rightarrow>
          (case readdir_fails k (map fr_name (f # fs)) of
             Some e \<Rightarrow> throw e
           | None \<Rightarrow>
               if fr_name f = [] then (if fs = [] then return (fr_entries f) else remove_loop k fs)
               else case fs of
                   [] \<Rightarrow> throw Assertion_failure
                 | g # gs \<Rightarrow>
                     (case unlink_fails k (map fr_name (f # fs)) of
                        Some e \<Rightarrow> throw e
                      | None \<Rightarrow>
                          if fr_entries f \<noteq> [] then throw (Os_exception ''unlinkat'')
                          else remove_loop k (g\<lparr>fr_entries := without (fr_name f) (fr_entries g)\<rparr> # gs)))
      | nm # nms \<Rightarrow>
          let f = f\<lparr>unread := nms\<rparr> in
          if dots nm then remove_loop k (f # fs)
          else case unlink_fails k (nm # map fr_name (f # fs)) of
              Some e \<Rightarrow> throw e
            | None \<Rightarrow>
                (case map_of (fr_entries f) nm of
                   None \<Rightarrow> throw (Os_exception ''unlinkat'')
                 | Some File \<Rightarrow> remove_loop k (f\<lparr>fr_entries := without nm (fr_entries f)\<rparr> # fs)
                 | Some (Dir es) \<Rightarrow>
                     (case open_fails k (nm # map fr_name (f # fs)) of
                        Some e \<Rightarrow> throw e
                      | None \<Rightarrow> remove_loop k (opened nm es # f # fs))))"
  by pat_completeness auto
termination
proof (relation "measure (\<lambda>(k, fs). sum_list (map frame_weight fs))", goal_cases)
  case (3 k f fs g gs)
  then show ?case using without_frame [of "fr_name f" g] by (simp add: frame_weight_def [of f])
next
  case (4 k f fs nm nms)
  then show ?case using read_frame [of f nm nms] by (auto simp: name_weight_def)
next
  case (5 k f fs nm nms)
  then show ?case using read_frame [of f nm nms] without_frame [of nm "f\<lparr>unread := nms\<rparr>"] by (simp add: name_weight_found)
next
  case (6 k f fs nm nms _ _ es)
  then show ?case using read_frame [of f nm nms] opened_weight [of nm es] by (simp add: name_weight_found)
qed (auto simp: frame_weight_def)

declare remove_loop.simps(2) [simp del]

text \<open>\<open>rmdir_fails\<close> is the outcome of the last call; a directory with entries is not removed.\<close>

definition remove_directory_tree :: "dir_calls \<Rightarrow> exn option \<Rightarrow> node \<Rightarrow> unit result" where
  "remove_directory_tree k rmdir_fails root =
     (case root of
        File \<Rightarrow> throw (Os_exception ''open'')
      | Dir es \<Rightarrow>
          (case open_fails k [] of
             Some e \<Rightarrow> throw e
           | None \<Rightarrow>
               bind (remove_loop k [opened [] es]) (\<lambda>rest.
                 case rmdir_fails of
                   Some e \<Rightarrow> throw e
                 | None \<Rightarrow> if rest \<noteq> [] then throw (Os_exception ''rmdir'') else return ())))"

section \<open>The whole tree is removed\<close>

text \<open>Names of entries are not empty, not those of the directory and its parent, and different.\<close>

fun tree_ok :: "node \<Rightarrow> bool" where
  "tree_ok File = True"
| "tree_ok (Dir es) \<longleftrightarrow>
     distinct (map fst es) \<and> (\<forall>(nm, n) \<in> set es. nm \<noteq> [] \<and> \<not> dots nm \<and> tree_ok n)"

definition entries_ok :: "(string \<times> node) list \<Rightarrow> bool" where
  "entries_ok es \<longleftrightarrow> tree_ok (Dir es)"

definition no_failures :: "dir_calls \<Rightarrow> bool" where
  "no_failures k \<longleftrightarrow> (\<forall>p. unlink_fails k p = None \<and> open_fails k p = None \<and> readdir_fails k p = None)"

lemma without_head: "entries_ok ((nm, n) # es) \<Longrightarrow> without nm ((nm, n) # es) = es"
  by (auto simp: entries_ok_def without_def filter_id_conv)

lemma entries_ok_tail: "entries_ok (e # es) \<Longrightarrow> entries_ok es"
  by (simp add: entries_ok_def)

lemma skip_dots: "unread f = nm # nms \<Longrightarrow> dots nm \<Longrightarrow> remove_loop k (f # fs) = remove_loop k (f\<lparr>unread := nms\<rparr> # fs)"
  by (subst remove_loop.simps) auto

lemma remove_opened:
  "entries_ok es \<Longrightarrow>
     remove_loop k (opened nm es # fs) = remove_loop k (\<lparr>fr_name = nm, unread = map fst es, fr_entries = es\<rparr> # fs)"
  using skip_dots [of "opened nm es"] skip_dots [of "(opened nm es)\<lparr>unread := ''..'' # map fst es\<rparr>"]
  by (simp add: opened_def listing_def entries_ok_def distinct_remdups_id)

text \<open>A directory that has been opened is emptied, whatever is on the stack below it.\<close>

lemma remove_entries:
  assumes "no_failures k"
  shows "entries_ok es \<Longrightarrow>
    remove_loop k (\<lparr>fr_name = nm, unread = map fst es, fr_entries = es\<rparr> # fs) =
    remove_loop k (\<lparr>fr_name = nm, unread = [], fr_entries = []\<rparr> # fs)"
proof (induction "weight (Dir es)" arbitrary: es nm fs rule: less_induct)
  case less
  note ok = assms [unfolded no_failures_def]
  show ?case
  proof (cases es)
    case (Cons e es')
    obtain n nd where e: "e = (n, nd)" by (cases e)
    have n: "n \<noteq> []" "\<not> dots n" "map_of es n = Some nd" "entries_ok es'" "without n es = es'"
      using less.prems Cons e entries_ok_tail [of e es'] without_head [of n nd es'] by (auto simp: entries_ok_def)
    let ?f = "\<lparr>fr_name = nm, unread = map fst es', fr_entries = es\<rparr>"
    have rest: "remove_loop k (\<lparr>fr_name = nm, unread = map fst es', fr_entries = es'\<rparr> # fs) =
        remove_loop k (\<lparr>fr_name = nm, unread = [], fr_entries = []\<rparr> # fs)"
      using n(4) Cons weight_pos [of nd] e by (intro less.hyps) auto
    show ?thesis
    proof (cases nd)
      case File
      then have "remove_loop k (\<lparr>fr_name = nm, unread = map fst es, fr_entries = es\<rparr> # fs) =
          remove_loop k (\<lparr>fr_name = nm, unread = map fst es', fr_entries = es'\<rparr> # fs)"
        using n ok Cons e by (subst remove_loop.simps) simp
      then show ?thesis using rest by simp
    next
      case (Dir sub)
      have sub: "entries_ok sub" using less.prems Cons e Dir by (auto simp: entries_ok_def)
      have "remove_loop k (\<lparr>fr_name = nm, unread = map fst es, fr_entries = es\<rparr> # fs) = remove_loop k (opened n sub # ?f # fs)"
        using n ok Cons e Dir by (subst remove_loop.simps) simp
      also have "\<dots> = remove_loop k (\<lparr>fr_name = n, unread = map fst sub, fr_entries = sub\<rparr> # ?f # fs)"
        using sub by (rule remove_opened)
      also have "\<dots> = remove_loop k (\<lparr>fr_name = n, unread = [], fr_entries = []\<rparr> # ?f # fs)"
        using sub Cons e Dir by (intro less.hyps) auto
      also have "\<dots> = remove_loop k (\<lparr>fr_name = nm, unread = map fst es', fr_entries = es'\<rparr> # fs)"
        using n ok by (subst remove_loop.simps) simp
      finally show ?thesis using rest by simp
    qed
  qed simp
qed

text \<open>
  C26. When no system call fails, \<open>remove_directory_tree\<close> ends and has removed every file and every directory below
  the root, however deep the tree, and then the root: directories are removed only once they are empty,
  and the reading of a directory goes on where it was after a subdirectory has been removed.
\<close>

theorem remove_directory_tree_removes:
  assumes "no_failures k" and "tree_ok (Dir es)"
  shows "remove_loop k [opened [] es] = Inr [] \<and> remove_directory_tree k None (Dir es) = Inr ()"
proof -
  have "remove_loop k [opened [] es] = remove_loop k [\<lparr>fr_name = [], unread = map fst es, fr_entries = es\<rparr>]"
    using assms(2) by (intro remove_opened) (simp add: entries_ok_def)
  also have "\<dots> = remove_loop k [\<lparr>fr_name = [], unread = [], fr_entries = []\<rparr>]"
    using assms by (intro remove_entries) (simp_all add: entries_ok_def)
  also have "\<dots> = Inr []"
    using assms(1) by (subst remove_loop.simps) (simp add: no_failures_def)
  finally show ?thesis using assms(1) by (simp add: remove_directory_tree_def no_failures_def)
qed

theorem remove_directory_tree_removes_witness:
  "remove_directory_tree \<lparr>unlink_fails = (\<lambda>_. None), open_fails = (\<lambda>_. None), readdir_fails = (\<lambda>_. None)\<rparr> None
     (Dir [(''a'', Dir [(''b'', File), (''c'', Dir [])]), (''d'', File)]) = Inr ()"
  using remove_directory_tree_removes [of "\<lparr>unlink_fails = (\<lambda>_. None), open_fails = (\<lambda>_. None), readdir_fails = (\<lambda>_. None)\<rparr>"
      "[(''a'', Dir [(''b'', File), (''c'', Dir [])]), (''d'', File)]"]
  by (simp add: no_failures_def)

section \<open>Making a directory with its parents\<close>

text \<open>
  A file system as far as \<open>mkdir\<close> needs it: the directories and the other files, by the components of
  their paths. Relative paths start at the same place as absolute ones. \<open>mkdir\<close> succeeds if the parent is a directory and
  the name is free.
\<close>

record paths =
  dirs :: "string list set"
  others :: "string list set"

abbreviation slash :: char where "slash \<equiv> CHR ''/''"

fun comps_from :: "string \<Rightarrow> string \<Rightarrow> string list" where
  "comps_from cur [] = (if cur = [] then [] else [cur])"
| "comps_from cur (c # cs) =
     (if c = slash then (if cur = [] then [] else [cur]) @ comps_from [] cs else comps_from (cur @ [c]) cs)"

abbreviation comps :: "string \<Rightarrow> string list" where
  "comps \<equiv> comps_from []"

datatype mkdir_outcome = Made | Exists | Failed

definition mkdir :: "string \<Rightarrow> paths \<Rightarrow> mkdir_outcome \<times> paths" where
  "mkdir p f =
     (let c = comps p
      in if c \<in> dirs f \<union> others f then (Exists, f)
         else if butlast c \<in> dirs f then (Made, f\<lparr>dirs := insert c (dirs f)\<rparr>)
         else (Failed, f))"

definition is_directory :: "string \<Rightarrow> paths \<Rightarrow> bool" where
  "is_directory p f \<longleftrightarrow> comps p \<in> dirs f"

text \<open>The loop: \<open>s\<close> is the part of the path that has been walked, \<open>p\<close> the rest.\<close>

function mkdir_loop :: "string \<Rightarrow> string \<Rightarrow> paths \<Rightarrow> paths" where
  "mkdir_loop s p f =
     (if p = [] then f
      else
        let s = s @ takeWhile (\<lambda>c. c \<noteq> slash) p;
            f = snd (mkdir s f);
            p = dropWhile (\<lambda>c. c \<noteq> slash) p
        in mkdir_loop (s @ takeWhile (\<lambda>c. c = slash) p) (dropWhile (\<lambda>c. c = slash) p) f)"
  by pat_completeness auto
termination
proof (relation "measure (\<lambda>(s, p, f). length p)", goal_cases)
  case (2 s p f)
  have "length (dropWhile (\<lambda>c. c = slash) (dropWhile (\<lambda>c. c \<noteq> slash) p)) < length p" if "p \<noteq> []" for p
    using that length_dropWhile_le [of "\<lambda>c. c = slash" "tl p"]
      order_trans [OF length_dropWhile_le length_dropWhile_le, of "\<lambda>c. c = slash" "\<lambda>c. c \<noteq> slash" "tl p"]
    by (cases p) auto
  then show ?case using 2 by simp
qed simp

declare mkdir_loop.simps [simp del]

definition make_directory_hierarchy :: "string \<Rightarrow> paths \<Rightarrow> bool \<times> paths" where
  "make_directory_hierarchy p f =
     (case mkdir p f of
        (Made, f) \<Rightarrow> (True, f)
      | (Exists, f) \<Rightarrow> (is_directory p f, f)
      | (Failed, f) \<Rightarrow>
          let f = mkdir_loop (takeWhile (\<lambda>c. c = slash) p) (dropWhile (\<lambda>c. c = slash) p) f
          in (is_directory p f, f))"

text \<open>Where a slash is on one side or the other, the components of a path are those of its parts.\<close>

lemma comps_from_append:
  "(if s = [] then cur = [] else last s = slash) \<or> t = [] \<or> hd t = slash \<Longrightarrow>
     comps_from cur (s @ t) = comps_from cur s @ comps t"
proof (induction s arbitrary: cur)
  case Nil
  then show ?case by (cases t) auto
next
  case (Cons c s)
  show ?case
  proof (cases "c = slash")
    case True
    then have "comps (s @ t) = comps s @ comps t" using Cons.prems by (intro Cons.IH) (auto split: if_splits)
    then show ?thesis using True by simp
  next
    case False
    then have "comps_from (cur @ [c]) (s @ t) = comps_from (cur @ [c]) s @ comps t"
      using Cons.prems by (intro Cons.IH) (auto split: if_splits)
    then show ?thesis using False by simp
  qed
qed

lemma comps_slashes: "list_all (\<lambda>c. c = slash) s \<Longrightarrow> comps s = []"
  by (induction s) auto

lemma comps_skip: "list_all (\<lambda>c. c = slash) s \<Longrightarrow> comps (s @ t) = comps t"
  by (induction s) auto

lemma comps_trail: "list_all (\<lambda>c. c = slash) t \<Longrightarrow> comps (s @ t) = comps s"
  using comps_from_append [of s "[]" t] comps_slashes [of t] by (cases t) auto

lemma last_slash: "list_all (\<lambda>c. c = slash) s \<Longrightarrow> s \<noteq> [] \<Longrightarrow> last (t @ s) = slash"
  by (induction s arbitrary: t) auto

lemma comps_segment: "list_all (\<lambda>c. c \<noteq> slash) s \<Longrightarrow> comps_from cur s = (if cur @ s = [] then [] else [cur @ s])"
  by (induction s arbitrary: cur) auto

lemma takeWhile_all: "list_all P (takeWhile P xs)"
  by (induction xs) auto

lemma prefixes_Cons: "{x @ take k (y # ys) |k. True} = insert x {(x @ [y]) @ take k ys |k. True}"
proof -
  have "(\<exists>k. z = x @ take k (y # ys)) \<longleftrightarrow> z = x \<or> (\<exists>k. z = (x @ [y]) @ take k ys)" for z
    by (metis append.right_neutral append_Cons append_Nil append_assoc not0_implies_Suc take0 take_Suc_Cons)
  then show ?thesis by auto
qed

lemma mkdir_makes:
  "butlast (comps p) \<in> dirs f \<Longrightarrow> comps p \<notin> others f \<Longrightarrow> snd (mkdir p f) = f\<lparr>dirs := insert (comps p) (dirs f)\<rparr>"
  by (auto simp: mkdir_def Let_def insert_absorb)

lemma takeWhile_Nil_hd: "takeWhile P xs = [] \<Longrightarrow> xs = [] \<or> P (hd xs) \<Longrightarrow> xs = []"
  by (cases xs) auto

text \<open>One component is walked.\<close>

lemma path_step:
  assumes "p \<noteq> []" and "hd p \<noteq> slash" and "s = [] \<or> last s = slash"
  obtains seg s' p' where "seg = takeWhile (\<lambda>c. c \<noteq> slash) p"
    and "s' = (s @ seg) @ takeWhile (\<lambda>c. c = slash) (dropWhile (\<lambda>c. c \<noteq> slash) p)"
    and "p' = dropWhile (\<lambda>c. c = slash) (dropWhile (\<lambda>c. c \<noteq> slash) p)"
    and "comps (s @ seg) = comps s @ [seg]" and "comps s' = comps s @ [seg]" and "comps p = seg # comps p'"
    and "p' = [] \<or> last s' = slash" and "p' = [] \<or> hd p' \<noteq> slash"
proof -
  let ?seg = "takeWhile (\<lambda>c. c \<noteq> slash) p" and ?r = "dropWhile (\<lambda>c. c \<noteq> slash) p"
  let ?sl = "takeWhile (\<lambda>c. c = slash) ?r" and ?p = "dropWhile (\<lambda>c. c = slash) ?r"
  have seg: "?seg \<noteq> []" "list_all (\<lambda>c. c \<noteq> slash) ?seg" using assms(1,2) by (cases p; simp add: takeWhile_all)+
  have sl: "list_all (\<lambda>c. c = slash) ?sl" by (rule takeWhile_all)
  have r: "?r = [] \<or> hd ?r = slash" using hd_dropWhile [of "\<lambda>c. c \<noteq> slash" p] by auto
  have cs: "comps (s @ ?seg) = comps s @ [?seg]"
    using comps_from_append [of s "[]" ?seg] comps_segment [OF seg(2), of "[]"] seg(1) assms(3) by auto
  moreover have "comps ((s @ ?seg) @ ?sl) = comps s @ [?seg]"
    using comps_trail [OF sl, of "s @ ?seg"] cs by simp
  moreover have "comps (?seg @ ?r) = [?seg] @ comps ?r"
    using comps_from_append [of ?seg "[]" ?r] comps_segment [OF seg(2), of "[]"] seg(1) r by auto
  then have "comps p = ?seg # comps ?p" using comps_skip [OF sl, of ?p] by simp
  moreover have "?p = [] \<or> last ((s @ ?seg) @ ?sl) = slash"
  proof (cases "?sl = []")
    case True
    then have "?r = []" using r by (rule takeWhile_Nil_hd)
    then have "?p = []" by (simp only: dropWhile.simps)
    then show ?thesis by (rule disjI1)
  next
    case False
    then show ?thesis using last_slash [OF sl] by (intro disjI2)
  qed
  moreover have "?p = [] \<or> hd ?p \<noteq> slash" using hd_dropWhile [of "\<lambda>c. c = slash" ?r] by auto
  ultimately show ?thesis by (rule that [OF refl refl refl])
qed

lemma mkdir_loop_makes:
  assumes "comps s \<in> dirs f" and "p = [] \<or> s = [] \<or> last s = slash" and "p = [] \<or> hd p \<noteq> slash"
    and "\<And>k. comps s @ take k (comps p) \<notin> others f"
  shows "mkdir_loop s p f = f\<lparr>dirs := dirs f \<union> {comps s @ take k (comps p) |k. True}\<rparr>"
  using assms
proof (induction s p f rule: mkdir_loop.induct)
  case (1 s p f)
  show ?case
  proof (cases "p = []")
    case True
    then show ?thesis using 1(2) by (simp add: mkdir_loop.simps [of s] insert_absorb)
  next
    case p: False
    then have "hd p \<noteq> slash" "s = [] \<or> last s = slash" using 1(3,4) by auto
    then obtain seg s' p' where st: "seg = takeWhile (\<lambda>c. c \<noteq> slash) p"
      "s' = (s @ seg) @ takeWhile (\<lambda>c. c = slash) (dropWhile (\<lambda>c. c \<noteq> slash) p)"
      "p' = dropWhile (\<lambda>c. c = slash) (dropWhile (\<lambda>c. c \<noteq> slash) p)"
      "comps (s @ seg) = comps s @ [seg]" "comps s' = comps s @ [seg]" "comps p = seg # comps p'"
      "p' = [] \<or> last s' = slash" "p' = [] \<or> hd p' \<noteq> slash"
      using path_step [OF p] by metis
    let ?f = "f\<lparr>dirs := insert (comps s @ [seg]) (dirs f)\<rparr>"
    have made: "snd (mkdir (s @ seg) f) = ?f"
      using mkdir_makes [of "s @ seg" f] st(4,6) 1(2) 1(5) [of 1] by simp
    have free: "comps s' @ take k (comps p') \<notin> others ?f" for k using 1(5) [of "Suc k"] st(5,6) by simp
    have "mkdir_loop s' p' ?f = ?f\<lparr>dirs := dirs ?f \<union> {comps s' @ take k (comps p') |k. True}\<rparr>"
      by (rule 1(1) [OF p refl refl refl, folded st(1), folded st(2,3), unfolded made]) (use free st(5,7,8) in auto)
    moreover have "mkdir_loop s p f = mkdir_loop s' p' ?f"
      using p made by (subst mkdir_loop.simps) (simp add: Let_def st(1-3))
    ultimately show ?thesis
      using 1(2) st(5,6) prefixes_Cons [of "comps s" seg "comps p'"] by (auto simp: insert_absorb)
  qed
qed



section \<open>Paths from the system\<close>

text \<open>
  \<open>readlink\<close>: the system call copies as much of the target as fits, without a NUL. A target that fills the buffer
  of 4096 bytes is read again into a vector that is doubled until the target is shorter.
\<close>

function readlink_loop :: "string \<Rightarrow> nat \<Rightarrow> string result" where
  "readlink_loop target n =
     (if length target < n then return (target @ replicate (n - length target) NUL)
      else if n = 0 \<or> 2 * n \<ge> 2 ^ 64 then throw Bad_alloc
      else readlink_loop target (2 * n))"
  by pat_completeness auto
termination by (relation "measure (\<lambda>(target, n). Suc (length target) - n)") auto

declare readlink_loop.simps [simp del]

definition readlink :: "string result \<Rightarrow> string result" where
  "readlink link = bind link (\<lambda>target. if length target < 4096 then return target else readlink_loop target (2 * 4096))"

text \<open>A long target comes back with the unused part of the vector behind it.\<close>

lemma readlink_pads:
  assumes "4096 \<le> length target" and "length target < 8192"
  shows "readlink (Inr target) = Inr (target @ replicate (8192 - length target) NUL)"
  using assms by (simp add: readlink_def readlink_loop.simps)

text \<open>\<open>current_directory\<close>: \<open>getcwd\<close> fails with \<open>ERANGE\<close> while there is no room for the path and its NUL.\<close>

function getcwd_loop :: "string \<Rightarrow> nat \<Rightarrow> string result" where
  "getcwd_loop cwd n =
     (if length cwd < n then return cwd
      else if n = 0 \<or> 2 * n \<ge> 2 ^ 64 then throw Bad_alloc
      else getcwd_loop cwd (2 * n))"
  by pat_completeness auto
termination by (relation "measure (\<lambda>(cwd, n). Suc (length cwd) - n)") auto

declare getcwd_loop.simps [simp del]

definition current_directory :: "string result \<Rightarrow> string result" where
  "current_directory cwd = bind cwd (\<lambda>path. if length path < 4096 then return path else getcwd_loop path (2 * 4096))"

lemma getcwd_loop_path: "0 < n \<Longrightarrow> n < 2 ^ 63 \<Longrightarrow> length cwd < 2 ^ 62 \<Longrightarrow> getcwd_loop cwd n = Inr cwd"
proof (induction cwd n rule: getcwd_loop.induct)
  case (1 cwd n)
  then show ?case by (subst getcwd_loop.simps) auto
qed

lemma current_directory_path: "length path < 2 ^ 62 \<Longrightarrow> current_directory (Inr path) = Inr path"
  by (simp add: current_directory_def getcwd_loop_path)

definition home_directory :: "string option \<Rightarrow> (string \<Rightarrow> bool) \<Rightarrow> string result" where
  "home_directory home is_dir =
     (case home of
        Some h \<Rightarrow> if is_dir h then return h else throw (Runtime_error ''could not determine HOME directory'')
      | None \<Rightarrow> throw (Runtime_error ''could not determine HOME directory''))"

definition temporary_directory_path :: "string option \<Rightarrow> (string \<Rightarrow> bool) \<Rightarrow> (string \<Rightarrow> bool) \<Rightarrow> string" where
  "temporary_directory_path tmpdir is_dir accessible =
     (case tmpdir of
        Some t \<Rightarrow> if is_dir t \<and> accessible t then t else ''/tmp''
      | None \<Rightarrow> ''/tmp'')"

text \<open>The template for \<open>mkdtemp\<close>, and a path in a temporary directory.\<close>

definition temporary_template :: "string \<Rightarrow> string" where
  "temporary_template prefix = prefix @ ''XXXXXX''"

definition temporary_path :: "string \<Rightarrow> string \<Rightarrow> string" where
  "temporary_path root nm = root @ ''/'' @ nm"

text \<open>\<open>dir_handle::readdir\<close> skips the directory and its parent.\<close>

fun dir_readdir :: "string list \<Rightarrow> (string \<times> string list) option" where
  "dir_readdir [] = None"
| "dir_readdir (nm # nms) = (if dots nm then dir_readdir nms else Some (nm, nms))"

end
