(* ===== verification/Spec2Isabelle.thy ===== *)
theory Spec2Isabelle
  imports Base16 Strings Endian Utf8 Stringref PgText Extract Java_class Cpio Ordmap Queue
    Package_set Elf_closure Expat Minidom Maven_url Hash Repomd Primary Primary_xml File_cache Source
    Python_analyzer Downloader Download_repo Elf_image Rpm_parser Pg_query Database Rpm_load Rpm_transaction
    Byte_source Url_source Download_source Gunzip Expire Os
begin

text \<open>
  Verification library for symboldb, a program that loads RPM packages into a PostgreSQL database
  and answers questions about the ELF symbols, Java classes, Python modules and XML files in them.
  The C++ code has two layers: \<open>cxxll\<close>, a library of data formats, containers and wrappers of the
  operating system and of C libraries (\<open>src/lib/cxxll\<close>, \<open>src/include/cxxll\<close>), and \<open>symboldb\<close>, the
  program proper (\<open>src/lib/symboldb\<close>, \<open>src/include/symboldb\<close>).

  \<^bold>\<open>How the parts interact.\<close> A repository is read by downloading its index (\<open>repomd.cpp\<close>), then the
  list of its packages (\<open>repomd_primary_xml.cpp\<close>, \<open>repomd_primary.cpp\<close>), both XML documents read
  through \<open>expat_source.cpp\<close> and \<open>expat_minidom.cpp\<close>. The newest package for each name and
  architecture is chosen (\<open>package_set_consolidator.hpp\<close>), downloaded into a cache of files named by
  their digests (\<open>file_cache.cpp\<close>, \<open>checksum.cpp\<close>, \<open>hash.cpp\<close>) and passed through a bounded queue
  (\<open>bounded_ordered_queue.hpp\<close>) to the loader. Documents are downloaded with libcurl (\<open>url_source.cpp\<close>), through
  a cache in the database (\<open>download_source.cpp\<close>), and decompressed (\<open>gunzip_source.cpp\<close>). The loader (\<open>rpm_load.cpp\<close>)
  opens a transaction, reads the header and the cpio archive of the package (\<open>rpm_parser.cpp\<close>,
  \<open>cpio_reader.cpp\<close>), analyses the files (ELF images in \<open>elf_image.cpp\<close>, Java classes in \<open>java_class.cpp\<close> and
  \<open>zip_file.cpp\<close>, Python in \<open>python_analyzer.cpp\<close>, Maven projects in \<open>maven_url.cpp\<close>), stores the results
  (\<open>database.cpp\<close> on top of \<open>pg_query.hpp\<close>, \<open>pg_private.cpp\<close>), checks the digests and commits. At the end the members
  of a package set are replaced (\<open>database.cpp\<close>), its ELF dependency closure is computed
  (\<open>update_elf_closure.cpp\<close>), and what is no longer used is deleted (\<open>expire.cpp\<close>).

  \<^bold>\<open>Conventions\<close> (\<open>Prelude\<close>). Machine integers are words of their width. Fallible code returns
  \<open>exn + 'a\<close>, with one constructor of \<open>exn\<close> per exception class; code that would read outside an
  object returns \<open>Undefined_behaviour\<close>, failed assertions \<open>Assertion_failure\<close>. \<open>bind\<close> sequences such
  results. Loops over a source of events need not end: they are partial functions into
  \<open>'a result option\<close> with \<open>None\<close> for a loop that never returns (\<open>andthen\<close> sequences them), and
  the theorems about them say that they do return on well-formed input. There is no fuel. Code of
  other libraries is an argument, with what its documentation promises as a named hypothesis
  (\<open>version_order\<close> for \<open>rpmvercmp\<close>, \<open>nss_digests\<close> for NSS, \<open>nul_free_chunk\<close> for Expat, \<open>symbols_in_data\<close> and \<open>versions_ok\<close> for libelf,
  \<open>zlib_inflates\<close> for zlib, \<open>delivers\<close> for libcurl, \<open>member_table\<close> and \<open>url_table\<close> for the tables of the server).

  \<^bold>\<open>Theories and sources.\<close>
  \<^item> \<open>Base16\<close>: \<open>base16.hpp\<close>, both decoders and the encoder; round trip, and which text is refused
    where.
  \<^item> \<open>Strings\<close>: \<open>string_support.cpp\<close>, \<open>string_support.hpp\<close>, \<open>url.cpp\<close>, \<open>looks_like_xml.hpp\<close>; quoting can be
    undone, \<open>strip\<close>, decimal numbers, joining of URLs.
  \<^item> \<open>Endian\<close>: \<open>endian.hpp\<close>; the stored bytes do not depend on the byte order of the machine.
  \<^item> \<open>Utf8\<close>: \<open>utf8.cpp\<close>; the validator accepts exactly the UTF-8 encodings, and Latin-1 conversion
    yields valid text.
  \<^item> \<open>Stringref\<close>: \<open>const_stringref.hpp\<close> over a flat memory; order, slices, searching.
  \<^item> \<open>PgText\<close>: \<open>pg_split_statement.cpp\<close> refines a splitter on text; \<open>pg_encode_array.cpp\<close> round trip.
  \<^item> \<open>Extract\<close>, \<open>Java_class\<close>, \<open>Cpio\<close>: readers of binary formats with explicit cursors; values, bounds,
    errors, and a round trip for class files. \<open>Cpio\<close> has one locale for the two number formats.
  \<^item> \<open>Ordmap\<close>: \<open>std::set\<close>, \<open>std::map\<close> and \<open>std::multimap\<close> as sorted lists, with the laws of an ordered map
    as a locale.
  \<^item> \<open>Queue\<close>: \<open>bounded_ordered_queue.hpp\<close>, the member functions as atomic sections and the threads as a
    step relation; capacity, stability, no lost wakeups.
  \<^item> \<open>Package_set\<close>: \<open>rpm_evr.cpp\<close>, \<open>package_set_consolidator.hpp\<close>, \<open>rpm_package_info.cpp\<close>,
    \<open>rpm_file_info.cpp\<close>; the newest package wins.
  \<^item> \<open>Elf_closure\<close>: \<open>update_elf_closure.cpp\<close>; the loop ends and computes the transitive closure, and
    names resolve to the best provider.
  \<^item> \<open>Expat\<close>: \<open>expat_source.cpp\<close>. The callbacks of Expat fill a buffer of encoded events, \<open>next\<close>
    decodes them. The buffer refines a sequence of events, whatever the sizes of the reads; \<open>skip\<close>,
    \<open>unnest\<close> and \<open>text_and_next\<close> end and stop where they should inside a well-formed element.
  \<^item> \<open>Minidom\<close>, \<open>Maven_url\<close>, \<open>Repomd\<close>, \<open>Primary\<close>, \<open>Primary_xml\<close>: the readers on top of it, proved against
    functions on trees of elements. \<open>Primary\<close> has a locale for loops over the content of an
    element, interpreted for both of its loops.
  \<^item> \<open>Source\<close>, \<open>Python_analyzer\<close>: \<open>source.cpp\<close>, \<open>fd_source.cpp\<close>, \<open>python_analyzer.cpp\<close>; the protocol with the helper
    processes is read back over short reads, and which version of Python decides.
  \<^item> \<open>Downloader\<close>, \<open>Download_repo\<close>: \<open>download_repo.cpp\<close>, with the tasks as a step relation around the queue
    of \<open>Queue\<close> and the cache of \<open>File_cache\<close>: no deadlock, every round ends, no URL is lost, only verified
    files reach the loader; and the composition of index, package list and consolidator into the
    list of packages to download.
  \<^item> \<open>Hash\<close>, \<open>File_cache\<close>: digests, checksums and the cache over a directory and the outcomes of the
    system calls; no failure leaves a file under a name that is not its digest.

  \<^item> \<open>Elf_image\<close>: \<open>elf_image.cpp\<close> with libelf as a parameter; the symbols of all tables are delivered, and the loops over
    version records end when the records link forward.
  \<^item> \<open>Rpm_parser\<close>: \<open>rpm_parser.cpp\<close> with librpm as a parameter; every file of the header is reported exactly once,
    and an archive is read back.
  \<^item> \<open>Pg_query\<close>, \<open>Database\<close>: statements with encoded parameters and decoded results over a server that is a
    parameter, and the operations of \<open>database.cpp\<close> on top of it; values survive the way to the server
    and back, and a package set gets exactly the members it is given.
  \<^item> \<open>Rpm_load\<close>, \<open>Rpm_transaction\<close>: \<open>rpm_load.cpp\<close> as a whole; the transaction is committed exactly when the load
    returns, and then the digests of the package and of its files have been verified.
  \<^item> \<open>Byte_source\<close>, \<open>Url_source\<close>, \<open>Download_source\<close>, \<open>Gunzip\<close>: the interface \<open>source\<close> as a locale with its copy loop, interpreted for
    vectors, descriptors, libcurl transfers, downloads through the cache and decompression; data
    arrives complete and in order, and the cache returns what was downloaded.
  \<^item> \<open>Expire\<close>: \<open>expire.cpp\<close>; exactly the files that no package set refers to are deleted.
  \<^item> \<open>Os\<close>: \<open>lib/cxxll/os\<close>; removing a directory tree ends and is complete, and a directory is made with its parents.

  \<^bold>\<open>Models that differ in form.\<close> \<open>Minidom\<close> links children when they are closed. \<open>Expat\<close> counts nested
  elements in \<open>skip\<close> with a natural number, the code with an \<open>unsigned\<close>: they agree below \<open>2^32\<close>
  open elements. Records passed by reference are returned; where the caller looks at them after an
  exception (the URLs of a Maven project, the directory of the cache) they are returned beside the
  exception.

  \<^bold>\<open>Not modelled.\<close> What the server does with SQL beyond the tables named above, starting of test servers
  (\<open>pg_testdb.cpp\<close>), constructors and destructors that only own handles, processes and threads
  (\<open>subprocess.cpp\<close>, \<open>task.cpp\<close>), and messages. The command line tools (\<open>symboldb.cpp\<close>, \<open>tosrpm.cpp\<close>, \<open>options.cpp\<close>,
  \<open>get_file.cpp\<close>, \<open>show_source_packages.cpp\<close>) parse options and call the operations modelled here. The ASDL
  tools are not linked into the program.
\<close>

end
